(* ===== verification/Prelude.thy ===== *)
theory Prelude
  imports Main "HOL-Library.Word" "HOL-Library.Sublist" "HOL-Library.List_Lexorder" "HOL-Library.Char_ord"
begin

text \<open>
  Prelude of the protomesh development: the types every component shares (machine integers,
  Go errors, the three ways a Go function can end), Go maps and the order in which a
  \<^verbatim>\<open>range\<close> loop visits them, the string functions of Go's \<^verbatim>\<open>strings\<close> package that the
  sources call, and the generic lemmas on them.
\<close>

section \<open>Machine integers, bytes, errors\<close>

type_synonym int32 = "32 word"
type_synonym int64 = "64 word"
type_synonym uint64 = "64 word"
type_synonym bytes = "string"

text \<open>
  The gRPC status codes of \<^verbatim>\<open>google.golang.org/grpc/codes\<close> that the program uses.
\<close>

datatype code = Aborted | InvalidArgument | FailedPrecondition | NotFound | Unimplemented
  | Internal | DeadlineExceeded | OutOfRange | ResourceExhausted | Unavailable
  | AlreadyExists | Unauthenticated | DataLoss | PermissionDenied

text \<open>
  Go error values. \<open>ErrEOF\<close> is \<^verbatim>\<open>io.EOF\<close>, \<open>ErrNoRows\<close> is \<^verbatim>\<open>sql.ErrNoRows\<close>,
  \<open>ErrAbortHandler\<close> and \<open>ErrNotSupported\<close> are the sentinels of \<^verbatim>\<open>net/http\<close>,
  \<open>ErrStatus\<close> an error made by \<^verbatim>\<open>status.Error\<close>, \<open>ErrOther\<close> any other error with its
  text.
\<close>

datatype goerr = ErrEOF | ErrNoRows | ErrAbortHandler | ErrNotSupported | ErrCanceled
  | ErrUnknownConfigFormat | ErrStatus code string | ErrOther string

text \<open>
  How a Go function that works on a state \<open>'s\<close> and returns an \<^verbatim>\<open>error\<close> ends: it returns
  nil (\<open>Done\<close>), it returns an error and leaves the state it had reached (\<open>Fail\<close>), or
  it panics (\<open>Crash\<close>).
\<close>

datatype 's eff = Done 's | Fail goerr 's | Crash string

fun and_then :: "'s eff \<Rightarrow> ('s \<Rightarrow> 's eff) \<Rightarrow> 's eff" where
  "and_then (Done s) f = f s"
| "and_then (Fail e s) f = Fail e s"
| "and_then (Crash p) f = Crash p"

text \<open>A \<^verbatim>\<open>for\<close> loop whose body may return from the enclosing function.\<close>

fun for_each :: "('s \<Rightarrow> 'a \<Rightarrow> 's eff) \<Rightarrow> 'a list \<Rightarrow> 's \<Rightarrow> 's eff" where
  "for_each f [] s = Done s"
| "for_each f (x # xs) s = and_then (f s x) (for_each f xs)"

text \<open>The value of a Go expression that may panic.\<close>

datatype 'a val = Ret 'a | Panics string

fun val_then :: "'a val \<Rightarrow> ('a \<Rightarrow> 'b val) \<Rightarrow> 'b val" where
  "val_then (Ret a) f = f a"
| "val_then (Panics p) f = Panics p"

text \<open>The same for an expression that may never return: \<open>None\<close>.\<close>

type_synonym 'a run_val = "'a val option"

fun run_then_val :: "'a run_val \<Rightarrow> ('a \<Rightarrow> 'b run_val) \<Rightarrow> 'b run_val" where
  "run_then_val None f = None"
| "run_then_val (Some (Ret a)) f = f a"
| "run_then_val (Some (Panics p)) f = Some (Panics p)"

text \<open>The facts that turn a result of a sequence into the results of its parts.\<close>

named_theorems return_iff

lemma val_then_Ret_iff [return_iff]: "val_then r f = Ret b \<longleftrightarrow> (\<exists>a. r = Ret a \<and> f a = Ret b)"
  by (cases r) auto

lemma run_then_val_Ret_iff [return_iff]:
  "run_then_val r f = Some (Ret b) \<longleftrightarrow> (\<exists>a. r = Some (Ret a) \<and> f a = Some (Ret b))"
  by (cases "(r, f)" rule: run_then_val.cases) auto

definition returns :: "'a run_val \<Rightarrow> bool" where
  "returns r \<longleftrightarrow> r \<noteq> None"

lemma returns_simps [simp]: "returns (Some v)" "\<not> returns None"
  by (simp_all add: returns_def)

lemma returns_run_then_val [intro!]:
  "returns r \<Longrightarrow> (\<And>a. r = Some (Ret a) \<Longrightarrow> returns (f a)) \<Longrightarrow> returns (run_then_val r f)"
  by (cases "(r, f)" rule: run_then_val.cases) auto

text \<open>A non-negative signed integer has the same value read unsigned.\<close>

lemma uint_eq_sint:
  fixes w :: int32
  assumes "0 \<le> sint w"
  shows "uint w = sint w"
  using assms sint_lt [of w] by (simp add: uint_sint take_bit_eq_mod)

section \<open>Invariants of effects\<close>

text \<open>The rules that push an invariant through the effects of a function.\<close>

named_theorems eff_intros

definition eff_inv :: "('s \<Rightarrow> bool) \<Rightarrow> 's eff \<Rightarrow> bool" where
  "eff_inv I r = (case r of Done s \<Rightarrow> I s | Fail e s \<Rightarrow> I s | Crash p \<Rightarrow> True)"

definition eff_safe :: "('s \<Rightarrow> bool) \<Rightarrow> 's eff \<Rightarrow> bool" where
  "eff_safe I r = (case r of Done s \<Rightarrow> I s | Fail e s \<Rightarrow> I s | Crash p \<Rightarrow> False)"

lemma eff_inv_simps [simp]:
  "eff_inv I (Done s) = I s" "eff_inv I (Fail e s) = I s" "eff_inv I (Crash p)"
  by (simp_all add: eff_inv_def)

lemma eff_safe_simps [simp]:
  "eff_safe I (Done s) = I s" "eff_safe I (Fail e s) = I s" "\<not> eff_safe I (Crash p)"
  by (simp_all add: eff_safe_def)

lemma and_then_Done_iff: "and_then r f = Done t \<longleftrightarrow> (\<exists>s. r = Done s \<and> f s = Done t)"
  by (cases r) auto

lemma eff_inv_and_then [eff_intros]:
  "eff_inv I r \<Longrightarrow> (\<And>s. I s \<Longrightarrow> eff_inv I (f s)) \<Longrightarrow> eff_inv I (and_then r f)"
  by (cases r) auto

lemma eff_safe_and_then [eff_intros]:
  "eff_safe I r \<Longrightarrow> (\<And>s. I s \<Longrightarrow> eff_safe I (f s)) \<Longrightarrow> eff_safe I (and_then r f)"
  by (cases r) auto

lemma eff_inv_for_each [eff_intros]:
  "I s \<Longrightarrow> (\<And>s x. I s \<Longrightarrow> x \<in> set xs \<Longrightarrow> eff_inv I (f s x)) \<Longrightarrow> eff_inv I (for_each f xs s)"
proof (induction xs arbitrary: s)
  case Nil
  then show ?case by simp
next
  case (Cons x xs)
  show ?case
    unfolding for_each.simps
  proof (rule eff_inv_and_then)
    show "eff_inv I (f s x)" by (rule Cons.prems(2)) (simp_all add: Cons.prems(1))
    show "eff_inv I (for_each f xs t)" if "I t" for t
      by (rule Cons.IH [OF that]) (simp add: Cons.prems(2))
  qed
qed

lemma eff_safe_for_each [eff_intros]:
  "I s \<Longrightarrow> (\<And>s x. I s \<Longrightarrow> x \<in> set xs \<Longrightarrow> eff_safe I (f s x)) \<Longrightarrow> eff_safe I (for_each f xs s)"
proof (induction xs arbitrary: s)
  case Nil
  then show ?case by simp
next
  case (Cons x xs)
  show ?case
    unfolding for_each.simps
  proof (rule eff_safe_and_then)
    show "eff_safe I (f s x)" by (rule Cons.prems(2)) (simp_all add: Cons.prems(1))
    show "eff_safe I (for_each f xs t)" if "I t" for t
      by (rule Cons.IH [OF that]) (simp add: Cons.prems(2))
  qed
qed

lemma for_each_append:
  "for_each f (xs @ ys) s = and_then (for_each f xs s) (for_each f ys)"
proof (induction xs arbitrary: s)
  case Nil
  then show ?case by simp
next
  case (Cons x xs)
  then show ?case by (cases "f s x") auto
qed

lemma for_each_Done:
  "(\<And>s x. x \<in> set xs \<Longrightarrow> f s x = Done (g x s)) \<Longrightarrow> for_each f xs s = Done (fold g xs s)"
  by (induction xs arbitrary: s) auto

section \<open>Lists\<close>

lemma find_SomeD: "find P xs = Some x \<Longrightarrow> x \<in> set xs \<and> P x"
  by (induction xs) (auto split: if_splits)

section \<open>Go maps and their iteration order\<close>

text \<open>
  A Go map is a partial function. A \<^verbatim>\<open>range\<close> loop over a map visits every key once, in an
  order the language leaves open: the order is a list that \<^emph>\<open>enumerates\<close> the map's keys, an
  argument of every definition with such a loop.
\<close>

definition enumerates :: "'k list \<Rightarrow> ('k \<rightharpoonup> 'v) \<Rightarrow> bool" where
  "enumerates ks m \<longleftrightarrow> distinct ks \<and> set ks = dom m"

lemma enumerates_dom: "enumerates ks m \<Longrightarrow> k \<in> set ks \<longleftrightarrow> m k \<noteq> None"
  by (auto simp: enumerates_def)

lemma enumerates_empty [simp]: "enumerates ks Map.empty \<longleftrightarrow> ks = []"
  by (auto simp: enumerates_def)

lemma enumerates_finite: "enumerates ks m \<Longrightarrow> finite (dom m)"
  by (metis enumerates_def finite_set)

lemma enumerates_exists: "finite (dom m) \<Longrightarrow> \<exists>ks. enumerates ks m"
  using finite_distinct_list [of "dom m"] by (auto simp: enumerates_def)

text \<open>One such order: by key, the one \<^verbatim>\<open>sort.Strings\<close> gives for string keys.\<close>

definition sorted_keys :: "('k :: linorder \<rightharpoonup> 'v) \<Rightarrow> 'k list" where
  "sorted_keys m = sorted_list_of_set (dom m)"

lemma sorted_keys_enumerates: "finite (dom m) \<Longrightarrow> enumerates (sorted_keys m) m"
  by (simp add: sorted_keys_def enumerates_def)

text \<open>Storing the entries of a map into another, in any order, is map addition.\<close>

lemma fold_upd_apply:
  "fold (\<lambda>k t. t(k \<mapsto> f k)) ks t k = (if k \<in> set ks then Some (f k) else t k)"
  by (induction ks arbitrary: t) simp_all

lemma fold_upd_enumerates:
  assumes "enumerates ks m"
  shows "fold (\<lambda>k t. t(k \<mapsto> the (m k))) ks t = t ++ m"
proof
  fix k
  show "fold (\<lambda>k t. t(k \<mapsto> the (m k))) ks t k = (t ++ m) k"
  proof (cases "m k")
    case None
    with assms have "k \<notin> set ks" by (simp add: enumerates_dom)
    with None show ?thesis by (simp add: fold_upd_apply map_add_def)
  next
    case (Some v)
    with assms have "k \<in> set ks" by (simp add: enumerates_dom)
    with Some show ?thesis by (simp add: fold_upd_apply map_add_def)
  qed
qed

lemma fold_del_apply:
  "fold (\<lambda>k t. t(k := None)) ks t k = (if k \<in> set ks then None else t k)"
  by (induction ks arbitrary: t) simp_all

lemma fold_del_eq: "fold (\<lambda>k t. t(k := None)) ks t = t |` (- set ks)"
  by (rule ext) (simp add: fold_del_apply restrict_map_def)

section \<open>Go strings\<close>

text \<open>
  A Go string is a sequence of bytes, a \<^typ>\<open>string\<close> of HOL. The functions below are the
  ones of the package \<^verbatim>\<open>strings\<close> that the sources call, at the arguments they call them
  with: a separator of one byte for \<^verbatim>\<open>Index\<close>, \<^verbatim>\<open>LastIndex\<close> and \<^verbatim>\<open>Split\<close>.
\<close>

fun index_byte :: "char \<Rightarrow> string \<Rightarrow> nat option" where
  "index_byte c [] = None"
| "index_byte c (x # xs) = (if x = c then Some 0 else map_option Suc (index_byte c xs))"

fun after_last :: "char \<Rightarrow> string \<Rightarrow> string option" where
  "after_last c [] = None"
| "after_last c (x # xs) =
     (case after_last c xs of Some r \<Rightarrow> Some r | None \<Rightarrow> if x = c then Some xs else None)"

fun split_on :: "char \<Rightarrow> string \<Rightarrow> string list" where
  "split_on c [] = [ [] ]"
| "split_on c (x # xs) =
     (if x = c then [] # split_on c xs
      else case split_on c xs of [] \<Rightarrow> [ [x] ] | p # ps \<Rightarrow> (x # p) # ps)"

fun join_with :: "string \<Rightarrow> string list \<Rightarrow> string" where
  "join_with sep [] = []"
| "join_with sep [x] = x"
| "join_with sep (x # y # ys) = x @ sep @ join_with sep (y # ys)"

definition contains_sub :: "string \<Rightarrow> string \<Rightarrow> bool" where
  "contains_sub s t \<longleftrightarrow> list_ex (prefix t) (suffixes s)"

text \<open>
  \<^verbatim>\<open>strings.ToLower\<close> on the ASCII letters. Other bytes are left alone, which cannot make
  a string equal to one of the ASCII words the sources compare the result with.
\<close>

definition lower_char :: "char \<Rightarrow> char" where
  "lower_char c = (if 65 \<le> (of_char c :: nat) \<and> (of_char c :: nat) \<le> 90
     then char_of ((of_char c :: nat) + 32) else c)"

definition to_lower :: "string \<Rightarrow> string" where
  "to_lower = map lower_char"

lemma index_byte_Some:
  "index_byte c s = Some i \<Longrightarrow> i < length s \<and> s ! i = c \<and> c \<notin> set (take i s)"
proof (induction s arbitrary: i)
  case Nil
  then show ?case by simp
next
  case (Cons x xs)
  then show ?case by (cases i) (auto split: if_splits)
qed

lemma index_byte_append: "c \<notin> set n \<Longrightarrow> index_byte c (n @ c # v) = Some (length n)"
  by (induction n) auto

lemma split_on_not_Nil [simp]: "split_on c s \<noteq> []"
  by (induction s) (auto split: list.splits)

lemma join_split: "join_with [c] (split_on c s) = s"
proof (induction s)
  case Nil
  then show ?case by simp
next
  case (Cons x xs)
  obtain p ps where ps: "split_on c xs = p # ps" by (cases "split_on c xs") auto
  with Cons show ?case by (cases ps) auto
qed

lemma split_on_no_sep: "p \<in> set (split_on c s) \<Longrightarrow> c \<notin> set p"
  by (induction s arbitrary: p) (fastforce split: if_splits list.splits)+

text \<open>\<^verbatim>\<open>%d\<close> of a natural number.\<close>

fun dec :: "nat \<Rightarrow> string" where
  "dec n = (if n < 10 then [char_of (48 + n)] else dec (n div 10) @ [char_of (48 + n mod 10)])"

declare dec.simps [simp del]

end
