(* ===== verification/Messages.thy ===== *)
theory Messages
  imports Prelude
begin

text \<open>
  The protobuf messages of \<^verbatim>\<open>proto/api\<close>: one record per message struct, one datatype per
  \<^verbatim>\<open>oneof\<close> interface, one constant per enum value. A pointer that the code may find nil (a
  message field, a \<^verbatim>\<open>oneof\<close> field) is an option. An enum is an open \<^verbatim>\<open>int32\<close>, as in Go.
  The bookkeeping fields of the runtime (\<^verbatim>\<open>state\<close>, \<^verbatim>\<open>sizeCache\<close>,
  \<^verbatim>\<open>unknownFields\<close>) are left out. The inner message of a set \<^verbatim>\<open>oneof\<close> and the elements
  of a repeated field are not nil, as in every message made by unmarshalling.
\<close>

section \<open>Well-known types\<close>

record any_msg =
  any_type_url :: string
  any_value :: bytes

text \<open>\<^verbatim>\<open>durationpb.Duration\<close> and a Go \<^verbatim>\<open>time.Time\<close> (seconds and nanoseconds).\<close>

record duration_msg =
  dur_seconds :: int64
  dur_nanos :: int32

record go_time =
  t_unix :: int64
  t_nsec :: int32

section \<open>Resources and versions\<close>

record version =
  v_sha256_hash :: string
  v_timestamp :: go_time
  v_index :: int64

record resource =
  r_namespace :: string
  r_id :: string
  r_name :: string
  r_spec :: "any_msg option"
  r_version :: "version option"

section \<open>The resource store service\<close>

record put_request =
  pr_resource :: "resource option"

record put_response =
  pr_version :: version

record drop_request =
  dr_resource_ids :: "string list"
  dr_namespace :: string

record get_request =
  gr_namespace :: string
  gr_resource_id :: string

record get_response =
  gr_resource :: resource

record watch_response =
  wr_updated :: "resource list"
  wr_dropped :: "resource list"
  wr_end_of_list :: bool

section \<open>Gateway policies\<close>

type_synonym HttpMethod = int32

definition HTTP_METHOD_UNDEFINED :: HttpMethod where "HTTP_METHOD_UNDEFINED = 0"
definition HTTP_METHOD_GET :: HttpMethod where "HTTP_METHOD_GET = 1"
definition HTTP_METHOD_HEAD :: HttpMethod where "HTTP_METHOD_HEAD = 2"
definition HTTP_METHOD_POST :: HttpMethod where "HTTP_METHOD_POST = 3"
definition HTTP_METHOD_PUT :: HttpMethod where "HTTP_METHOD_PUT = 4"
definition HTTP_METHOD_DELETE :: HttpMethod where "HTTP_METHOD_DELETE = 5"
definition HTTP_METHOD_CONNECT :: HttpMethod where "HTTP_METHOD_CONNECT = 6"
definition HTTP_METHOD_OPTIONS :: HttpMethod where "HTTP_METHOD_OPTIONS = 7"
definition HTTP_METHOD_TRACE :: HttpMethod where "HTTP_METHOD_TRACE = 8"
definition HTTP_METHOD_PATCH :: HttpMethod where "HTTP_METHOD_PATCH = 9"

lemmas http_method_defs =
  HTTP_METHOD_UNDEFINED_def HTTP_METHOD_GET_def HTTP_METHOD_HEAD_def HTTP_METHOD_POST_def
  HTTP_METHOD_PUT_def HTTP_METHOD_DELETE_def HTTP_METHOD_CONNECT_def HTTP_METHOD_OPTIONS_def
  HTTP_METHOD_TRACE_def HTTP_METHOD_PATCH_def

definition HttpMethod_name :: "int32 \<rightharpoonup> string" where
  "HttpMethod_name = map_of
     [(0, ''HTTP_METHOD_UNDEFINED''), (1, ''HTTP_METHOD_GET''), (2, ''HTTP_METHOD_HEAD''),
      (3, ''HTTP_METHOD_POST''), (4, ''HTTP_METHOD_PUT''), (5, ''HTTP_METHOD_DELETE''),
      (6, ''HTTP_METHOD_CONNECT''), (7, ''HTTP_METHOD_OPTIONS''), (8, ''HTTP_METHOD_TRACE''),
      (9, ''HTTP_METHOD_PATCH'')]"

definition HttpMethod_value :: "string \<rightharpoonup> int32" where
  "HttpMethod_value = map_of
     [(''HTTP_METHOD_UNDEFINED'', 0), (''HTTP_METHOD_GET'', 1), (''HTTP_METHOD_HEAD'', 2),
      (''HTTP_METHOD_POST'', 3), (''HTTP_METHOD_PUT'', 4), (''HTTP_METHOD_DELETE'', 5),
      (''HTTP_METHOD_CONNECT'', 6), (''HTTP_METHOD_OPTIONS'', 7), (''HTTP_METHOD_TRACE'', 8),
      (''HTTP_METHOD_PATCH'', 9)]"

text \<open>Indexing a Go map yields the zero value, the empty string, for a missing key.\<close>

definition method_name :: "HttpMethod \<Rightarrow> string" where
  "method_name m = (case HttpMethod_name m of Some s \<Rightarrow> s | None \<Rightarrow> [])"

record http_source =
  hs_method :: HttpMethod
  hs_path :: string
  hs_exact_path_match :: bool

record grpc_source =
  gs_method_name :: string
  gs_exact_method_name_match :: bool

datatype policy_source = GatewayPolicy_Http http_source | GatewayPolicy_Grpc grpc_source

record lambda_function =
  lf_function_name :: string
  lf_qualifier :: string

datatype aws_handler_oneof = AwsHandler_Lambda lambda_function

record aws_handler =
  ah_handler :: "aws_handler_oneof option"

datatype policy_handler_oneof = GatewayPolicy_Handler_Aws aws_handler

record policy_handler =
  ph_handler :: "policy_handler_oneof option"

record gateway_policy =
  gp_source :: "policy_source option"
  gp_handlers :: "policy_handler list"
  gp_signal_header_key :: string

section \<open>Processes and triggers\<close>

datatype trigger_id_suffix = Trigger_ExactIdSuffix string | Trigger_IdSuffixBuilder int32

definition ID_BUILDER_ONLY_PREFIX :: int32 where "ID_BUILDER_ONLY_PREFIX = 0"
definition ID_BUILDER_RANDOM :: int32 where "ID_BUILDER_RANDOM = 1"
definition ID_BUILDER_UNIQUE :: int32 where "ID_BUILDER_UNIQUE = 2"
definition IF_RUNNING_ABORT :: int32 where "IF_RUNNING_ABORT = 0"
definition IF_RUNNING_OVERLAP :: int32 where "IF_RUNNING_OVERLAP = 1"
definition ON_DROP_DO_NOTHING :: int32 where "ON_DROP_DO_NOTHING = 0"
definition ON_DROP_CANCEL :: int32 where "ON_DROP_CANCEL = 1"
definition ON_DROP_TERMINATE :: int32 where "ON_DROP_TERMINATE = 2"

lemmas trigger_enum_defs =
  ID_BUILDER_ONLY_PREFIX_def ID_BUILDER_RANDOM_def ID_BUILDER_UNIQUE_def IF_RUNNING_ABORT_def
  IF_RUNNING_OVERLAP_def ON_DROP_DO_NOTHING_def ON_DROP_CANCEL_def ON_DROP_TERMINATE_def

record trigger_retry_policy =
  rp_initial_interval :: "duration_msg option"
  rp_maximum_backoff :: "duration_msg option"
  rp_maximum_attempts :: int32
  rp_non_retryable_errors :: "string list"

text \<open>\<open>tr_if_running\<close> and \<open>tr_on_drop\<close>: a \<^verbatim>\<open>oneof\<close> with one case, its enum.\<close>

record trigger =
  tr_name :: string
  tr_task_queue :: string
  tr_id_prefix :: string
  tr_id_suffix :: "trigger_id_suffix option"
  tr_if_running :: "int32 option"
  tr_cron_schedule :: string
  tr_execution_timeout :: "duration_msg option"
  tr_run_timeout :: "duration_msg option"
  tr_task_timeout :: "duration_msg option"
  tr_json_arguments :: string
  tr_retry_policy :: "trigger_retry_policy option"
  tr_on_drop :: "int32 option"

datatype process_oneof = Process_Trigger trigger

record process =
  pc_process :: "process_oneof option"

definition GetTrigger :: "process option \<Rightarrow> trigger option" where
  "GetTrigger p = (case p of None \<Rightarrow> None
     | Some m \<Rightarrow> (case pc_process m of Some (Process_Trigger t) \<Rightarrow> Some t | None \<Rightarrow> None))"

section \<open>Networking nodes\<close>

record claim_to_header =
  cth_header_name :: string
  cth_claim_name :: string

record remote_jwks =
  rj_http_uri :: string
  rj_cluster_name :: string
  rj_timeout :: "duration_msg option"

record local_jwks =
  lj_inline_string :: string
  lj_filename :: string

record from_header =
  fh_header_name :: string
  fh_value_prefix :: string

record jwt_provider =
  jp_provider_name :: string
  jp_forward :: bool
  jp_issuer :: string
  jp_audiences :: "string list"
  jp_remote_jwks :: "remote_jwks option"
  jp_local_jwks :: "local_jwks option"
  jp_claim_to_headers :: "claim_to_header list"
  jp_from_headers :: "from_header list"

record jwt_rule =
  jr_match_prefix :: string
  jr_required_providers_names :: "string list"

text \<open>
  The cases of \<^verbatim>\<open>HttpFilter.filter\<close>: \<^verbatim>\<open>Cors\<close> and \<^verbatim>\<open>GrpcWeb\<close> carry their one field
  \<^verbatim>\<open>enable\<close>, \<^verbatim>\<open>HealthCheck\<close> its one field \<^verbatim>\<open>path\<close>, \<^verbatim>\<open>JwtAuthn\<close> its
  providers and rules.
\<close>

datatype http_filter =
    HttpFilter_Cors bool
  | HttpFilter_HealthCheck string
  | HttpFilter_GrpcWeb bool
  | HttpFilter_JwtAuthn "jwt_provider list" "jwt_rule list"

record http_ingress =
  hi_xds_cluster_name :: string
  hi_ingress_name :: string
  hi_listen_port :: int32
  hi_http_filters :: "http_filter option list"
  hi_access_log_stdout_format :: string

definition TRANSPORT_PROTOCOL_UDP :: int32 where "TRANSPORT_PROTOCOL_UDP = 2"

record instance_msg =
  in_hostname :: string
  in_transport_protocol :: int32
  in_address :: string
  in_port :: int32
  in_region :: string
  in_zone :: string

record instance_set =
  is_instances :: "instance_msg list"
  is_match_service_names :: "string list"

text \<open>The \<^verbatim>\<open>oneof\<close> of \<^verbatim>\<open>Service\<close>: HTTP/2 carries \<^verbatim>\<open>max_concurrent_streams\<close>.\<close>

datatype service_protocol = Service_InstanceHttp1Options | Service_InstanceHttp2Options int32

record service =
  sv_xds_cluster_name :: string
  sv_service_name :: string
  sv_connect_timeout :: "duration_msg option"
  sv_protocol_options :: "service_protocol option"
  sv_enable_tls_transport :: bool

record routing_route =
  rt_match_prefix :: string
  rt_target_service :: string
  rt_timeout :: "duration_msg option"
  rt_prefix_rewrite :: string

record routing_cors =
  rc_allow_origin_prefix :: "string list"
  rc_allow_methods :: "string list"
  rc_allow_headers :: "string list"
  rc_expose_headers :: "string list"
  rc_max_age :: "duration_msg option"

record routing_policy =
  rp_ingress_name :: string
  rp_routes :: "routing_route list"
  rp_cors :: "routing_cors option"
  rp_xds_cluster_name :: string
  rp_domain :: string

datatype networking_node =
    NetworkingNode_HttpIngress http_ingress
  | NetworkingNode_Service service
  | NetworkingNode_RoutingPolicy routing_policy
  | NetworkingNode_InstanceSet instance_set

text \<open>
  What \<^verbatim>\<open>Any.UnmarshalNew\<close> can return: a message of one of the types the components look
  for, or a message of another registered type. The unmarshalling itself is the protobuf
  runtime, a parameter of the components.
\<close>

datatype spec_message =
    Spec_GatewayPolicy gateway_policy
  | Spec_Process process
  | Spec_NetworkingNode "networking_node option"
  | Spec_Other string

section \<open>Enum tables\<close>

text \<open>The two tables of \<^verbatim>\<open>HttpMethod\<close> are inverse to each other.\<close>

lemma HttpMethod_value_name: "HttpMethod_name m = Some s \<longleftrightarrow> HttpMethod_value s = Some m"
  by (auto simp: HttpMethod_name_def HttpMethod_value_def split: if_splits)

lemma method_name_UNDEFINED [simp]: "method_name HTTP_METHOD_UNDEFINED = ''HTTP_METHOD_UNDEFINED''"
  by (simp add: method_name_def HttpMethod_name_def http_method_defs)

lemma dom_HttpMethod_name: "dom HttpMethod_name = {0, 1, 2, 3, 4, 5, 6, 7, 8, 9}"
  by (simp add: HttpMethod_name_def dom_map_of_conv_image_fst)

lemma method_name_inj:
  assumes "m \<in> dom HttpMethod_name" and "method_name m = method_name m'"
  shows "m = m'"
proof -
  from assms(1) obtain s where s: "HttpMethod_name m = Some s" by auto
  show ?thesis
  proof (cases "HttpMethod_name m'")
    case None
    with assms(2) s have "s = []" by (simp add: method_name_def)
    with s have "HttpMethod_value [] = Some m" by (simp add: HttpMethod_value_name)
    then show ?thesis by (simp add: HttpMethod_value_def)
  next
    case (Some s')
    with assms(2) s have "s' = s" by (simp add: method_name_def)
    with s Some show ?thesis by (simp add: HttpMethod_value_name)
  qed
qed

end
