(* ===== verification/Matcher.thy ===== *)
theory Matcher
  imports Messages
begin

text \<open>
  The route matcher of the gateway, \<^verbatim>\<open>pkg/gateway/matcher.go\<close> (and the two helpers of
  \<^verbatim>\<open>pkg/gateway/helpers.go\<close> it needs). Matchers are mutated through pointers held in radix
  trees, so they live in a heap of cells. The radix tree itself is a type of the module
  \<^verbatim>\<open>go-app\<close>, not in the repository: its five operations are the parameter \<open>R\<close> and the
  laws the code relies on are the locale \<open>radix_tree\<close>.
\<close>

section \<open>The radix tree the matcher uses\<close>

type_synonym addr = nat

record 't radix_ops =
  ro_new :: 't
  ro_insert :: "'t \<Rightarrow> string \<Rightarrow> addr \<Rightarrow> 't"
  ro_delete :: "'t \<Rightarrow> string \<Rightarrow> 't"
  ro_match :: "'t \<Rightarrow> string \<Rightarrow> addr option"
  ro_match_longest :: "'t \<Rightarrow> string \<Rightarrow> addr option"

text \<open>The entry of a table at the longest prefix of a key that has one.\<close>

definition longest_prefix :: "(string \<rightharpoonup> 'v) \<Rightarrow> string \<Rightarrow> 'v option" where
  "longest_prefix f k = Option.bind (find (\<lambda>p. f p \<noteq> None) (rev (prefixes k))) f"

locale radix_tree =
  fixes R :: "'t radix_ops"
  assumes match_new: "ro_match R (ro_new R) k = None"
    and match_insert: "ro_match R (ro_insert R t k a) = (ro_match R t)(k \<mapsto> a)"
    and match_delete: "ro_match R (ro_delete R t k) = (ro_match R t)(k := None)"
    and match_longest: "ro_match_longest R t k = longest_prefix (ro_match R t) k"

section \<open>Policy matchers\<close>

record 't policyMatcher =
  pm_policy :: "gateway_policy option"
  pm_exact :: bool
  pm_tree :: "'t option"

record 't heap =
  h_cells :: "addr \<rightharpoonup> 't policyMatcher"
  h_next :: addr

definition alloc :: "'t heap \<Rightarrow> 't policyMatcher \<Rightarrow> addr \<times> 't heap" where
  "alloc h c = (h_next h, h\<lparr>h_cells := (h_cells h)(h_next h \<mapsto> c), h_next := Suc (h_next h)\<rparr>)"

definition put_cell :: "'t heap \<Rightarrow> addr \<Rightarrow> 't policyMatcher \<Rightarrow> 't heap" where
  "put_cell h a c = h\<lparr>h_cells := (h_cells h)(a \<mapsto> c)\<rparr>"

definition newPolicyMatcher :: "'t radix_ops \<Rightarrow> bool \<Rightarrow> 't policyMatcher" where
  "newPolicyMatcher R exact = \<lparr>pm_policy = None, pm_exact = exact, pm_tree = Some (ro_new R)\<rparr>"

text \<open>The literal \<^verbatim>\<open>&policyMatcher{policy: policy}\<close>: its tree is nil.\<close>

definition leaf_matcher :: "gateway_policy \<Rightarrow> 't policyMatcher" where
  "leaf_matcher p = \<lparr>pm_policy = Some p, pm_exact = False, pm_tree = None\<rparr>"

text \<open>The dynamic types of the argument \<^verbatim>\<open>source any\<close>.\<close>

datatype any_source = SrcGrpc grpc_source | SrcHttp http_source | SrcMethod HttpMethod

definition getPolicySource :: "gateway_policy \<Rightarrow> (any_source \<times> bool) val" where
  "getPolicySource p = (case gp_source p of
      Some (GatewayPolicy_Grpc s) \<Rightarrow> Ret (SrcGrpc s, gs_exact_method_name_match s)
    | Some (GatewayPolicy_Http s) \<Rightarrow> Ret (SrcHttp s, hs_exact_path_match s)
    | None \<Rightarrow> Panics ''unreachable'')"

text \<open>Dereferencing a matcher and its tree; a nil tree panics at its first method call.\<close>

definition with_matcher ::
    "'t heap \<Rightarrow> addr \<Rightarrow> ('t policyMatcher \<Rightarrow> 'a val) \<Rightarrow> 'a val" where
  "with_matcher h m f =
     (case h_cells h m of None \<Rightarrow> Panics ''nil pointer dereference'' | Some c \<Rightarrow> f c)"

definition with_tree :: "'t policyMatcher \<Rightarrow> ('t \<Rightarrow> 'a val) \<Rightarrow> 'a val" where
  "with_tree c f =
     (case pm_tree c of None \<Rightarrow> Panics ''nil pointer dereference'' | Some t \<Rightarrow> f t)"

function pm_insert ::
    "'t radix_ops \<Rightarrow> gateway_policy \<Rightarrow> any_source \<Rightarrow> addr \<Rightarrow> 't heap \<Rightarrow> 't heap val" where
  "pm_insert R policy (SrcGrpc s) m h =
     with_matcher h m (\<lambda>c. with_tree c (\<lambda>t.
       let (a, h1) = alloc h (leaf_matcher policy)
       in Ret (put_cell h1 m (c\<lparr>pm_tree := Some (ro_insert R t (gs_method_name s) a)\<rparr>))))"
| "pm_insert R policy (SrcHttp s) m h =
     with_matcher h m (\<lambda>c. with_tree c (\<lambda>t.
       case ro_match R t (hs_path s) of
         Some nested \<Rightarrow> pm_insert R policy (SrcMethod (hs_method s)) nested h
       | None \<Rightarrow>
           let (nested, h1) = alloc h (newPolicyMatcher R True);
               h2 = put_cell h1 m (c\<lparr>pm_tree := Some (ro_insert R t (hs_path s) nested)\<rparr>)
           in pm_insert R policy (SrcMethod (hs_method s)) nested h2))"
| "pm_insert R policy (SrcMethod mm) m h =
     with_matcher h m (\<lambda>c.
       if mm = HTTP_METHOD_UNDEFINED then Ret (put_cell h m (c\<lparr>pm_policy := Some policy\<rparr>))
       else with_tree c (\<lambda>t.
         let (a, h1) = alloc h (leaf_matcher policy)
         in Ret (put_cell h1 m (c\<lparr>pm_tree := Some (ro_insert R t (method_name mm) a)\<rparr>))))"
  by pat_completeness auto
termination
  by (relation "measure (\<lambda>(R, p, s, m, h). case s of SrcHttp _ \<Rightarrow> 1 | _ \<Rightarrow> 0)") auto

function pm_drop ::
    "'t radix_ops \<Rightarrow> any_source \<Rightarrow> addr \<Rightarrow> 't heap \<Rightarrow> 't heap val" where
  "pm_drop R (SrcGrpc s) m h =
     with_matcher h m (\<lambda>c. with_tree c (\<lambda>t.
       case ro_match R t (gs_method_name s) of
         Some nested \<Rightarrow>
           Ret (put_cell h m (c\<lparr>pm_tree := Some (ro_delete R t (gs_method_name s))\<rparr>))
       | None \<Rightarrow> Ret h))"
| "pm_drop R (SrcHttp s) m h =
     with_matcher h m (\<lambda>c. with_tree c (\<lambda>t.
       case ro_match R t (hs_path s) of
         Some nested \<Rightarrow> pm_drop R (SrcMethod (hs_method s)) nested h
       | None \<Rightarrow> Ret h))"
| "pm_drop R (SrcMethod mm) m h =
     with_matcher h m (\<lambda>c.
       if mm = HTTP_METHOD_UNDEFINED then Ret (put_cell h m (c\<lparr>pm_policy := None\<rparr>))
       else with_tree c (\<lambda>t.
         Ret (put_cell h m (c\<lparr>pm_tree := Some (ro_delete R t (method_name mm))\<rparr>))))"
  by pat_completeness auto
termination
  by (relation "measure (\<lambda>(R, s, m, h). case s of SrcHttp _ \<Rightarrow> 1 | _ \<Rightarrow> 0)") auto

fun pm_match ::
    "'t radix_ops \<Rightarrow> 't heap \<Rightarrow> addr \<Rightarrow> string list \<Rightarrow> gateway_policy option val" where
  "pm_match R h m [] = Panics ''index out of range''"
| "pm_match R h m (key # keys) =
     with_matcher h m (\<lambda>c. with_tree c (\<lambda>t.
       case (if pm_exact c then ro_match R t key else ro_match_longest R t key) of
         None \<Rightarrow> Ret (if HttpMethod_value key \<noteq> None then pm_policy c else None)
       | Some nested \<Rightarrow>
           if keys = [] then with_matcher h nested (\<lambda>n. Ret (pm_policy n))
           else pm_match R h nested keys))"

section \<open>Source matchers\<close>

text \<open>
  A source matcher owns its two matchers and every matcher they make, so its heap is part of
  it. The read-write lock serialises the operations, which are therefore atomic steps here.
\<close>

record 't sourceMatcher =
  sm_heap :: "'t heap"
  sm_exact :: addr
  sm_prefix :: addr

definition newSourceMatcher :: "'t radix_ops \<Rightarrow> 't sourceMatcher" where
  "newSourceMatcher R =
     (let (e, h1) = alloc \<lparr>h_cells = Map.empty, h_next = 0\<rparr> (newPolicyMatcher R True);
          (p, h2) = alloc h1 (newPolicyMatcher R False)
      in \<lparr>sm_heap = h2, sm_exact = e, sm_prefix = p\<rparr>)"

definition set_heap :: "'t sourceMatcher \<Rightarrow> 't heap val \<Rightarrow> 't sourceMatcher val" where
  "set_heap sm r = (case r of Ret h \<Rightarrow> Ret (sm\<lparr>sm_heap := h\<rparr>) | Panics e \<Rightarrow> Panics e)"

definition addPolicy ::
    "'t radix_ops \<Rightarrow> gateway_policy \<Rightarrow> 't sourceMatcher \<Rightarrow> 't sourceMatcher val" where
  "addPolicy R policy sm = (case getPolicySource policy of
      Panics e \<Rightarrow> Panics e
    | Ret (source, exact) \<Rightarrow>
        if exact then set_heap sm (pm_insert R policy source (sm_exact sm) (sm_heap sm))
        else set_heap sm (pm_insert R policy source (sm_prefix sm) (sm_heap sm)))"

definition dropPolicy ::
    "'t radix_ops \<Rightarrow> gateway_policy \<Rightarrow> 't sourceMatcher \<Rightarrow> 't sourceMatcher val" where
  "dropPolicy R policy sm = (case getPolicySource policy of
      Panics e \<Rightarrow> Panics e
    | Ret (source, exact) \<Rightarrow>
        if exact then set_heap sm (pm_drop R source (sm_exact sm) (sm_heap sm))
        else set_heap sm (pm_drop R source (sm_prefix sm) (sm_heap sm)))"

definition matchPolicy ::
    "'t radix_ops \<Rightarrow> 't sourceMatcher \<Rightarrow> string list \<Rightarrow> gateway_policy option val" where
  "matchPolicy R sm keys = (case pm_match R (sm_heap sm) (sm_exact sm) keys of
      Panics e \<Rightarrow> Panics e
    | Ret (Some policy) \<Rightarrow> Ret (Some policy)
    | Ret None \<Rightarrow>
        (case pm_match R (sm_heap sm) (sm_prefix sm) keys of
           Panics e \<Rightarrow> Panics e
         | Ret (Some policy) \<Rightarrow> Ret (Some policy)
         | Ret None \<Rightarrow> Ret None))"

end
