(* ===== verification/Routes.thy ===== *)
theory Routes
  imports Matcher
begin

text \<open>
  What the route matcher promises, and the proof that \<^verbatim>\<open>matcher.go\<close> keeps it: tables from
  method names (gRPC) or paths and HTTP methods to policies, the operations on them, and a
  refinement relation between a heap of matchers and its tables.
\<close>

section \<open>Route tables\<close>

type_synonym grpc_table = "string \<rightharpoonup> gateway_policy"

text \<open>
  The entry of a path: the policy for any method, if one is set, and the policies by method
  name.
\<close>

type_synonym http_entry = "gateway_policy option \<times> (string \<rightharpoonup> gateway_policy)"
type_synonym http_table = "string \<rightharpoonup> http_entry"

definition pick :: "bool \<Rightarrow> (string \<rightharpoonup> 'v) \<Rightarrow> string \<Rightarrow> 'v option" where
  "pick exact T k = (if exact then T k else longest_prefix T k)"

definition http_put :: "http_table \<Rightarrow> http_source \<Rightarrow> gateway_policy \<Rightarrow> http_table" where
  "http_put T s p =
     (let (d, M) = (case T (hs_path s) of None \<Rightarrow> (None, Map.empty) | Some e \<Rightarrow> e)
      in T(hs_path s \<mapsto> (if hs_method s = HTTP_METHOD_UNDEFINED then (Some p, M)
                          else (d, M(method_name (hs_method s) \<mapsto> p)))))"

definition http_del :: "http_table \<Rightarrow> http_source \<Rightarrow> http_table" where
  "http_del T s = (case T (hs_path s) of None \<Rightarrow> T
     | Some (d, M) \<Rightarrow>
         T(hs_path s \<mapsto> (if hs_method s = HTTP_METHOD_UNDEFINED then (None, M)
                          else (d, M(method_name (hs_method s) := None)))))"

definition entry_lookup :: "http_entry \<Rightarrow> string \<Rightarrow> gateway_policy option" where
  "entry_lookup e name = (case snd e name of Some p \<Rightarrow> Some p
     | None \<Rightarrow> if HttpMethod_value name \<noteq> None then fst e else None)"

definition http_lookup :: "bool \<Rightarrow> http_table \<Rightarrow> string \<Rightarrow> string \<Rightarrow> gateway_policy option" where
  "http_lookup exact T path name =
     (case pick exact T path of None \<Rightarrow> None | Some e \<Rightarrow> entry_lookup e name)"

text \<open>Exact routes come before prefix routes.\<close>

definition or_else :: "'a option \<Rightarrow> 'a option \<Rightarrow> 'a option" where
  "or_else a b = (case a of Some x \<Rightarrow> Some x | None \<Rightarrow> b)"

lemma or_else_simps [simp]: "or_else (Some x) b = Some x" "or_else None b = b"
  by (simp_all add: or_else_def)

lemma longest_prefix_Some:
  assumes "longest_prefix f k = Some a"
  shows "\<exists>p. find (\<lambda>p. f p \<noteq> None) (rev (prefixes k)) = Some p \<and> prefix p k \<and> f p = Some a"
proof -
  from assms obtain p where p: "find (\<lambda>p. f p \<noteq> None) (rev (prefixes k)) = Some p" "f p = Some a"
    unfolding longest_prefix_def bind_eq_Some_conv by blast
  with find_SomeD [OF p(1)] show ?thesis by auto
qed

lemma longest_prefix_None: "longest_prefix f k = None \<longleftrightarrow> (\<forall>p. prefix p k \<longrightarrow> f p = None)"
proof (cases "find (\<lambda>p. f p \<noteq> None) (rev (prefixes k))")
  case None
  then have "\<forall>p. prefix p k \<longrightarrow> f p = None" unfolding find_None_iff by simp
  with None show ?thesis by (simp only: longest_prefix_def) simp
next
  case (Some p)
  with find_SomeD [OF Some] show ?thesis by (simp only: longest_prefix_def) auto
qed

text \<open>Two tables with the same keys pick the same key.\<close>

lemma longest_prefix_same_dom:
  assumes "\<And>k. T k \<noteq> None \<longleftrightarrow> f k \<noteq> None" and "longest_prefix f k = Some a"
  shows "\<exists>p. prefix p k \<and> f p = Some a \<and> longest_prefix T k = T p"
proof -
  obtain p where p: "find (\<lambda>p. f p \<noteq> None) (rev (prefixes k)) = Some p" "prefix p k" "f p = Some a"
    using longest_prefix_Some [OF assms(2)] by blast
  have "(\<lambda>p. T p \<noteq> None) = (\<lambda>p. f p \<noteq> None)" using assms(1) by auto
  then have "longest_prefix T k = T p" using p(1) unfolding longest_prefix_def by simp
  with p show ?thesis by blast
qed

lemma pick_None: "pick ex T k = None \<longleftrightarrow> (if ex then T k = None else \<forall>p. prefix p k \<longrightarrow> T p = None)"
  by (simp add: pick_def longest_prefix_None)

lemma pick_same_dom:
  assumes "\<And>k. T k \<noteq> None \<longleftrightarrow> f k \<noteq> None" and "pick ex f k = Some a"
  shows "\<exists>k'. f k' = Some a \<and> pick ex T k = T k'"
  using assms(2) longest_prefix_same_dom [of T f k a, OF assms(1)]
  by (cases ex) (auto simp: pick_def)

lemma pick_None_same_dom:
  assumes "\<And>k. T k \<noteq> None \<longleftrightarrow> f k \<noteq> None"
  shows "pick ex T k = None \<longleftrightarrow> pick ex f k = None"
proof -
  have "T k = None \<longleftrightarrow> f k = None" for k using assms by blast
  then show ?thesis by (simp add: pick_None)
qed

lemma longest_prefix_self: "T k \<noteq> None \<Longrightarrow> longest_prefix T k = T k"
  by (cases k rule: rev_cases) (auto simp: longest_prefix_def)

section \<open>The refinement relation\<close>

definition heap_ok :: "'t heap \<Rightarrow> bool" where
  "heap_ok h \<longleftrightarrow> (\<forall>a \<ge> h_next h. h_cells h a = None)"

text \<open>
  \<open>node R h a exact d M\<close>: the cell \<open>a\<close> is a matcher with the policy \<open>d\<close> and a tree
  whose entries are leaf matchers holding the policies of \<open>M\<close>.
\<close>

definition leaf_at :: "'t heap \<Rightarrow> addr option \<Rightarrow> gateway_policy option \<Rightarrow> bool" where
  "leaf_at h x q = (case x of None \<Rightarrow> q = None
     | Some b \<Rightarrow> (\<exists>p. q = Some p \<and> h_cells h b = Some (leaf_matcher p)))"

definition node :: "'t radix_ops \<Rightarrow> 't heap \<Rightarrow> addr \<Rightarrow> bool \<Rightarrow> gateway_policy option \<Rightarrow>
    (string \<rightharpoonup> gateway_policy) \<Rightarrow> bool" where
  "node R h a exact d M \<longleftrightarrow>
     (\<exists>t. h_cells h a = Some \<lparr>pm_policy = d, pm_exact = exact, pm_tree = Some t\<rparr> \<and>
       (\<forall>k. leaf_at h (ro_match R t k) (M k)))"

text \<open>
  \<open>root R h a exact T A\<close>: the cell \<open>a\<close> is the matcher of a table of paths, and \<open>A\<close> are
  the cells of its paths, one for each path.
\<close>

definition entry_at :: "'t radix_ops \<Rightarrow> 't heap \<Rightarrow> addr option \<Rightarrow> http_entry option \<Rightarrow> bool" where
  "entry_at R h x q = (case x of None \<Rightarrow> q = None
     | Some b \<Rightarrow> (\<exists>d M. q = Some (d, M) \<and> node R h b True d M))"

definition vals :: "'t radix_ops \<Rightarrow> 't \<Rightarrow> addr set" where
  "vals R t = {b. \<exists>k. ro_match R t k = Some b}"

definition root_tree ::
    "'t radix_ops \<Rightarrow> 't heap \<Rightarrow> addr \<Rightarrow> bool \<Rightarrow> http_table \<Rightarrow> 't \<Rightarrow> bool" where
  "root_tree R h a exact T t \<longleftrightarrow>
     h_cells h a = Some \<lparr>pm_policy = None, pm_exact = exact, pm_tree = Some t\<rparr> \<and>
     a \<notin> vals R t \<and>
     (\<forall>k k' b. ro_match R t k = Some b \<longrightarrow> ro_match R t k' = Some b \<longrightarrow> k = k') \<and>
     (\<forall>k. entry_at R h (ro_match R t k) (T k))"

definition root :: "'t radix_ops \<Rightarrow> 't heap \<Rightarrow> addr \<Rightarrow> bool \<Rightarrow> http_table \<Rightarrow> addr set \<Rightarrow> bool" where
  "root R h a exact T A \<longleftrightarrow> (\<exists>t. root_tree R h a exact T t \<and> A = vals R t)"

text \<open>
  \<open>frame W h h'\<close>: a step from \<open>h\<close> to \<open>h'\<close> wrote no allocated cell outside \<open>W\<close>, and
  no leaf.
\<close>

definition frame :: "addr set \<Rightarrow> 't heap \<Rightarrow> 't heap \<Rightarrow> bool" where
  "frame W h h' \<longleftrightarrow>
     (\<forall>b c. h_cells h b = Some c \<longrightarrow> b \<notin> W \<or> pm_tree c = None \<longrightarrow> h_cells h' b = Some c)"

lemma frameD:
  "frame W h h' \<Longrightarrow> h_cells h b = Some c \<Longrightarrow> b \<notin> W \<or> pm_tree c = None \<Longrightarrow> h_cells h' b = Some c"
  by (simp add: frame_def)

lemma frame_refl [simp]: "frame W h h"
  by (simp add: frame_def)

lemma frame_trans: "frame W h h1 \<Longrightarrow> frame W h1 h2 \<Longrightarrow> frame W h h2"
  by (simp add: frame_def)

lemma frame_mono: "frame W h h' \<Longrightarrow> W \<subseteq> W' \<Longrightarrow> frame W' h h'"
  by (auto simp: frame_def)

lemma leaf_at_frame: "leaf_at h x q \<Longrightarrow> frame W h h' \<Longrightarrow> leaf_at h' x q"
  by (auto simp: leaf_at_def leaf_matcher_def dest: frameD split: option.splits)

lemma node_frame: "node R h a ex d M \<Longrightarrow> frame W h h' \<Longrightarrow> a \<notin> W \<Longrightarrow> node R h' a ex d M"
  unfolding node_def by (metis frameD leaf_at_frame)

lemma node_allocated: "node R h a ex d M \<Longrightarrow> h_cells h a \<noteq> None"
  by (auto simp: node_def)

lemma root_treeD:
  assumes "root_tree R h a ex T t"
  shows "h_cells h a = Some \<lparr>pm_policy = None, pm_exact = ex, pm_tree = Some t\<rparr>"
    and "a \<notin> vals R t"
    and "ro_match R t k = Some b \<Longrightarrow> ro_match R t k' = Some b \<Longrightarrow> k = k'"
    and "entry_at R h (ro_match R t k) (T k)"
  using assms unfolding root_tree_def by blast+

lemma valsI: "ro_match R t k = Some b \<Longrightarrow> b \<in> vals R t"
  by (auto simp: vals_def)

lemma entry_at_frame:
  "entry_at R h x q \<Longrightarrow> frame W h h' \<Longrightarrow> (\<And>b. x = Some b \<Longrightarrow> b \<notin> W) \<Longrightarrow> entry_at R h' x q"
  by (cases x) (auto simp: entry_at_def intro: node_frame)

lemma root_frame:
  assumes r: "root R h a ex T A" and f: "frame W h h'" and d: "a \<notin> W" "A \<inter> W = {}"
  shows "root R h' a ex T A"
proof -
  from r obtain t where t: "root_tree R h a ex T t" and A: "A = vals R t"
    by (auto simp: root_def)
  have "entry_at R h' (ro_match R t k) (T k)" for k
    using root_treeD(4) [OF t] f
  proof (rule entry_at_frame)
    show "b \<notin> W" if "ro_match R t k = Some b" for b
      using valsI [OF that] d(2) A by blast
  qed
  then have "root_tree R h' a ex T t"
    using t frameD [OF f, of a] d(1) by (simp add: root_tree_def)
  then show ?thesis using A by (auto simp: root_def)
qed

lemma root_tree_allocated:
  assumes "root_tree R h a ex T t" and "b \<in> vals R t" shows "h_cells h b \<noteq> None"
proof -
  from assms(2) obtain k where "ro_match R t k = Some b" by (auto simp: vals_def)
  moreover have "entry_at R h (ro_match R t k) (T k)" using assms(1) by (rule root_treeD(4))
  ultimately show ?thesis by (auto simp: entry_at_def dest: node_allocated)
qed

text \<open>A step inside the cell of one path changes the entry of that path only.\<close>

lemma root_tree_update:
  assumes r: "root_tree R h a ex T t" and b: "ro_match R t path = Some b"
    and f: "frame {b} h h'" and n: "node R h' b True d M"
  shows "root_tree R h' a ex (T(path \<mapsto> (d, M))) t"
proof -
  have "a \<noteq> b" using root_treeD(2) [OF r] valsI [OF b] by blast
  have "entry_at R h' (ro_match R t k) ((T(path \<mapsto> (d, M))) k)" for k
  proof (cases "k = path")
    case True
    with b n show ?thesis by (simp add: entry_at_def)
  next
    case False
    have "entry_at R h' (ro_match R t k) (T k)"
      using root_treeD(4) [OF r] f
    proof (rule entry_at_frame)
      show "x \<notin> {b}" if "ro_match R t k = Some x" for x
        using root_treeD(3) [OF r that, of path] b False by blast
    qed
    with False show ?thesis by simp
  qed
  then show ?thesis
    using r frameD [OF f, of a] \<open>a \<noteq> b\<close> by (simp add: root_tree_def)
qed

section \<open>The steps of a matcher refine the steps of its table\<close>

lemma leaf_at_upd:
  "(\<And>k. leaf_at h (f k) (M k)) \<Longrightarrow> frame W h h' \<Longrightarrow> h_cells h' b = Some (leaf_matcher p) \<Longrightarrow>
    leaf_at h' ((f(key \<mapsto> b)) k) ((M(key \<mapsto> p)) k)"
  using leaf_at_frame [of h "f k" "M k" W h'] by (simp add: leaf_at_def)

lemma leaf_at_del:
  "(\<And>k. leaf_at h (f k) (M k)) \<Longrightarrow> frame W h h' \<Longrightarrow>
    leaf_at h' ((f(key := None)) k) ((M(key := None)) k)"
  using leaf_at_frame [of h "f k" "M k" W h'] by (simp add: leaf_at_def)

text \<open>Adding a leaf under a key: the common end of three branches of \<^verbatim>\<open>insert\<close>.\<close>

definition add_leaf :: "'t radix_ops \<Rightarrow> gateway_policy \<Rightarrow> string \<Rightarrow> addr \<Rightarrow> 't heap \<Rightarrow> 't heap val" where
  "add_leaf R policy key m h = with_matcher h m (\<lambda>c. with_tree c (\<lambda>t.
       let (a, h1) = alloc h (leaf_matcher policy)
       in Ret (put_cell h1 m (c\<lparr>pm_tree := Some (ro_insert R t key a)\<rparr>))))"

definition del_leaf :: "'t radix_ops \<Rightarrow> string \<Rightarrow> addr \<Rightarrow> 't heap \<Rightarrow> 't heap val" where
  "del_leaf R key m h = with_matcher h m (\<lambda>c. with_tree c (\<lambda>t.
       Ret (put_cell h m (c\<lparr>pm_tree := Some (ro_delete R t key)\<rparr>))))"

definition set_policy :: "gateway_policy option \<Rightarrow> addr \<Rightarrow> 't heap \<Rightarrow> 't heap val" where
  "set_policy d m h = with_matcher h m (\<lambda>c. Ret (put_cell h m (c\<lparr>pm_policy := d\<rparr>)))"

lemma pm_insert_grpc: "pm_insert R p (SrcGrpc s) m h = add_leaf R p (gs_method_name s) m h"
  by (simp add: add_leaf_def)

lemma pm_insert_method:
  "pm_insert R p (SrcMethod mm) m h =
     (if mm = HTTP_METHOD_UNDEFINED then set_policy (Some p) m h
      else add_leaf R p (method_name mm) m h)"
  by (simp add: add_leaf_def set_policy_def)

lemma pm_drop_method:
  "pm_drop R (SrcMethod mm) m h =
     (if mm = HTTP_METHOD_UNDEFINED then set_policy None m h
      else del_leaf R (method_name mm) m h)"
  by (simp add: del_leaf_def set_policy_def)

lemmas heap_step_defs = alloc_def put_cell_def with_matcher_def with_tree_def Let_def

context radix_tree begin

lemma add_leaf_refines:
  assumes ok: "heap_ok h" and n: "node R h a ex d M"
  shows "\<exists>h'. add_leaf R p key a h = Ret h' \<and> heap_ok h' \<and> frame {a} h h' \<and>
    node R h' a ex d (M(key \<mapsto> p))"
proof -
  from n obtain t where c: "h_cells h a = Some \<lparr>pm_policy = d, pm_exact = ex, pm_tree = Some t\<rparr>"
    and L: "\<And>k. leaf_at h (ro_match R t k) (M k)"
    by (auto simp: node_def)
  define b where "b = h_next h"
  define c' where "c' = \<lparr>pm_policy = d, pm_exact = ex, pm_tree = Some (ro_insert R t key b)\<rparr>"
  define h' where "h' = h\<lparr>h_cells := (h_cells h)(b \<mapsto> leaf_matcher p, a \<mapsto> c'), h_next := Suc b\<rparr>"
  have fresh: "h_cells h b = None" and ab: "a < b" and lt: "\<And>x. h_cells h x \<noteq> None \<Longrightarrow> x < b"
    using ok c by (auto simp: heap_ok_def b_def not_le[symmetric])
  have res: "add_leaf R p key a h = Ret h'"
    using c by (simp add: add_leaf_def heap_step_defs h'_def c'_def b_def)
  have ok': "heap_ok h'"
    using ok ab by (auto simp: heap_ok_def h'_def b_def)
  have fr: "frame {a} h h'"
    using fresh c by (auto simp: frame_def h'_def)
  have cb: "h_cells h' b = Some (leaf_matcher p)"
    using ab by (simp add: h'_def)
  have "leaf_at h' (ro_match R (ro_insert R t key b) k) ((M(key \<mapsto> p)) k)" for k
    unfolding match_insert using L fr cb by (rule leaf_at_upd)
  then have "node R h' a ex d (M(key \<mapsto> p))"
    by (auto simp: node_def h'_def c'_def)
  with res ok' fr show ?thesis by blast
qed

lemma put_same_refines:
  assumes ok: "heap_ok h" and c: "h_cells h a = Some \<lparr>pm_policy = d, pm_exact = ex, pm_tree = Some t\<rparr>"
  shows "heap_ok (put_cell h a c')" and "frame {a} h (put_cell h a c')"
  using ok c by (auto simp: heap_ok_def frame_def put_cell_def)

lemma del_leaf_refines:
  assumes ok: "heap_ok h" and n: "node R h a ex d M"
  shows "\<exists>h'. del_leaf R key a h = Ret h' \<and> heap_ok h' \<and> frame {a} h h' \<and>
    node R h' a ex d (M(key := None))"
proof -
  from n obtain t where c: "h_cells h a = Some \<lparr>pm_policy = d, pm_exact = ex, pm_tree = Some t\<rparr>"
    and L: "\<And>k. leaf_at h (ro_match R t k) (M k)"
    by (auto simp: node_def)
  define h' where
    "h' = put_cell h a \<lparr>pm_policy = d, pm_exact = ex, pm_tree = Some (ro_delete R t key)\<rparr>"
  have fr: "frame {a} h h'" and ok': "heap_ok h'"
    unfolding h'_def by (rule put_same_refines [OF ok c])+
  have "leaf_at h' (ro_match R (ro_delete R t key) k) ((M(key := None)) k)" for k
    unfolding match_delete using L fr by (rule leaf_at_del)
  then have "node R h' a ex d (M(key := None))"
    by (simp add: node_def h'_def put_cell_def)
  moreover have "del_leaf R key a h = Ret h'"
    using c by (simp add: del_leaf_def heap_step_defs h'_def)
  ultimately show ?thesis using fr ok' by blast
qed

lemma set_policy_refines:
  assumes ok: "heap_ok h" and n: "node R h a ex d M"
  shows "\<exists>h'. set_policy d' a h = Ret h' \<and> heap_ok h' \<and> frame {a} h h' \<and> node R h' a ex d' M"
proof -
  from n obtain t where c: "h_cells h a = Some \<lparr>pm_policy = d, pm_exact = ex, pm_tree = Some t\<rparr>"
    and L: "\<And>k. leaf_at h (ro_match R t k) (M k)"
    by (auto simp: node_def)
  define h' where "h' = put_cell h a \<lparr>pm_policy = d', pm_exact = ex, pm_tree = Some t\<rparr>"
  have fr: "frame {a} h h'" and ok': "heap_ok h'"
    unfolding h'_def by (rule put_same_refines [OF ok c])+
  have "leaf_at h' (ro_match R t k) (M k)" for k
    using L fr by (rule leaf_at_frame)
  then have "node R h' a ex d' M"
    by (simp add: node_def h'_def put_cell_def)
  moreover have "set_policy d' a h = Ret h'"
    using c by (simp add: set_policy_def heap_step_defs h'_def)
  ultimately show ?thesis using fr ok' by blast
qed

lemma grpc_drop_refines:
  assumes ok: "heap_ok h" and n: "node R h a ex d M"
  shows "\<exists>h'. pm_drop R (SrcGrpc s) a h = Ret h' \<and> heap_ok h' \<and> frame {a} h h' \<and>
    node R h' a ex d (M(gs_method_name s := None))"
proof -
  from n obtain t where c: "h_cells h a = Some \<lparr>pm_policy = d, pm_exact = ex, pm_tree = Some t\<rparr>"
    and L: "\<And>k. leaf_at h (ro_match R t k) (M k)"
    by (auto simp: node_def)
  show ?thesis
  proof (cases "ro_match R t (gs_method_name s)")
    case None
    with L [of "gs_method_name s"] have "M (gs_method_name s) = None" by (simp add: leaf_at_def)
    then have "M(gs_method_name s := None) = M" by auto
    moreover have "pm_drop R (SrcGrpc s) a h = Ret h" using c None by (simp add: heap_step_defs)
    ultimately show ?thesis using ok n by simp
  next
    case (Some b)
    then have "pm_drop R (SrcGrpc s) a h = del_leaf R (gs_method_name s) a h"
      using c by (simp add: del_leaf_def heap_step_defs)
    then show ?thesis using del_leaf_refines [OF ok n] by simp
  qed
qed

lemma node_match:
  assumes "node R h a ex d M"
  shows "pm_match R h a [k] = Ret (case pick ex M k of Some p \<Rightarrow> Some p
    | None \<Rightarrow> if HttpMethod_value k \<noteq> None then d else None)"
proof -
  from assms obtain t where c: "h_cells h a = Some \<lparr>pm_policy = d, pm_exact = ex, pm_tree = Some t\<rparr>"
    and L: "\<And>k. leaf_at h (ro_match R t k) (M k)"
    by (auto simp: node_def)
  have D: "M k \<noteq> None \<longleftrightarrow> ro_match R t k \<noteq> None" for k
    using L [of k] by (auto simp: leaf_at_def split: option.splits)
  let ?q = "if ex then ro_match R t k else ro_match_longest R t k"
  have eq: "?q = pick ex (ro_match R t) k" by (simp add: pick_def match_longest)
  show ?thesis
  proof (cases "pick ex (ro_match R t) k")
    case None
    then have "pick ex M k = None" by (simp add: pick_None_same_dom [OF D])
    with c eq None show ?thesis by (simp add: heap_step_defs)
  next
    case (Some b)
    have "\<exists>k'. ro_match R t k' = Some b \<and> pick ex M k = M k'"
      using D Some by (rule pick_same_dom)
    then obtain k' where k': "ro_match R t k' = Some b" "pick ex M k = M k'" by blast
    with L [of k'] obtain p where "M k' = Some p" "h_cells h b = Some (leaf_matcher p)"
      by (auto simp: leaf_at_def)
    with c eq Some k' show ?thesis by (simp add: heap_step_defs leaf_matcher_def)
  qed
qed

lemma method_insert_refines:
  assumes "heap_ok h" and "node R h a ex d M"
  shows "\<exists>h'. pm_insert R p (SrcMethod mm) a h = Ret h' \<and> heap_ok h' \<and> frame {a} h h' \<and>
    node R h' a ex (if mm = HTTP_METHOD_UNDEFINED then Some p else d)
      (if mm = HTTP_METHOD_UNDEFINED then M else M(method_name mm \<mapsto> p))"
  using set_policy_refines [OF assms, of "Some p"] add_leaf_refines [OF assms, of p "method_name mm"]
  by (cases "mm = HTTP_METHOD_UNDEFINED") (simp_all add: pm_insert_method del: pm_insert.simps)

lemma method_drop_refines:
  assumes "heap_ok h" and "node R h a ex d M"
  shows "\<exists>h'. pm_drop R (SrcMethod mm) a h = Ret h' \<and> heap_ok h' \<and> frame {a} h h' \<and>
    node R h' a ex (if mm = HTTP_METHOD_UNDEFINED then None else d)
      (if mm = HTTP_METHOD_UNDEFINED then M else M(method_name mm := None))"
  using set_policy_refines [OF assms, of None] del_leaf_refines [OF assms, of "method_name mm"]
  by (cases "mm = HTTP_METHOD_UNDEFINED") (simp_all add: pm_drop_method del: pm_drop.simps)

text \<open>The branch of \<^verbatim>\<open>insert\<close> that makes the matcher of a new path.\<close>

lemma new_path_refines:
  assumes ok: "heap_ok h" and r: "root_tree R h a ex T t" and none: "ro_match R t path = None"
    and al: "alloc h (newPolicyMatcher R True) = (b, h1)"
  defines "t' \<equiv> ro_insert R t path b"
  defines "h2 \<equiv> put_cell h1 a \<lparr>pm_policy = None, pm_exact = ex, pm_tree = Some t'\<rparr>"
  shows "heap_ok h2 \<and> frame {a} h h2 \<and> h_cells h b = None \<and> node R h2 b True None Map.empty \<and>
    vals R t' = insert b (vals R t) \<and> root_tree R h2 a ex (T(path \<mapsto> (None, Map.empty))) t'"
proof -
  have c: "h_cells h a = Some \<lparr>pm_policy = None, pm_exact = ex, pm_tree = Some t\<rparr>"
    using r by (simp add: root_tree_def)
  have b: "b = h_next h" and h2: "h2 = h\<lparr>h_cells := (h_cells h)(b \<mapsto> newPolicyMatcher R True,
      a \<mapsto> \<lparr>pm_policy = None, pm_exact = ex, pm_tree = Some t'\<rparr>), h_next := Suc b\<rparr>"
    using al by (auto simp: alloc_def h2_def put_cell_def)
  have fresh: "h_cells h b = None" using ok by (simp add: heap_ok_def b)
  then have ab: "a \<noteq> b" using c by auto
  have "a < b" using ok c by (auto simp: heap_ok_def b not_le [symmetric])
  then have ok2: "heap_ok h2" using ok by (auto simp: heap_ok_def h2 b)
  have fr: "frame {a} h h2" using fresh c by (auto simp: frame_def h2)
  have bv: "b \<notin> vals R t" using root_tree_allocated [OF r] fresh by blast
  have nb: "node R h2 b True None Map.empty"
    using ab by (simp add: node_def h2 newPolicyMatcher_def match_new leaf_at_def)
  have m: "ro_match R t' k = (if k = path then Some b else ro_match R t k)" for k
    by (simp add: t'_def match_insert)
  have v: "vals R t' = insert b (vals R t)"
  proof (rule set_eqI)
    fix x
    have "(\<exists>k. ro_match R t' k = Some x) \<longleftrightarrow> x = b \<or> (\<exists>k. ro_match R t k = Some x)"
      by (metis m none option.inject option.simps(3))
    then show "x \<in> vals R t' \<longleftrightarrow> x \<in> insert b (vals R t)" by (simp add: vals_def)
  qed
  have inj: "k = k'" if "ro_match R t' k = Some x" "ro_match R t' k' = Some x" for k k' x
    using that root_treeD(3) [OF r, of k x k'] valsI [of R t _ x] bv by (auto simp: m split: if_splits)
  have "entry_at R h2 (ro_match R t' k) ((T(path \<mapsto> (None, Map.empty))) k)" for k
  proof (cases "k = path")
    case True
    then show ?thesis using nb by (simp add: m entry_at_def)
  next
    case False
    have "entry_at R h2 (ro_match R t k) (T k)"
      using root_treeD(4) [OF r] fr
    proof (rule entry_at_frame)
      show "x \<notin> {a}" if "ro_match R t k = Some x" for x
        using root_treeD(2) [OF r] valsI [OF that] by blast
    qed
    with False show ?thesis by (simp add: m)
  qed
  moreover have "a \<notin> vals R t'" using v ab r by (simp add: root_tree_def)
  ultimately have "root_tree R h2 a ex (T(path \<mapsto> (None, Map.empty))) t'"
    using inj ab unfolding root_tree_def by (simp add: h2)
  with ok2 fr fresh nb v show ?thesis by blast
qed

lemma http_insert_new:
  assumes ok: "heap_ok h" and t: "root_tree R h a ex T t" and None: "ro_match R t (hs_path s) = None"
  shows "\<exists>h' t'. pm_insert R p (SrcHttp s) a h = Ret h' \<and> heap_ok h' \<and>
    frame (insert a (vals R t)) h h' \<and> root_tree R h' a ex (http_put T s p) t' \<and>
    (\<forall>b \<in> vals R t'. b \<in> vals R t \<or> h_cells h b = None)"
proof -
  have c: "h_cells h a = Some \<lparr>pm_policy = None, pm_exact = ex, pm_tree = Some t\<rparr>"
    using t by (rule root_treeD(1))
  obtain b h1 where al: "alloc h (newPolicyMatcher R True) = (b, h1)" by force
  define t' where "t' = ro_insert R t (hs_path s) b"
  define h2 where "h2 = put_cell h1 a \<lparr>pm_policy = None, pm_exact = ex, pm_tree = Some t'\<rparr>"
  from new_path_refines [OF ok t None al] have h2: "heap_ok h2" "frame {a} h h2"
    and fresh: "h_cells h b = None" and n: "node R h2 b True None Map.empty"
    and v: "vals R t' = insert b (vals R t)"
    and r2: "root_tree R h2 a ex (T(hs_path s \<mapsto> (None, Map.empty))) t'"
    by (simp_all add: h2_def t'_def)
  obtain h' where h': "pm_insert R p (SrcMethod (hs_method s)) b h2 = Ret h'" "heap_ok h'"
      "frame {b} h2 h'" and n': "node R h' b True
        (if hs_method s = HTTP_METHOD_UNDEFINED then Some p else None)
        (if hs_method s = HTTP_METHOD_UNDEFINED then Map.empty
         else Map.empty(method_name (hs_method s) \<mapsto> p))"
    using method_insert_refines [OF h2(1) n] by blast
  have T: "T (hs_path s) = None"
    using t None by (auto simp: root_tree_def entry_at_def dest!: spec [of _ "hs_path s"])
  have "ro_match R t' (hs_path s) = Some b" by (simp add: t'_def match_insert)
  from root_tree_update [OF r2 this h'(3) n'] T
  have "root_tree R h' a ex (http_put T s p) t'"
    by (simp add: http_put_def split: if_splits)
  moreover have "frame (insert a (vals R t)) h h'"
    unfolding frame_def
  proof (intro allI impI)
    fix x c' assume x: "h_cells h x = Some c'" "x \<notin> insert a (vals R t) \<or> pm_tree c' = None"
    then have "h_cells h2 x = Some c'" using frameD [OF h2(2)] by blast
    moreover have "x \<noteq> b" using x(1) fresh by auto
    ultimately show "h_cells h' x = Some c'" using frameD [OF h'(3)] by blast
  qed
  moreover have "pm_insert R p (SrcHttp s) a h = Ret h'"
    using c None al h'(1)
    by (simp add: with_matcher_def with_tree_def h2_def t'_def del: pm_insert.simps(3))
  moreover have "\<forall>x \<in> vals R t'. x \<in> vals R t \<or> h_cells h x = None" using v fresh by auto
  ultimately show ?thesis using h'(2) by blast
qed

lemma http_insert_refines:
  assumes ok: "heap_ok h" and r: "root R h a ex T A"
  shows "\<exists>h' A'. pm_insert R p (SrcHttp s) a h = Ret h' \<and> heap_ok h' \<and>
    frame (insert a A) h h' \<and> root R h' a ex (http_put T s p) A' \<and>
    (\<forall>b \<in> A'. b \<in> A \<or> h_cells h b = None)"
proof -
  from r obtain t where t: "root_tree R h a ex T t" and A: "A = vals R t" by (auto simp: root_def)
  have c: "h_cells h a = Some \<lparr>pm_policy = None, pm_exact = ex, pm_tree = Some t\<rparr>"
    using t by (rule root_treeD(1))
  show ?thesis
  proof (cases "ro_match R t (hs_path s)")
    case (Some b)
    with t obtain d M where T: "T (hs_path s) = Some (d, M)" and n: "node R h b True d M"
      by (auto simp: root_tree_def entry_at_def split: option.splits dest!: spec [of _ "hs_path s"])
    obtain h' where h': "pm_insert R p (SrcMethod (hs_method s)) b h = Ret h'" "heap_ok h'"
        "frame {b} h h'" and n': "node R h' b True
          (if hs_method s = HTTP_METHOD_UNDEFINED then Some p else d)
          (if hs_method s = HTTP_METHOD_UNDEFINED then M else M(method_name (hs_method s) \<mapsto> p))"
      using method_insert_refines [OF ok n] by blast
    have "root_tree R h' a ex (http_put T s p) t"
      using root_tree_update [OF t Some h'(3) n'] T by (simp add: http_put_def split: if_splits)
    moreover have "frame (insert a A) h h'"
      using h'(3) Some by (rule_tac frame_mono) (auto simp: A vals_def)
    moreover have "pm_insert R p (SrcHttp s) a h = Ret h'"
      using c Some h'(1) by (simp add: heap_step_defs del: pm_insert.simps(3))
    ultimately show ?thesis using h'(2) A by (auto simp: root_def)
  next
    case None
    from http_insert_new [OF ok t this, of p] show ?thesis unfolding root_def A by blast
  qed
qed

lemma http_drop_refines:
  assumes ok: "heap_ok h" and r: "root R h a ex T A"
  shows "\<exists>h'. pm_drop R (SrcHttp s) a h = Ret h' \<and> heap_ok h' \<and>
    frame (insert a A) h h' \<and> root R h' a ex (http_del T s) A"
proof -
  from r obtain t where t: "root_tree R h a ex T t" and A: "A = vals R t" by (auto simp: root_def)
  have c: "h_cells h a = Some \<lparr>pm_policy = None, pm_exact = ex, pm_tree = Some t\<rparr>"
    using t by (rule root_treeD(1))
  show ?thesis
  proof (cases "ro_match R t (hs_path s)")
    case None
    then have "T (hs_path s) = None"
      using t by (auto simp: root_tree_def entry_at_def dest!: spec [of _ "hs_path s"])
    then have "http_del T s = T" by (simp add: http_del_def)
    moreover have "pm_drop R (SrcHttp s) a h = Ret h" using c None by (simp add: heap_step_defs)
    ultimately show ?thesis using ok r by simp
  next
    case (Some b)
    with t obtain d M where T: "T (hs_path s) = Some (d, M)" and n: "node R h b True d M"
      by (auto simp: root_tree_def entry_at_def split: option.splits dest!: spec [of _ "hs_path s"])
    obtain h' where h': "pm_drop R (SrcMethod (hs_method s)) b h = Ret h'" "heap_ok h'"
        "frame {b} h h'" and n': "node R h' b True
          (if hs_method s = HTTP_METHOD_UNDEFINED then None else d)
          (if hs_method s = HTTP_METHOD_UNDEFINED then M else M(method_name (hs_method s) := None))"
      using method_drop_refines [OF ok n] by blast
    have "root_tree R h' a ex (http_del T s) t"
      using root_tree_update [OF t Some h'(3) n'] T by (simp add: http_del_def split: if_splits)
    moreover have "frame (insert a A) h h'"
      using h'(3) Some by (rule_tac frame_mono) (auto simp: A vals_def)
    moreover have "pm_drop R (SrcHttp s) a h = Ret h'"
      using c Some h'(1) by (simp add: heap_step_defs del: pm_drop.simps(3))
    ultimately show ?thesis using h'(2) A by (auto simp: root_def)
  qed
qed

lemma http_match_refines:
  assumes "root R h a ex T A"
  shows "pm_match R h a [path, name] = Ret (http_lookup ex T path name)"
proof -
  from assms obtain t where t: "root_tree R h a ex T t" by (auto simp: root_def)
  then have c: "h_cells h a = Some \<lparr>pm_policy = None, pm_exact = ex, pm_tree = Some t\<rparr>"
    and E: "\<And>k. entry_at R h (ro_match R t k) (T k)" by (auto simp: root_tree_def)
  have D: "T k \<noteq> None \<longleftrightarrow> ro_match R t k \<noteq> None" for k
    using E [of k] by (auto simp: entry_at_def split: option.splits)
  have eq: "(if ex then ro_match R t path else ro_match_longest R t path) = pick ex (ro_match R t) path"
    by (simp add: pick_def match_longest)
  show ?thesis
  proof (cases "pick ex (ro_match R t) path")
    case None
    then have "pick ex T path = None" by (simp add: pick_None_same_dom [OF D])
    with c eq None show ?thesis by (simp add: heap_step_defs http_lookup_def)
  next
    case (Some b)
    then obtain k' where k': "ro_match R t k' = Some b" "pick ex T path = T k'"
      using pick_same_dom [of T "ro_match R t", OF D] by blast
    with E [of k'] obtain d M where T: "T k' = Some (d, M)" and n: "node R h b True d M"
      by (auto simp: entry_at_def)
    have "pm_match R h a [path, name] = pm_match R h b [name]"
      using c eq Some by (simp add: heap_step_defs)
    also have "\<dots> = Ret (entry_lookup (d, M) name)"
      unfolding node_match [OF n]
      by (cases "M name"; cases "HttpMethod_value name") (simp_all add: pick_def entry_lookup_def)
    finally show ?thesis using k'(2) T by (simp add: http_lookup_def)
  qed
qed

end

end
