(* ===== verification/RouteProps.thy ===== *)
theory RouteProps
  imports Routes
begin

text \<open>
  The properties of the route matcher over whole histories of \<^verbatim>\<open>addPolicy\<close> and
  \<^verbatim>\<open>dropPolicy\<close> calls, and a concrete radix tree (an association list) that satisfies the
  laws of the locale \<open>radix_tree\<close>, at which the properties are evaluated.
\<close>

section \<open>A concrete radix tree\<close>

definition alist_radix :: "(string \<times> addr) list radix_ops" where
  "alist_radix =
     \<lparr>ro_new = [],
      ro_insert = (\<lambda>t k a. (k, a) # t),
      ro_delete = (\<lambda>t k. filter (\<lambda>e. fst e \<noteq> k) t),
      ro_match = map_of,
      ro_match_longest = (\<lambda>t. longest_prefix (map_of t))\<rparr>"

lemma map_of_filter_key: "map_of (filter (\<lambda>e. fst e \<noteq> k) t) = (map_of t)(k := None)"
  by (induction t) (auto simp: fun_eq_iff)

interpretation alist_tree: radix_tree alist_radix
  by unfold_locales (simp_all add: alist_radix_def map_of_filter_key)

section \<open>Histories\<close>

datatype route_op = AddPolicy gateway_policy | DropPolicy gateway_policy

fun run_op :: "'t radix_ops \<Rightarrow> 't sourceMatcher \<Rightarrow> route_op \<Rightarrow> 't sourceMatcher val" where
  "run_op R sm (AddPolicy p) = addPolicy R p sm"
| "run_op R sm (DropPolicy p) = dropPolicy R p sm"

fun run_ops :: "'t radix_ops \<Rightarrow> 't sourceMatcher \<Rightarrow> route_op list \<Rightarrow> 't sourceMatcher val" where
  "run_ops R sm [] = Ret sm"
| "run_ops R sm (x # xs) =
     (case run_op R sm x of Ret sm' \<Rightarrow> run_ops R sm' xs | Panics e \<Rightarrow> Panics e)"

fun op_policy :: "route_op \<Rightarrow> gateway_policy" where
  "op_policy (AddPolicy p) = p"
| "op_policy (DropPolicy p) = p"

definition op_grpc :: "route_op \<Rightarrow> bool" where
  "op_grpc x = (case gp_source (op_policy x) of Some (GatewayPolicy_Grpc s) \<Rightarrow> True | _ \<Rightarrow> False)"

definition op_http :: "route_op \<Rightarrow> bool" where
  "op_http x = (case gp_source (op_policy x) of Some (GatewayPolicy_Http s) \<Rightarrow> True | _ \<Rightarrow> False)"

text \<open>The abstract machine: a table of exact routes and a table of prefix routes.\<close>

fun grpc_step :: "route_op \<Rightarrow> grpc_table \<times> grpc_table \<Rightarrow> grpc_table \<times> grpc_table" where
  "grpc_step x (E, P) = (case gp_source (op_policy x) of
      Some (GatewayPolicy_Grpc s) \<Rightarrow>
        (let v = (case x of AddPolicy p \<Rightarrow> Some p | DropPolicy p \<Rightarrow> None)
         in if gs_exact_method_name_match s then (E(gs_method_name s := v), P)
            else (E, P(gs_method_name s := v)))
    | _ \<Rightarrow> (E, P))"

definition grpc_spec :: "grpc_table \<times> grpc_table \<Rightarrow> string \<Rightarrow> gateway_policy option" where
  "grpc_spec T k = or_else (fst T k) (longest_prefix (snd T) k)"

fun http_step :: "route_op \<Rightarrow> http_table \<times> http_table \<Rightarrow> http_table \<times> http_table" where
  "http_step x (E, P) = (case gp_source (op_policy x) of
      Some (GatewayPolicy_Http s) \<Rightarrow>
        (let f = (\<lambda>T. case x of AddPolicy p \<Rightarrow> http_put T s p | DropPolicy p \<Rightarrow> http_del T s)
         in if hs_exact_path_match s then (f E, P) else (E, f P))
    | _ \<Rightarrow> (E, P))"

definition http_spec ::
    "http_table \<times> http_table \<Rightarrow> string \<Rightarrow> string \<Rightarrow> gateway_policy option" where
  "http_spec T path name = or_else (http_lookup True (fst T) path name) (http_lookup False (snd T) path name)"

definition no_routes :: "('k \<rightharpoonup> 'v) \<times> ('k \<rightharpoonup> 'v)" where
  "no_routes = (Map.empty, Map.empty)"

definition grpc_rel ::
    "'t radix_ops \<Rightarrow> 't sourceMatcher \<Rightarrow> grpc_table \<times> grpc_table \<Rightarrow> bool" where
  "grpc_rel R sm T \<longleftrightarrow> heap_ok (sm_heap sm) \<and> sm_exact sm \<noteq> sm_prefix sm \<and>
     node R (sm_heap sm) (sm_exact sm) True None (fst T) \<and>
     node R (sm_heap sm) (sm_prefix sm) False None (snd T)"

definition http_rel ::
    "'t radix_ops \<Rightarrow> 't sourceMatcher \<Rightarrow> http_table \<times> http_table \<Rightarrow> bool" where
  "http_rel R sm T \<longleftrightarrow> heap_ok (sm_heap sm) \<and>
     (\<exists>A B. root R (sm_heap sm) (sm_exact sm) True (fst T) A \<and>
       root R (sm_heap sm) (sm_prefix sm) False (snd T) B \<and>
       insert (sm_exact sm) A \<inter> insert (sm_prefix sm) B = {})"

lemma set_heap_Ret [simp]: "set_heap sm (Ret h) = Ret (sm\<lparr>sm_heap := h\<rparr>)"
  by (simp add: set_heap_def)

context radix_tree begin

lemma new_matcher_cells:
  "h_cells (sm_heap (newSourceMatcher R)) =
     [0 \<mapsto> newPolicyMatcher R True, 1 \<mapsto> newPolicyMatcher R False]"
  "h_next (sm_heap (newSourceMatcher R)) = 2"
  "sm_exact (newSourceMatcher R) = 0" "sm_prefix (newSourceMatcher R) = 1"
  by (simp_all add: newSourceMatcher_def alloc_def Let_def fun_eq_iff)

lemma grpc_rel_new: "grpc_rel R (newSourceMatcher R) no_routes"
  by (auto simp: grpc_rel_def new_matcher_cells heap_ok_def node_def newPolicyMatcher_def match_new
      leaf_at_def no_routes_def)

lemma http_rel_new: "http_rel R (newSourceMatcher R) no_routes"
  unfolding http_rel_def root_def root_tree_def
  by (auto simp: new_matcher_cells heap_ok_def newPolicyMatcher_def match_new entry_at_def
      vals_def no_routes_def)

lemma node_step:
  assumes "heap_ok h" and "node R h a ex d M"
  shows "\<exists>h'. (case x of AddPolicy p \<Rightarrow> pm_insert R p (SrcGrpc s) a h
      | DropPolicy p \<Rightarrow> pm_drop R (SrcGrpc s) a h) = Ret h' \<and> heap_ok h' \<and> frame {a} h h' \<and>
    node R h' a ex d (M(gs_method_name s := (case x of AddPolicy p \<Rightarrow> Some p | DropPolicy p \<Rightarrow> None)))"
  using add_leaf_refines [OF assms, of _ "gs_method_name s"] grpc_drop_refines [OF assms, of s]
  by (cases x) (simp_all add: pm_insert_grpc del: pm_insert.simps pm_drop.simps)

lemma run_op_grpc:
  assumes s: "gp_source (op_policy x) = Some (GatewayPolicy_Grpc s)"
  shows "run_op R sm x =
    (let a = (if gs_exact_method_name_match s then sm_exact sm else sm_prefix sm)
     in set_heap sm (case x of AddPolicy p \<Rightarrow> pm_insert R p (SrcGrpc s) a (sm_heap sm)
      | DropPolicy p \<Rightarrow> pm_drop R (SrcGrpc s) a (sm_heap sm)))"
  using s by (cases x) (simp_all add: addPolicy_def dropPolicy_def getPolicySource_def
      del: pm_insert.simps pm_drop.simps)

lemma grpc_rel_step:
  assumes r: "grpc_rel R sm T" and x: "op_grpc x"
  shows "\<exists>sm'. run_op R sm x = Ret sm' \<and> grpc_rel R sm' (grpc_step x T)"
proof -
  obtain s where s: "gp_source (op_policy x) = Some (GatewayPolicy_Grpc s)"
    using x by (auto simp: op_grpc_def split: option.splits policy_source.splits)
  obtain E P where T: "T = (E, P)" by force
  let ?v = "case x of AddPolicy p \<Rightarrow> Some p | DropPolicy p \<Rightarrow> None"
  have ok: "heap_ok (sm_heap sm)" and d: "sm_exact sm \<noteq> sm_prefix sm"
    and e: "node R (sm_heap sm) (sm_exact sm) True None E"
    and p: "node R (sm_heap sm) (sm_prefix sm) False None P"
    using r by (simp_all add: grpc_rel_def T)
  show ?thesis
  proof (cases "gs_exact_method_name_match s")
    case True
    from node_step [OF ok e, where x = x and s = s] obtain h' where h': "heap_ok h'"
        "frame {sm_exact sm} (sm_heap sm) h'" "run_op R sm x = Ret (sm\<lparr>sm_heap := h'\<rparr>)"
        "node R h' (sm_exact sm) True None (E(gs_method_name s := ?v))"
      using True by (auto simp: run_op_grpc [OF s] simp del: pm_insert.simps pm_drop.simps)
    moreover have "node R h' (sm_prefix sm) False None P"
      using node_frame [OF p h'(2)] d by simp
    ultimately show ?thesis using True d by (simp add: grpc_rel_def T s)
  next
    case False
    from node_step [OF ok p, where x = x and s = s] obtain h' where h': "heap_ok h'"
        "frame {sm_prefix sm} (sm_heap sm) h'" "run_op R sm x = Ret (sm\<lparr>sm_heap := h'\<rparr>)"
        "node R h' (sm_prefix sm) False None (P(gs_method_name s := ?v))"
      using False by (auto simp: run_op_grpc [OF s] simp del: pm_insert.simps pm_drop.simps)
    moreover have "node R h' (sm_exact sm) True None E"
      using node_frame [OF e h'(2)] d by simp
    ultimately show ?thesis using False d by (simp add: grpc_rel_def T s)
  qed
qed

lemma grpc_rel_match:
  assumes "grpc_rel R sm T"
  shows "matchPolicy R sm [k] = Ret (grpc_spec T k)"
proof -
  have e: "pm_match R (sm_heap sm) (sm_exact sm) [k] = Ret (fst T k)"
    and p: "pm_match R (sm_heap sm) (sm_prefix sm) [k] = Ret (longest_prefix (snd T) k)"
    using assms node_match [of "sm_heap sm" "sm_exact sm" True None "fst T" k]
      node_match [of "sm_heap sm" "sm_prefix sm" False None "snd T" k]
    by (simp_all add: grpc_rel_def pick_def option.case_eq_if del: pm_match.simps)
  show ?thesis
    unfolding matchPolicy_def e p grpc_spec_def
    by (cases "fst T k"; cases "longest_prefix (snd T) k") simp_all
qed

lemma grpc_rel_run:
  "grpc_rel R sm T \<Longrightarrow> list_all op_grpc xs \<Longrightarrow>
    \<exists>sm'. run_ops R sm xs = Ret sm' \<and> grpc_rel R sm' (fold grpc_step xs T)"
proof (induction xs arbitrary: sm T)
  case Nil
  then show ?case by simp
next
  case (Cons x xs)
  from grpc_rel_step [OF Cons.prems(1), of x] Cons.prems(2) obtain sm1
    where "run_op R sm x = Ret sm1" "grpc_rel R sm1 (grpc_step x T)" by auto
  with Cons.IH [of sm1 "grpc_step x T"] Cons.prems(2) show ?case by simp
qed

lemma root_step:
  assumes "heap_ok h" and "root R h a ex T A"
  shows "\<exists>h' A'. (case x of AddPolicy p \<Rightarrow> pm_insert R p (SrcHttp s) a h
      | DropPolicy p \<Rightarrow> pm_drop R (SrcHttp s) a h) = Ret h' \<and> heap_ok h' \<and>
    frame (insert a A) h h' \<and>
    root R h' a ex (case x of AddPolicy p \<Rightarrow> http_put T s p | DropPolicy p \<Rightarrow> http_del T s) A' \<and>
    (\<forall>b \<in> A'. b \<in> A \<or> h_cells h b = None)"
proof (cases x)
  case (AddPolicy p)
  with http_insert_refines [OF assms, of p s] show ?thesis by simp
next
  case (DropPolicy p)
  from http_drop_refines [OF assms, of s] obtain h' where "pm_drop R (SrcHttp s) a h = Ret h'"
    "heap_ok h'" "frame (insert a A) h h'" "root R h' a ex (http_del T s) A" by blast
  with DropPolicy show ?thesis by (auto simp del: pm_drop.simps)
qed

lemma run_op_http:
  assumes s: "gp_source (op_policy x) = Some (GatewayPolicy_Http s)"
  shows "run_op R sm x =
    (let a = (if hs_exact_path_match s then sm_exact sm else sm_prefix sm)
     in set_heap sm (case x of AddPolicy p \<Rightarrow> pm_insert R p (SrcHttp s) a (sm_heap sm)
      | DropPolicy p \<Rightarrow> pm_drop R (SrcHttp s) a (sm_heap sm)))"
  using s by (cases x) (simp_all add: addPolicy_def dropPolicy_def getPolicySource_def
      del: pm_insert.simps pm_drop.simps)

text \<open>A step under one of the two matchers leaves the other one alone.\<close>

lemma root_allocated:
  assumes "root R h a ex T A" shows "\<forall>b \<in> insert a A. h_cells h b \<noteq> None"
proof -
  from assms obtain t where t: "root_tree R h a ex T t" and A: "A = vals R t"
    by (auto simp: root_def)
  have "h_cells h b \<noteq> None" if "b \<in> A" for b
    using root_tree_allocated [OF t] that A by blast
  then show ?thesis using root_treeD(1) [OF t] by simp
qed

lemma root_step_beside:
  assumes ok: "heap_ok h" and r: "root R h a ex T A" and r2: "root R h b ex2 T2 B"
    and sep: "insert a A \<inter> insert b B = {}"
  shows "\<exists>h' A'. (case x of AddPolicy p \<Rightarrow> pm_insert R p (SrcHttp s) a h
      | DropPolicy p \<Rightarrow> pm_drop R (SrcHttp s) a h) = Ret h' \<and> heap_ok h' \<and>
    root R h' a ex (case x of AddPolicy p \<Rightarrow> http_put T s p | DropPolicy p \<Rightarrow> http_del T s) A' \<and>
    root R h' b ex2 T2 B \<and> insert a A' \<inter> insert b B = {}"
proof -
  obtain h' A' where h': "(case x of AddPolicy p \<Rightarrow> pm_insert R p (SrcHttp s) a h
      | DropPolicy p \<Rightarrow> pm_drop R (SrcHttp s) a h) = Ret h'" "heap_ok h'"
      "frame (insert a A) h h'"
      "root R h' a ex (case x of AddPolicy p \<Rightarrow> http_put T s p | DropPolicy p \<Rightarrow> http_del T s) A'"
      and new: "\<forall>b \<in> A'. b \<in> A \<or> h_cells h b = None"
    using root_step [OF ok r] by blast
  have "root R h' b ex2 T2 B"
    using r2 h'(3) sep by (intro root_frame [OF r2 h'(3)]) auto
  moreover have "insert a A' \<inter> insert b B = {}"
    using sep new root_allocated [OF r2] by fastforce
  ultimately show ?thesis using h' by blast
qed

lemma http_rel_step:
  assumes r: "http_rel R sm T" and x: "op_http x"
  shows "\<exists>sm'. run_op R sm x = Ret sm' \<and> http_rel R sm' (http_step x T)"
proof -
  obtain s where s: "gp_source (op_policy x) = Some (GatewayPolicy_Http s)"
    using x by (auto simp: op_http_def split: option.splits policy_source.splits)
  obtain E P where T: "T = (E, P)" by force
  from r obtain A B where ok: "heap_ok (sm_heap sm)"
    and e: "root R (sm_heap sm) (sm_exact sm) True E A"
    and p: "root R (sm_heap sm) (sm_prefix sm) False P B"
    and sep: "insert (sm_exact sm) A \<inter> insert (sm_prefix sm) B = {}"
    unfolding http_rel_def T by auto
  have sep': "insert (sm_prefix sm) B \<inter> insert (sm_exact sm) A = {}" using sep by blast
  let ?f = "\<lambda>T. case x of AddPolicy p \<Rightarrow> http_put T s p | DropPolicy p \<Rightarrow> http_del T s"
  show ?thesis
  proof (cases "hs_exact_path_match s")
    case True
    from root_step_beside [OF ok e p sep, where x = x and s = s] obtain h' A' where h': "heap_ok h'"
        "run_op R sm x = Ret (sm\<lparr>sm_heap := h'\<rparr>)" "root R h' (sm_exact sm) True (?f E) A'"
        "root R h' (sm_prefix sm) False P B" "insert (sm_exact sm) A' \<inter> insert (sm_prefix sm) B = {}"
      using True by (auto simp: run_op_http [OF s] simp del: pm_insert.simps pm_drop.simps)
    have st: "http_step x T = (?f E, P)" using True by (simp add: T s)
    have "http_rel R (sm\<lparr>sm_heap := h'\<rparr>) (?f E, P)"
      unfolding http_rel_def using h' by auto
    with h'(2) st show ?thesis by auto
  next
    case False
    from root_step_beside [OF ok p e sep', where x = x and s = s] obtain h' B' where h': "heap_ok h'"
        "run_op R sm x = Ret (sm\<lparr>sm_heap := h'\<rparr>)" "root R h' (sm_prefix sm) False (?f P) B'"
        "root R h' (sm_exact sm) True E A" "insert (sm_prefix sm) B' \<inter> insert (sm_exact sm) A = {}"
      using False by (auto simp: run_op_http [OF s] simp del: pm_insert.simps pm_drop.simps)
    have st: "http_step x T = (E, ?f P)" using False by (simp add: T s)
    have "insert (sm_exact sm) A \<inter> insert (sm_prefix sm) B' = {}" using h'(5) by blast
    then have "http_rel R (sm\<lparr>sm_heap := h'\<rparr>) (E, ?f P)"
      unfolding http_rel_def using h' by auto
    with h'(2) st show ?thesis by auto
  qed
qed

lemma http_rel_match:
  assumes "http_rel R sm T"
  shows "matchPolicy R sm [path, name] = Ret (http_spec T path name)"
proof -
  from assms obtain A B where r: "root R (sm_heap sm) (sm_exact sm) True (fst T) A"
      "root R (sm_heap sm) (sm_prefix sm) False (snd T) B"
    by (auto simp: http_rel_def)
  have e: "pm_match R (sm_heap sm) (sm_exact sm) [path, name] = Ret (http_lookup True (fst T) path name)"
    using r(1) by (rule http_match_refines)
  have p: "pm_match R (sm_heap sm) (sm_prefix sm) [path, name] = Ret (http_lookup False (snd T) path name)"
    using r(2) by (rule http_match_refines)
  show ?thesis
    unfolding matchPolicy_def e p http_spec_def
    by (cases "http_lookup True (fst T) path name"; cases "http_lookup False (snd T) path name") simp_all
qed

lemma http_rel_run:
  "http_rel R sm T \<Longrightarrow> list_all op_http xs \<Longrightarrow>
    \<exists>sm'. run_ops R sm xs = Ret sm' \<and> http_rel R sm' (fold http_step xs T)"
proof (induction xs arbitrary: sm T)
  case Nil
  then show ?case by simp
next
  case (Cons x xs)
  from http_rel_step [OF Cons.prems(1), of x] Cons.prems(2) obtain sm1
    where "run_op R sm x = Ret sm1" "http_rel R sm1 (http_step x T)" by auto
  with Cons.IH [of sm1 "http_step x T"] Cons.prems(2) show ?case by simp
qed

end

section \<open>Where a matched policy comes from\<close>

definition grpc_tab_ok :: "route_op set \<Rightarrow> bool \<Rightarrow> grpc_table \<Rightarrow> bool" where
  "grpc_tab_ok X ex T \<longleftrightarrow> (\<forall>k p. T k = Some p \<longrightarrow> AddPolicy p \<in> X \<and>
     (\<exists>s. gp_source p = Some (GatewayPolicy_Grpc s) \<and> gs_method_name s = k \<and>
       gs_exact_method_name_match s = ex))"

definition entry_ok :: "route_op set \<Rightarrow> bool \<Rightarrow> string \<Rightarrow> string option \<Rightarrow> gateway_policy \<Rightarrow> bool" where
  "entry_ok X ex path name p \<longleftrightarrow> AddPolicy p \<in> X \<and>
     (\<exists>s. gp_source p = Some (GatewayPolicy_Http s) \<and> hs_path s = path \<and>
       hs_exact_path_match s = ex \<and>
       (case name of None \<Rightarrow> hs_method s = HTTP_METHOD_UNDEFINED
        | Some n \<Rightarrow> method_name (hs_method s) = n))"

definition http_tab_ok :: "route_op set \<Rightarrow> bool \<Rightarrow> http_table \<Rightarrow> bool" where
  "http_tab_ok X ex T \<longleftrightarrow> (\<forall>k d M. T k = Some (d, M) \<longrightarrow>
     (\<forall>p. d = Some p \<longrightarrow> entry_ok X ex k None p) \<and>
     (\<forall>n p. M n = Some p \<longrightarrow> entry_ok X ex k (Some n) p))"

lemma tab_ok_empty [simp]: "grpc_tab_ok X ex Map.empty" "http_tab_ok X ex Map.empty"
  by (simp_all add: grpc_tab_ok_def http_tab_ok_def)

lemma grpc_tab_ok_step:
  assumes "grpc_tab_ok X True E" "grpc_tab_ok X False P" "x \<in> X" "grpc_step x (E, P) = (E', P')"
  shows "grpc_tab_ok X True E' \<and> grpc_tab_ok X False P'"
proof (cases "gp_source (op_policy x)")
  case None
  with assms show ?thesis by simp
next
  case (Some src)
  show ?thesis
  proof (cases src)
    case (GatewayPolicy_Http s)
    with assms Some show ?thesis by simp
  next
    case (GatewayPolicy_Grpc s)
    with assms Some show ?thesis
      by (cases x) (auto simp: grpc_tab_ok_def Let_def split: if_splits)
  qed
qed

lemma grpc_tab_ok_fold:
  "grpc_tab_ok X True (fst T) \<Longrightarrow> grpc_tab_ok X False (snd T) \<Longrightarrow> set xs \<subseteq> X \<Longrightarrow>
    grpc_tab_ok X True (fst (fold grpc_step xs T)) \<and> grpc_tab_ok X False (snd (fold grpc_step xs T))"
proof (induction xs arbitrary: T)
  case Nil
  then show ?case by simp
next
  case (Cons x xs)
  obtain E' P' where st: "grpc_step x T = (E', P')" by force
  with grpc_tab_ok_step [of X "fst T" "snd T" x E' P'] Cons.prems
  have "grpc_tab_ok X True E' \<and> grpc_tab_ok X False P'" by simp
  with Cons.IH [of "(E', P')"] Cons.prems st show ?case by simp
qed

definition http_entry_ok :: "route_op set \<Rightarrow> bool \<Rightarrow> string \<Rightarrow> http_entry \<Rightarrow> bool" where
  "http_entry_ok X ex k e \<longleftrightarrow> (\<forall>p. fst e = Some p \<longrightarrow> entry_ok X ex k None p) \<and>
     (\<forall>n p. snd e n = Some p \<longrightarrow> entry_ok X ex k (Some n) p)"

lemma http_tab_ok_iff: "http_tab_ok X ex T \<longleftrightarrow> (\<forall>k e. T k = Some e \<longrightarrow> http_entry_ok X ex k e)"
  by (simp add: http_tab_ok_def http_entry_ok_def)

lemma http_tab_ok_upd:
  "http_tab_ok X ex T \<Longrightarrow> http_entry_ok X ex k e \<Longrightarrow> http_tab_ok X ex (T(k \<mapsto> e))"
  by (cases e) (simp add: http_tab_ok_iff)

lemma http_entry_ok_intros:
  "http_entry_ok X ex k (None, Map.empty)"
  "http_entry_ok X ex k (d, M) \<Longrightarrow> http_entry_ok X ex k (None, M)"
  "http_entry_ok X ex k (d, M) \<Longrightarrow> http_entry_ok X ex k (d, M(n := None))"
  "http_entry_ok X ex k (d, M) \<Longrightarrow> entry_ok X ex k None p \<Longrightarrow> http_entry_ok X ex k (Some p, M)"
  "http_entry_ok X ex k (d, M) \<Longrightarrow> entry_ok X ex k (Some n) p \<Longrightarrow> http_entry_ok X ex k (d, M(n \<mapsto> p))"
  by (simp_all add: http_entry_ok_def)

lemma http_tab_ok_put:
  assumes T: "http_tab_ok X ex T" and p: "AddPolicy p \<in> X"
    "gp_source p = Some (GatewayPolicy_Http s)" "hs_exact_path_match s = ex"
  shows "http_tab_ok X ex (http_put T s p)"
proof -
  obtain d M where dM: "(case T (hs_path s) of None \<Rightarrow> (None, Map.empty) | Some e \<Rightarrow> e) = (d, M)"
    by force
  have old: "http_entry_ok X ex (hs_path s) (d, M)"
    using T dM http_entry_ok_intros(1) by (cases "T (hs_path s)") (auto simp: http_tab_ok_iff)
  have new: "entry_ok X ex (hs_path s) (if hs_method s = HTTP_METHOD_UNDEFINED then None
      else Some (method_name (hs_method s))) p"
    using p by (simp add: entry_ok_def)
  show ?thesis
  proof (cases "hs_method s = HTTP_METHOD_UNDEFINED")
    case True
    with T old new show ?thesis
      by (simp add: http_put_def dM http_tab_ok_upd http_entry_ok_intros)
  next
    case False
    with T old new show ?thesis
      by (simp add: http_put_def dM http_tab_ok_upd http_entry_ok_intros)
  qed
qed

lemma http_tab_ok_del:
  assumes "http_tab_ok X ex T"
  shows "http_tab_ok X ex (http_del T s)"
proof (cases "T (hs_path s)")
  case None
  with assms show ?thesis by (simp add: http_del_def)
next
  case (Some e)
  obtain d M where e: "e = (d, M)" by force
  from assms Some have "http_entry_ok X ex (hs_path s) (d, M)" by (simp add: http_tab_ok_iff e)
  with assms Some e show ?thesis
    by (simp add: http_del_def http_tab_ok_upd http_entry_ok_intros)
qed

lemma http_tab_ok_step:
  assumes ok: "http_tab_ok X True E" "http_tab_ok X False P" and x: "x \<in> X"
    and st: "http_step x (E, P) = (E', P')"
  shows "http_tab_ok X True E' \<and> http_tab_ok X False P'"
proof (cases "gp_source (op_policy x)")
  case None
  with ok st show ?thesis by simp
next
  case (Some src)
  show ?thesis
  proof (cases src)
    case (GatewayPolicy_Grpc s)
    with ok st Some show ?thesis by simp
  next
    case (GatewayPolicy_Http s)
    with ok x st Some show ?thesis
      by (cases x) (auto intro: http_tab_ok_put http_tab_ok_del split: if_splits)
  qed
qed

lemma http_tab_ok_fold:
  "http_tab_ok X True (fst T) \<Longrightarrow> http_tab_ok X False (snd T) \<Longrightarrow> set xs \<subseteq> X \<Longrightarrow>
    http_tab_ok X True (fst (fold http_step xs T)) \<and> http_tab_ok X False (snd (fold http_step xs T))"
proof (induction xs arbitrary: T)
  case Nil
  then show ?case by simp
next
  case (Cons x xs)
  obtain E' P' where st: "http_step x T = (E', P')" by force
  with http_tab_ok_step [of X "fst T" "snd T" x E' P'] Cons.prems
  have "http_tab_ok X True E' \<and> http_tab_ok X False P'" by simp
  with Cons.IH [of "(E', P')"] Cons.prems st show ?case by simp
qed

lemma pick_Some:
  "pick ex T k = Some v \<Longrightarrow> \<exists>p. T p = Some v \<and> (if ex then p = k else prefix p k)"
  using longest_prefix_Some [of T k v] by (cases ex) (auto simp: pick_def)

lemma http_lookup_ok:
  assumes "http_tab_ok X ex T" and "http_lookup ex T path name = Some p"
  shows "AddPolicy p \<in> X \<and> (\<exists>s. gp_source p = Some (GatewayPolicy_Http s) \<and>
    (if hs_exact_path_match s then hs_path s = path else prefix (hs_path s) path) \<and>
    (hs_method s = HTTP_METHOD_UNDEFINED \<or> method_name (hs_method s) = name))"
proof -
  from assms(2) obtain d M where e: "pick ex T path = Some (d, M)" "entry_lookup (d, M) name = Some p"
    by (auto simp: http_lookup_def split: option.splits)
  from pick_Some [OF e(1)] obtain q where q: "T q = Some (d, M)" "if ex then q = path else prefix q path"
    by blast
  from e(2) have "M name = Some p \<or> d = Some p"
    by (auto simp: entry_lookup_def split: option.splits if_splits)
  with assms(1) q(1) have ok: "entry_ok X ex q (Some name) p \<or> entry_ok X ex q None p"
    unfolding http_tab_ok_def by blast
  then obtain s where s: "gp_source p = Some (GatewayPolicy_Http s)" "hs_path s = q"
      "hs_exact_path_match s = ex"
      "hs_method s = HTTP_METHOD_UNDEFINED \<or> method_name (hs_method s) = name"
    by (elim disjE) (simp_all only: entry_ok_def option.case, blast+)
  have "AddPolicy p \<in> X" using ok by (elim disjE) (simp_all only: entry_ok_def)
  with s q(2) show ?thesis by simp
qed

text \<open>Soundness of the tables over a history.\<close>

lemma grpc_spec_sound:
  assumes "grpc_spec (fold grpc_step ops no_routes) method = Some p"
  shows "AddPolicy p \<in> set ops \<and> (\<exists>s. gp_source p = Some (GatewayPolicy_Grpc s) \<and>
    (if gs_exact_method_name_match s then gs_method_name s = method
     else prefix (gs_method_name s) method))"
proof -
  let ?T = "fold grpc_step ops no_routes"
  have ok: "grpc_tab_ok (set ops) True (fst ?T)" "grpc_tab_ok (set ops) False (snd ?T)"
    using grpc_tab_ok_fold [of "set ops" no_routes ops] by (simp_all add: no_routes_def)
  show ?thesis
  proof (cases "fst ?T method")
    case (Some q)
    with assms ok(1) show ?thesis by (fastforce simp: grpc_spec_def grpc_tab_ok_def)
  next
    case None
    with assms have "longest_prefix (snd ?T) method = Some p" by (simp add: grpc_spec_def)
    from longest_prefix_Some [OF this] obtain k where "prefix k method" "snd ?T k = Some p" by blast
    with ok(2) show ?thesis by (fastforce simp: grpc_tab_ok_def)
  qed
qed

lemma http_spec_sound:
  assumes "http_spec (fold http_step ops no_routes) path name = Some p"
  shows "AddPolicy p \<in> set ops \<and> (\<exists>s. gp_source p = Some (GatewayPolicy_Http s) \<and>
    (if hs_exact_path_match s then hs_path s = path else prefix (hs_path s) path) \<and>
    (hs_method s = HTTP_METHOD_UNDEFINED \<or> method_name (hs_method s) = name))"
proof -
  let ?T = "fold http_step ops no_routes"
  have ok: "http_tab_ok (set ops) True (fst ?T)" "http_tab_ok (set ops) False (snd ?T)"
    using http_tab_ok_fold [of "set ops" no_routes ops] by (simp_all add: no_routes_def)
  show ?thesis
  proof (cases "http_lookup True (fst ?T) path name")
    case (Some q)
    with assms http_lookup_ok [OF ok(1) Some] show ?thesis by (simp add: http_spec_def)
  next
    case None
    with assms have "http_lookup False (snd ?T) path name = Some p" by (simp add: http_spec_def)
    with ok(2) show ?thesis by (rule http_lookup_ok)
  qed
qed

section \<open>Properties\<close>

text \<open>
  C1. Over any history of adding and dropping gRPC policies, the matcher never panics and
  answers every lookup as a table of exact method names and a table of method-name prefixes
  would: an exact route wins, otherwise the route with the longest registered prefix.
\<close>

theorem grpc_routing_refines_tables:
  assumes "radix_tree R" and "list_all op_grpc ops"
  shows "\<exists>sm. run_ops R (newSourceMatcher R) ops = Ret sm \<and>
    (\<forall>method. matchPolicy R sm [method] = Ret (grpc_spec (fold grpc_step ops no_routes) method))"
  using radix_tree.grpc_rel_run [OF assms(1) radix_tree.grpc_rel_new [OF assms(1)] assms(2)]
    radix_tree.grpc_rel_match [OF assms(1)] by blast

text \<open>
  C2. The same for HTTP policies: over any history, a lookup of a path and a method name
  answers as two tables of paths, one exact and one by longest prefix, whose entries hold a
  policy per method and a policy for any method. Updates through the nested matchers never
  touch another path.
\<close>

theorem http_routing_refines_tables:
  assumes "radix_tree R" and "list_all op_http ops"
  shows "\<exists>sm. run_ops R (newSourceMatcher R) ops = Ret sm \<and>
    (\<forall>path name. matchPolicy R sm [path, name] =
      Ret (http_spec (fold http_step ops no_routes) path name))"
  using radix_tree.http_rel_run [OF assms(1) radix_tree.http_rel_new [OF assms(1)] assms(2)]
    radix_tree.http_rel_match [OF assms(1)] by blast

text \<open>
  A gRPC lookup only ever returns a policy that was added, and one whose own source matches
  the method: equal to it for an exact policy, a prefix of it otherwise.
\<close>

theorem grpc_match_sound:
  assumes R: "radix_tree R" and ops: "list_all op_grpc ops"
    and run: "run_ops R (newSourceMatcher R) ops = Ret sm"
    and m: "matchPolicy R sm [method] = Ret (Some p)"
  shows "AddPolicy p \<in> set ops \<and> (\<exists>s. gp_source p = Some (GatewayPolicy_Grpc s) \<and>
    (if gs_exact_method_name_match s then gs_method_name s = method
     else prefix (gs_method_name s) method))"
proof -
  have "grpc_rel R sm (fold grpc_step ops no_routes)"
    using radix_tree.grpc_rel_run [OF R radix_tree.grpc_rel_new [OF R] ops] run by auto
  from radix_tree.grpc_rel_match [OF R this] m
  have "grpc_spec (fold grpc_step ops no_routes) method = Some p" by simp
  then show ?thesis by (rule grpc_spec_sound)
qed

text \<open>
  An HTTP lookup only ever returns a policy that was added, whose path is the request's
  path (exact policies) or a prefix of it, and whose method is the request's or undefined.
\<close>

theorem http_match_sound:
  assumes R: "radix_tree R" and ops: "list_all op_http ops"
    and run: "run_ops R (newSourceMatcher R) ops = Ret sm"
    and m: "matchPolicy R sm [path, name] = Ret (Some p)"
  shows "AddPolicy p \<in> set ops \<and> (\<exists>s. gp_source p = Some (GatewayPolicy_Http s) \<and>
    (if hs_exact_path_match s then hs_path s = path else prefix (hs_path s) path) \<and>
    (hs_method s = HTTP_METHOD_UNDEFINED \<or> method_name (hs_method s) = name))"
proof -
  have "http_rel R sm (fold http_step ops no_routes)"
    using radix_tree.http_rel_run [OF R radix_tree.http_rel_new [OF R] ops] run by auto
  from radix_tree.http_rel_match [OF R this] m
  have "http_spec (fold http_step ops no_routes) path name = Some p" by simp
  then show ?thesis by (rule http_spec_sound)
qed

section \<open>Witnesses\<close>

definition sample_grpc :: "string \<Rightarrow> bool \<Rightarrow> gateway_policy" where
  "sample_grpc name ex = \<lparr>gp_source = Some (GatewayPolicy_Grpc
     \<lparr>gs_method_name = name, gs_exact_method_name_match = ex\<rparr>),
     gp_handlers = [], gp_signal_header_key = []\<rparr>"

definition sample_http :: "string \<Rightarrow> HttpMethod \<Rightarrow> bool \<Rightarrow> gateway_policy" where
  "sample_http path m ex = \<lparr>gp_source = Some (GatewayPolicy_Http
     \<lparr>hs_method = m, hs_path = path, hs_exact_path_match = ex\<rparr>),
     gp_handlers = [], gp_signal_header_key = []\<rparr>"

lemmas radix_eval = alist_radix_def newSourceMatcher_def alloc_def put_cell_def
  newPolicyMatcher_def leaf_matcher_def addPolicy_def dropPolicy_def getPolicySource_def
  with_matcher_def with_tree_def matchPolicy_def longest_prefix_def Let_def
  sample_grpc_def sample_http_def op_grpc_def op_http_def

theorem grpc_routing_refines_tables_witness:
  "\<exists>sm. run_ops alist_radix (newSourceMatcher alist_radix)
      [AddPolicy (sample_grpc ''/a'' False), AddPolicy (sample_grpc ''/a/b'' True)] = Ret sm \<and>
    matchPolicy alist_radix sm [''/a/bc''] = Ret (Some (sample_grpc ''/a'' False))"
proof -
  let ?ops = "[AddPolicy (sample_grpc ''/a'' False), AddPolicy (sample_grpc ''/a/b'' True)]"
  have "list_all op_grpc ?ops" by (simp add: op_grpc_def sample_grpc_def)
  moreover have "grpc_spec (fold grpc_step ?ops no_routes) ''/a/bc'' = Some (sample_grpc ''/a'' False)"
    by (simp add: sample_grpc_def grpc_spec_def no_routes_def longest_prefix_def)
  ultimately show ?thesis
    using grpc_routing_refines_tables [OF alist_tree.radix_tree_axioms, of ?ops] by metis
qed

theorem http_routing_refines_tables_witness:
  "\<exists>sm. run_ops alist_radix (newSourceMatcher alist_radix)
      [AddPolicy (sample_http ''/a'' HTTP_METHOD_UNDEFINED False)] = Ret sm \<and>
    matchPolicy alist_radix sm [''/a/b'', ''HTTP_METHOD_GET''] =
      Ret (Some (sample_http ''/a'' HTTP_METHOD_UNDEFINED False))"
proof -
  let ?ops = "[AddPolicy (sample_http ''/a'' HTTP_METHOD_UNDEFINED False)]"
  have "list_all op_http ?ops" by (simp add: op_http_def sample_http_def)
  moreover have "http_spec (fold http_step ?ops no_routes) ''/a/b'' ''HTTP_METHOD_GET'' =
      Some (sample_http ''/a'' HTTP_METHOD_UNDEFINED False)"
    by (simp add: sample_http_def http_spec_def no_routes_def longest_prefix_def
      http_lookup_def pick_def http_put_def entry_lookup_def HttpMethod_value_def)
  ultimately show ?thesis
    using http_routing_refines_tables [OF alist_tree.radix_tree_axioms, of ?ops] by metis
qed

theorem grpc_match_sound_witness:
  "\<exists>s. gp_source (sample_grpc ''/a'' False) = Some (GatewayPolicy_Grpc s) \<and>
     prefix (gs_method_name s) ''/a/b''"
proof -
  let ?ops = "[AddPolicy (sample_grpc ''/a'' False)]"
  obtain sm where run: "run_ops alist_radix (newSourceMatcher alist_radix) ?ops = Ret sm"
    and m: "matchPolicy alist_radix sm [''/a/b''] = Ret (Some (sample_grpc ''/a'' False))"
    by (simp add: radix_eval)
  from grpc_match_sound [OF alist_tree.radix_tree_axioms _ run m]
  show ?thesis by (simp add: op_grpc_def sample_grpc_def)
qed

theorem http_match_sound_witness:
  "\<exists>s. gp_source (sample_http ''/a'' HTTP_METHOD_UNDEFINED True) = Some (GatewayPolicy_Http s) \<and>
     hs_path s = ''/a''"
proof -
  let ?ops = "[AddPolicy (sample_http ''/a'' HTTP_METHOD_UNDEFINED True)]"
  obtain sm where run: "run_ops alist_radix (newSourceMatcher alist_radix) ?ops = Ret sm"
    and m: "matchPolicy alist_radix sm [''/a'', ''HTTP_METHOD_GET''] =
      Ret (Some (sample_http ''/a'' HTTP_METHOD_UNDEFINED True))"
    by (simp add: radix_eval HttpMethod_value_def)
  from http_match_sound [OF alist_tree.radix_tree_axioms _ run m]
  show ?thesis by (simp add: op_http_def sample_http_def)
qed

end
