(* ===== verification/Synchronizer.thy ===== *)
theory Synchronizer
  imports Messages
begin

text \<open>
  The client side of the resource store's watch, \<^verbatim>\<open>pkg/resource/resource.go\<close>: the batch
  protocol \<^verbatim>\<open>Sync\<close> runs over its \<^verbatim>\<open>EventHandler\<close>, and the two goroutines of
  \<^verbatim>\<open>Sync\<close> (one receives from the stream, one handles what is received) as a step
  relation. The interface \<^verbatim>\<open>EventHandler\<close> is the locale \<open>batch_handler\<close>.
\<close>

section \<open>The event handler and one response\<close>

record 's event_handler =
  eh_before_batch :: "'s \<Rightarrow> 's eff"
  eh_on_updated :: "'s \<Rightarrow> resource \<Rightarrow> 's eff"
  eh_on_dropped :: "'s \<Rightarrow> resource \<Rightarrow> 's eff"
  eh_after_batch :: "'s \<Rightarrow> 's eff"
  eh_on_end_of_page :: "'s \<Rightarrow> 's eff"

record 's synchronizer =
  IndexCursor :: int64
  Handler :: 's

definition lift_eff :: "'s synchronizer \<Rightarrow> 's eff \<Rightarrow> 's synchronizer eff" where
  "lift_eff rss r = (case r of Done s \<Rightarrow> Done (rss\<lparr>Handler := s\<rparr>)
     | Fail e s \<Rightarrow> Fail e (rss\<lparr>Handler := s\<rparr>) | Crash p \<Rightarrow> Crash p)"

text \<open>The body of the two resource loops: a nil version panics, the cursor only grows.\<close>

definition note_resource ::
    "('s \<Rightarrow> resource \<Rightarrow> 's eff) \<Rightarrow> 's synchronizer \<Rightarrow> resource \<Rightarrow> 's synchronizer eff" where
  "note_resource f rss res = (case r_version res of
      None \<Rightarrow> Crash ''nil pointer dereference''
    | Some v \<Rightarrow>
        (let rss1 = (if sint (v_index v) > sint (IndexCursor rss)
                     then rss\<lparr>IndexCursor := v_index v\<rparr> else rss)
         in lift_eff rss1 (f (Handler rss1) res)))"

definition handle_response ::
    "'s event_handler \<Rightarrow> 's synchronizer \<Rightarrow> watch_response \<Rightarrow> 's synchronizer eff" where
  "handle_response H rss listRes =
     (if wr_end_of_list listRes then lift_eff rss (eh_on_end_of_page H (Handler rss))
      else and_then (lift_eff rss (eh_before_batch H (Handler rss)))
        (\<lambda>rss. and_then (for_each (note_resource (eh_on_updated H)) (wr_updated listRes) rss)
        (\<lambda>rss. and_then (for_each (note_resource (eh_on_dropped H)) (wr_dropped listRes) rss)
        (\<lambda>rss. lift_eff rss (eh_after_batch H (Handler rss))))))"

text \<open>The sequential meaning of a session: the responses handled one after the other.\<close>

definition handle_all ::
    "'s event_handler \<Rightarrow> watch_response list \<Rightarrow> 's synchronizer \<Rightarrow> 's synchronizer eff" where
  "handle_all H = for_each (handle_response H)"

section \<open>The two goroutines\<close>

text \<open>What \<^verbatim>\<open>watchStream.Recv\<close> returns, call after call, is a parameter: a script.\<close>

datatype recv_result = RecvMsg watch_response | RecvEOF | RecvError goerr

text \<open>
  Where the receiving goroutine is: at the check of the context, in \<^verbatim>\<open>Recv\<close>, offering a
  response or an error on its unbuffered channels, leaving the loop, with the error channel
  closed, with both channels closed (deferred calls run last in, first out).
\<close>

datatype recv_pc = R_Check | R_Recv | R_OfferList watch_response | R_OfferErr "goerr option"
  | R_Break | R_ErrClosed | R_BothClosed

text \<open>
  Where the handling goroutine is: in its \<^verbatim>\<open>select\<close>, returned from the inner function, or
  in a panic.
\<close>

datatype main_pc = M_Select | M_Return "goerr option" | M_Panic string

record 's session =
  ss_script :: "recv_result list"
  ss_recv :: recv_pc
  ss_main :: main_pc
  ss_cancelled :: bool
  ss_sync :: "'s synchronizer"

fun after_recv :: "recv_result \<Rightarrow> recv_pc" where
  "after_recv (RecvMsg m) = R_OfferList m"
| "after_recv RecvEOF = R_OfferErr None"
| "after_recv (RecvError e) = R_OfferErr (Some e)"

fun after_handle :: "'s synchronizer eff \<Rightarrow> 's session \<Rightarrow> 's session" where
  "after_handle (Done r) c = c\<lparr>ss_sync := r\<rparr>"
| "after_handle (Fail e r) c = c\<lparr>ss_sync := r, ss_main := M_Return (Some e)\<rparr>"
| "after_handle (Crash p) c = c\<lparr>ss_main := M_Panic p\<rparr>"

inductive sync_step :: "'s event_handler \<Rightarrow> 's session \<Rightarrow> 's session \<Rightarrow> bool" for H where
  cancel: "sync_step H c (c\<lparr>ss_cancelled := True\<rparr>)"
| check: "ss_recv c = R_Check \<Longrightarrow>
    sync_step H c (c\<lparr>ss_recv := (if ss_cancelled c then R_Break else R_Recv)\<rparr>)"
| recv: "ss_recv c = R_Recv \<Longrightarrow> ss_script c = x # xs \<Longrightarrow>
    sync_step H c (c\<lparr>ss_script := xs, ss_recv := after_recv x\<rparr>)"
| close_err: "ss_recv c = R_Break \<Longrightarrow> sync_step H c (c\<lparr>ss_recv := R_ErrClosed\<rparr>)"
| close_list: "ss_recv c = R_ErrClosed \<Longrightarrow> sync_step H c (c\<lparr>ss_recv := R_BothClosed\<rparr>)"
| take_list: "ss_main c = M_Select \<Longrightarrow> ss_recv c = R_OfferList m \<Longrightarrow>
    sync_step H c (after_handle (handle_response H (ss_sync c) m) (c\<lparr>ss_recv := R_Check\<rparr>))"
| take_err: "ss_main c = M_Select \<Longrightarrow> ss_recv c = R_OfferErr e \<Longrightarrow>
    sync_step H c (c\<lparr>ss_recv := R_Break, ss_main := M_Return e\<rparr>)"
| take_closed_err: "ss_main c = M_Select \<Longrightarrow> ss_recv c = R_ErrClosed \<or> ss_recv c = R_BothClosed \<Longrightarrow>
    sync_step H c (c\<lparr>ss_main := M_Return None\<rparr>)"
| take_closed_list: "ss_main c = M_Select \<Longrightarrow> ss_recv c = R_BothClosed \<Longrightarrow>
    sync_step H c (c\<lparr>ss_main := M_Panic ''nil pointer dereference''\<rparr>)"
| ctx_done: "ss_main c = M_Select \<Longrightarrow> ss_cancelled c \<Longrightarrow>
    sync_step H c (c\<lparr>ss_main := M_Return (Some ErrCanceled)\<rparr>)"

definition start_session :: "recv_result list \<Rightarrow> 's synchronizer \<Rightarrow> 's session" where
  "start_session script r =
     \<lparr>ss_script = script, ss_recv = R_Check, ss_main = M_Select, ss_cancelled = False, ss_sync = r\<rparr>"

inductive reachable ::
    "'s event_handler \<Rightarrow> recv_result list \<Rightarrow> 's synchronizer \<Rightarrow> 's session \<Rightarrow> bool"
    for H script r where
  start: "reachable H script r (start_session script r)"
| step: "reachable H script r c \<Longrightarrow> sync_step H c c' \<Longrightarrow> reachable H script r c'"

section \<open>Invariants of a session\<close>

text \<open>
  \<open>consumed script c\<close>: the results the receiver has taken from the script, and what of them
  is still on offer.
\<close>

definition offered :: "recv_pc \<Rightarrow> recv_result list" where
  "offered p = (case p of R_OfferList m \<Rightarrow> [RecvMsg m] | R_OfferErr None \<Rightarrow> [RecvEOF]
     | R_OfferErr (Some e) \<Rightarrow> [RecvError e] | _ \<Rightarrow> [])"

lemma offered_after_recv [simp]: "offered (after_recv x) = [x]"
  by (cases x) (simp_all add: offered_def)

lemma offered_simps [simp]:
  "offered R_Check = []" "offered R_Recv = []" "offered (R_OfferList m) = [RecvMsg m]"
  "offered R_Break = []" "offered R_ErrClosed = []" "offered R_BothClosed = []"
  by (simp_all add: offered_def)

text \<open>
  The handling goroutine has handled a prefix of the script's responses, in order, once each:
  the synchronizer is the sequential run over that prefix.
\<close>

definition main_ok ::
    "'s event_handler \<Rightarrow> 's synchronizer \<Rightarrow> watch_response list \<Rightarrow> recv_result list \<Rightarrow> 's session \<Rightarrow> bool"
  where "main_ok H r ms rest c = (case ss_main c of
      M_Select \<Rightarrow> handle_all H ms r = Done (ss_sync c) \<and> rest = offered (ss_recv c) @ ss_script c
    | M_Return None \<Rightarrow> handle_all H ms r = Done (ss_sync c) \<and>
        (ss_cancelled c \<or> take 1 rest = [RecvEOF])
    | M_Return (Some e) \<Rightarrow> handle_all H ms r = Fail e (ss_sync c) \<or>
        handle_all H ms r = Done (ss_sync c) \<and>
        (ss_cancelled c \<and> e = ErrCanceled \<or> take 1 rest = [RecvError e])
    | M_Panic p \<Rightarrow> handle_all H ms r = Crash p \<or>
        handle_all H ms r = Done (ss_sync c) \<and> ss_cancelled c)"

definition closed_ok :: "'s session \<Rightarrow> bool" where
  "closed_ok c \<longleftrightarrow> (ss_main c = M_Select \<longrightarrow>
     ss_recv c = R_Break \<or> ss_recv c = R_ErrClosed \<or> ss_recv c = R_BothClosed \<longrightarrow> ss_cancelled c)"

definition session_inv ::
    "'s event_handler \<Rightarrow> recv_result list \<Rightarrow> 's synchronizer \<Rightarrow> 's session \<Rightarrow> bool" where
  "session_inv H script r c \<longleftrightarrow>
     (\<exists>ms rest. script = map RecvMsg ms @ rest \<and> main_ok H r ms rest c) \<and> closed_ok c"

lemma handle_all_snoc:
  "handle_all H (ms @ [m]) r = and_then (handle_all H ms r) (\<lambda>r. handle_response H r m)"
proof -
  have "for_each (handle_response H) [m] = (\<lambda>r. handle_response H r m)"
  proof
    fix r show "for_each (handle_response H) [m] r = handle_response H r m"
      by (cases "handle_response H r m") simp_all
  qed
  then show ?thesis by (simp only: handle_all_def for_each_append)
qed

lemma session_inv_start: "session_inv H script r (start_session script r)"
  unfolding session_inv_def main_ok_def closed_ok_def
  by (auto simp: start_session_def handle_all_def intro: exI [of _ "[]"])

text \<open>A step that does not touch what \<open>main_ok\<close> looks at.\<close>

lemma main_ok_idle:
  "main_ok H r ms rest c \<Longrightarrow> ss_main c' = ss_main c \<Longrightarrow> ss_sync c' = ss_sync c \<Longrightarrow>
    (ss_cancelled c \<Longrightarrow> ss_cancelled c') \<Longrightarrow>
    offered (ss_recv c') @ ss_script c' = offered (ss_recv c) @ ss_script c \<Longrightarrow>
    main_ok H r ms rest c'"
  by (auto simp: main_ok_def split: main_pc.splits option.splits)

lemma session_inv_idle:
  "session_inv H script r c \<Longrightarrow> ss_main c' = ss_main c \<Longrightarrow> ss_sync c' = ss_sync c \<Longrightarrow>
    (ss_cancelled c \<Longrightarrow> ss_cancelled c') \<Longrightarrow>
    offered (ss_recv c') @ ss_script c' = offered (ss_recv c) @ ss_script c \<Longrightarrow>
    closed_ok c' \<Longrightarrow> session_inv H script r c'"
  unfolding session_inv_def by (blast intro: main_ok_idle)

lemma session_inv_take_list:
  assumes i: "session_inv H script r c" and m: "ss_main c = M_Select" "ss_recv c = R_OfferList m"
  shows "session_inv H script r (after_handle (handle_response H (ss_sync c) m) (c\<lparr>ss_recv := R_Check\<rparr>))"
proof -
  from i m obtain ms where s: "script = map RecvMsg ms @ RecvMsg m # ss_script c"
    and d: "handle_all H ms r = Done (ss_sync c)"
    by (auto simp: session_inv_def main_ok_def)
  have h: "handle_all H (ms @ [m]) r = handle_response H (ss_sync c) m"
    by (simp add: handle_all_snoc d)
  have "main_ok H r (ms @ [m]) (ss_script c)
      (after_handle (handle_response H (ss_sync c) m) (c\<lparr>ss_recv := R_Check\<rparr>))"
    using m h by (cases "handle_response H (ss_sync c) m") (simp_all add: main_ok_def)
  moreover have "closed_ok (after_handle (handle_response H (ss_sync c) m) (c\<lparr>ss_recv := R_Check\<rparr>))"
    by (cases "handle_response H (ss_sync c) m") (simp_all add: closed_ok_def)
  ultimately show ?thesis unfolding session_inv_def
    using s by (intro conjI exI [of _ "ms @ [m]"] exI [of _ "ss_script c"]) simp_all
qed

lemma session_inv_leave:
  assumes i: "session_inv H script r c" and m: "ss_main c = M_Select"
    and c': "ss_sync c' = ss_sync c" "ss_main c' \<noteq> M_Select"
    and ok: "\<And>ms rest. handle_all H ms r = Done (ss_sync c) \<Longrightarrow>
      rest = offered (ss_recv c) @ ss_script c \<Longrightarrow> main_ok H r ms rest c'"
  shows "session_inv H script r c'"
proof -
  from i m obtain ms where "script = map RecvMsg ms @ offered (ss_recv c) @ ss_script c"
    "handle_all H ms r = Done (ss_sync c)" by (auto simp: session_inv_def main_ok_def)
  with ok c'(2) show ?thesis unfolding session_inv_def closed_ok_def by blast
qed

lemma not_leaving_after_recv:
  "after_recv x \<noteq> R_Break" "after_recv x \<noteq> R_ErrClosed" "after_recv x \<noteq> R_BothClosed"
  by (cases x; simp)+

lemma session_inv_step:
  assumes "sync_step H c c'" and "session_inv H script r c"
  shows "session_inv H script r c'"
  using assms
proof (induction rule: sync_step.induct)
  case (cancel c)
  then show ?case by (rule session_inv_idle) (simp_all add: closed_ok_def)
next
  case (check c)
  from check(2) show ?case
    by (rule session_inv_idle) (simp_all add: check(1) closed_ok_def split: if_splits)
next
  case (recv c x xs)
  from recv(3) show ?case
    by (rule session_inv_idle) (simp_all add: recv(1,2) closed_ok_def not_leaving_after_recv)
next
  case (close_err c)
  from close_err(2) have "closed_ok c" by (simp add: session_inv_def)
  then show ?case
    by (intro session_inv_idle [OF close_err(2)]) (simp_all add: close_err(1) closed_ok_def)
next
  case (close_list c)
  from close_list(2) have "closed_ok c" by (simp add: session_inv_def)
  then show ?case
    by (intro session_inv_idle [OF close_list(2)]) (simp_all add: close_list(1) closed_ok_def)
next
  case (take_list c m)
  from take_list(3,1,2) show ?case by (rule session_inv_take_list)
next
  case (take_err c e)
  from take_err(3,1) show ?case
    by (rule session_inv_leave)
      (simp_all add: main_ok_def take_err(2) offered_def split: option.splits)
next
  case (take_closed_err c)
  from take_closed_err(3) have "closed_ok c" by (simp add: session_inv_def)
  with take_closed_err(1,2) have "ss_cancelled c" by (auto simp: closed_ok_def)
  then show ?case
    by (intro session_inv_leave [OF take_closed_err(3,1)]) (simp_all add: main_ok_def)
next
  case (take_closed_list c)
  from take_closed_list(3) have "closed_ok c" by (simp add: session_inv_def)
  with take_closed_list(1,2) have "ss_cancelled c" by (auto simp: closed_ok_def)
  then show ?case
    by (intro session_inv_leave [OF take_closed_list(3,1)]) (simp_all add: main_ok_def)
next
  case (ctx_done c)
  from ctx_done(3,1) show ?case
    by (rule session_inv_leave) (simp_all add: main_ok_def ctx_done(2))
qed

lemma reachable_inv: "reachable H script r c \<Longrightarrow> session_inv H script r c"
  by (induction rule: reachable.induct) (auto intro: session_inv_start session_inv_step)

section \<open>The contract of an event handler\<close>

text \<open>
  \<open>idle\<close> holds between batches, \<open>in_batch\<close> between \<^verbatim>\<open>BeforeBatch\<close> and
  \<^verbatim>\<open>AfterBatch\<close>; \<open>admissible\<close> says which resources the handler promises not to panic on.
\<close>

definition eff_done :: "('s \<Rightarrow> bool) \<Rightarrow> 's eff \<Rightarrow> bool" where
  "eff_done I r \<longleftrightarrow> (case r of Done s \<Rightarrow> I s | Fail e s \<Rightarrow> True | Crash p \<Rightarrow> False)"

lemma eff_done_simps [simp]:
  "eff_done I (Done s) = I s" "eff_done I (Fail e s)" "\<not> eff_done I (Crash p)"
  by (simp_all add: eff_done_def)

lemma eff_done_and_then [eff_intros]:
  "eff_done I r \<Longrightarrow> (\<And>s. I s \<Longrightarrow> eff_done J (f s)) \<Longrightarrow> eff_done J (and_then r f)"
  by (cases r) auto

lemma eff_done_for_each [eff_intros]:
  assumes "I s" and "\<And>s x. I s \<Longrightarrow> x \<in> set xs \<Longrightarrow> eff_done I (f s x)"
  shows "eff_done I (for_each f xs s)"
  using assms
proof (induction xs arbitrary: s)
  case Nil
  then show ?case by simp
next
  case (Cons x xs)
  have "eff_done I (f s x)" using Cons.prems by simp
  moreover have "eff_done I (for_each f xs t)" if "I t" for t
    using that Cons.prems(2) by (intro Cons.IH) simp_all
  ultimately show ?case by (simp add: eff_done_and_then)
qed

locale batch_handler =
  fixes H :: "'s event_handler"
    and idle :: "'s \<Rightarrow> bool" and in_batch :: "'s \<Rightarrow> bool" and admissible :: "resource \<Rightarrow> bool"
  assumes before_ok: "idle s \<Longrightarrow> eff_done in_batch (eh_before_batch H s)"
    and updated_ok: "in_batch s \<Longrightarrow> admissible x \<Longrightarrow> eff_done in_batch (eh_on_updated H s x)"
    and dropped_ok: "in_batch s \<Longrightarrow> admissible x \<Longrightarrow> eff_done in_batch (eh_on_dropped H s x)"
    and after_ok: "in_batch s \<Longrightarrow> eff_done idle (eh_after_batch H s)"
    and end_ok: "idle s \<Longrightarrow> eff_done idle (eh_on_end_of_page H s)"

text \<open>A response the handler can be given: every resource has a version and is admissible.\<close>

definition response_ok :: "(resource \<Rightarrow> bool) \<Rightarrow> watch_response \<Rightarrow> bool" where
  "response_ok A m \<longleftrightarrow> list_all (\<lambda>x. r_version x \<noteq> None \<and> A x) (wr_updated m @ wr_dropped m)"

lemma lift_eff_done: "eff_done I r \<Longrightarrow> eff_done (\<lambda>x. I (Handler x)) (lift_eff rss r)"
  by (cases r) (simp_all add: lift_eff_def)

lemma note_resource_done:
  assumes "r_version x \<noteq> None" and "\<And>s. I s \<Longrightarrow> eff_done I (f s x)" and "I (Handler rss)"
  shows "eff_done (\<lambda>y. I (Handler y)) (note_resource f rss x)"
proof -
  obtain v where "r_version x = Some v" using assms(1) by auto
  then show ?thesis using assms(2,3)
    by (auto simp: note_resource_def Let_def intro!: lift_eff_done)
qed

context batch_handler begin

lemma handle_response_done:
  assumes i: "idle (Handler rss)" and m: "response_ok admissible m"
  shows "eff_done (\<lambda>y. idle (Handler y)) (handle_response H rss m)"
proof (cases "wr_end_of_list m")
  case True
  then show ?thesis using i by (simp add: handle_response_def lift_eff_done end_ok)
next
  case False
  let ?J = "\<lambda>y. in_batch (Handler y)"
  have up: "eff_done ?J (for_each (note_resource (eh_on_updated H)) (wr_updated m) y)" if "?J y" for y
    using that m updated_ok
    by (intro eff_done_for_each note_resource_done) (auto simp: response_ok_def list_all_iff)
  have dr: "eff_done ?J (for_each (note_resource (eh_on_dropped H)) (wr_dropped m) y)" if "?J y" for y
    using that m dropped_ok
    by (intro eff_done_for_each note_resource_done) (auto simp: response_ok_def list_all_iff)
  have af: "eff_done (\<lambda>y. idle (Handler y)) (lift_eff y (eh_after_batch H (Handler y)))" if "?J y" for y
    using that by (intro lift_eff_done after_ok)
  show ?thesis
    unfolding handle_response_def
    using False by (auto intro!: eff_done_and_then [OF lift_eff_done [OF before_ok [OF i]]]
        eff_done_and_then [OF up] eff_done_and_then [OF dr] af)
qed

lemma handle_all_done:
  "idle (Handler rss) \<Longrightarrow> list_all (response_ok admissible) ms \<Longrightarrow>
    eff_done (\<lambda>y. idle (Handler y)) (handle_all H ms rss)"
  unfolding handle_all_def
  by (rule eff_done_for_each) (auto simp: list_all_iff intro: handle_response_done)

text \<open>A session over admissible responses never panics, unless it is cancelled.\<close>

lemma session_safe:
  assumes "reachable H script rss c" and "idle (Handler rss)"
    and "\<And>m. RecvMsg m \<in> set script \<Longrightarrow> response_ok admissible m"
  shows "(ss_main c = M_Select \<longrightarrow> idle (Handler (ss_sync c))) \<and>
    (\<forall>p. ss_main c = M_Panic p \<longrightarrow> ss_cancelled c)"
proof -
  obtain ms rest where s: "script = map RecvMsg ms @ rest" and m: "main_ok H rss ms rest c"
    using reachable_inv [OF assms(1)] by (auto simp: session_inv_def)
  have "list_all (response_ok admissible) ms"
    using assms(3) s by (auto simp: list_all_iff)
  with assms(2) have "eff_done (\<lambda>y. idle (Handler y)) (handle_all H ms rss)"
    by (rule handle_all_done)
  with m show ?thesis
    by (cases "ss_main c") (auto simp: main_ok_def)
qed

end

section \<open>The cursor\<close>

definition cursor_from :: "int \<Rightarrow> 's synchronizer \<Rightarrow> bool" where
  "cursor_from k rss \<longleftrightarrow> k \<le> sint (IndexCursor rss)"

lemma lift_eff_cursor [eff_intros]: "cursor_from k rss \<Longrightarrow> eff_inv (cursor_from k) (lift_eff rss r)"
  by (cases r) (simp_all add: lift_eff_def cursor_from_def)

lemma note_resource_cursor [eff_intros]:
  "cursor_from k rss \<Longrightarrow> eff_inv (cursor_from k) (note_resource f rss x)"
  by (auto simp: note_resource_def Let_def cursor_from_def intro!: lift_eff_cursor split: option.splits)

lemma handle_response_cursor:
  "cursor_from k rss \<Longrightarrow> eff_inv (cursor_from k) (handle_response H rss m)"
  unfolding handle_response_def by (auto intro!: eff_intros)

text \<open>The handling goroutine changes its state in one kind of step only.\<close>

inductive_cases sync_stepE: "sync_step H c c'"

lemma step_sync:
  assumes "sync_step H c c'"
  shows "ss_sync c' = ss_sync c \<or> (\<exists>m. ss_main c = M_Select \<and>
    c' = after_handle (handle_response H (ss_sync c) m) (c\<lparr>ss_recv := R_Check\<rparr>))"
  using assms by (rule sync_stepE) auto

text \<open>The run that takes the closed response channel.\<close>

lemma closed_channel_panic:
  "\<exists>c. reachable H script r c \<and> ss_main c = M_Panic ''nil pointer dereference'' \<and> ss_sync c = r"
proof -
  define c0 where "c0 = start_session script r"
  define c1 where "c1 = c0\<lparr>ss_cancelled := True\<rparr>"
  define c2 where "c2 = c1\<lparr>ss_recv := R_Break\<rparr>"
  define c3 where "c3 = c2\<lparr>ss_recv := R_ErrClosed\<rparr>"
  define c4 where "c4 = c3\<lparr>ss_recv := R_BothClosed\<rparr>"
  note defs = c4_def c3_def c2_def c1_def c0_def start_session_def
  have "reachable H script r c0" unfolding c0_def by (rule start)
  then have "reachable H script r c1" unfolding c1_def by (rule step) (rule cancel)
  moreover have "sync_step H c1 c2"
    using check [of c1 H] by (simp add: c2_def c1_def c0_def start_session_def)
  ultimately have "reachable H script r c2" by (rule step)
  moreover have "sync_step H c2 c3" unfolding c3_def by (rule close_err) (simp add: c2_def)
  ultimately have "reachable H script r c3" by (rule step)
  moreover have "sync_step H c3 c4" unfolding c4_def by (rule close_list) (simp add: c3_def)
  ultimately have "reachable H script r c4" by (rule step)
  moreover have "sync_step H c4 (c4\<lparr>ss_main := M_Panic ''nil pointer dereference''\<rparr>)"
    by (rule take_closed_list) (simp_all add: defs)
  ultimately have "reachable H script r (c4\<lparr>ss_main := M_Panic ''nil pointer dereference''\<rparr>)"
    by (rule step)
  moreover have "ss_main (c4\<lparr>ss_main := M_Panic ''nil pointer dereference''\<rparr>) =
      M_Panic ''nil pointer dereference'' \<and> ss_sync (c4\<lparr>ss_main := M_Panic ''nil pointer dereference''\<rparr>) = r"
    by (simp add: defs)
  ultimately show ?thesis by blast
qed

text \<open>A handler that does nothing, for the witnesses.\<close>

definition trivial_handler :: "unit event_handler" where
  "trivial_handler = \<lparr>eh_before_batch = Done, eh_on_updated = (\<lambda>s x. Done s),
     eh_on_dropped = (\<lambda>s x. Done s), eh_after_batch = Done, eh_on_end_of_page = Done\<rparr>"

definition start_sync :: "unit synchronizer" where
  "start_sync = \<lparr>IndexCursor = 0, Handler = ()\<rparr>"

section \<open>Properties\<close>

text \<open>
  C11. Whatever the interleaving of the two goroutines and whenever the context is cancelled, the
  handler is given a prefix of the stream's responses, each once, in order: the state of a
  session is the sequential run over that prefix. It returns nil only at the end of the
  stream or after cancellation, and an error only if the handler or the stream returned it or
  the context was cancelled.
\<close>

theorem sync_handles_prefix_in_order:
  assumes "reachable H script r c"
  shows "\<exists>ms rest. script = map RecvMsg ms @ rest \<and> (case ss_main c of
      M_Select \<Rightarrow> handle_all H ms r = Done (ss_sync c)
    | M_Return None \<Rightarrow> handle_all H ms r = Done (ss_sync c) \<and>
        (ss_cancelled c \<or> take 1 rest = [RecvEOF])
    | M_Return (Some e) \<Rightarrow> handle_all H ms r = Fail e (ss_sync c) \<or>
        handle_all H ms r = Done (ss_sync c) \<and>
        (ss_cancelled c \<and> e = ErrCanceled \<or> take 1 rest = [RecvError e])
    | M_Panic p \<Rightarrow> handle_all H ms r = Crash p \<or>
        handle_all H ms r = Done (ss_sync c) \<and> ss_cancelled c)"
proof -
  obtain ms rest where "script = map RecvMsg ms @ rest" "main_ok H r ms rest c"
    using reachable_inv [OF assms] by (auto simp: session_inv_def)
  then show ?thesis
    by (intro exI [of _ ms] exI [of _ rest]) (auto simp: main_ok_def split: main_pc.splits option.splits)
qed

theorem sync_handles_prefix_in_order_witness:
  "\<exists>ms rest. [RecvEOF] = map RecvMsg ms @ rest \<and>
     handle_all trivial_handler ms start_sync = Done start_sync"
proof -
  have "reachable trivial_handler [RecvEOF] start_sync (start_session [RecvEOF] start_sync)"
    by (rule start)
  from sync_handles_prefix_in_order [OF this] show ?thesis by (auto simp: start_session_def)
qed

text \<open>
  No step of a session moves the index cursor back, errors of the handler included.
\<close>

theorem index_cursor_never_decreases:
  assumes "sync_step H c c'"
  shows "sint (IndexCursor (ss_sync c)) \<le> sint (IndexCursor (ss_sync c'))"
proof -
  have "cursor_from (sint (IndexCursor (ss_sync c)))
      (ss_sync (after_handle (handle_response H (ss_sync c) m) (c\<lparr>ss_recv := R_Check\<rparr>)))" for m
    using handle_response_cursor [of "sint (IndexCursor (ss_sync c))" "ss_sync c" H m]
    by (cases "handle_response H (ss_sync c) m") (simp_all add: cursor_from_def)
  with step_sync [OF assms] show ?thesis by (auto simp: cursor_from_def)
qed

theorem index_cursor_never_decreases_witness:
  "\<exists>c'. sync_step trivial_handler ((start_session [] start_sync)\<lparr>ss_recv := R_OfferList \<lparr>wr_updated = [],
      wr_dropped = [], wr_end_of_list = False\<rparr>\<rparr>) c' \<and> 0 \<le> sint (IndexCursor (ss_sync c'))"
proof -
  let ?m = "\<lparr>wr_updated = [], wr_dropped = [], wr_end_of_list = False\<rparr>"
  let ?c = "(start_session [] start_sync)\<lparr>ss_recv := R_OfferList ?m\<rparr>"
  have "sync_step trivial_handler ?c
      (after_handle (handle_response trivial_handler (ss_sync ?c) ?m) (?c\<lparr>ss_recv := R_Check\<rparr>))"
    by (rule take_list) (simp_all add: start_session_def)
  from this index_cursor_never_decreases [OF this] show ?thesis
    by (intro exI conjI) (simp_all add: start_session_def start_sync_def)
qed

text \<open>
  A cancellation can crash the client: after the context is cancelled, the receiver may
  leave its loop and close both channels while the handler waits in its \<^verbatim>\<open>select\<close>, which
  may then take the closed response channel and dereference the nil response.
\<close>

theorem cancelled_sync_can_panic:
  "\<exists>c. reachable H script r c \<and> ss_main c = M_Panic ''nil pointer dereference'' \<and> ss_sync c = r"
  by (rule closed_channel_panic)

end
