(* ===== verification/Gateway.thy ===== *)
theory Gateway
  imports RouteProps Synchronizer
begin

text \<open>
  The gateway, \<^verbatim>\<open>pkg/gateway/gateway.go\<close> with \<^verbatim>\<open>handler.go\<close> and \<^verbatim>\<open>helpers.go\<close>: it
  follows the resource store as an event handler, keeps the active policies and the two source
  matchers in step with it, and matches incoming calls. Unmarshalling a spec and the handlers'
  own \<^verbatim>\<open>ProcessPolicies\<close> are parameters; the calls made to the handlers are kept in a log.
\<close>

section \<open>Handlers\<close>

type_synonym HandlerType = string

definition HandlerTypeUndefined :: HandlerType where "HandlerTypeUndefined = []"
definition HandlerTypeAwsLambda :: HandlerType where "HandlerTypeAwsLambda = ''aws_lambda''"

type_synonym 'h handlerMatcher = "HandlerType \<rightharpoonup> 'h"

definition newHandlerMatcher :: "'h handlerMatcher" where
  "newHandlerMatcher = Map.empty"

definition getHandler :: "'h handlerMatcher \<Rightarrow> HandlerType \<Rightarrow> 'h option" where
  "getHandler hm h = (case hm h of Some x \<Rightarrow> Some x | None \<Rightarrow> None)"

definition fromHandlersSlice ::
    "('h \<Rightarrow> HandlerType) \<Rightarrow> 'h list \<Rightarrow> 'h handlerMatcher \<Rightarrow> 'h handlerMatcher" where
  "fromHandlersSlice GetHandlerType handlers hm = fold (\<lambda>x hm. hm(GetHandlerType x \<mapsto> x)) handlers hm"

text \<open>The two type switches: any shape but an AWS Lambda handler panics.\<close>

definition getHandlerFromOneOf :: "policy_handler \<Rightarrow> (lambda_function \<times> HandlerType) val" where
  "getHandlerFromOneOf x = (case ph_handler x of
      Some (GatewayPolicy_Handler_Aws aws) \<Rightarrow>
        (case ah_handler aws of
           Some (AwsHandler_Lambda l) \<Rightarrow> Ret (l, HandlerTypeAwsLambda)
         | None \<Rightarrow> Panics ''unreachable'')
    | None \<Rightarrow> Panics ''unreachable'')"

type_synonym handler_policies = "HandlerType \<rightharpoonup> gateway_policy list"

fun addPolicyToHandlerMap_loop ::
    "gateway_policy \<Rightarrow> policy_handler list \<Rightarrow> handler_policies \<Rightarrow> handler_policies val" where
  "addPolicyToHandlerMap_loop policy [] hm = Ret hm"
| "addPolicyToHandlerMap_loop policy (x # xs) hm = (case getHandlerFromOneOf x of
      Panics e \<Rightarrow> Panics e
    | Ret (_, handlerType) \<Rightarrow>
        if handlerType = HandlerTypeUndefined then addPolicyToHandlerMap_loop policy xs hm
        else addPolicyToHandlerMap_loop policy xs (hm(handlerType \<mapsto>
          (case hm handlerType of None \<Rightarrow> [] | Some ps \<Rightarrow> ps) @ [policy])))"

definition addPolicyToHandlerMap ::
    "gateway_policy \<Rightarrow> handler_policies \<Rightarrow> handler_policies val" where
  "addPolicyToHandlerMap policy hm = addPolicyToHandlerMap_loop policy (gp_handlers policy) hm"

section \<open>The gateway as an event handler\<close>

record ('t, 'h) gateway =
  gw_handlers :: "'h handlerMatcher"
  gw_active :: "string \<rightharpoonup> gateway_policy"
  gw_updated :: "(string \<rightharpoonup> gateway_policy) option"
  gw_dropped :: "(string \<rightharpoonup> gateway_policy) option"
  gw_grpc :: "'t sourceMatcher"
  gw_http :: "'t sourceMatcher"
  gw_log :: "('h \<times> gateway_policy list \<times> gateway_policy list) list"

text \<open>
  What the gateway calls and the repository does not define: the radix tree, unmarshalling a
  spec into a policy (\<open>None\<close>: an error), a handler's type and what its
  \<^verbatim>\<open>ProcessPolicies\<close> returns.
\<close>

record ('t, 'h) gateway_env =
  ge_radix :: "'t radix_ops"
  ge_unmarshal :: "any_msg option \<Rightarrow> gateway_policy option"
  ge_handler_type :: "'h \<Rightarrow> HandlerType"
  ge_process :: "'h \<Rightarrow> gateway_policy list \<Rightarrow> gateway_policy list \<Rightarrow> goerr option"

definition Initialize :: "('t, 'h) gateway_env \<Rightarrow> 'h list \<Rightarrow> ('t, 'h) gateway" where
  "Initialize E handlers =
     \<lparr>gw_handlers = fromHandlersSlice (ge_handler_type E) handlers newHandlerMatcher,
      gw_active = Map.empty, gw_updated = None, gw_dropped = None,
      gw_grpc = newSourceMatcher (ge_radix E), gw_http = newSourceMatcher (ge_radix E),
      gw_log = []\<rparr>"

definition BeforeBatch :: "('t, 'h) gateway \<Rightarrow> ('t, 'h) gateway eff" where
  "BeforeBatch g = Done (g\<lparr>gw_updated := Some Map.empty, gw_dropped := Some Map.empty\<rparr>)"

text \<open>Storing into a map that is still nil panics.\<close>

definition OnUpdated ::
    "('t, 'h) gateway_env \<Rightarrow> ('t, 'h) gateway \<Rightarrow> resource \<Rightarrow> ('t, 'h) gateway eff" where
  "OnUpdated E g updatedRes = (case ge_unmarshal E (r_spec updatedRes) of
      None \<Rightarrow> Done g
    | Some policy \<Rightarrow>
        (case gw_updated g of None \<Rightarrow> Crash ''assignment to entry in nil map''
         | Some m \<Rightarrow> Done (g\<lparr>gw_updated := Some (m(r_id updatedRes \<mapsto> policy))\<rparr>)))"

definition OnDropped ::
    "('t, 'h) gateway_env \<Rightarrow> ('t, 'h) gateway \<Rightarrow> resource \<Rightarrow> ('t, 'h) gateway eff" where
  "OnDropped E g droppedRes = (case ge_unmarshal E (r_spec droppedRes) of
      None \<Rightarrow> Done g
    | Some policy \<Rightarrow>
        (case gw_dropped g of None \<Rightarrow> Crash ''assignment to entry in nil map''
         | Some m \<Rightarrow> Done (g\<lparr>gw_dropped := Some (m(r_id droppedRes \<mapsto> policy))\<rparr>)))"

text \<open>The type switch on \<^verbatim>\<open>policy.Source\<close> of the two loops, then the handler map.\<close>

definition on_matcher ::
    "(gateway_policy \<Rightarrow> 't sourceMatcher \<Rightarrow> 't sourceMatcher val) \<Rightarrow> gateway_policy \<Rightarrow>
     ('t, 'h) gateway \<Rightarrow> ('t, 'h) gateway val" where
  "on_matcher f policy g = (case gp_source policy of
      Some (GatewayPolicy_Grpc _) \<Rightarrow>
        (case f policy (gw_grpc g) of Ret sm \<Rightarrow> Ret (g\<lparr>gw_grpc := sm\<rparr>) | Panics e \<Rightarrow> Panics e)
    | Some (GatewayPolicy_Http _) \<Rightarrow>
        (case f policy (gw_http g) of Ret sm \<Rightarrow> Ret (g\<lparr>gw_http := sm\<rparr>) | Panics e \<Rightarrow> Panics e)
    | None \<Rightarrow> Ret g)"

definition note_policy ::
    "(gateway_policy \<Rightarrow> 't sourceMatcher \<Rightarrow> 't sourceMatcher val) \<Rightarrow> gateway_policy \<Rightarrow>
     ('t, 'h) gateway \<times> handler_policies \<Rightarrow> (('t, 'h) gateway \<times> handler_policies) eff" where
  "note_policy f policy s = (case on_matcher f policy (fst s) of
      Panics e \<Rightarrow> Crash e
    | Ret g \<Rightarrow> (case addPolicyToHandlerMap policy (snd s) of
          Panics e \<Rightarrow> Crash e | Ret hm \<Rightarrow> Done (g, hm)))"

definition drop_one ::
    "'t radix_ops \<Rightarrow> ('t, 'h) gateway \<times> handler_policies \<Rightarrow> string \<Rightarrow>
     (('t, 'h) gateway \<times> handler_policies) eff" where
  "drop_one R s resourceId = (case gw_active (fst s) resourceId of
      None \<Rightarrow> Done s
    | Some policy \<Rightarrow> note_policy (dropPolicy R) policy
        ((fst s)\<lparr>gw_active := (gw_active (fst s))(resourceId := None)\<rparr>, snd s))"

definition update_one ::
    "'t radix_ops \<Rightarrow> (string \<rightharpoonup> gateway_policy) \<Rightarrow> ('t, 'h) gateway \<times> handler_policies \<Rightarrow> string \<Rightarrow>
     (('t, 'h) gateway \<times> handler_policies) eff" where
  "update_one R updated s resourceId = (case updated resourceId of
      None \<Rightarrow> Done s
    | Some policy \<Rightarrow> note_policy (addPolicy R) policy
        ((fst s)\<lparr>gw_active := (gw_active (fst s))(resourceId \<mapsto> policy)\<rparr>, snd s))"

text \<open>
  The loop over the handlers. As in the source, a handler type without dropped policies has its
  list of updated policies replaced by an empty one.
\<close>

definition dispatch ::
    "('t, 'h) gateway_env \<Rightarrow> handler_policies \<Rightarrow> handler_policies \<Rightarrow> ('t, 'h) gateway \<Rightarrow>
     HandlerType \<Rightarrow> ('t, 'h) gateway eff" where
  "dispatch E updated dropped g handlerType = (case gw_handlers g handlerType of
      None \<Rightarrow> Done g
    | Some handler \<Rightarrow>
       (let updatedPolicies = (case updated handlerType of None \<Rightarrow> [] | Some ps \<Rightarrow> ps);
            (droppedPolicies, updatedPolicies) = (case dropped handlerType of
               None \<Rightarrow> ([], []) | Some ps \<Rightarrow> (ps, updatedPolicies));
            g = g\<lparr>gw_log := gw_log g @ [(handler, updatedPolicies, droppedPolicies)]\<rparr>
        in case ge_process E handler updatedPolicies droppedPolicies of
             None \<Rightarrow> Done g | Some e \<Rightarrow> Fail e g))"

definition or_empty :: "('k \<rightharpoonup> 'v) option \<Rightarrow> 'k \<rightharpoonup> 'v" where
  "or_empty m = (case m of None \<Rightarrow> Map.empty | Some x \<Rightarrow> x)"

text \<open>\<open>ds\<close>, \<open>us\<close>, \<open>hs\<close>: the orders in which the three loops visit their maps.\<close>

definition AfterBatch ::
    "('t, 'h) gateway_env \<Rightarrow> string list \<Rightarrow> string list \<Rightarrow> HandlerType list \<Rightarrow>
     ('t, 'h) gateway \<Rightarrow> ('t, 'h) gateway eff" where
  "AfterBatch E ds us hs g =
     (case for_each (drop_one (ge_radix E)) ds (g, Map.empty) of
        Crash e \<Rightarrow> Crash e
      | Fail e s \<Rightarrow> Fail e (fst s)
      | Done (g, dropped) \<Rightarrow>
          (case for_each (update_one (ge_radix E) (or_empty (gw_updated g))) us (g, Map.empty) of
             Crash e \<Rightarrow> Crash e
           | Fail e s \<Rightarrow> Fail e (fst s)
           | Done (g, updated) \<Rightarrow> for_each (dispatch E updated dropped) hs g))"

definition OnEndOfPage :: "('t, 'h) gateway \<Rightarrow> ('t, 'h) gateway eff" where
  "OnEndOfPage g = Done g"

type_synonym ('t, 'h) range_orders =
  "('t, 'h) gateway \<Rightarrow> string list \<times> string list \<times> HandlerType list"

definition gateway_handler ::
    "('t, 'h) gateway_env \<Rightarrow> ('t, 'h) range_orders \<Rightarrow> ('t, 'h) gateway event_handler" where
  "gateway_handler E ord =
     \<lparr>eh_before_batch = BeforeBatch, eh_on_updated = OnUpdated E, eh_on_dropped = OnDropped E,
      eh_after_batch = (\<lambda>g. let (ds, us, hs) = ord g in AfterBatch E ds us hs g),
      eh_on_end_of_page = OnEndOfPage\<rparr>"

section \<open>Matching calls\<close>

record 'h matched_call =
  mc_policy :: gateway_policy
  mc_handlers :: "('h \<times> lambda_function) list"

text \<open>
  The loop over \<^verbatim>\<open>policy.Handlers\<close>: an unknown handler type is skipped, the others append
  what the handler makes of its parameter.
\<close>

fun collect_handlers ::
    "'h handlerMatcher \<Rightarrow> policy_handler list \<Rightarrow> ('h \<times> lambda_function) list val" where
  "collect_handlers hm [] = Ret []"
| "collect_handlers hm (x # xs) = (case getHandlerFromOneOf x of
      Panics e \<Rightarrow> Panics e
    | Ret (handlerParam, handlerType) \<Rightarrow>
        (case hm handlerType of
           None \<Rightarrow> collect_handlers hm xs
         | Some handler \<Rightarrow>
             (case collect_handlers hm xs of
                Panics e \<Rightarrow> Panics e | Ret l \<Rightarrow> Ret ((handler, handlerParam) # l))))"

type_synonym 'h GrpcCall = "'h matched_call"

definition make_call :: "'h handlerMatcher \<Rightarrow> gateway_policy \<Rightarrow> (goerr + 'h matched_call) val" where
  "make_call hm policy = (case collect_handlers hm (gp_handlers policy) of
      Panics e \<Rightarrow> Panics e
    | Ret l \<Rightarrow> Ret (Inr \<lparr>mc_policy = policy, mc_handlers = l\<rparr>))"

text \<open>\<open>fullMethodName\<close> is \<open>None\<close> when the stream carries no method.\<close>

definition MatchGrpc ::
    "('t, 'h) gateway_env \<Rightarrow> ('t, 'h) gateway \<Rightarrow> string option \<Rightarrow> (goerr + 'h GrpcCall) val" where
  "MatchGrpc E g method = (case method of
      None \<Rightarrow> Ret (Inl (ErrStatus Unimplemented (''Unknown method: '')))
    | Some fullMethodName \<Rightarrow>
        (case matchPolicy (ge_radix E) (gw_grpc g) [fullMethodName] of
           Panics e \<Rightarrow> Panics e
         | Ret None \<Rightarrow> Ret (Inl (ErrStatus Unimplemented (''Unknown method: '' @ fullMethodName)))
         | Ret (Some policy) \<Rightarrow> make_call (gw_handlers g) policy))"

definition fromHttpMethodToProtomeshHttpMethod :: "string \<Rightarrow> HttpMethod" where
  "fromHttpMethodToProtomeshHttpMethod m =
     (if m = ''GET'' then HTTP_METHOD_GET
      else if m = ''POST'' then HTTP_METHOD_POST
      else if m = ''PUT'' then HTTP_METHOD_PUT
      else if m = ''PATCH'' then HTTP_METHOD_PATCH
      else if m = ''DELETE'' then HTTP_METHOD_DELETE
      else if m = ''HEAD'' then HTTP_METHOD_HEAD
      else if m = ''OPTIONS'' then HTTP_METHOD_OPTIONS
      else HTTP_METHOD_UNDEFINED)"

definition MatchHttp ::
    "('t, 'h) gateway_env \<Rightarrow> ('t, 'h) gateway \<Rightarrow> string \<Rightarrow> string \<Rightarrow> (goerr + 'h matched_call) val" where
  "MatchHttp E g path method =
     (let methodName = method_name (fromHttpMethodToProtomeshHttpMethod method)
      in case matchPolicy (ge_radix E) (gw_http g) [path, methodName] of
           Panics e \<Rightarrow> Panics e
         | Ret None \<Rightarrow> Ret (Inl ErrNotSupported)
         | Ret (Some policy) \<Rightarrow> make_call (gw_handlers g) policy)"

section \<open>The routing tables a gateway stands for\<close>

type_synonym routes = "(grpc_table \<times> grpc_table) \<times> (http_table \<times> http_table)"

definition route_step :: "route_op \<Rightarrow> routes \<Rightarrow> routes" where
  "route_step x T = (grpc_step x (fst T), http_step x (snd T))"

definition routing_rel :: "'t radix_ops \<Rightarrow> ('t, 'h) gateway \<Rightarrow> routes \<Rightarrow> bool" where
  "routing_rel R g T \<longleftrightarrow> grpc_rel R (gw_grpc g) (fst T) \<and> http_rel R (gw_http g) (snd T)"

definition handler_ok :: "policy_handler \<Rightarrow> bool" where
  "handler_ok x = (case ph_handler x of
     Some (GatewayPolicy_Handler_Aws aws) \<Rightarrow> ah_handler aws \<noteq> None | None \<Rightarrow> False)"

definition policy_ok :: "gateway_policy \<Rightarrow> bool" where
  "policy_ok p = list_all handler_ok (gp_handlers p)"

definition policies_ok :: "(string \<rightharpoonup> gateway_policy) \<Rightarrow> bool" where
  "policies_ok m = (\<forall>p \<in> ran m. policy_ok p)"

lemma handler_ok_iff: "handler_ok x \<longleftrightarrow> (\<exists>l. getHandlerFromOneOf x = Ret (l, HandlerTypeAwsLambda))"
  by (simp add: handler_ok_def getHandlerFromOneOf_def split: option.splits
      policy_handler_oneof.splits aws_handler_oneof.splits)

text \<open>What the two loops leave in a handler map: a policy once per handler of the type.\<close>

definition by_type :: "HandlerType \<Rightarrow> gateway_policy list \<Rightarrow> gateway_policy list" where
  "by_type t ps = (if t = HandlerTypeAwsLambda
     then concat (map (\<lambda>p. replicate (length (gp_handlers p)) p) ps) else [])"

definition map_of_types :: "gateway_policy list \<Rightarrow> handler_policies" where
  "map_of_types ps t = (if by_type t ps = [] then None else Some (by_type t ps))"

lemma lambda_type_defined [simp]: "HandlerTypeAwsLambda \<noteq> HandlerTypeUndefined"
  by (simp add: HandlerTypeAwsLambda_def HandlerTypeUndefined_def)

lemma add_handlers_loop:
  assumes "list_all handler_ok xs"
  shows "addPolicyToHandlerMap_loop p xs hm = Ret (if xs = [] then hm
    else hm(HandlerTypeAwsLambda \<mapsto> (case hm HandlerTypeAwsLambda of None \<Rightarrow> [] | Some ps \<Rightarrow> ps)
      @ replicate (length xs) p))"
  using assms
proof (induction xs arbitrary: hm)
  case Nil
  then show ?case by simp
next
  case (Cons x xs)
  from Cons.prems obtain l where "getHandlerFromOneOf x = Ret (l, HandlerTypeAwsLambda)"
    by (auto simp: handler_ok_iff)
  with Cons show ?case by (cases "xs = []") (simp_all add: fun_eq_iff)
qed

lemma add_handlers:
  assumes "policy_ok p"
  shows "addPolicyToHandlerMap p (map_of_types ps) = Ret (map_of_types (ps @ [p]))"
proof -
  have "(if gp_handlers p = [] then map_of_types ps
     else (map_of_types ps)(HandlerTypeAwsLambda \<mapsto>
       (case map_of_types ps HandlerTypeAwsLambda of None \<Rightarrow> [] | Some qs \<Rightarrow> qs)
       @ replicate (length (gp_handlers p)) p)) = map_of_types (ps @ [p])"
    by (rule ext) (auto simp: map_of_types_def by_type_def)
  with assms show ?thesis
    by (simp add: addPolicyToHandlerMap_def policy_ok_def add_handlers_loop)
qed

lemma map_filter_upd_None: "k \<notin> set ks \<Longrightarrow> List.map_filter (m(k := None)) ks = List.map_filter m ks"
  by (induction ks) (auto simp: List.map_filter_simps split: option.splits)

text \<open>The active policies after the second loop.\<close>

definition upd_all :: "(string \<rightharpoonup> 'v) \<Rightarrow> string list \<Rightarrow> (string \<rightharpoonup> 'v) \<Rightarrow> string \<rightharpoonup> 'v" where
  "upd_all m us t = fold (\<lambda>k t. t(k \<mapsto> the (m k))) us t"

lemma upd_all_Nil [simp]: "upd_all m [] t = t"
  by (simp add: upd_all_def)

lemma upd_all_Cons: "upd_all m (k # us) t = upd_all m us (t(k \<mapsto> the (m k)))"
  by (simp add: upd_all_def)

lemma upd_all_enumerates: "enumerates us m \<Longrightarrow> upd_all m us t = t ++ m"
  by (simp add: upd_all_def fold_upd_enumerates)

lemma map_of_types_Nil [simp]: "map_of_types [] = Map.empty"
  by (rule ext) (simp add: map_of_types_def by_type_def)

context radix_tree begin

lemma on_matcher_step:
  assumes "routing_rel R g T"
  shows "\<exists>a b. on_matcher (case x of AddPolicy _ \<Rightarrow> addPolicy R | DropPolicy _ \<Rightarrow> dropPolicy R)
      (op_policy x) g = Ret (g\<lparr>gw_grpc := a, gw_http := b\<rparr>) \<and>
    routing_rel R (g\<lparr>gw_grpc := a, gw_http := b\<rparr>) (route_step x T)"
proof -
  let ?f = "case x of AddPolicy _ \<Rightarrow> addPolicy R | DropPolicy _ \<Rightarrow> dropPolicy R"
  have run: "?f (op_policy x) sm = run_op R sm x" for sm by (cases x) simp_all
  obtain EG PG EH PH where T: "T = ((EG, PG), (EH, PH))" by (metis surj_pair)
  show ?thesis
  proof (cases "gp_source (op_policy x)")
    case None
    then show ?thesis using assms
      by (intro exI [of _ "gw_grpc g"] exI [of _ "gw_http g"])
        (simp add: on_matcher_def routing_rel_def route_step_def T)
  next
    case (Some src)
    show ?thesis
    proof (cases src)
      case (GatewayPolicy_Grpc s)
      then have "op_grpc x" using Some by (simp add: op_grpc_def)
      with grpc_rel_step assms obtain sm where sm: "run_op R (gw_grpc g) x = Ret sm"
          "grpc_rel R sm (grpc_step x (fst T))"
        unfolding routing_rel_def by blast
      moreover have "http_step x (snd T) = snd T" using Some GatewayPolicy_Grpc by (simp add: T)
      ultimately show ?thesis using assms Some GatewayPolicy_Grpc
        by (intro exI [of _ sm] exI [of _ "gw_http g"])
          (simp add: on_matcher_def run routing_rel_def route_step_def)
    next
      case (GatewayPolicy_Http s)
      then have "op_http x" using Some by (simp add: op_http_def)
      with http_rel_step assms obtain sm where sm: "run_op R (gw_http g) x = Ret sm"
          "http_rel R sm (http_step x (snd T))"
        unfolding routing_rel_def by blast
      moreover have "grpc_step x (fst T) = fst T" using Some GatewayPolicy_Http by (simp add: T)
      ultimately show ?thesis using assms Some GatewayPolicy_Http
        by (intro exI [of _ "gw_grpc g"] exI [of _ sm])
          (simp add: on_matcher_def run routing_rel_def route_step_def)
    qed
  qed
qed

lemma note_policy_step:
  assumes "routing_rel R g T" and "policy_ok (op_policy x)"
  shows "\<exists>a b. note_policy (case x of AddPolicy _ \<Rightarrow> addPolicy R | DropPolicy _ \<Rightarrow> dropPolicy R)
      (op_policy x) (g, map_of_types ps) =
        Done (g\<lparr>gw_grpc := a, gw_http := b\<rparr>, map_of_types (ps @ [op_policy x])) \<and>
    routing_rel R (g\<lparr>gw_grpc := a, gw_http := b\<rparr>) (route_step x T)"
proof -
  obtain a b where "on_matcher (case x of AddPolicy _ \<Rightarrow> addPolicy R | DropPolicy _ \<Rightarrow> dropPolicy R)
      (op_policy x) g = Ret (g\<lparr>gw_grpc := a, gw_http := b\<rparr>)"
    "routing_rel R (g\<lparr>gw_grpc := a, gw_http := b\<rparr>) (route_step x T)"
    using on_matcher_step [OF assms(1), of x] by blast
  with add_handlers [OF assms(2)] show ?thesis by (auto simp: note_policy_def)
qed

lemmas note_drop = note_policy_step [where x = "DropPolicy p" for p, simplified]
lemmas note_add = note_policy_step [where x = "AddPolicy p" for p, simplified]

lemma drop_loop:
  assumes "routing_rel R g T" and "policies_ok (gw_active g)" and "distinct ds"
  shows "\<exists>a b. for_each (drop_one R) ds (g, map_of_types ps) =
      Done (g\<lparr>gw_active := gw_active g |` (- set ds), gw_grpc := a, gw_http := b\<rparr>,
        map_of_types (ps @ List.map_filter (gw_active g) ds)) \<and>
    routing_rel R (g\<lparr>gw_active := gw_active g |` (- set ds), gw_grpc := a, gw_http := b\<rparr>)
      (fold route_step (map DropPolicy (List.map_filter (gw_active g) ds)) T)"
  using assms
proof (induction ds arbitrary: g T ps)
  case Nil
  then show ?case
    by (intro exI [of _ "gw_grpc g"] exI [of _ "gw_http g"])
      (simp add: List.map_filter_simps routing_rel_def)
next
  case (Cons k ds)
  show ?case
  proof (cases "gw_active g k")
    case None
    then have "gw_active g |` (- set (k # ds)) = gw_active g |` (- set ds)"
      by (auto simp: restrict_map_def fun_eq_iff)
    moreover have "drop_one R (g, map_of_types ps) k = Done (g, map_of_types ps)"
      using None by (simp add: drop_one_def)
    ultimately show ?thesis
      using Cons.IH [OF Cons.prems(1,2), of ps] Cons.prems(3) None
      by (simp add: List.map_filter_simps)
  next
    case (Some p)
    let ?g = "g\<lparr>gw_active := (gw_active g)(k := None)\<rparr>"
    have r: "routing_rel R ?g T" using Cons.prems(1) by (simp add: routing_rel_def)
    have p: "policy_ok p" using Cons.prems(2) Some by (auto simp: policies_ok_def ran_def)
    from note_drop [OF r p, of ps] obtain a b where
      n: "drop_one R (g, map_of_types ps) k =
          Done (?g\<lparr>gw_grpc := a, gw_http := b\<rparr>, map_of_types (ps @ [p]))"
      and r': "routing_rel R (?g\<lparr>gw_grpc := a, gw_http := b\<rparr>) (route_step (DropPolicy p) T)"
      by (auto simp: drop_one_def Some)
    let ?g' = "?g\<lparr>gw_grpc := a, gw_http := b\<rparr>"
    have act: "gw_active ?g' |` (- set ds) = gw_active g |` (- set (k # ds))"
      by (auto simp: restrict_map_def fun_eq_iff)
    have mf: "List.map_filter (gw_active ?g') ds = List.map_filter (gw_active g) ds"
      using Cons.prems(3) by (simp add: map_filter_upd_None)
    have ok: "policies_ok (gw_active ?g')"
      using Cons.prems(2) by (auto simp: policies_ok_def ran_def)
    have d: "distinct ds" using Cons.prems(3) by simp
    from Cons.IH [OF r' ok d, of "ps @ [p]", unfolded act mf] n Some
    show ?thesis by (simp add: List.map_filter_simps del: fun_upd_apply)
  qed
qed

lemma update_loop:
  assumes "routing_rel R g T" and "policies_ok m" and "set us \<subseteq> dom m"
  shows "\<exists>a b. for_each (update_one R m) us (g, map_of_types ps) =
      Done (g\<lparr>gw_active := upd_all m us (gw_active g), gw_grpc := a, gw_http := b\<rparr>,
        map_of_types (ps @ map (\<lambda>k. the (m k)) us)) \<and>
    routing_rel R (g\<lparr>gw_active := upd_all m us (gw_active g),
        gw_grpc := a, gw_http := b\<rparr>)
      (fold route_step (map (\<lambda>k. AddPolicy (the (m k))) us) T)"
  using assms
proof (induction us arbitrary: g T ps)
  case Nil
  then show ?case
    by (intro exI [of _ "gw_grpc g"] exI [of _ "gw_http g"]) (simp add: routing_rel_def)
next
  case (Cons k us)
  define p where "p = the (m k)"
  with Cons.prems(3) have p: "m k = Some p" by auto
  let ?g = "g\<lparr>gw_active := (gw_active g)(k \<mapsto> p)\<rparr>"
  have r: "routing_rel R ?g T" using Cons.prems(1) by (simp add: routing_rel_def)
  have pok: "policy_ok p" using Cons.prems(2) p by (auto simp: policies_ok_def ran_def)
  from note_add [OF r pok, of ps] obtain a b where
    n: "update_one R m (g, map_of_types ps) k =
        Done (?g\<lparr>gw_grpc := a, gw_http := b\<rparr>, map_of_types (ps @ [p]))"
    and r': "routing_rel R (?g\<lparr>gw_grpc := a, gw_http := b\<rparr>) (route_step (AddPolicy p) T)"
    by (auto simp: update_one_def p)
  from Cons.IH [OF r' Cons.prems(2), of "ps @ [p]"] Cons.prems(3) n
  show ?case by (simp add: upd_all_Cons p del: fun_upd_apply)
qed

end

section \<open>A batch\<close>

definition routes_of :: "route_op list \<Rightarrow> routes" where
  "routes_of ops = (fold grpc_step ops no_routes, fold http_step ops no_routes)"

lemma fold_route_step: "fold route_step xs (routes_of ops) = routes_of (ops @ xs)"
proof -
  have "fold route_step xs T = (fold grpc_step xs (fst T), fold http_step xs (snd T))" for T
    by (induction xs arbitrary: T) (simp_all add: route_step_def)
  then show ?thesis by (simp add: routes_of_def)
qed

text \<open>
  The invariant: the matchers hold the routes of a history \<open>ops\<close> of well-formed policies, and
  the active policies are well formed.
\<close>

definition gateway_inv :: "'t radix_ops \<Rightarrow> route_op list \<Rightarrow> ('t, 'h) gateway \<Rightarrow> bool" where
  "gateway_inv R ops g \<longleftrightarrow> routing_rel R g (routes_of ops) \<and>
     list_all (\<lambda>x. policy_ok (op_policy x)) ops \<and> policies_ok (gw_active g)"

definition batch_ops ::
    "(string \<rightharpoonup> gateway_policy) \<Rightarrow> string list \<Rightarrow> (string \<rightharpoonup> gateway_policy) \<Rightarrow> string list \<Rightarrow> route_op list"
  where "batch_ops active ds u us =
    map DropPolicy (List.map_filter active ds) @ map (\<lambda>k. AddPolicy (the (u k))) us"

lemma dispatch_log:
  "eff_safe (\<lambda>g'. \<exists>l. g' = g\<lparr>gw_log := l\<rparr>) (for_each (dispatch E updated dropped) hs g)"
proof (rule eff_safe_for_each)
  show "\<exists>l. g = g\<lparr>gw_log := l\<rparr>" by (rule exI [of _ "gw_log g"]) simp
next
  fix s t
  assume "\<exists>l. s = g\<lparr>gw_log := l\<rparr>"
  then show "eff_safe (\<lambda>g'. \<exists>l. g' = g\<lparr>gw_log := l\<rparr>) (dispatch E updated dropped s t)"
    by (auto simp: dispatch_def Let_def split: option.splits)
qed

lemma policies_ok_restrict: "policies_ok m \<Longrightarrow> policies_ok (m |` A)"
  by (auto simp: policies_ok_def ran_def restrict_map_def split: if_splits)

lemma policies_ok_add: "policies_ok m \<Longrightarrow> policies_ok n \<Longrightarrow> policies_ok (m ++ n)"
  by (auto simp: policies_ok_def ran_def)

lemma map_filter_in_ran: "p \<in> set (List.map_filter m ks) \<Longrightarrow> p \<in> ran m"
  by (auto simp: List.map_filter_def ran_def)

lemma policies_ok_upd: "policies_ok m \<Longrightarrow> policy_ok p \<Longrightarrow> policies_ok (m(k \<mapsto> p))"
  by (auto simp: policies_ok_def ran_def)

lemma policies_ok_upd_all:
  "policies_ok A \<Longrightarrow> policies_ok m \<Longrightarrow> set us \<subseteq> dom m \<Longrightarrow> policies_ok (upd_all m us A)"
proof (induction us arbitrary: A)
  case (Cons k us)
  then obtain p where "m k = Some p" by auto
  moreover from this Cons.prems(2) have "policy_ok p" by (auto simp: policies_ok_def ran_def)
  ultimately show ?case using Cons policies_ok_upd [of A p k] by (simp add: upd_all_Cons)
qed simp

context radix_tree begin

text \<open>The loops of \<^verbatim>\<open>AfterBatch\<close> over some of the ids, from a gateway with the routes of a history.\<close>

lemma drops_done:
  assumes i: "gateway_inv R ops g" and d: "distinct ds"
  shows "\<exists>a b. for_each (drop_one R) ds (g, Map.empty) =
      Done (g\<lparr>gw_active := gw_active g |` (- set ds), gw_grpc := a, gw_http := b\<rparr>,
        map_of_types (List.map_filter (gw_active g) ds)) \<and>
    gateway_inv R (ops @ map DropPolicy (List.map_filter (gw_active g) ds))
      (g\<lparr>gw_active := gw_active g |` (- set ds), gw_grpc := a, gw_http := b\<rparr>)"
proof -
  from i have rel: "routing_rel R g (routes_of ops)" and act: "policies_ok (gw_active g)"
    and ok: "list_all (\<lambda>x. policy_ok (op_policy x)) ops" by (auto simp: gateway_inv_def)
  from drop_loop [OF rel act d, of "[]"] obtain a b where l: "for_each (drop_one R) ds (g, Map.empty) =
      Done (g\<lparr>gw_active := gw_active g |` (- set ds), gw_grpc := a, gw_http := b\<rparr>,
        map_of_types (List.map_filter (gw_active g) ds))"
    and r: "routing_rel R (g\<lparr>gw_active := gw_active g |` (- set ds), gw_grpc := a, gw_http := b\<rparr>)
      (fold route_step (map DropPolicy (List.map_filter (gw_active g) ds)) (routes_of ops))" by auto
  have "gateway_inv R (ops @ map DropPolicy (List.map_filter (gw_active g) ds))
      (g\<lparr>gw_active := gw_active g |` (- set ds), gw_grpc := a, gw_http := b\<rparr>)"
    using r ok act map_filter_in_ran [of _ "gw_active g" ds] policies_ok_restrict [OF act]
    by (auto simp: gateway_inv_def fold_route_step list_all_iff) (simp add: policies_ok_def)
  with l show ?thesis by blast
qed

lemma updates_done:
  assumes i: "gateway_inv R ops g" and u: "policies_ok u" "set us \<subseteq> dom u"
  shows "\<exists>a b. for_each (update_one R u) us (g, Map.empty) =
      Done (g\<lparr>gw_active := upd_all u us (gw_active g), gw_grpc := a, gw_http := b\<rparr>, map_of_types (map (\<lambda>k. the (u k)) us)) \<and>
    gateway_inv R (ops @ map (\<lambda>k. AddPolicy (the (u k))) us)
      (g\<lparr>gw_active := upd_all u us (gw_active g), gw_grpc := a, gw_http := b\<rparr>)"
proof -
  from i have rel: "routing_rel R g (routes_of ops)" and act: "policies_ok (gw_active g)"
    and ok: "list_all (\<lambda>x. policy_ok (op_policy x)) ops" by (auto simp: gateway_inv_def)
  from update_loop [OF rel u, of "[]"] obtain a b where l: "for_each (update_one R u) us (g, Map.empty) =
      Done (g\<lparr>gw_active := upd_all u us (gw_active g), gw_grpc := a, gw_http := b\<rparr>, map_of_types (map (\<lambda>k. the (u k)) us))"
    and r: "routing_rel R (g\<lparr>gw_active := upd_all u us (gw_active g), gw_grpc := a, gw_http := b\<rparr>)
      (fold route_step (map (\<lambda>k. AddPolicy (the (u k))) us) (routes_of ops))" by auto
  have "policy_ok (the (u k))" if "k \<in> set us" for k
    using u that by (fastforce simp: policies_ok_def ran_def)
  with r ok policies_ok_upd_all [OF act u]
  have "gateway_inv R (ops @ map (\<lambda>k. AddPolicy (the (u k))) us)
      (g\<lparr>gw_active := upd_all u us (gw_active g), gw_grpc := a, gw_http := b\<rparr>)"
    by (auto simp: gateway_inv_def fold_route_step list_all_iff)
  with l show ?thesis by blast
qed

text \<open>The effect of the two loops of \<^verbatim>\<open>AfterBatch\<close>, up to the calls to the handlers.\<close>

lemma AfterBatch_loops:
  assumes i: "gateway_inv (ge_radix E) ops g" and R: "ge_radix E = R"
    and u: "gw_updated g = Some u" "policies_ok u" "enumerates us u"
    and d: "gw_dropped g = Some d" "enumerates ds d"
  shows "\<exists>g' updated dropped. AfterBatch E ds us hs g = for_each (dispatch E updated dropped) hs g' \<and>
    gateway_inv R (ops @ batch_ops (gw_active g) ds u us) g' \<and>
    gw_active g' = (gw_active g |` (- dom d)) ++ u \<and> gw_handlers g' = gw_handlers g \<and>
    gw_log g' = gw_log g \<and>
    dropped = map_of_types (List.map_filter (gw_active g) ds) \<and>
    updated = map_of_types (map (\<lambda>k. the (u k)) us)"
proof -
  let ?ds = "List.map_filter (gw_active g) ds" and ?us = "map (\<lambda>k. the (u k)) us"
  have dd: "distinct ds" "set ds = dom d" and du: "set us \<subseteq> dom u" using u d by (auto simp: enumerates_def)
  from drops_done [OF i [unfolded R] dd(1)] obtain a b where
    l1: "for_each (drop_one R) ds (g, Map.empty) =
      Done (g\<lparr>gw_active := gw_active g |` (- dom d), gw_grpc := a, gw_http := b\<rparr>, map_of_types ?ds)"
    and r1: "gateway_inv R (ops @ map DropPolicy ?ds) (g\<lparr>gw_active := gw_active g |` (- dom d), gw_grpc := a, gw_http := b\<rparr>)"
    by (auto simp: dd(2))
  let ?g = "g\<lparr>gw_active := gw_active g |` (- dom d), gw_grpc := a, gw_http := b\<rparr>"
  from updates_done [OF r1 u(2) du] obtain a' b' where
    l2: "for_each (update_one R u) us (?g, Map.empty) =
      Done (?g\<lparr>gw_active := upd_all u us (gw_active ?g), gw_grpc := a', gw_http := b'\<rparr>, map_of_types ?us)"
    and r2: "gateway_inv R ((ops @ map DropPolicy ?ds) @ map (\<lambda>k. AddPolicy (the (u k))) us)
      (?g\<lparr>gw_active := upd_all u us (gw_active ?g), gw_grpc := a', gw_http := b'\<rparr>)" by blast
  let ?g' = "?g\<lparr>gw_active := upd_all u us (gw_active ?g), gw_grpc := a', gw_http := b'\<rparr>"
  have "gw_active ?g' = (gw_active g |` (- dom d)) ++ u" using upd_all_enumerates [OF u(3)] by simp
  moreover have "AfterBatch E ds us hs g = for_each (dispatch E (map_of_types ?us) (map_of_types ?ds)) hs ?g'"
    using l1 l2 by (simp add: AfterBatch_def R u(1) or_empty_def)
  ultimately show ?thesis using r2 by (intro exI [of _ ?g'] exI conjI) (simp_all add: batch_ops_def)
qed

end

end
