(* ===== verification/Proxy.thy ===== *)
theory Proxy
  imports Gateway
begin

text \<open>
  The gRPC proxy of \<^verbatim>\<open>pkg/server\<close>: the codec that lets raw frames through
  (\<^verbatim>\<open>grpc_codec.go\<close>), the two goroutines that move messages between a stream and a handler
  and the loop that waits for them (\<^verbatim>\<open>grpc_proxy.go\<close>).
\<close>

section \<open>The codec\<close>

text \<open>
  A value handed to a codec: a \<^verbatim>\<open>*frame\<close> with its payload, a protobuf message, or anything
  else, by the name of its type.
\<close>

datatype 'm go_value = FrameValue bytes | ProtoValue 'm | OtherValue string

fun type_name :: "'m go_value \<Rightarrow> string" where
  "type_name (FrameValue p) = ''*server.frame''"
| "type_name (ProtoValue m) = ''proto.Message''"
| "type_name (OtherValue n) = n"

text \<open>\<^verbatim>\<open>proto.Marshal\<close> and \<^verbatim>\<open>proto.Unmarshal\<close>, which fills the message it is given.\<close>

record 'm proto_lib =
  pl_marshal :: "'m \<Rightarrow> goerr + bytes"
  pl_unmarshal :: "bytes \<Rightarrow> 'm \<Rightarrow> goerr option \<times> 'm"

record 'm grpc_codec =
  co_marshal :: "'m go_value \<Rightarrow> goerr + bytes"
  co_unmarshal :: "bytes \<Rightarrow> 'm go_value \<Rightarrow> goerr option \<times> 'm go_value"
  co_string :: string

definition protoCodec :: "'m proto_lib \<Rightarrow> 'm grpc_codec" where
  "protoCodec P = \<lparr>
     co_marshal = (\<lambda>v. case v of ProtoValue m \<Rightarrow> pl_marshal P m
       | _ \<Rightarrow> Inl (ErrOther (''failed to marshal, message is '' @ type_name v @ '', want proto.Message''))),
     co_unmarshal = (\<lambda>data v. case v of
         ProtoValue m \<Rightarrow> (let (err, m') = pl_unmarshal P data m in (err, ProtoValue m'))
       | _ \<Rightarrow> (Some (ErrOther (''failed to unmarshal, message is '' @ type_name v @
            '', want proto.Message'')), v)),
     co_string = ''proto''\<rparr>"

definition CodecWithParent :: "'m grpc_codec \<Rightarrow> 'm grpc_codec" where
  "CodecWithParent parentCodec = \<lparr>
     co_marshal = (\<lambda>v. case v of FrameValue payload \<Rightarrow> Inr payload | _ \<Rightarrow> co_marshal parentCodec v),
     co_unmarshal = (\<lambda>data v. case v of FrameValue payload \<Rightarrow> (None, FrameValue data)
       | _ \<Rightarrow> co_unmarshal parentCodec data v),
     co_string = ''proxy>'' @ co_string parentCodec\<rparr>"

definition Codec :: "'m proto_lib \<Rightarrow> 'm grpc_codec" where
  "Codec P = CodecWithParent (protoCodec P)"

section \<open>The two goroutines of a handler\<close>

text \<open>
  The server stream: \<open>se_set_header\<close> and \<open>se_send\<close> are the results of \<^verbatim>\<open>SetHeader\<close> and
  \<^verbatim>\<open>SendMsg\<close> given what was sent before; \<open>se_error\<close> is the text of an error.
\<close>

record 'md sent =
  sn_headers :: "'md list"
  sn_msgs :: "bytes list"

record 'md stream_env =
  se_set_header :: "'md sent \<Rightarrow> 'md \<Rightarrow> goerr option"
  se_send :: "'md sent \<Rightarrow> bytes \<Rightarrow> goerr option"
  se_error :: "goerr \<Rightarrow> string"

text \<open>One iteration goes on, or ends the goroutine's function with an error or nil.\<close>

datatype iter = Again | Stop "goerr option"

definition is_status :: "goerr \<Rightarrow> bool" where
  "is_status e = (case e of ErrStatus c m \<Rightarrow> True | _ \<Rightarrow> False)"

definition to_status :: "'md stream_env \<Rightarrow> goerr \<Rightarrow> goerr" where
  "to_status E e = (if is_status e then e else ErrStatus Internal (''Internal error: '' @ se_error E e))"

text \<open>\<^verbatim>\<open>ReceiveFrom\<close>: what it does with an error of \<^verbatim>\<open>RecvMsg\<close> and with the result of
  the handler's \<^verbatim>\<open>Call\<close>.\<close>

definition recv_failed :: "goerr \<Rightarrow> goerr option" where
  "recv_failed err = (if err = ErrEOF then None else Some err)"

definition call_returned :: "'md stream_env \<Rightarrow> goerr option \<Rightarrow> iter" where
  "call_returned E err = (case err of
      None \<Rightarrow> Again
    | Some e \<Rightarrow> if e = ErrEOF then Stop None else Stop (Some (to_status E e)))"

text \<open>
  The whole goroutine on a list of \<^verbatim>\<open>RecvMsg\<close> results and a handler \<open>call\<close> over its state:
  the error it offers, \<open>None\<close> when it still waits for a message.
\<close>

fun ReceiveFrom ::
    "'md stream_env \<Rightarrow> (bytes \<Rightarrow> 's \<Rightarrow> goerr option \<times> 's) \<Rightarrow> (goerr + bytes) list \<Rightarrow> 's \<Rightarrow>
     goerr option option \<times> 's" where
  "ReceiveFrom E call [] s = (None, s)"
| "ReceiveFrom E call (Inl err # xs) s = (Some (recv_failed err), s)"
| "ReceiveFrom E call (Inr payload # xs) s =
     (let (err, s') = call payload s
      in case call_returned E err of Again \<Rightarrow> ReceiveFrom E call xs s' | Stop e \<Rightarrow> (Some e, s'))"

text \<open>
  \<^verbatim>\<open>SendFrom\<close>: iteration \<open>i\<close> with what \<^verbatim>\<open>Result\<close> and then \<^verbatim>\<open>GetOutgoingMetadata\<close>
  return.
\<close>

definition send_msg :: "'md stream_env \<Rightarrow> bytes \<Rightarrow> goerr option \<Rightarrow> 'md sent \<Rightarrow> iter \<times> 'md sent" where
  "send_msg E payload resErr s = (case se_send E s payload of
      Some err \<Rightarrow> (Stop (Some (ErrStatus Internal
        (''Error sending result to server stream: '' @ se_error E err))), s)
    | None \<Rightarrow> (if resErr = Some ErrEOF then Stop None else Again, s\<lparr>sn_msgs := sn_msgs s @ [payload]\<rparr>))"

definition send_iter ::
    "'md stream_env \<Rightarrow> nat \<Rightarrow> bytes \<times> goerr option \<Rightarrow> 'md option \<Rightarrow> 'md sent \<Rightarrow> iter \<times> 'md sent" where
  "send_iter E i r md s =
     (let (payload, resErr) = r
      in if resErr \<noteq> None \<and> resErr \<noteq> Some ErrEOF then (Stop (Some (to_status E (the resErr))), s)
         else if i = 0 \<and> md \<noteq> None then
           (case se_set_header E s (the md) of
              Some err \<Rightarrow> (Stop (Some (ErrStatus Internal
                (''Unable to set header on server stream: '' @ se_error E err))), s)
            | None \<Rightarrow> send_msg E payload resErr (s\<lparr>sn_headers := sn_headers s @ [the md]\<rparr>))
         else send_msg E payload resErr s)"

fun SendFrom ::
    "'md stream_env \<Rightarrow> nat \<Rightarrow> ((bytes \<times> goerr option) \<times> 'md option) list \<Rightarrow> 'md sent \<Rightarrow>
     goerr option option \<times> 'md sent" where
  "SendFrom E i [] s = (None, s)"
| "SendFrom E i ((r, md) # rs) s = (case send_iter E i r md s of
      (Again, s') \<Rightarrow> SendFrom E (Suc i) rs s'
    | (Stop e, s') \<Rightarrow> (Some e, s'))"

section \<open>Waiting for both\<close>

text \<open>
  A channel of the loop: nil, or the values still to be offered and whether it is closed after
  them. A goroutine offers the one value of its function and closes; one that never ends offers
  nothing.
\<close>

datatype go_chan = NilChan | Chan "goerr option list" bool

fun chan_of :: "goerr option option \<Rightarrow> go_chan" where
  "chan_of None = Chan [] False"
| "chan_of (Some e) = Chan [e] True"

record event_loop =
  el_i :: nat
  el_recv :: go_chan
  el_send :: go_chan
  el_end :: "goerr option option"

definition handle_event :: "goerr option \<Rightarrow> event_loop \<Rightarrow> event_loop" where
  "handle_event err c = (case err of
      None \<Rightarrow> c\<lparr>el_i := Suc (el_i c)\<rparr> | Some e \<Rightarrow> c\<lparr>el_end := Some (Some e)\<rparr>)"

inductive loop_step :: "event_loop \<Rightarrow> event_loop \<Rightarrow> bool" where
  receive: "el_end c = None \<Longrightarrow> el_i c < 4 \<Longrightarrow> el_recv c = Chan (e # es) b \<Longrightarrow>
    loop_step c (handle_event e (c\<lparr>el_recv := Chan es b\<rparr>))"
| receive_closed: "el_end c = None \<Longrightarrow> el_i c < 4 \<Longrightarrow> el_recv c = Chan [] True \<Longrightarrow>
    loop_step c (c\<lparr>el_recv := NilChan, el_i := Suc (el_i c)\<rparr>)"
| send: "el_end c = None \<Longrightarrow> el_i c < 4 \<Longrightarrow> el_send c = Chan (e # es) b \<Longrightarrow>
    loop_step c (handle_event e (c\<lparr>el_send := Chan es b\<rparr>))"
| send_closed: "el_end c = None \<Longrightarrow> el_i c < 4 \<Longrightarrow> el_send c = Chan [] True \<Longrightarrow>
    loop_step c (c\<lparr>el_send := NilChan, el_i := Suc (el_i c)\<rparr>)"
| done_waiting: "el_end c = None \<Longrightarrow> \<not> el_i c < 4 \<Longrightarrow> loop_step c (c\<lparr>el_end := Some None\<rparr>)"

inductive_cases loop_stepE: "loop_step c c'"

definition start_loop :: "goerr option option \<Rightarrow> goerr option option \<Rightarrow> event_loop" where
  "start_loop rv sv = \<lparr>el_i = 0, el_recv = chan_of rv, el_send = chan_of sv, el_end = None\<rparr>"

text \<open>The loop can end with \<open>e\<close>: \<open>None\<close> goes on to the next handler.\<close>

definition loop_ends :: "goerr option option \<Rightarrow> goerr option option \<Rightarrow> goerr option \<Rightarrow> bool" where
  "loop_ends rv sv e \<longleftrightarrow> (\<exists>c. loop_step\<^sup>*\<^sup>* (start_loop rv sv) c \<and> el_end c = Some e)"

section \<open>The handlers of a call\<close>

text \<open>
  \<open>R h\<close> is what the two goroutines of the handler \<open>h\<close> end with. \<open>ds\<close> are the handlers whose
  \<^verbatim>\<open>Close\<close> is deferred, the last one first; the result is the error returned and the handlers
  closed, in order.
\<close>

inductive proxy_handlers ::
    "('h \<Rightarrow> goerr option option \<times> goerr option option) \<Rightarrow> 'h list \<Rightarrow> 'h list \<Rightarrow>
     goerr option \<Rightarrow> 'h list \<Rightarrow> bool" for R where
  no_handler: "proxy_handlers R [] ds None ds"
| next_handler: "loop_ends (fst (R h)) (snd (R h)) None \<Longrightarrow> proxy_handlers R hs (h # ds) e closed \<Longrightarrow>
    proxy_handlers R (h # hs) ds e closed"
| failed_handler: "loop_ends (fst (R h)) (snd (R h)) (Some e) \<Longrightarrow>
    proxy_handlers R (h # hs) ds (Some e) (h # ds)"

inductive_simps proxy_Nil: "proxy_handlers R [] ds e closed"
inductive_simps proxy_Cons: "proxy_handlers R (h # hs) ds e closed"

inductive GrpcHandlerFromGateway ::
    "('h \<times> lambda_function \<Rightarrow> goerr option option \<times> goerr option option) \<Rightarrow>
     (goerr + 'h matched_call) val \<Rightarrow> goerr option val \<Rightarrow> ('h \<times> lambda_function) list \<Rightarrow> bool" for R where
  panicked: "GrpcHandlerFromGateway R (Panics p) (Panics p) []"
| unmatched: "GrpcHandlerFromGateway R (Ret (Inl err)) (Ret (Some err)) []"
| matched: "proxy_handlers R (mc_handlers call) [] e closed \<Longrightarrow>
    GrpcHandlerFromGateway R (Ret (Inr call)) (Ret e) closed"

section \<open>What the loop waits for\<close>

fun used :: "go_chan \<Rightarrow> nat" where
  "used NilChan = 2"
| "used (Chan es b) = (if es = [] \<and> b then 1 else 0)"

text \<open>A channel of the loop that stands for a goroutine ending with \<open>r\<close>, and how far it is read.\<close>

definition chan_inv :: "goerr option option \<Rightarrow> go_chan \<Rightarrow> bool" where
  "chan_inv r ch \<longleftrightarrow> ch = chan_of r \<or> r \<noteq> None \<and> (ch = Chan [] True \<or> ch = NilChan)"

definition loop_inv :: "goerr option option \<Rightarrow> goerr option option \<Rightarrow> event_loop \<Rightarrow> bool" where
  "loop_inv rv sv c \<longleftrightarrow> chan_inv rv (el_recv c) \<and> chan_inv sv (el_send c) \<and>
     (case el_end c of
        None \<Rightarrow> (el_recv c = chan_of rv \<or> rv = Some None) \<and> (el_send c = chan_of sv \<or> sv = Some None) \<and>
          el_i c = used (el_recv c) + used (el_send c)
      | Some None \<Rightarrow> rv = Some None \<and> sv = Some None
      | Some (Some e) \<Rightarrow> rv = Some (Some e) \<or> sv = Some (Some e))"

lemma chan_of_used [simp]: "used (chan_of r) = 0"
  by (cases r) auto

lemma used_le: "used ch \<le> 2"
  by (cases ch) auto

lemma chan_inv_Cons: "chan_inv r (Chan (e # es) b) \<longleftrightarrow> r = Some e \<and> es = [] \<and> b"
  by (cases r) (auto simp: chan_inv_def)

lemma chan_inv_closed: "chan_inv r (Chan [] True) \<longleftrightarrow> r \<noteq> None"
  by (cases r) (auto simp: chan_inv_def)

lemma chan_inv_nil: "chan_inv r NilChan \<longleftrightarrow> r \<noteq> None"
  by (cases r) (auto simp: chan_inv_def)

lemmas chan_inv_simps = chan_inv_Cons chan_inv_closed chan_inv_nil

text \<open>All four events are seen only when both channels were read to their end.\<close>

lemma all_read: "chan_inv r ch \<Longrightarrow> used ch = 2 \<Longrightarrow> ch = NilChan \<and> r \<noteq> None"
  by (cases ch) (auto simp: chan_inv_nil split: if_splits)

lemma chan_of_neq [simp]: "chan_of r \<noteq> NilChan" "chan_of r \<noteq> Chan [] True"
  by (cases r; simp)+

lemma loop_inv_start: "loop_inv rv sv (start_loop rv sv)"
  by (simp add: loop_inv_def start_loop_def chan_inv_def)

lemma loop_inv_step: "loop_step c c' \<Longrightarrow> loop_inv rv sv c \<Longrightarrow> loop_inv rv sv c'"
proof (induction rule: loop_step.induct)
  case (receive c e es b)
  then show ?case by (cases e) (auto simp: loop_inv_def handle_event_def chan_inv_simps)
next
  case (receive_closed c)
  then show ?case by (auto simp: loop_inv_def chan_inv_simps)
next
  case (send c e es b)
  then show ?case by (cases e) (auto simp: loop_inv_def handle_event_def chan_inv_simps)
next
  case (send_closed c)
  then show ?case by (auto simp: loop_inv_def chan_inv_simps)
next
  case (done_waiting c)
  have "used (el_recv c) + used (el_send c) \<ge> 4" using done_waiting by (simp add: loop_inv_def)
  with used_le [of "el_recv c"] used_le [of "el_send c"]
  have "used (el_recv c) = 2" "used (el_send c) = 2" by linarith+
  with done_waiting show ?case
    using all_read [of rv "el_recv c"] all_read [of sv "el_send c"] by (auto simp: loop_inv_def)
qed

lemma loop_inv_reachable: "loop_step\<^sup>*\<^sup>* (start_loop rv sv) c \<Longrightarrow> loop_inv rv sv c"
  by (induction rule: rtranclp_induct) (auto simp: loop_inv_start intro: loop_inv_step)

lemma loop_steps_count:
  "(loop_step ^^ n) (start_loop rv sv) c \<Longrightarrow> n = el_i c + (if el_end c = None then 0 else 1)"
proof (induction n arbitrary: c)
  case 0
  then show ?case by (auto simp: start_loop_def)
next
  case (Suc n)
  then obtain d where "n = el_i d + (if el_end d = None then 0 else 1)" and "loop_step d c" by auto
  then show ?case by (auto elim!: loop_stepE simp: handle_event_def split: option.splits)
qed

lemma loop_i_le: "loop_step\<^sup>*\<^sup>* (start_loop rv sv) c \<Longrightarrow> el_i c \<le> 4"
proof (induction rule: rtranclp_induct)
  case base
  then show ?case by (simp add: start_loop_def)
next
  case (step c c')
  then show ?case by (auto elim!: loop_stepE simp: handle_event_def split: option.splits)
qed

text \<open>While both goroutines end, the loop can always go on.\<close>

lemma loop_progress:
  assumes "loop_inv rv sv c" and "el_end c = None" and "rv \<noteq> None" and "sv \<noteq> None"
  shows "\<exists>c'. loop_step c c'"
proof (cases "el_i c < 4")
  case False
  with assms(2) show ?thesis by (blast intro: done_waiting)
next
  case True
  have ready: "\<exists>e es b. ch = Chan (e # es) b \<or> ch = Chan [] True" if "chan_inv r ch" "r \<noteq> None" "ch \<noteq> NilChan" for r ch
    using that by (cases r) (auto simp: chan_inv_def)
  have "el_recv c \<noteq> NilChan \<or> el_send c \<noteq> NilChan"
    using assms(1,2) True by (auto simp: loop_inv_def)
  with ready [of rv "el_recv c"] ready [of sv "el_send c"] assms True show ?thesis
    unfolding loop_inv_def
    by (metis (no_types) loop_step.receive loop_step.receive_closed loop_step.send loop_step.send_closed)
qed

lemma loop_ends_sound:
  "loop_ends rv sv None \<Longrightarrow> rv = Some None \<and> sv = Some None"
  "loop_ends rv sv (Some e) \<Longrightarrow> rv = Some (Some e) \<or> sv = Some (Some e)"
  by (auto simp: loop_ends_def loop_inv_def dest!: loop_inv_reachable)

lemma loop_ends_nil: "loop_ends (Some None) (Some None) None"
proof -
  let ?c = "\<lambda>i r s. \<lparr>el_i = i, el_recv = r, el_send = s, el_end = None\<rparr>"
  have "loop_step\<^sup>*\<^sup>* (?c 0 (Chan [None] True) (Chan [None] True)) (?c 1 (Chan [] True) (Chan [None] True))"
    using receive [of "?c 0 (Chan [None] True) (Chan [None] True)" None "[]" True]
    by (simp add: handle_event_def r_into_rtranclp)
  also have "loop_step\<^sup>*\<^sup>* \<dots> (?c 2 NilChan (Chan [None] True))"
    using receive_closed [of "?c 1 (Chan [] True) (Chan [None] True)"]
    by (simp add: r_into_rtranclp numeral_2_eq_2)
  also have "loop_step\<^sup>*\<^sup>* \<dots> (?c 3 NilChan (Chan [] True))"
    using send [of "?c 2 NilChan (Chan [None] True)" None "[]" True]
    by (simp add: handle_event_def r_into_rtranclp eval_nat_numeral)
  also have "loop_step\<^sup>*\<^sup>* \<dots> (?c 4 NilChan NilChan)"
    using send_closed [of "?c 3 NilChan (Chan [] True)"]
    by (simp add: r_into_rtranclp eval_nat_numeral)
  also have "loop_step\<^sup>*\<^sup>* \<dots> ((?c 4 NilChan NilChan)\<lparr>el_end := Some None\<rparr>)"
    using done_waiting [of "?c 4 NilChan NilChan"] by (simp add: r_into_rtranclp)
  finally show ?thesis by (auto simp: loop_ends_def start_loop_def)
qed

lemma loop_ends_error: "rv = Some (Some e) \<or> sv = Some (Some e) \<Longrightarrow> loop_ends rv sv (Some e)"
proof (erule disjE)
  assume "rv = Some (Some e)"
  then have "loop_step (start_loop rv sv) (handle_event (Some e) ((start_loop rv sv)\<lparr>el_recv := Chan [] True\<rparr>))"
    by (intro receive) (simp_all add: start_loop_def)
  then show ?thesis by (auto simp: loop_ends_def handle_event_def)
next
  assume "sv = Some (Some e)"
  then have "loop_step (start_loop rv sv) (handle_event (Some e) ((start_loop rv sv)\<lparr>el_send := Chan [] True\<rparr>))"
    by (intro send) (simp_all add: start_loop_def)
  then show ?thesis by (auto simp: loop_ends_def handle_event_def)
qed

lemma loop_ends_iff:
  "loop_ends rv sv e \<longleftrightarrow> (case e of None \<Rightarrow> rv = Some None \<and> sv = Some None
     | Some err \<Rightarrow> rv = Some (Some err) \<or> sv = Some (Some err))"
  by (cases e) (auto dest: loop_ends_sound intro: loop_ends_nil loop_ends_error)

lemma ex_list: "(\<exists>xs. P xs) \<longleftrightarrow> P [] \<or> (\<exists>x xs. P (x # xs))"
  by (metis neq_Nil_conv)

section \<open>What the goroutines move\<close>

text \<open>A stream that takes every header and message.\<close>

definition no_faults :: "'md stream_env \<Rightarrow> bool" where
  "no_faults E \<longleftrightarrow> (\<forall>s md p. se_set_header E s md = None \<and> se_send E s p = None)"

lemma send_iter_ok:
  "no_faults E \<Longrightarrow> resErr = None \<or> resErr = Some ErrEOF \<Longrightarrow>
    send_iter E i (payload, resErr) md s =
      (if resErr = None then Again else Stop None,
       s\<lparr>sn_headers := sn_headers s @ (if i = 0 then (case md of None \<Rightarrow> [] | Some m \<Rightarrow> [m]) else []),
         sn_msgs := sn_msgs s @ [payload]\<rparr>)"
  by (cases md) (auto simp: send_iter_def send_msg_def no_faults_def)

lemma SendFrom_later:
  "no_faults E \<Longrightarrow> SendFrom E (Suc i) (map (\<lambda>(p, md). ((p, None), md)) rs @ [((q, Some ErrEOF), md)] @ rest) s =
    (Some None, s\<lparr>sn_msgs := sn_msgs s @ map fst rs @ [q]\<rparr>)"
proof (induction rs arbitrary: i s)
  case Nil
  then show ?case by (simp add: send_iter_ok)
next
  case (Cons r rs)
  then show ?case by (cases r) (simp add: send_iter_ok)
qed

lemma SendFrom_results:
  assumes "no_faults E"
  shows "SendFrom E 0 (map (\<lambda>(p, md). ((p, None), md)) rs @ [((q, Some ErrEOF), md)] @ rest) s =
    (Some None, s\<lparr>sn_headers := sn_headers s @
        (case (if rs = [] then md else snd (hd rs)) of None \<Rightarrow> [] | Some m \<Rightarrow> [m]),
      sn_msgs := sn_msgs s @ map fst rs @ [q]\<rparr>)"
proof (cases rs)
  case Nil
  with assms show ?thesis by (simp add: send_iter_ok)
next
  case (Cons r rs')
  with assms show ?thesis
    using SendFrom_later [of E 0 rs' q md rest] by (cases r) (simp add: send_iter_ok)
qed

text \<open>The handler is called with the payloads in order, up to the first it ends at.\<close>

fun calls :: "('s \<Rightarrow> bytes \<Rightarrow> goerr option \<times> 's) \<Rightarrow> bytes list \<Rightarrow> 's \<Rightarrow> goerr option \<times> 's" where
  "calls call [] s = (None, s)"
| "calls call (p # ps) s = (case call s p of (None, s') \<Rightarrow> calls call ps s' | (Some e, s') \<Rightarrow> (Some e, s'))"

lemma ReceiveFrom_calls:
  "ReceiveFrom E call (map Inr ps @ Inl err # rest) s =
    (case calls (\<lambda>s p. call p s) ps s of
       (None, s') \<Rightarrow> (Some (recv_failed err), s')
     | (Some e, s') \<Rightarrow> (Some (if e = ErrEOF then None else Some (to_status E e)), s'))"
  by (induction ps arbitrary: s) (auto simp: call_returned_def split: option.splits prod.splits)

section \<open>Properties\<close>

text \<open>
  The codec of the proxy is transparent: a raw frame takes and gives the bytes of the wire
  unchanged, and for every other value it behaves exactly as the plain protobuf codec, errors
  included, so that the services of the server itself are not affected by it.
\<close>

theorem codec_transparent:
  "co_marshal (Codec P) (FrameValue data) = Inr data \<and>
   co_unmarshal (Codec P) data (FrameValue old) = (None, FrameValue data) \<and>
   co_marshal (Codec P) (ProtoValue m) = co_marshal (protoCodec P) (ProtoValue m) \<and>
   co_unmarshal (Codec P) data (ProtoValue m) = co_unmarshal (protoCodec P) data (ProtoValue m) \<and>
   co_marshal (Codec P) (OtherValue n) = co_marshal (protoCodec P) (OtherValue n) \<and>
   co_unmarshal (Codec P) data (OtherValue n) = co_unmarshal (protoCodec P) data (OtherValue n)"
  by (simp add: Codec_def CodecWithParent_def)

text \<open>
  C22. Waiting for a handler is bounded and cannot get stuck by itself: every run of the loop
  over the two channels has at most five steps (four events and the end), and a run that has not
  ended can go on, unless one of the two goroutines never ends.
\<close>

theorem waiting_is_bounded:
  assumes "(loop_step ^^ n) (start_loop rv sv) c"
  shows "n \<le> 5 \<and> (el_end c \<noteq> None \<or> (\<exists>c'. loop_step c c') \<or> rv = None \<or> sv = None)"
proof -
  have r: "loop_step\<^sup>*\<^sup>* (start_loop rv sv) c" using assms by (rule relpowp_imp_rtranclp)
  have "n \<le> 5" using loop_steps_count [OF assms] loop_i_le [OF r] by (simp split: if_splits)
  moreover have "el_end c \<noteq> None \<or> (\<exists>c'. loop_step c c') \<or> rv = None \<or> sv = None"
    using loop_progress [OF loop_inv_reachable [OF r]] by blast
  ultimately show ?thesis by blast
qed

theorem waiting_is_bounded_witness:
  "(0 :: nat) \<le> 5 \<and> (\<exists>c'. loop_step (start_loop (Some None) (Some (Some ErrEOF))) c')"
  using waiting_is_bounded [of 0 "Some None" "Some (Some ErrEOF)" "start_loop (Some None) (Some (Some ErrEOF))"]
  by (simp add: start_loop_def)

text \<open>
  C16. What a proxied call returns, under every scheduling: nil exactly when both goroutines of
  every handler end with nil, and otherwise an error of the first handler that has one, after
  which no further handler is started. The handlers started are closed, the last one first. A
  handler one of whose goroutines never ends while the other ends with nil is waited for forever.
\<close>

theorem proxied_call_outcome:
  "GrpcHandlerFromGateway R (Ret (Inr call)) (Ret e) closed \<longleftrightarrow>
    (e = None \<and> closed = rev (mc_handlers call) \<and>
      list_all (\<lambda>h. R h = (Some None, Some None)) (mc_handlers call)) \<or>
    (\<exists>pre h post err. mc_handlers call = pre @ h # post \<and> e = Some err \<and> closed = h # rev pre \<and>
      list_all (\<lambda>h. R h = (Some None, Some None)) pre \<and>
      (fst (R h) = Some (Some err) \<or> snd (R h) = Some (Some err)))"
proof -
  have p: "proxy_handlers R hs ds e closed \<longleftrightarrow>
      (e = None \<and> closed = rev hs @ ds \<and> list_all (\<lambda>h. R h = (Some None, Some None)) hs) \<or>
      (\<exists>pre h post err. hs = pre @ h # post \<and> e = Some err \<and> closed = h # rev pre @ ds \<and>
        list_all (\<lambda>h. R h = (Some None, Some None)) pre \<and>
        (fst (R h) = Some (Some err) \<or> snd (R h) = Some (Some err)))" for hs ds
  proof (induction hs arbitrary: ds)
    case Nil
    then show ?case by (auto simp: proxy_Nil)
  next
    case (Cons h hs)
    let ?bad = "\<lambda>e x. fst (R x) = Some (Some e) \<or> snd (R x) = Some (Some e)"
    have "(\<exists>pre x post err. h # hs = pre @ x # post \<and> e = Some err \<and> closed = x # rev pre @ ds \<and>
        list_all (\<lambda>h. R h = (Some None, Some None)) pre \<and> ?bad err x) \<longleftrightarrow>
      (\<exists>err. e = Some err \<and> closed = h # ds \<and> ?bad err h) \<or>
      R h = (Some None, Some None) \<and>
      (\<exists>pre x post err. hs = pre @ x # post \<and> e = Some err \<and> closed = x # rev pre @ h # ds \<and>
        list_all (\<lambda>h. R h = (Some None, Some None)) pre \<and> ?bad err x)"
      by (subst ex_list) auto
    then show ?case
      by (simp add: proxy_Cons Cons.IH loop_ends_iff prod_eq_iff) blast
  qed
  have "GrpcHandlerFromGateway R (Ret (Inr call)) (Ret e) closed \<longleftrightarrow>
      proxy_handlers R (mc_handlers call) [] e closed"
    by (auto intro: GrpcHandlerFromGateway.intros elim: GrpcHandlerFromGateway.cases)
  with p [of "mc_handlers call" "[]"] show ?thesis by simp
qed

text \<open>
  On a stream without faults the sending goroutine sends the payload of every result, in
  order and up to the one that comes with the end, sends the metadata of the first result only,
  and ends with nil.
\<close>

theorem results_sent_in_order:
  assumes "no_faults E"
  shows "SendFrom E 0 (map (\<lambda>(p, md). ((p, None), md)) rs @ [((q, Some ErrEOF), md)] @ rest)
      \<lparr>sn_headers = [], sn_msgs = []\<rparr> =
    (Some None, \<lparr>sn_headers = (case (if rs = [] then md else snd (hd rs)) of None \<Rightarrow> [] | Some m \<Rightarrow> [m]),
       sn_msgs = map fst rs @ [q]\<rparr>)"
  using SendFrom_results [OF assms] by simp

definition sample_stream :: "nat stream_env" where
  "sample_stream = \<lparr>se_set_header = (\<lambda>s md. None), se_send = (\<lambda>s p. None), se_error = (\<lambda>e. ''e'')\<rparr>"

theorem results_sent_in_order_witness:
  "SendFrom sample_stream 0 [((''a'', None), Some 1), ((''b'', None), Some 2), ((''c'', Some ErrEOF), None)]
      \<lparr>sn_headers = [], sn_msgs = []\<rparr> =
    (Some None, \<lparr>sn_headers = [1], sn_msgs = [''a'', ''b'', ''c'']\<rparr>)"
  using results_sent_in_order [of sample_stream "[(''a'', Some 1), (''b'', Some 2)]" "''c''" None "[]"]
  by (simp add: no_faults_def sample_stream_def)

end
