(* ===== verification/Readers.thy ===== *)
theory Readers
  imports Messages
begin

text \<open>
  Configuration values (\<^verbatim>\<open>value_reader.go\<close>, \<^verbatim>\<open>empty_reader.go\<close> and
  \<^verbatim>\<open>cached_reader.go\<close> of \<^verbatim>\<open>pkg/config\<close>): what \<^verbatim>\<open>NewConfig\<close> makes of a value, and
  the readers that implement \<^verbatim>\<open>app.Config\<close>. Floating point, times and the JSON codec are
  parameters.
\<close>

section \<open>Values\<close>

text \<open>The dynamic types \<^verbatim>\<open>NewConfig\<close> tells apart; \<open>'f\<close> is the type of a float.\<close>

datatype 'f any_val = ANil | ATime "go_time option" | ADuration int64 | AInt64 int64 | AFloat64 'f
  | ABool bool | AStrings "string list" | AString string | AOther string

record 'f codec =
  cd_format_time :: "go_time \<Rightarrow> string"
  cd_duration_string :: "int64 \<Rightarrow> string"
  cd_format_float :: "'f \<Rightarrow> string"
  cd_json_strings :: "string list \<Rightarrow> string"
  cd_parse_float :: "string \<Rightarrow> 'f"
  cd_parse_strings :: "string \<Rightarrow> string list"
  cd_parse_duration :: "string \<Rightarrow> int64"
  cd_parse_time :: "string \<Rightarrow> go_time"
  cd_zero_time :: go_time
  cd_zero_float :: 'f

record 'f cachedReader =
  cr_is_set :: bool
  cr_string :: string
  cr_float64 :: 'f
  cr_int64 :: int64
  cr_strings :: "string list"
  cr_bool :: bool
  cr_duration :: int64
  cr_time :: go_time
  cr_interface :: "'f any_val"

datatype 'f config = ValReader "'f any_val" | EmptyReader | CachedReader "'f cachedReader"

text \<open>
  \<^verbatim>\<open>strconv.FormatInt\<close> panics for a base above 36, and the base here is 64.
\<close>

definition NewConfig :: "'f codec \<Rightarrow> 'f any_val \<Rightarrow> 'f config val" where
  "NewConfig C x = (case x of
      ATime None \<Rightarrow> Panics ''nil pointer dereference''
    | ATime (Some t) \<Rightarrow> Ret (ValReader (AString (cd_format_time C t)))
    | ADuration d \<Rightarrow> Ret (ValReader (AString (cd_duration_string C d)))
    | AInt64 i \<Rightarrow> Panics ''strconv: illegal AppendInt/FormatInt base''
    | AFloat64 f \<Rightarrow> Ret (ValReader (AString (cd_format_float C f)))
    | ABool b \<Rightarrow> Ret (ValReader (AString (if b then ''t'' else ''f'')))
    | AStrings l \<Rightarrow> Ret (ValReader (AString (cd_json_strings C l)))
    | AString s \<Rightarrow> Ret (ValReader (if s = [] then ANil else AString s))
    | ANil \<Rightarrow> Ret (ValReader ANil)
    | AOther t \<Rightarrow> Ret (ValReader (AOther t)))"

definition EmptyConfig :: "'f config" where "EmptyConfig = EmptyReader"

section \<open>Readers\<close>

text \<open>
  The interface \<^verbatim>\<open>app.Config\<close> has three implementations: a value and its conversions, the
  empty reader and the cached one. A method of the interface is the choice among the three.
\<close>

text \<open>
  \<^verbatim>\<open>strconv.ParseInt(s, 10, 64)\<close> with its error ignored: zero for a malformed number, the
  nearest bound for one out of range.
\<close>

definition digit :: "char \<Rightarrow> bool" where
  "digit c \<longleftrightarrow> 48 \<le> (of_char c :: nat) \<and> (of_char c :: nat) \<le> 57"

definition digits_val :: "string \<Rightarrow> nat" where
  "digits_val s = foldl (\<lambda>n c. 10 * n + ((of_char c :: nat) - 48)) 0 s"

definition ParseInt :: "string \<Rightarrow> int64" where
  "ParseInt s =
     (let (neg, ds) = (case s of c # cs \<Rightarrow> if c = CHR ''-'' then (True, cs)
                         else if c = CHR ''+'' then (False, cs) else (False, s) | [] \<Rightarrow> (False, []));
          n = digits_val ds
      in if ds = [] \<or> \<not> list_all digit ds then 0
         else if neg then word_of_int (- int (min n (2 ^ 63)))
         else word_of_int (int (min n (2 ^ 63 - 1))))"

definition map_val :: "('a \<Rightarrow> 'b) \<Rightarrow> 'a val \<Rightarrow> 'b val" where
  "map_val f r = (case r of Ret a \<Rightarrow> Ret (f a) | Panics e \<Rightarrow> Panics e)"

subsection \<open>A value\<close>

definition valReader_IsSet :: "'f any_val \<Rightarrow> bool" where
  [simp]: "valReader_IsSet v \<longleftrightarrow> v \<noteq> ANil"

definition valReader_StringVal :: "'f any_val \<Rightarrow> string val" where
  [simp]: "valReader_StringVal v = (case v of AString s \<Rightarrow> Ret s | _ \<Rightarrow> Panics ''interface conversion'')"

definition valReader_Int64Val :: "'f any_val \<Rightarrow> int64 val" where
  [simp]: "valReader_Int64Val v = map_val ParseInt (valReader_StringVal v)"

definition valReader_Float64Val :: "'f codec \<Rightarrow> 'f any_val \<Rightarrow> 'f val" where
  [simp]: "valReader_Float64Val C v = map_val (cd_parse_float C) (valReader_StringVal v)"

definition valReader_StringSliceVal :: "'f codec \<Rightarrow> 'f any_val \<Rightarrow> string list val" where
  [simp]: "valReader_StringSliceVal C v = map_val (cd_parse_strings C) (valReader_StringVal v)"

definition valReader_BoolVal :: "'f any_val \<Rightarrow> bool val" where
  [simp]: "valReader_BoolVal v =
     map_val (\<lambda>s. to_lower s \<in> {''t'', ''true'', ''y'', ''yes''}) (valReader_StringVal v)"

definition valReader_DurationVal :: "'f codec \<Rightarrow> 'f any_val \<Rightarrow> int64 val" where
  [simp]: "valReader_DurationVal C v = map_val (cd_parse_duration C) (valReader_StringVal v)"

definition valReader_TimeVal :: "'f codec \<Rightarrow> 'f any_val \<Rightarrow> go_time val" where
  [simp]: "valReader_TimeVal C v = map_val (cd_parse_time C) (valReader_StringVal v)"

definition valReader_InterfaceVal :: "'f any_val \<Rightarrow> 'f any_val" where
  [simp]: "valReader_InterfaceVal v = v"

subsection \<open>The empty reader\<close>

definition emptyReader_IsSet :: bool where [simp]: "emptyReader_IsSet = False"

definition emptyReader_StringVal :: string where [simp]: "emptyReader_StringVal = []"

definition emptyReader_Int64Val :: "int64" where [simp]: "emptyReader_Int64Val = 0"

definition emptyReader_Float64Val :: "'f codec \<Rightarrow> 'f" where
  [simp]: "emptyReader_Float64Val C = cd_zero_float C"

definition emptyReader_StringSliceVal :: "string list" where
  [simp]: "emptyReader_StringSliceVal = []"

definition emptyReader_BoolVal :: "bool" where [simp]: "emptyReader_BoolVal = False"

definition emptyReader_DurationVal :: "int64" where [simp]: "emptyReader_DurationVal = 0"

definition emptyReader_TimeVal :: "'f codec \<Rightarrow> go_time" where
  [simp]: "emptyReader_TimeVal C = cd_zero_time C"

definition emptyReader_InterfaceVal :: "'f any_val" where [simp]: "emptyReader_InterfaceVal = ANil"

subsection \<open>The cached reader\<close>

definition cachedReader_IsSet :: "'f cachedReader \<Rightarrow> bool" where
  [simp]: "cachedReader_IsSet r = cr_is_set r"

definition cachedReader_StringVal :: "'f cachedReader \<Rightarrow> string" where
  [simp]: "cachedReader_StringVal r = cr_string r"

definition cachedReader_Int64Val :: "'f cachedReader \<Rightarrow> int64" where
  [simp]: "cachedReader_Int64Val r = cr_int64 r"

definition cachedReader_Float64Val :: "'f cachedReader \<Rightarrow> 'f" where
  [simp]: "cachedReader_Float64Val r = cr_float64 r"

definition cachedReader_StringSliceVal :: "'f cachedReader \<Rightarrow> string list" where
  [simp]: "cachedReader_StringSliceVal r = cr_strings r"

definition cachedReader_BoolVal :: "'f cachedReader \<Rightarrow> bool" where
  [simp]: "cachedReader_BoolVal r = cr_bool r"

definition cachedReader_DurationVal :: "'f cachedReader \<Rightarrow> int64" where
  [simp]: "cachedReader_DurationVal r = cr_duration r"

definition cachedReader_TimeVal :: "'f cachedReader \<Rightarrow> go_time" where
  [simp]: "cachedReader_TimeVal r = cr_time r"

definition cachedReader_InterfaceVal :: "'f cachedReader \<Rightarrow> 'f any_val" where
  [simp]: "cachedReader_InterfaceVal r = cr_interface r"

subsection \<open>The interface\<close>

definition IsSet :: "'f config \<Rightarrow> bool" where
  "IsSet c = (case c of ValReader v \<Rightarrow> valReader_IsSet v | EmptyReader \<Rightarrow> emptyReader_IsSet
     | CachedReader r \<Rightarrow> cachedReader_IsSet r)"

definition StringVal :: "'f config \<Rightarrow> string val" where
  "StringVal c = (case c of ValReader v \<Rightarrow> valReader_StringVal v | EmptyReader \<Rightarrow> Ret emptyReader_StringVal
     | CachedReader r \<Rightarrow> Ret (cachedReader_StringVal r))"

definition Int64Val :: "'f config \<Rightarrow> int64 val" where
  "Int64Val c = (case c of ValReader v \<Rightarrow> valReader_Int64Val v | EmptyReader \<Rightarrow> Ret emptyReader_Int64Val
     | CachedReader r \<Rightarrow> Ret (cachedReader_Int64Val r))"

definition Float64Val :: "'f codec \<Rightarrow> 'f config \<Rightarrow> 'f val" where
  "Float64Val C c = (case c of ValReader v \<Rightarrow> valReader_Float64Val C v
     | EmptyReader \<Rightarrow> Ret (emptyReader_Float64Val C)
     | CachedReader r \<Rightarrow> Ret (cachedReader_Float64Val r))"

definition StringSliceVal :: "'f codec \<Rightarrow> 'f config \<Rightarrow> string list val" where
  "StringSliceVal C c = (case c of ValReader v \<Rightarrow> valReader_StringSliceVal C v
     | EmptyReader \<Rightarrow> Ret emptyReader_StringSliceVal
     | CachedReader r \<Rightarrow> Ret (cachedReader_StringSliceVal r))"

definition BoolVal :: "'f config \<Rightarrow> bool val" where
  "BoolVal c = (case c of ValReader v \<Rightarrow> valReader_BoolVal v | EmptyReader \<Rightarrow> Ret emptyReader_BoolVal
     | CachedReader r \<Rightarrow> Ret (cachedReader_BoolVal r))"

definition DurationVal :: "'f codec \<Rightarrow> 'f config \<Rightarrow> int64 val" where
  "DurationVal C c = (case c of ValReader v \<Rightarrow> valReader_DurationVal C v
     | EmptyReader \<Rightarrow> Ret emptyReader_DurationVal
     | CachedReader r \<Rightarrow> Ret (cachedReader_DurationVal r))"

definition TimeVal :: "'f codec \<Rightarrow> 'f config \<Rightarrow> go_time val" where
  "TimeVal C c = (case c of ValReader v \<Rightarrow> valReader_TimeVal C v
     | EmptyReader \<Rightarrow> Ret (emptyReader_TimeVal C)
     | CachedReader r \<Rightarrow> Ret (cachedReader_TimeVal r))"

definition InterfaceVal :: "'f config \<Rightarrow> 'f any_val" where
  "InterfaceVal c = (case c of ValReader v \<Rightarrow> valReader_InterfaceVal v
     | EmptyReader \<Rightarrow> emptyReader_InterfaceVal | CachedReader r \<Rightarrow> cachedReader_InterfaceVal r)"

text \<open>The struct literal of \<^verbatim>\<open>CacheConfig\<close>: the readers are called in the order written.\<close>

definition CacheConfig :: "'f codec \<Rightarrow> 'f config \<Rightarrow> 'f config val" where
  "CacheConfig C c = (case (StringVal c, Float64Val C c, Int64Val c, StringSliceVal C c, BoolVal c,
       DurationVal C c, TimeVal C c) of
     (Ret s, Ret f, Ret i, Ret l, Ret b, Ret d, Ret t) \<Rightarrow> Ret (CachedReader
       \<lparr>cr_is_set = IsSet c, cr_string = s, cr_float64 = f, cr_int64 = i, cr_strings = l,
        cr_bool = b, cr_duration = d, cr_time = t, cr_interface = InterfaceVal c\<rparr>)
   | (Panics e, _) \<Rightarrow> Panics e
   | _ \<Rightarrow> Panics ''interface conversion'')"

end
