(* ===== verification/Config.thy ===== *)
theory Config
  imports Readers
begin

text \<open>
  The configuration sources of \<^verbatim>\<open>pkg/config\<close>: the environment, flag and file sources, the
  composite of several sources with its cache, and the choice of a decoder by file extension. The
  interface \<^verbatim>\<open>app.ConfigSource\<close> is the locale \<open>config_source\<close>. The JSON, YAML and TOML
  codecs are parameters.
\<close>

section \<open>Sources\<close>

record 'f envSource =
  en_key_case :: "string \<Rightarrow> string"
  en_configs :: "string \<rightharpoonup> 'f config"

definition store_config :: "'f codec \<Rightarrow> string \<Rightarrow> string \<Rightarrow> (string \<rightharpoonup> 'f config) \<Rightarrow> (string \<rightharpoonup> 'f config) val" where
  "store_config C k v m = map_val (\<lambda>c. m(k \<mapsto> c)) (NewConfig C (AString v))"

text \<open>
  One entry of \<^verbatim>\<open>os.Environ()\<close>. The key is \<^verbatim>\<open>env[:sep-1]\<close>, as written; slicing below
  zero panics. Converting the case of a key is \<^verbatim>\<open>app.ConvertKeyCase\<close>, a parameter.
\<close>

definition load_env :: "'f codec \<Rightarrow> 'f envSource \<Rightarrow> string \<Rightarrow> 'f envSource eff" where
  "load_env C e env = (case index_byte (CHR ''='') env of
     None \<Rightarrow> Crash ''slice bounds out of range''
   | Some 0 \<Rightarrow> Crash ''slice bounds out of range''
   | Some (Suc n) \<Rightarrow>
       (case store_config C (en_key_case e (take n env)) (drop (Suc (Suc n)) env) (en_configs e) of
          Panics p \<Rightarrow> Crash p | Ret m \<Rightarrow> Done (e\<lparr>en_configs := m\<rparr>)))"

definition envSource_Load :: "'f codec \<Rightarrow> string list \<Rightarrow> 'f envSource \<Rightarrow> 'f envSource eff" where
  "envSource_Load C envs e = for_each (load_env C) envs e"

definition configs_Get :: "(string \<rightharpoonup> 'f config) \<Rightarrow> string \<Rightarrow> 'f config" where
  "configs_Get m k = (case m k of Some c \<Rightarrow> c | None \<Rightarrow> EmptyConfig)"

definition envSource_Get :: "'f envSource \<Rightarrow> string \<Rightarrow> 'f config" where
  "envSource_Get e k = configs_Get (en_configs e) k"

definition envSource_Has :: "'f envSource \<Rightarrow> string \<Rightarrow> bool" where
  "envSource_Has e k \<longleftrightarrow> en_configs e k \<noteq> None"

text \<open>The flags: \<open>fl_set\<close> what \<^verbatim>\<open>Visit\<close> visits, \<open>fl_all\<close> what \<^verbatim>\<open>VisitAll\<close> does.\<close>

record 'f flagSource =
  fl_key_case :: "string \<Rightarrow> string"
  fl_set :: "string list"
  fl_all :: "(string \<times> string) list"
  fl_configs :: "string \<rightharpoonup> 'f config"
  fl_only_set :: "string \<Rightarrow> bool"

definition load_flag :: "'f codec \<Rightarrow> 'f flagSource \<Rightarrow> string \<times> string \<Rightarrow> 'f flagSource eff" where
  "load_flag C f fg =
     (if snd fg = [] then Done f
      else case store_config C (fl_key_case f (fst fg)) (snd fg) (fl_configs f) of
             Panics p \<Rightarrow> Crash p | Ret m \<Rightarrow> Done (f\<lparr>fl_configs := m\<rparr>))"

definition flagSource_Load :: "'f codec \<Rightarrow> 'f flagSource \<Rightarrow> 'f flagSource eff" where
  "flagSource_Load C f = for_each (load_flag C) (fl_all f)
     (f\<lparr>fl_only_set := fold (\<lambda>n m. m(fl_key_case f n := True)) (fl_set f) (fl_only_set f)\<rparr>)"

definition flagSource_Get :: "'f flagSource \<Rightarrow> string \<Rightarrow> 'f config" where
  "flagSource_Get f k = configs_Get (fl_configs f) k"

definition flagSource_Has :: "'f flagSource \<Rightarrow> string \<Rightarrow> bool" where
  "flagSource_Has f k = fl_only_set f k"

text \<open>
  A file: \<open>fi_yaml\<close> and \<open>fi_toml\<close> decode it and encode it again as JSON, \<open>fi_query\<close> is a
  lookup in the parsed JSON (the string of a value that exists).
\<close>

record 'j file_codec =
  fi_read :: "string \<Rightarrow> goerr + bytes"
  fi_yaml :: "bytes \<Rightarrow> goerr + bytes"
  fi_toml :: "bytes \<Rightarrow> goerr + bytes"
  fi_parse :: "bytes \<Rightarrow> 'j"
  fi_query :: "'j \<Rightarrow> string \<Rightarrow> string option"

record 'j fileSource =
  fs_path :: string
  fs_config :: "'j option"

definition file_ext :: "string \<Rightarrow> string" where
  "file_ext path = to_lower (case after_last (CHR ''.'') path of Some x \<Rightarrow> x | None \<Rightarrow> path)"

definition fileSource_Load :: "'j file_codec \<Rightarrow> 'j fileSource \<Rightarrow> 'j fileSource eff" where
  "fileSource_Load F f = (case fi_read F (fs_path f) of
     Inl e \<Rightarrow> Fail e f
   | Inr raw \<Rightarrow>
       (let ext = file_ext (fs_path f);
            res = (if ext = ''json'' then Inr raw
                   else if ext = ''yml'' \<or> ext = ''yaml'' then fi_yaml F raw
                   else if ext = ''toml'' then fi_toml F raw
                   else Inl ErrUnknownConfigFormat)
        in case res of Inl e \<Rightarrow> Fail e f | Inr raw \<Rightarrow> Done (f\<lparr>fs_config := Some (fi_parse F raw)\<rparr>)))"

definition file_query :: "'j file_codec \<Rightarrow> 'j fileSource \<Rightarrow> string \<Rightarrow> string option" where
  "file_query F f k = (case fs_config f of None \<Rightarrow> None | Some j \<Rightarrow> fi_query F j k)"

definition fileSource_Get :: "'f codec \<Rightarrow> 'j file_codec \<Rightarrow> 'j fileSource \<Rightarrow> string \<Rightarrow> 'f config" where
  "fileSource_Get C F f k = (case file_query F f k of
     Some s \<Rightarrow> (case NewConfig C (AString s) of Ret c \<Rightarrow> c | Panics _ \<Rightarrow> EmptyConfig)
   | None \<Rightarrow> EmptyConfig)"

definition fileSource_Has :: "'j file_codec \<Rightarrow> 'j fileSource \<Rightarrow> string \<Rightarrow> bool" where
  "fileSource_Has F f k \<longleftrightarrow> file_query F f k \<noteq> None"

section \<open>The composite source\<close>

text \<open>The sources a composite is made of in \<^verbatim>\<open>cmd/main.go\<close>.\<close>

datatype ('f, 'j) source = SEnv "'f envSource" | SFlag "'f flagSource" | SFile "'j fileSource"

fun source_Get :: "'f codec \<Rightarrow> 'j file_codec \<Rightarrow> ('f, 'j) source \<Rightarrow> string \<Rightarrow> 'f config" where
  "source_Get C F (SEnv e) k = envSource_Get e k"
| "source_Get C F (SFlag f) k = flagSource_Get f k"
| "source_Get C F (SFile f) k = fileSource_Get C F f k"

fun source_Has :: "'j file_codec \<Rightarrow> ('f, 'j) source \<Rightarrow> string \<Rightarrow> bool" where
  "source_Has F (SEnv e) k = envSource_Has e k"
| "source_Has F (SFlag f) k = flagSource_Has f k"
| "source_Has F (SFile f) k = fileSource_Has F f k"

fun map_eff :: "('s \<Rightarrow> 't) \<Rightarrow> 's eff \<Rightarrow> 't eff" where
  "map_eff f (Done s) = Done (f s)"
| "map_eff f (Fail e s) = Fail e (f s)"
| "map_eff f (Crash p) = Crash p"

fun source_Load :: "'f codec \<Rightarrow> 'j file_codec \<Rightarrow> string list \<Rightarrow> ('f, 'j) source \<Rightarrow> ('f, 'j) source eff" where
  "source_Load C F envs (SEnv e) = map_eff SEnv (envSource_Load C envs e)"
| "source_Load C F envs (SFlag f) = map_eff SFlag (flagSource_Load C f)"
| "source_Load C F envs (SFile f) = map_eff SFile (fileSource_Load F f)"

record ('f, 'j) compositeSource =
  co_sources :: "('f, 'j) source list"
  co_cache :: "string \<rightharpoonup> 'f config"

definition NewCompositeSource :: "('f, 'j) source list \<Rightarrow> ('f, 'j) compositeSource" where
  "NewCompositeSource s = \<lparr>co_sources = s, co_cache = Map.empty\<rparr>"

fun load_sources ::
    "'f codec \<Rightarrow> 'j file_codec \<Rightarrow> string list \<Rightarrow> ('f, 'j) source list \<Rightarrow> ('f, 'j) source list eff" where
  "load_sources C F envs [] = Done []"
| "load_sources C F envs (s # ss) = (case source_Load C F envs s of
     Done s' \<Rightarrow> map_eff (\<lambda>ss. s' # ss) (load_sources C F envs ss)
   | Fail e s' \<Rightarrow> Fail e (s' # ss) | Crash p \<Rightarrow> Crash p)"

definition compositeSource_Load ::
    "'f codec \<Rightarrow> 'j file_codec \<Rightarrow> string list \<Rightarrow> ('f, 'j) compositeSource \<Rightarrow> ('f, 'j) compositeSource eff" where
  "compositeSource_Load C F envs c =
     map_eff (\<lambda>ss. c\<lparr>co_sources := ss\<rparr>) (load_sources C F envs (co_sources c))"

text \<open>The loop: a value that is set and explicitly there ends it, one that is only set is kept.\<close>

fun lookup_sources ::
    "'f codec \<Rightarrow> 'j file_codec \<Rightarrow> ('f, 'j) source list \<Rightarrow> string \<Rightarrow> 'f config option \<Rightarrow> 'f config \<times> bool" where
  "lookup_sources C F [] k defVal = (case defVal of Some d \<Rightarrow> (d, False) | None \<Rightarrow> (EmptyConfig, False))"
| "lookup_sources C F (s # ss) k defVal =
     (let cr = source_Get C F s k
      in if IsSet cr then
           if source_Has F s k then (cr, True) else lookup_sources C F ss k (Some cr)
         else lookup_sources C F ss k defVal)"

definition compositeSource_Get ::
    "'f codec \<Rightarrow> 'j file_codec \<Rightarrow> ('f, 'j) compositeSource \<Rightarrow> string \<Rightarrow> 'f config \<times> ('f, 'j) compositeSource" where
  "compositeSource_Get C F c k = (case co_cache c k of
     Some cr \<Rightarrow> (cr, c)
   | None \<Rightarrow> (case lookup_sources C F (co_sources c) k None of
       (cr, True) \<Rightarrow> (cr, c\<lparr>co_cache := (co_cache c)(k \<mapsto> cr)\<rparr>)
     | (cr, False) \<Rightarrow> (cr, c)))"

definition compositeSource_Has ::
    "'f codec \<Rightarrow> 'j file_codec \<Rightarrow> ('f, 'j) compositeSource \<Rightarrow> string \<Rightarrow> bool \<times> ('f, 'j) compositeSource" where
  "compositeSource_Has C F c k = (let (cfg, c') = compositeSource_Get C F c k in (IsSet cfg, c'))"

section \<open>Decoding messages by file extension\<close>

datatype ProtoJson_SourceFormat = ProtoJson_FromJson | ProtoJson_FromToml | ProtoJson_FromYaml
  | ProtoJson_Unknown string

definition ProtoJsonFileExtensionToFormat :: "string \<Rightarrow> goerr + ProtoJson_SourceFormat" where
  "ProtoJsonFileExtensionToFormat path =
     (let ext = file_ext path
      in if ext = ''json'' then Inr ProtoJson_FromJson
         else if ext = ''yml'' \<or> ext = ''yaml'' then Inr ProtoJson_FromYaml
         else if ext = ''toml'' then Inr ProtoJson_FromToml
         else Inl ErrUnknownConfigFormat)"

text \<open>\<open>unmarshal\<close>: \<^verbatim>\<open>protojson.Unmarshal\<close> into the message.\<close>

definition ProtoJsonUnmarshal ::
    "'j file_codec \<Rightarrow> (bytes \<Rightarrow> goerr + 'm) \<Rightarrow> bytes \<Rightarrow> ProtoJson_SourceFormat \<Rightarrow> goerr + 'm" where
  "ProtoJsonUnmarshal F unmarshal buf enc = (case enc of
      ProtoJson_FromJson \<Rightarrow> unmarshal buf
    | ProtoJson_FromYaml \<Rightarrow> (case fi_yaml F buf of Inl e \<Rightarrow> Inl e | Inr b \<Rightarrow> unmarshal b)
    | ProtoJson_FromToml \<Rightarrow> (case fi_toml F buf of Inl e \<Rightarrow> Inl e | Inr b \<Rightarrow> unmarshal b)
    | ProtoJson_Unknown _ \<Rightarrow> Inl ErrUnknownConfigFormat)"

end
