(* ===== verification/Tls.thy ===== *)
theory Tls
  imports Config
begin

text \<open>
  Keys, certificates and TLS configuration, \<^verbatim>\<open>provider/tls/tls.go\<close>. The parsers, the random
  source, the clock and the file system are parameters; a key is abstract material of type \<open>'k\<close>
  with a public part of type \<open>'p\<close>. The two loops over the blocks of a PEM file are one partial
  function, whose \<open>None\<close> is a loop that never ends; a logger's \<^verbatim>\<open>Panic\<close> is \<open>Panics\<close>.
\<close>

section \<open>Keys and certificates\<close>

datatype 'k private_key = RsaKey 'k | EcdsaKey 'k | Ed25519Key 'k | EcdhKey 'k

datatype 'p public_key = RsaPub 'p | EcdsaPub 'p | Ed25519Pub 'p

record pem_block =
  pb_type :: string
  pb_bytes :: bytes

record 'p x509_cert =
  xc_raw :: bytes
  xc_public :: "'p public_key option"

datatype ext_key_usage = ExtKeyUsageClientAuth | ExtKeyUsageServerAuth

datatype key_usage = KeyUsageCertSign | KeyUsageDigitalSignature | KeyUsageDataEncipherment

text \<open>The template of the self-signed certificate; times are in nanoseconds.\<close>

record cert_template =
  ct_serial :: int
  ct_organization :: "string list"
  ct_country :: "string list"
  ct_province :: "string list"
  ct_locality :: "string list"
  ct_unit :: "string list"
  ct_not_before :: int
  ct_not_after :: int
  ct_is_ca :: bool
  ct_ext_usage :: "ext_key_usage list"
  ct_usage :: "key_usage set"

text \<open>
  The libraries: \<open>te_generate_rsa bits n\<close> is the key the random source gives after \<open>n\<close> earlier
  draws, \<open>te_now n\<close> the \<open>n\<close>-th reading of the clock within one call, \<open>te_create_cert\<close>
  \<^verbatim>\<open>x509.CreateCertificate\<close> with the template as its own parent.
\<close>

record ('k, 'p) tls_env =
  te_read_file :: "string \<Rightarrow> goerr + bytes"
  te_pem_decode :: "bytes \<Rightarrow> (pem_block \<times> bytes) option"
  te_parse_ec :: "bytes \<Rightarrow> goerr + 'k"
  te_parse_pkcs1 :: "bytes \<Rightarrow> goerr + 'k"
  te_parse_pkcs8 :: "bytes \<Rightarrow> goerr + 'k private_key"
  te_parse_cert :: "bytes \<Rightarrow> goerr + 'p x509_cert"
  te_generate_rsa :: "nat \<Rightarrow> nat \<Rightarrow> goerr + 'k"
  te_public :: "'k \<Rightarrow> 'p"
  te_create_cert :: "cert_template \<Rightarrow> 'p public_key option \<Rightarrow> 'k private_key \<Rightarrow> goerr + bytes"
  te_now :: "nat \<Rightarrow> int"

definition or_panic :: "string \<Rightarrow> goerr + 'a \<Rightarrow> 'a val" where
  "or_panic msg r = (case r of Inl e \<Rightarrow> Panics msg | Inr a \<Rightarrow> Ret a)"

section \<open>The loop over the blocks of a PEM file\<close>

partial_function (option) pem_loop ::
    "(bytes \<Rightarrow> (pem_block \<times> bytes) option) \<Rightarrow> (pem_block \<Rightarrow> 'a list \<Rightarrow> 'a list val) \<Rightarrow>
     bytes \<Rightarrow> 'a list \<Rightarrow> 'a list run_val" where
  "pem_loop decode add pemData acc = (case decode pemData of
      None \<Rightarrow> Some (Ret acc)
    | Some (block, rest) \<Rightarrow> (case add block acc of
        Panics e \<Rightarrow> Some (Panics e)
      | Ret acc' \<Rightarrow> pem_loop decode add rest acc'))"

text \<open>The documented law of \<^verbatim>\<open>pem.Decode\<close> the loops rely on: a block takes some of the input.\<close>

definition pem_shrinks :: "(bytes \<Rightarrow> (pem_block \<times> bytes) option) \<Rightarrow> bool" where
  "pem_shrinks decode \<longleftrightarrow> (\<forall>d b r. decode d = Some (b, r) \<longrightarrow> length r < length d)"

lemma pem_loop_returns: "pem_shrinks decode \<Longrightarrow> returns (pem_loop decode add d acc)"
proof (induction d arbitrary: acc rule: length_induct)
  case (1 d)
  then show ?case
    by (subst pem_loop.simps)
      (auto simp: pem_shrinks_def split: option.splits val.splits)
qed

text \<open>The blocks of a file, and the loop as a walk over them.\<close>

inductive pem_blocks :: "(bytes \<Rightarrow> (pem_block \<times> bytes) option) \<Rightarrow> bytes \<Rightarrow> pem_block list \<Rightarrow> bool"
    for decode where
  no_block: "decode d = None \<Longrightarrow> pem_blocks decode d []"
| block: "decode d = Some (b, r) \<Longrightarrow> pem_blocks decode r bs \<Longrightarrow> pem_blocks decode d (b # bs)"

inductive_simps pem_blocks_Nil: "pem_blocks decode d []"
inductive_simps pem_blocks_Cons: "pem_blocks decode d (b # bs)"

fun add_all :: "(pem_block \<Rightarrow> 'a list \<Rightarrow> 'a list val) \<Rightarrow> pem_block list \<Rightarrow> 'a list \<Rightarrow> 'a list val" where
  "add_all add [] acc = Ret acc"
| "add_all add (b # bs) acc = val_then (add b acc) (add_all add bs)"

lemma pem_loop_blocks:
  "pem_blocks decode d bs \<Longrightarrow> pem_loop decode add d acc = Some (add_all add bs acc)"
proof (induction arbitrary: acc rule: pem_blocks.induct)
  case (no_block d)
  then show ?case by (simp add: pem_loop.simps)
next
  case (block d b r bs)
  then show ?case by (subst pem_loop.simps) (simp split: val.splits)
qed

section \<open>Private keys\<close>

record ('f, 'k) KeyLoader =
  KeysPath :: "'f config"
  priv :: "'k private_key option"
  kl_draws :: nat

text \<open>The \<^verbatim>\<open>switch\<close> on the type of a block.\<close>

definition add_key ::
    "('k, 'p) tls_env \<Rightarrow> pem_block \<Rightarrow> 'k private_key list \<Rightarrow> 'k private_key list val" where
  "add_key E block privs =
     (if pb_type block = ''EC PRIVATE KEY'' then
        val_then (or_panic ''Unable to parse EC (SEC) private key'' (te_parse_ec E (pb_bytes block)))
          (\<lambda>k. Ret (privs @ [EcdsaKey k]))
      else if pb_type block = ''RSA PRIVATE KEY'' then
        val_then (or_panic ''Unable to parse PKCS1 private key'' (te_parse_pkcs1 E (pb_bytes block)))
          (\<lambda>k. Ret (privs @ [RsaKey k]))
      else if pb_type block = ''PRIVATE KEY'' then
        val_then (or_panic ''Unable to parse PKCS8 private key'' (te_parse_pkcs8 E (pb_bytes block)))
          (\<lambda>k. Ret (privs @ [k]))
      else Ret privs)"

definition BuildPrivateKeys ::
    "('k, 'p) tls_env \<Rightarrow> ('f, 'k) KeyLoader \<Rightarrow> 'k private_key list run_val" where
  "BuildPrivateKeys E k =
     (if \<not> IsSet (KeysPath k) then Some (Ret [])
      else run_then_val (Some (StringVal (KeysPath k))) (\<lambda>path.
        run_then_val (Some (or_panic ''Failed to read private keys file'' (te_read_file E path))) (\<lambda>pemData.
          pem_loop (te_pem_decode E) (add_key E) pemData [])))"

definition BuildDefaultRSAPrivateKey ::
    "('k, 'p) tls_env \<Rightarrow> ('f, 'k) KeyLoader \<Rightarrow> ('k private_key list \<times> ('f, 'k) KeyLoader) run_val" where
  "BuildDefaultRSAPrivateKey E k = run_then_val (BuildPrivateKeys E k) (\<lambda>privs.
     if privs \<noteq> [] then Some (Ret (privs, k))
     else (case priv k of
        Some p \<Rightarrow> Some (Ret ([p], k))
      | None \<Rightarrow>
          run_then_val (Some (or_panic ''Unable to generate temporary RSA private key''
              (te_generate_rsa E 4096 (kl_draws k))))
            (\<lambda>p. Some (Ret ([RsaKey p], k\<lparr>priv := Some (RsaKey p), kl_draws := Suc (kl_draws k)\<rparr>)))))"

section \<open>Certificates\<close>

record ('f, 'k) CertificateLoader =
  CertificatePath :: "'f config"
  PrivateKey :: "('f, 'k) KeyLoader"

definition add_cert ::
    "('k, 'p) tls_env \<Rightarrow> pem_block \<Rightarrow> 'p x509_cert list \<Rightarrow> 'p x509_cert list val" where
  "add_cert E block certs =
     (if pb_type block = ''CERTIFICATE'' then
        val_then (or_panic ''Unable to parse certificate'' (te_parse_cert E (pb_bytes block)))
          (\<lambda>c. Ret (certs @ [c]))
      else Ret certs)"

definition BuildCertificates ::
    "('k, 'p) tls_env \<Rightarrow> ('f, 'k) CertificateLoader \<Rightarrow> 'p x509_cert list run_val" where
  "BuildCertificates E c =
     (if \<not> IsSet (CertificatePath c) then Some (Ret [])
      else run_then_val (Some (StringVal (CertificatePath c))) (\<lambda>path.
        run_then_val (Some (or_panic ''Failed to read certificate file'' (te_read_file E path))) (\<lambda>pemData.
          pem_loop (te_pem_decode E) (add_cert E) pemData [])))"

fun publicKey :: "('k, 'p) tls_env \<Rightarrow> 'k private_key \<Rightarrow> 'p public_key option" where
  "publicKey E (RsaKey k) = Some (RsaPub (te_public E k))"
| "publicKey E (EcdsaKey k) = Some (EcdsaPub (te_public E k))"
| "publicKey E (Ed25519Key k) = Some (Ed25519Pub (te_public E k))"
| "publicKey E (EcdhKey k) = None"

definition caCert :: "('k, 'p) tls_env \<Rightarrow> cert_template" where
  "caCert E = \<lparr>ct_serial = te_now E 0 div 10 ^ 9, ct_organization = [''Graviflow''],
     ct_country = [], ct_province = [], ct_locality = [''Global''], ct_unit = [''Graviflow Agent''],
     ct_not_before = te_now E 1, ct_not_after = te_now E 2 + 360 * 24 * 3600 * 10 ^ 9,
     ct_is_ca = True, ct_ext_usage = [ExtKeyUsageClientAuth, ExtKeyUsageServerAuth],
     ct_usage = {KeyUsageCertSign, KeyUsageDigitalSignature, KeyUsageDataEncipherment}\<rparr>"

definition BuildDefaultCertificate ::
    "('k, 'p) tls_env \<Rightarrow> ('f, 'k) CertificateLoader \<Rightarrow>
     ('p x509_cert list \<times> ('f, 'k) CertificateLoader) run_val" where
  "BuildDefaultCertificate E c = run_then_val (BuildCertificates E c) (\<lambda>certs.
     if certs \<noteq> [] then Some (Ret (certs, c))
     else run_then_val (BuildDefaultRSAPrivateKey E (PrivateKey c)) (\<lambda>(privKeys, k).
       case privKeys of
         [] \<Rightarrow> Some (Panics ''index out of range'')
       | privKey # _ \<Rightarrow>
           run_then_val (Some (or_panic ''Error self signing certificate''
               (te_create_cert E (caCert E) (publicKey E privKey) privKey))) (\<lambda>certBytes.
           run_then_val (Some (or_panic ''Error parsing self signed certificate''
               (te_parse_cert E certBytes))) (\<lambda>cert.
             Some (Ret ([cert], c\<lparr>PrivateKey := k\<rparr>))))))"

section \<open>The TLS certificate and configuration\<close>

record ('k, 'p) tls_certificate =
  tc_certificate :: "bytes list"
  tc_private_key :: "'k private_key"
  tc_leaf :: "'p x509_cert option"

definition add_chain :: "('k, 'p) tls_certificate \<Rightarrow> 'p x509_cert \<Rightarrow> ('k, 'p) tls_certificate" where
  "add_chain t cert = t\<lparr>tc_leaf := (case tc_leaf t of None \<Rightarrow> Some cert | Some l \<Rightarrow> Some l),
     tc_certificate := tc_certificate t @ [xc_raw cert]\<rparr>"

definition Build ::
    "('k, 'p) tls_env \<Rightarrow> ('f, 'k) CertificateLoader \<Rightarrow>
     (('k, 'p) tls_certificate \<times> ('f, 'k) CertificateLoader) run_val" where
  "Build E c = run_then_val (BuildDefaultRSAPrivateKey E (PrivateKey c)) (\<lambda>(privs, k).
     run_then_val (BuildDefaultCertificate E (c\<lparr>PrivateKey := k\<rparr>)) (\<lambda>(certs, c').
       case privs of
         [] \<Rightarrow> Some (Panics ''index out of range'')
       | p # _ \<Rightarrow> Some (Ret (foldl add_chain \<lparr>tc_certificate = [], tc_private_key = p, tc_leaf = None\<rparr> certs, c'))))"

datatype client_auth = NoClientCert | RequestClientCert | RequireAnyClientCert
  | VerifyClientCertIfGiven | RequireAndVerifyClientCert

record ('k, 'p) tls_config =
  cfg_certificates :: "('k, 'p) tls_certificate list"
  cfg_client_auth :: client_auth
  cfg_insecure_skip_verify :: bool
  cfg_next_protos :: "string list"
  cfg_root_cas :: "'p x509_cert list option"
  cfg_client_cas :: "'p x509_cert list option"

record ('f, 'k) TlsBuilder =
  Certificate :: "('f, 'k) CertificateLoader"
  RootCAs :: "('f, 'k) CertificateLoader option"
  InsecureSkipVerify :: "'f config"
  ListenerAddress :: "'f config option"
  Protocol :: "'f config option"

definition BuildConfig ::
    "('k, 'p) tls_env \<Rightarrow> ('f, 'k) TlsBuilder \<Rightarrow> (('k, 'p) tls_config \<times> ('f, 'k) TlsBuilder) run_val" where
  "BuildConfig E t = run_then_val (Build E (Certificate t)) (\<lambda>(cert, c).
     run_then_val (Some (BoolVal (InsecureSkipVerify t))) (\<lambda>insecure.
       let tlsCfg = \<lparr>cfg_certificates = [cert], cfg_client_auth = RequestClientCert,
             cfg_insecure_skip_verify = insecure, cfg_next_protos = [''h2''],
             cfg_root_cas = None, cfg_client_cas = None\<rparr>;
           t' = t\<lparr>Certificate := c\<rparr>
       in case RootCAs t of
            None \<Rightarrow> Some (Ret (tlsCfg, t'))
          | Some roots \<Rightarrow>
              if \<not> IsSet (CertificatePath roots) then Some (Ret (tlsCfg, t'))
              else run_then_val (BuildCertificates E roots) (\<lambda>rootCAs.
                Some (Ret (tlsCfg\<lparr>cfg_root_cas := Some rootCAs\<rparr>, t')))))"

text \<open>\<open>listen\<close> is \<^verbatim>\<open>tls.Listen\<close>.\<close>

definition config_set :: "'f config option \<Rightarrow> bool" where
  "config_set c = (case c of None \<Rightarrow> False | Some r \<Rightarrow> IsSet r)"

definition BuildListener ::
    "('k, 'p) tls_env \<Rightarrow> (string \<Rightarrow> string \<Rightarrow> ('k, 'p) tls_config \<Rightarrow> goerr + 'l) \<Rightarrow>
     ('f, 'k) TlsBuilder \<Rightarrow> ('l \<times> ('f, 'k) TlsBuilder) run_val" where
  "BuildListener E listen t =
     (if \<not> config_set (ListenerAddress t) then
        Some (Panics ''ListenerAddress must be set in TlsBuilder'')
      else if \<not> config_set (Protocol t) then Some (Panics ''Protocol must be set in TlsBuilder'')
      else run_then_val (Some (StringVal (the (Protocol t)))) (\<lambda>proto.
        run_then_val (Some (StringVal (the (ListenerAddress t)))) (\<lambda>addr.
          run_then_val (BuildConfig E t) (\<lambda>(tlsCfg, t').
            run_then_val (Some (or_panic ''Failed to listen (tls) to address'' (listen proto addr tlsCfg)))
              (\<lambda>lis. Some (Ret (lis, t')))))))"

section \<open>Every build returns\<close>

text \<open>
  The only loops are the two over PEM blocks, so with a decoder that takes some of its input at
  each block every operation ends, with a value or with a panic.
\<close>

named_theorems builds_return

lemma BuildPrivateKeys_returns [builds_return]:
  "pem_shrinks (te_pem_decode E) \<Longrightarrow> returns (BuildPrivateKeys E k)"
  by (auto simp: BuildPrivateKeys_def pem_loop_returns)

lemma BuildDefaultRSAPrivateKey_returns [builds_return]:
  "pem_shrinks (te_pem_decode E) \<Longrightarrow> returns (BuildDefaultRSAPrivateKey E k)"
  by (auto simp: BuildDefaultRSAPrivateKey_def builds_return split: option.splits)

lemma BuildCertificates_returns [builds_return]:
  "pem_shrinks (te_pem_decode E) \<Longrightarrow> returns (BuildCertificates E c)"
  by (auto simp: BuildCertificates_def pem_loop_returns)

lemma BuildDefaultCertificate_returns [builds_return]:
  "pem_shrinks (te_pem_decode E) \<Longrightarrow> returns (BuildDefaultCertificate E c)"
  by (auto simp: BuildDefaultCertificate_def builds_return split: list.splits)

lemma Build_returns [builds_return]:
  "pem_shrinks (te_pem_decode E) \<Longrightarrow> returns (Build E c)"
  by (auto simp: Build_def builds_return split: list.splits)

lemma BuildConfig_returns [builds_return]:
  "pem_shrinks (te_pem_decode E) \<Longrightarrow> returns (BuildConfig E t)"
  by (auto simp: BuildConfig_def Let_def builds_return split: option.splits)

section \<open>Which key is served with which certificate\<close>

lemma or_panic_Ret_iff [return_iff]: "or_panic msg r = Ret a \<longleftrightarrow> r = Inr a"
  by (auto simp: or_panic_def split: sum.splits)

lemma BuildPrivateKeys_upd: "BuildPrivateKeys E (k\<lparr>priv := p, kl_draws := n\<rparr>) = BuildPrivateKeys E k"
  by (simp add: BuildPrivateKeys_def)

text \<open>The first call decides the keys; later calls on the loader it leaves give the same.\<close>

lemma default_key_kept:
  assumes "BuildDefaultRSAPrivateKey E k = Some (Ret (ks, k'))"
  shows "ks \<noteq> [] \<and> BuildDefaultRSAPrivateKey E k' = Some (Ret (ks, k'))"
proof -
  from assms obtain privs where b: "BuildPrivateKeys E k = Some (Ret privs)"
    by (auto simp: BuildDefaultRSAPrivateKey_def return_iff)
  show ?thesis
  proof (cases "privs = [] \<and> priv k = None")
    case False
    with assms b show ?thesis
      by (cases "priv k") (auto simp: BuildDefaultRSAPrivateKey_def split: if_splits)
  next
    case True
    with assms b obtain p where "ks = [RsaKey p]"
        "k' = k\<lparr>priv := Some (RsaKey p), kl_draws := Suc (kl_draws k)\<rparr>"
      by (auto simp: BuildDefaultRSAPrivateKey_def return_iff)
    with True b show ?thesis
      by (simp add: BuildDefaultRSAPrivateKey_def BuildPrivateKeys_upd)
  qed
qed

lemma default_certificate_keeps_loader:
  assumes "BuildDefaultRSAPrivateKey E (PrivateKey c) = Some (Ret (ks, PrivateKey c))"
    and "BuildCertificates E c = Some (Ret [])"
    and "BuildDefaultCertificate E c = Some (Ret (certs, c'))"
  shows "\<exists>raw cert. te_create_cert E (caCert E) (publicKey E (hd ks)) (hd ks) = Inr raw \<and>
    te_parse_cert E raw = Inr cert \<and> certs = [cert]"
proof (cases ks)
  case Nil
  with assms show ?thesis by (simp add: BuildDefaultCertificate_def)
next
  case (Cons p ps)
  with assms show ?thesis by (auto simp: BuildDefaultCertificate_def return_iff)
qed

lemma foldl_add_chain:
  "tc_private_key (foldl add_chain t certs) = tc_private_key t"
  "tc_certificate (foldl add_chain t certs) = tc_certificate t @ map xc_raw certs"
  "tc_leaf (foldl add_chain t certs) = (case tc_leaf t of Some l \<Rightarrow> Some l
     | None \<Rightarrow> (case certs of [] \<Rightarrow> None | c # _ \<Rightarrow> Some c))"
  by (induction certs arbitrary: t) (auto simp: add_chain_def split: option.splits list.splits)

text \<open>A successful \<open>Build\<close>, taken apart.\<close>

lemma Build_parts:
  assumes "Build E c = Some (Ret (t, c'))"
  obtains ks k certs where "BuildDefaultRSAPrivateKey E (PrivateKey c) = Some (Ret (ks, k))"
    "BuildDefaultRSAPrivateKey E k = Some (Ret (ks, k))" "ks \<noteq> []"
    "BuildDefaultCertificate E (c\<lparr>PrivateKey := k\<rparr>) = Some (Ret (certs, c'))"
    "tc_private_key t = hd ks" "tc_certificate t = map xc_raw certs"
    "tc_leaf t = (case certs of [] \<Rightarrow> None | x # _ \<Rightarrow> Some x)"
proof -
  from assms obtain ks k where k: "BuildDefaultRSAPrivateKey E (PrivateKey c) = Some (Ret (ks, k))"
    by (auto simp: Build_def return_iff)
  note kept = default_key_kept [OF this]
  then obtain p ps where ks: "ks = p # ps" by (cases ks) auto
  with assms k obtain certs where c: "BuildDefaultCertificate E (c\<lparr>PrivateKey := k\<rparr>) = Some (Ret (certs, c'))"
      and t: "t = foldl add_chain \<lparr>tc_certificate = [], tc_private_key = p, tc_leaf = None\<rparr> certs"
    by (auto simp: Build_def return_iff)
  show thesis
    by (rule that [OF k _ _ c]) (use kept ks t in \<open>simp_all add: foldl_add_chain\<close>)
qed

lemma BuildCertificates_key: "BuildCertificates E (c\<lparr>PrivateKey := k\<rparr>) = BuildCertificates E c"
  by (simp add: BuildCertificates_def)

section \<open>A small instance\<close>

text \<open>
  Keys are numbers, a file is a list of two-character blocks (type and contents), the
  certificate made for a key carries it. The files are \<^verbatim>\<open>k\<close> (an EC key between two other
  blocks) and \<^verbatim>\<open>c\<close> (a certificate).
\<close>

definition sample_decode :: "bytes \<Rightarrow> (pem_block \<times> bytes) option" where
  "sample_decode d = (case d of
      t # x # rest \<Rightarrow> Some (\<lparr>pb_type = (if t = CHR ''E'' then ''EC PRIVATE KEY''
         else if t = CHR ''C'' then ''CERTIFICATE'' else ''EC PARAMETERS''), pb_bytes = [x]\<rparr>, rest)
    | _ \<Rightarrow> None)"

definition sample_tls_env :: "(nat, nat) tls_env" where
  "sample_tls_env = \<lparr>te_read_file = (\<lambda>f. if f = ''k'' then Inr ''PaE5PbE6''
        else if f = ''c'' then Inr ''C7'' else Inl (ErrOther ''no such file'')),
     te_pem_decode = sample_decode,
     te_parse_ec = (\<lambda>b. Inr (of_char (hd b))),
     te_parse_pkcs1 = (\<lambda>b. Inr (of_char (hd b))),
     te_parse_pkcs8 = (\<lambda>b. Inr (EcdhKey (of_char (hd b)))),
     te_parse_cert = (\<lambda>b. Inr \<lparr>xc_raw = b, xc_public = (case b of
        [CHR ''r'', n] \<Rightarrow> Some (RsaPub (of_char n)) | [CHR ''e'', n] \<Rightarrow> Some (EcdsaPub (of_char n))
        | [CHR ''d'', n] \<Rightarrow> Some (Ed25519Pub (of_char n)) | _ \<Rightarrow> None)\<rparr>),
     te_generate_rsa = (\<lambda>bits n. Inr (65 + n)),
     te_public = (\<lambda>k. k),
     te_create_cert = (\<lambda>t pub p. if (case pub of Some (RsaPub n) \<Rightarrow> n < 256
          | Some (EcdsaPub n) \<Rightarrow> n < 256 | Some (Ed25519Pub n) \<Rightarrow> n < 256 | None \<Rightarrow> False)
        then Inr (case pub of Some (RsaPub n) \<Rightarrow> [CHR ''r'', char_of n]
          | Some (EcdsaPub n) \<Rightarrow> [CHR ''e'', char_of n]
          | Some (Ed25519Pub n) \<Rightarrow> [CHR ''d'', char_of n] | None \<Rightarrow> [])
        else Inl (ErrOther ''unsupported key'')),
     te_now = (\<lambda>n. int n)\<rparr>"

definition sample_loader :: "unit config \<Rightarrow> unit config \<Rightarrow> (unit, nat) CertificateLoader" where
  "sample_loader certs keys = \<lparr>CertificatePath = certs,
     PrivateKey = \<lparr>KeysPath = keys, priv = None, kl_draws = 0\<rparr>\<rparr>"

lemma sample_shrinks: "pem_shrinks (te_pem_decode sample_tls_env)"
  by (auto simp: pem_shrinks_def sample_tls_env_def sample_decode_def split: list.splits)

lemma sample_law:
  "te_create_cert sample_tls_env t pub p = Inr raw \<Longrightarrow> te_parse_cert sample_tls_env raw = Inr cert \<Longrightarrow>
    xc_public cert = pub"
  by (auto simp: sample_tls_env_def of_char_of split: if_splits option.splits public_key.splits)

section \<open>Properties\<close>

text \<open>
  C25. Building a TLS listener always ends, with a listener or with a panic, whatever the
  files hold, as long as the PEM decoder consumes some input with every block it finds: neither
  of the two unbounded loops over the blocks of a file runs forever.
\<close>

theorem build_listener_returns:
  assumes "pem_shrinks (te_pem_decode E)"
  shows "returns (BuildListener E listen t)"
  using assms by (auto simp: BuildListener_def builds_return)

theorem build_listener_returns_witness:
  "returns (BuildListener sample_tls_env (\<lambda>proto addr cfg. Inr (proto, addr))
    \<lparr>Certificate = sample_loader EmptyReader (ValReader (AString ''k'')), RootCAs = None,
     InsecureSkipVerify = EmptyReader, ListenerAddress = Some (ValReader (AString ''a'')),
     Protocol = Some (ValReader (AString ''tcp''))\<rparr>)"
  by (rule build_listener_returns [OF sample_shrinks])

text \<open>
  C26. Without a configured certificate, the certificate served is self-signed for the very
  key that is served: the chain is the leaf alone and the leaf's public key is the public key of
  the certificate's private key, though the key is built twice (once for the certificate, once
  for its signing), since a temporary key is generated once and kept.
\<close>

theorem self_signed_for_served_key:
  assumes law: "\<And>pub p raw cert. te_create_cert E (caCert E) pub p = Inr raw \<Longrightarrow>
      te_parse_cert E raw = Inr cert \<Longrightarrow> xc_public cert = pub"
    and "BuildCertificates E c = Some (Ret [])"
    and "Build E c = Some (Ret (t, c'))"
  shows "\<exists>leaf. tc_leaf t = Some leaf \<and> tc_certificate t = [xc_raw leaf] \<and>
    xc_public leaf = publicKey E (tc_private_key t)"
proof -
  from assms(3) obtain ks k certs where k: "BuildDefaultRSAPrivateKey E k = Some (Ret (ks, k))"
      and c: "BuildDefaultCertificate E (c\<lparr>PrivateKey := k\<rparr>) = Some (Ret (certs, c'))"
      and t: "tc_private_key t = hd ks" "tc_certificate t = map xc_raw certs"
        "tc_leaf t = (case certs of [] \<Rightarrow> None | x # _ \<Rightarrow> Some x)"
    by (rule Build_parts)
  have "\<exists>raw cert. te_create_cert E (caCert E) (publicKey E (hd ks)) (hd ks) = Inr raw \<and>
      te_parse_cert E raw = Inr cert \<and> certs = [cert]"
    by (rule default_certificate_keeps_loader [OF _ _ c])
      (simp_all add: k BuildCertificates_key assms(2))
  with t law show ?thesis by auto
qed

theorem self_signed_for_served_key_witness:
  "\<exists>t c' leaf. Build sample_tls_env (sample_loader EmptyReader (ValReader (AString ''k''))) = Some (Ret (t, c')) \<and>
    tc_private_key t = EcdsaKey 53 \<and> tc_leaf t = Some leaf \<and> xc_public leaf = Some (EcdsaPub 53)"
proof -
  let ?c = "sample_loader EmptyReader (ValReader (AString ''k''))"
  have b: "\<exists>t c'. Build sample_tls_env ?c = Some (Ret (t, c')) \<and> tc_private_key t = EcdsaKey 53"
    by (simp add: Build_def BuildDefaultRSAPrivateKey_def BuildDefaultCertificate_def BuildPrivateKeys_def
        BuildCertificates_def sample_loader_def IsSet_def StringVal_def sample_tls_env_def or_panic_def
        sample_decode_def add_key_def pem_loop.simps add_chain_def)
  then obtain t c' where t: "Build sample_tls_env ?c = Some (Ret (t, c'))" "tc_private_key t = EcdsaKey 53"
    by blast
  have none: "BuildCertificates sample_tls_env ?c = Some (Ret [])"
    by (simp add: BuildCertificates_def sample_loader_def IsSet_def)
  have "\<exists>leaf. tc_leaf t = Some leaf \<and> tc_certificate t = [xc_raw leaf] \<and>
      xc_public leaf = publicKey sample_tls_env (tc_private_key t)"
    by (rule self_signed_for_served_key [OF _ none t(1)]) (rule sample_law)
  moreover have "te_public sample_tls_env n = n" for n by (simp add: sample_tls_env_def)
  ultimately show ?thesis using t by auto
qed

text \<open>
  A certificate file without a key file is served with a key that has nothing to do with
  it: the private key is a temporary RSA key generated on the spot, whatever the public key of
  the certificate is.
\<close>

theorem certificate_without_key_gets_temporary_key:
  assumes "\<not> IsSet (KeysPath (PrivateKey c))" and "priv (PrivateKey c) = None"
    and "BuildCertificates E c = Some (Ret (leaf # chain))"
    and "te_generate_rsa E 4096 (kl_draws (PrivateKey c)) = Inr k"
  shows "\<exists>t c'. Build E c = Some (Ret (t, c')) \<and> tc_private_key t = RsaKey k \<and>
    tc_leaf t = Some leaf \<and> tc_certificate t = map xc_raw (leaf # chain)"
  using assms by (simp add: Build_def BuildDefaultRSAPrivateKey_def BuildPrivateKeys_def or_panic_def
      BuildDefaultCertificate_def BuildCertificates_key foldl_add_chain del: foldl_Cons)

theorem certificate_without_key_gets_temporary_key_witness:
  "\<exists>t c'. Build sample_tls_env (sample_loader (ValReader (AString ''c'')) EmptyReader) = Some (Ret (t, c')) \<and>
    tc_private_key t = RsaKey 65 \<and> tc_certificate t = [''7'']"
proof -
  let ?c = "sample_loader (ValReader (AString ''c'')) EmptyReader"
  have "BuildCertificates sample_tls_env ?c = Some (Ret [\<lparr>xc_raw = ''7'', xc_public = None\<rparr>])"
    by (simp add: BuildCertificates_def sample_loader_def IsSet_def StringVal_def sample_tls_env_def
        or_panic_def sample_decode_def add_cert_def pem_loop.simps)
  from certificate_without_key_gets_temporary_key [OF _ _ this, of 65]
  show ?thesis by (auto simp: sample_loader_def IsSet_def sample_tls_env_def)
qed

end
