(* ===== verification/Clients.thy ===== *)
theory Clients
  imports Tls
begin

text \<open>
  The clients of \<^verbatim>\<open>pkg/client\<close>: the gRPC client with its dial options and the SQL client.
  Dialling, opening and closing are parameters.
\<close>

section \<open>The gRPC client\<close>

text \<open>The service configuration, a JSON text in the code; durations in seconds.\<close>

record retry_policy =
  rp_max_attempts :: nat
  rp_initial_backoff :: nat
  rp_max_backoff :: nat
  rp_backoff_multiplier :: nat
  rp_retryable :: "code list"

record method_config =
  mc_service :: string
  mc_wait_for_ready :: bool
  mc_retry :: retry_policy

record service_config =
  sc_load_balancing :: "string list"
  sc_method_config :: "method_config list"

definition default_service_config :: service_config where
  "default_service_config = \<lparr>sc_load_balancing = [''round_robin''],
     sc_method_config = [\<lparr>mc_service = ''protomesh.api.v1.ResourceStore'', mc_wait_for_ready = True,
       mc_retry = \<lparr>rp_max_attempts = 5, rp_initial_backoff = 5, rp_max_backoff = 30,
         rp_backoff_multiplier = 1, rp_retryable = [Unavailable]\<rparr>\<rparr>]\<rparr>"

text \<open>The configuration gRPC applies to the calls of a service: the one that names it.\<close>

definition method_config_for :: "service_config \<Rightarrow> string \<Rightarrow> method_config option" where
  "method_config_for sc s = find (\<lambda>m. mc_service m = s) (sc_method_config sc)"

text \<open>The name under which the generated code registers and calls the resource store.\<close>

definition resource_store_service :: string where
  "resource_store_service = ''protomesh.services.v1.ResourceStore''"

datatype 'p credentials = InsecureCredentials
  | TlsCredentials (cr_roots: "'p x509_cert list") (cr_skip_verify: bool)
      (cr_server_name: string) (cr_client_certs: "bytes list")

record 'p dial_options =
  do_service_config :: service_config
  do_credentials :: "'p credentials"

record ('f, 'k, 'c) GrpcClient =
  ClientConn :: "'c option"
  gc_tls_builder :: "('f, 'k) CertificateLoader"
  EnableTls :: "'f config"
  ServerNameOverride :: "'f config"
  ServerAddress :: "'f config"

definition GrpcClient_Start ::
    "('k, 'p) tls_env \<Rightarrow> (string \<Rightarrow> 'p dial_options \<Rightarrow> goerr + 'c) \<Rightarrow>
     ('f, 'k, 'c) GrpcClient \<Rightarrow> ('f, 'k, 'c) GrpcClient run_val" where
  "GrpcClient_Start E dial g =
     run_then_val (Some (StringVal (ServerAddress g))) (\<lambda>addr.
     run_then_val (Some (BoolVal (EnableTls g))) (\<lambda>tls.
     run_then_val (if tls
        then run_then_val (BuildCertificates E (gc_tls_builder g)) (\<lambda>certs.
          Some (Ret (TlsCredentials certs True [] [])))
        else Some (Ret InsecureCredentials)) (\<lambda>creds.
     run_then_val (Some (or_panic ''Error dialing gRPC server''
        (dial addr \<lparr>do_service_config = default_service_config, do_credentials = creds\<rparr>))) (\<lambda>clientConn.
       Some (Ret (g\<lparr>ClientConn := Some clientConn\<rparr>))))))"

definition GrpcClient_Stop :: "('c \<Rightarrow> goerr option) \<Rightarrow> ('f, 'k, 'c) GrpcClient \<Rightarrow> unit val" where
  "GrpcClient_Stop close g = (case ClientConn g of
      None \<Rightarrow> Panics ''nil pointer dereference''
    | Some c \<Rightarrow> (case close c of None \<Rightarrow> Ret ()
        | Some e \<Rightarrow> Panics ''Error while stopping gRPC client conn''))"

section \<open>The SQL client\<close>

record ('f, 'd) SqlClient =
  DB :: "'d option"
  DriverName :: "'f config"
  ConnectionString :: "'f config"

definition SqlClient_Start ::
    "(string \<Rightarrow> string \<Rightarrow> goerr + 'd) \<Rightarrow> ('f, 'd) SqlClient \<Rightarrow> ('f, 'd) SqlClient val" where
  "SqlClient_Start sql_open s =
     val_then (StringVal (DriverName s)) (\<lambda>driverName.
     val_then (StringVal (ConnectionString s)) (\<lambda>connectionString.
       if driverName = [] \<or> connectionString = []
       then Panics ''Driver name and connection string must be provided for the SQL client''
       else val_then (or_panic ''Failed to open connection to database'' (sql_open driverName connectionString))
         (\<lambda>db. Ret (s\<lparr>DB := Some db\<rparr>))))"

text \<open>An error of closing is only logged.\<close>

definition SqlClient_Stop :: "('f, 'd) SqlClient \<Rightarrow> unit val" where
  "SqlClient_Stop s = (case DB s of None \<Rightarrow> Panics ''nil pointer dereference'' | Some db \<Rightarrow> Ret ())"

section \<open>What a client is configured with\<close>

lemma GrpcClient_Start_parts:
  assumes "GrpcClient_Start E dial g = Some (Ret g')"
  shows "\<exists>addr creds c. StringVal (ServerAddress g) = Ret addr \<and> ClientConn g' = Some c \<and>
    dial addr \<lparr>do_service_config = default_service_config, do_credentials = creds\<rparr> = Inr c \<and>
    (creds = InsecureCredentials \<and> BoolVal (EnableTls g) = Ret False \<or>
     (\<exists>certs. creds = TlsCredentials certs True [] [] \<and> BoolVal (EnableTls g) = Ret True))"
proof -
  from assms obtain addr tls where
    "StringVal (ServerAddress g) = Ret addr" "BoolVal (EnableTls g) = Ret tls"
    unfolding GrpcClient_Start_def return_iff by auto
  with assms show ?thesis
    by (cases tls) (fastforce simp: GrpcClient_Start_def return_iff)+
qed

lemma GrpcClient_Start_returns:
  "pem_shrinks (te_pem_decode E) \<Longrightarrow> returns (GrpcClient_Start E dial g)"
  by (auto simp: GrpcClient_Start_def builds_return)

text \<open>
  What the gRPC client dials with has neither of the two protections its configuration
  announces: whichever options a successful start used, the retry and wait-for-ready policy does
  not name the resource store's service, so no call of it is retried, and with TLS enabled the
  server's certificate is not verified, no server name is set and no client certificate is sent.
\<close>

theorem grpc_client_unprotected:
  assumes "GrpcClient_Start E dial g = Some (Ret g')"
  shows "\<exists>addr opts c. dial addr opts = Inr c \<and> ClientConn g' = Some c \<and>
    method_config_for (do_service_config opts) resource_store_service = None \<and>
    (case do_credentials opts of InsecureCredentials \<Rightarrow> BoolVal (EnableTls g) = Ret False
     | TlsCredentials roots skip name certs \<Rightarrow> skip \<and> name = [] \<and> certs = [])"
proof -
  have m: "method_config_for default_service_config resource_store_service = None"
    by (simp add: method_config_for_def default_service_config_def resource_store_service_def)
  from GrpcClient_Start_parts [OF assms] obtain addr creds c where
    d: "dial addr \<lparr>do_service_config = default_service_config, do_credentials = creds\<rparr> = Inr c"
    and c: "ClientConn g' = Some c"
    and cr: "creds = InsecureCredentials \<and> BoolVal (EnableTls g) = Ret False \<or>
      (\<exists>certs. creds = TlsCredentials certs True [] [])" by blast
  from cr have "case creds of InsecureCredentials \<Rightarrow> BoolVal (EnableTls g) = Ret False
     | TlsCredentials roots skip name certs \<Rightarrow> skip \<and> name = [] \<and> certs = []" by auto
  with d c m show ?thesis by fastforce
qed

theorem grpc_client_unprotected_witness:
  "\<exists>g' opts. GrpcClient_Start sample_tls_env (\<lambda>addr opts. Inr opts)
      \<lparr>ClientConn = None, gc_tls_builder = sample_loader (ValReader (AString ''c'')) EmptyReader,
       EnableTls = ValReader (AString ''true''), ServerNameOverride = ValReader (AString ''store''),
       ServerAddress = ValReader (AString ''store:6680'')\<rparr> = Some (Ret g') \<and>
    ClientConn g' = Some opts \<and> method_config_for (do_service_config opts) resource_store_service = None"
proof -
  let ?g = "\<lparr>ClientConn = None, gc_tls_builder = sample_loader (ValReader (AString ''c'')) EmptyReader,
       EnableTls = ValReader (AString ''true''), ServerNameOverride = ValReader (AString ''store''),
       ServerAddress = ValReader (AString ''store:6680'')\<rparr>"
  have "\<exists>g'. GrpcClient_Start sample_tls_env (\<lambda>addr opts. Inr opts) ?g = Some (Ret g')"
    by (simp add: GrpcClient_Start_def BuildCertificates_def sample_loader_def IsSet_def StringVal_def
        BoolVal_def map_val_def to_lower_def lower_char_def sample_tls_env_def or_panic_def
        sample_decode_def add_cert_def pem_loop.simps)
  then obtain g' where g: "GrpcClient_Start sample_tls_env (\<lambda>addr opts. Inr opts) ?g = Some (Ret g')" by blast
  from grpc_client_unprotected [OF this] g show ?thesis by auto
qed

end
