(* ===== verification/HttpServer.thy ===== *)
theory HttpServer
  imports Proxy Clients
begin

text \<open>
  The HTTP and gRPC servers of \<^verbatim>\<open>pkg/server\<close>: \<^verbatim>\<open>http_server.go\<close> and \<^verbatim>\<open>grpc_server.go\<close>,
  over what the handlers use of \<^verbatim>\<open>net/http\<close>: header maps, requests and response writers.
\<close>

section \<open>Headers, requests and responses\<close>

type_synonym http_header = "string \<rightharpoonup> string list"

text \<open>\<^verbatim>\<open>textproto.CanonicalMIMEHeaderKey\<close>.\<close>

definition upper_letter :: "char \<Rightarrow> bool" where
  "upper_letter c \<longleftrightarrow> 65 \<le> (of_char c :: nat) \<and> (of_char c :: nat) \<le> 90"

definition lower_letter :: "char \<Rightarrow> bool" where
  "lower_letter c \<longleftrightarrow> 97 \<le> (of_char c :: nat) \<and> (of_char c :: nat) \<le> 122"

definition header_char :: "char \<Rightarrow> bool" where
  "header_char c \<longleftrightarrow> upper_letter c \<or> lower_letter c \<or> digit c \<or> c \<in> set ''!#$%&*+-.^_|~'' \<or>
     (of_char c :: nat) \<in> {39, 96}"

fun canonical_from :: "bool \<Rightarrow> string \<Rightarrow> string" where
  "canonical_from up [] = []"
| "canonical_from up (c # cs) =
     (let c' = (if up \<and> lower_letter c then char_of ((of_char c :: nat) - 32)
                else if \<not> up \<and> upper_letter c then char_of ((of_char c :: nat) + 32) else c)
      in c' # canonical_from (c' = CHR ''-'') cs)"

definition canonical_key :: "string \<Rightarrow> string" where
  "canonical_key k = (if list_all header_char k then canonical_from True k else k)"

definition header_values :: "http_header \<Rightarrow> string \<Rightarrow> string list" where
  "header_values h k = (case h k of None \<Rightarrow> [] | Some vs \<Rightarrow> vs)"

definition header_get :: "string \<Rightarrow> http_header \<Rightarrow> string" where
  "header_get k h = (case header_values h (canonical_key k) of [] \<Rightarrow> [] | v # _ \<Rightarrow> v)"

definition header_set :: "string \<Rightarrow> string \<Rightarrow> http_header \<Rightarrow> http_header" where
  "header_set k v h = h(canonical_key k \<mapsto> [v])"

definition header_add :: "string \<Rightarrow> string \<Rightarrow> http_header \<Rightarrow> http_header" where
  "header_add k v h = h(canonical_key k \<mapsto> header_values h (canonical_key k) @ [v])"

record http_request =
  rq_method :: string
  rq_path :: string
  rq_header :: http_header
  rq_query :: http_header
  rq_body :: "goerr + bytes"

text \<open>
  A response writer: the header map, the status and headers sent (once), the informational
  statuses sent before, the body, and what the server refuses to write (\<open>rw_fault\<close>: no body
  allowed, content length exceeded, connection lost).
\<close>

record http_response =
  rw_header :: http_header
  rw_reply :: "(int \<times> http_header) option"
  rw_informational :: "int list"
  rw_body :: bytes
  rw_fault :: "int \<Rightarrow> bytes \<Rightarrow> goerr option"

definition WriteHeader :: "int \<Rightarrow> 'w http_response_scheme \<Rightarrow> 'w http_response_scheme val" where
  "WriteHeader c w =
     (if rw_reply w \<noteq> None then Ret w
      else if c < 100 \<or> c > 999 then Panics ''invalid WriteHeader code''
      else if c \<le> 199 \<and> c \<noteq> 101 then Ret (w\<lparr>rw_informational := rw_informational w @ [c]\<rparr>)
      else Ret (w\<lparr>rw_reply := Some (c, rw_header w)\<rparr>))"

definition start_body :: "'w http_response_scheme \<Rightarrow> 'w http_response_scheme" where
  "start_body w = (if rw_reply w = None then w\<lparr>rw_reply := Some (200, rw_header w)\<rparr> else w)"

definition write_body :: "bytes \<Rightarrow> 'w http_response_scheme \<Rightarrow> goerr option \<times> 'w http_response_scheme" where
  "write_body data w =
     (let w = start_body w
      in if data = [] then (None, w)
         else case rw_fault w (fst (the (rw_reply w))) data of
                Some e \<Rightarrow> (Some e, w) | None \<Rightarrow> (None, w\<lparr>rw_body := rw_body w @ data\<rparr>))"

text \<open>The status the client gets: 200 when the handler wrote none.\<close>

definition final_status :: "'w http_response_scheme \<Rightarrow> int" where
  "final_status w = (case rw_reply w of None \<Rightarrow> 200 | Some (c, h) \<Rightarrow> c)"

section \<open>Serving a request\<close>

text \<open>The loop over the handlers of a matched call.\<close>

fun serve_handlers ::
    "('h \<Rightarrow> 'w http_response_scheme \<Rightarrow> (goerr option \<times> 'w http_response_scheme) val) \<Rightarrow> 'h list \<Rightarrow>
     'w http_response_scheme \<Rightarrow> 'w http_response_scheme val" where
  "serve_handlers call [] w = Ret w"
| "serve_handlers call (h # hs) w = val_then (call h w) (\<lambda>(err, w).
     case err of
       None \<Rightarrow> serve_handlers call hs w
     | Some e \<Rightarrow>
         if e = ErrAbortHandler then Ret w
         else if e = ErrEOF then serve_handlers call hs w
         else WriteHeader 502 w)"

definition ServeHTTP ::
    "('w http_response_scheme \<Rightarrow> 'w http_response_scheme val) option \<Rightarrow>
     (goerr + 'h matched_call) val \<Rightarrow>
     ('h \<times> lambda_function \<Rightarrow> 'w http_response_scheme \<Rightarrow> (goerr option \<times> 'w http_response_scheme) val) \<Rightarrow>
     http_request \<Rightarrow> 'w http_response_scheme \<Rightarrow> 'w http_response_scheme val" where
  "ServeHTTP GrpcHandler matched call r w =
     (let contentType = header_get ''Content-Type'' (rq_header r)
      in if GrpcHandler \<noteq> None \<and> contains_sub contentType ''application/grpc'' then the GrpcHandler w
         else val_then matched (\<lambda>m. case m of
             Inl err \<Rightarrow> if err = ErrNotSupported then WriteHeader 404 w else WriteHeader 500 w
           | Inr c \<Rightarrow> serve_handlers call (mc_handlers c) w))"

section \<open>Starting and stopping\<close>

text \<open>
  \<open>hs_running\<close> are the listeners being served, \<open>hs_server\<close> the one of the current server,
  \<open>hs_close_ch\<close> whether the channel of \<^verbatim>\<open>closeCh\<close> was made.
\<close>

record ('f, 'k, 'l) HttpServer =
  hs_tls_builder :: "('f, 'k) TlsBuilder option"
  ShutdownTimeout :: "'f config option"
  DisableTls :: "'f config"
  hs_close_ch :: bool
  hs_addr :: string
  hs_server :: "'l option"
  hs_running :: "'l list"

definition AssertBeforeStart :: "('f, 'k, 'l) HttpServer \<Rightarrow> goerr option \<times> ('f, 'k, 'l) HttpServer" where
  "AssertBeforeStart h =
     (if hs_tls_builder h = None then
        (Some (ErrOther ''TlsBuilder is a mandatory attribute in the HttpServer''), h)
      else if hs_close_ch h then
        (Some (ErrOther ''closeCh must be new (are you trying to reuse a HttpServer?)''), h)
      else (None, h\<lparr>ShutdownTimeout := (case ShutdownTimeout h of
             None \<Rightarrow> Some (ValReader (ADuration 30000000000)) | Some c \<Rightarrow> Some c), hs_close_ch := True\<rparr>))"

text \<open>\<open>raw_listen\<close> and \<open>listen\<close> are \<^verbatim>\<open>net.Listen\<close> and \<^verbatim>\<open>tls.Listen\<close>.\<close>

definition config_string :: "'f config option \<Rightarrow> string val" where
  "config_string c = (case c of None \<Rightarrow> Panics ''nil pointer dereference'' | Some r \<Rightarrow> StringVal r)"

definition HttpServer_Start ::
    "('k, 'p) tls_env \<Rightarrow> (string \<Rightarrow> string \<Rightarrow> goerr + 'l) \<Rightarrow>
     (string \<Rightarrow> string \<Rightarrow> ('k, 'p) tls_config \<Rightarrow> goerr + 'l) \<Rightarrow> ('l \<Rightarrow> string) \<Rightarrow>
     ('f, 'k, 'l) HttpServer \<Rightarrow> ('f, 'k, 'l) HttpServer run_val" where
  "HttpServer_Start E raw_listen listen addr_of h =
     (let h = snd (AssertBeforeStart h)
      in run_then_val (Some (BoolVal (DisableTls h))) (\<lambda>disabled.
           case hs_tls_builder h of
             None \<Rightarrow> Some (Panics ''nil pointer dereference'')
           | Some t \<Rightarrow>
               run_then_val (if disabled
                  then run_then_val (Some (config_string (Protocol t))) (\<lambda>proto.
                       run_then_val (Some (config_string (ListenerAddress t))) (\<lambda>addr.
                       run_then_val (Some (or_panic ''Error creating http listener'' (raw_listen proto addr)))
                         (\<lambda>lis. Some (Ret (lis, t)))))
                  else BuildListener E listen t)
                 (\<lambda>(lis, t'). Some (Ret (h\<lparr>hs_tls_builder := Some t', hs_addr := addr_of lis,
                    hs_server := Some lis, hs_running := lis # hs_running h\<rparr>)))))"

text \<open>
  The current server is shut down or closed, its goroutine then offers its error on the channel;
  without a channel the receive blocks forever.
\<close>

definition HttpServer_Stop :: "('f, 'k, 'l) HttpServer \<Rightarrow> ('f, 'k, 'l) HttpServer run_val" where
  "HttpServer_Stop h = (if ShutdownTimeout h = None then Some (Panics ''nil pointer dereference'')
     else case hs_server h of
       None \<Rightarrow> Some (Panics ''nil pointer dereference'')
     | Some lis \<Rightarrow> if hs_close_ch h then Some (Ret (h\<lparr>hs_running := remove1 lis (hs_running h)\<rparr>)) else None)"

text \<open>The gRPC server: the options it is made with and the services registered for reflection.\<close>

record 'm grpc_options =
  go_codec :: "'m grpc_codec option"
  go_unknown_handler :: bool

record ('f, 'm) GrpcServer =
  gs_gateway :: bool
  EnableReflection :: "'f config option"
  gs_server :: "'m grpc_options option"
  gs_services :: "string list"
  gs_stopped :: bool

definition GrpcServer_Initialize :: "'m proto_lib \<Rightarrow> ('f, 'm) GrpcServer \<Rightarrow> ('f, 'm) GrpcServer" where
  "GrpcServer_Initialize P g = g\<lparr>gs_server := Some
     (if gs_gateway g then \<lparr>go_codec = Some (Codec P), go_unknown_handler = True\<rparr>
      else \<lparr>go_codec = None, go_unknown_handler = False\<rparr>),
     gs_services := [], gs_stopped := False\<rparr>"

text \<open>
  \<open>register\<close> is \<^verbatim>\<open>reflection.Register\<close> on the services registered so far. It does not come back
  when the library ends the process, which it does when a service is registered twice.
\<close>

definition GrpcServer_Start ::
    "(string list \<Rightarrow> string list run_val) \<Rightarrow> ('f, 'm) GrpcServer \<Rightarrow> ('f, 'm) GrpcServer run_val" where
  "GrpcServer_Start register g = (case EnableReflection g of
      None \<Rightarrow> Some (Ret g)
    | Some c \<Rightarrow> run_then_val (Some (BoolVal c)) (\<lambda>enabled.
        if \<not> enabled then Some (Ret g)
        else if gs_server g = None then Some (Panics ''nil pointer dereference'')
        else run_then_val (register (gs_services g)) (\<lambda>services. Some (Ret (g\<lparr>gs_services := services\<rparr>)))))"

definition GrpcServer_Stop :: "('f, 'm) GrpcServer \<Rightarrow> ('f, 'm) GrpcServer val" where
  "GrpcServer_Stop g = (if gs_server g = None then Panics ''nil pointer dereference''
     else Ret (g\<lparr>gs_stopped := True\<rparr>))"

section \<open>The answer to a request\<close>

lemma WriteHeader_status:
  "100 \<le> c \<Longrightarrow> c \<le> 999 \<Longrightarrow> \<not> (c \<le> 199 \<and> c \<noteq> 101) \<Longrightarrow>
    WriteHeader c w = Ret (if rw_reply w = None then w\<lparr>rw_reply := Some (c, rw_header w)\<rparr> else w)"
  by (auto simp: WriteHeader_def)

lemma write_body_keeps_reply:
  "rw_reply w = Some r \<Longrightarrow> rw_reply (snd (write_body data w)) = Some r"
  by (auto simp: write_body_def start_body_def Let_def split: option.splits)

text \<open>A handler that neither fails nor aborts lets the next one run.\<close>

definition goes_on :: "goerr option \<Rightarrow> bool" where
  "goes_on err \<longleftrightarrow> err = None \<or> err = Some ErrEOF"

text \<open>Responses that note the handlers called, for handlers that only do that.\<close>

record 'h noting = http_response +
  rw_called :: "'h list"

definition note_call :: "('h \<Rightarrow> goerr option) \<Rightarrow> 'h \<Rightarrow> 'h noting \<Rightarrow> (goerr option \<times> 'h noting) val" where
  "note_call res h w = Ret (res h, w\<lparr>rw_called := rw_called w @ [h]\<rparr>)"

definition tried :: "('h \<Rightarrow> goerr option) \<Rightarrow> 'h list \<Rightarrow> 'h list" where
  "tried res hs = takeWhile (\<lambda>h. goes_on (res h)) hs @ take 1 (dropWhile (\<lambda>h. goes_on (res h)) hs)"

lemma tried_simps:
  "tried res [] = []"
  "tried res (h # hs) = h # (if goes_on (res h) then tried res hs else [])"
  by (simp_all add: tried_def)

lemma serve_noting:
  "serve_handlers (note_call res) hs w =
    (let w' = w\<lparr>rw_called := rw_called w @ tried res hs\<rparr>
     in case find (\<lambda>h. \<not> goes_on (res h)) hs of
          None \<Rightarrow> Ret w'
        | Some h \<Rightarrow> if res h = Some ErrAbortHandler then Ret w' else WriteHeader 502 w')"
  by (induction hs arbitrary: w)
    (auto simp: note_call_def goes_on_def tried_simps Let_def split: option.splits)

text \<open>
  The handlers of a matched request are called in order up to the first that returns an
  error other than \<^verbatim>\<open>io.EOF\<close>; none after it is called. If that error is not an abort and nothing
  was written before, the client gets 502; if all go on, or one aborts, what the handlers wrote
  stands.
\<close>

theorem http_handlers_stop_at_first_error:
  "\<exists>w'. ServeHTTP None (Ret (Inr c)) (note_call res) r
      \<lparr>rw_header = hdr, rw_reply = None, rw_informational = [], rw_body = [], rw_fault = f, rw_called = []\<rparr> = Ret w' \<and>
    rw_called w' = tried res (mc_handlers c) \<and>
    rw_reply w' = (case find (\<lambda>h. \<not> goes_on (res h)) (mc_handlers c) of
        None \<Rightarrow> None | Some h \<Rightarrow> if res h = Some ErrAbortHandler then None else Some (502, hdr))"
  by (auto simp: ServeHTTP_def serve_noting WriteHeader_status Let_def split: option.splits)

text \<open>
  Requests never cross between the protocols: with a gRPC handler set, a request whose
  content type mentions \<^verbatim>\<open>application/grpc\<close> goes to that handler alone, whatever routes and
  handlers the gateway has for it, and any other request never reaches it.
\<close>

theorem grpc_and_http_apart:
  "ServeHTTP (Some grpc) matched call r w =
    (if contains_sub (header_get ''Content-Type'' (rq_header r)) ''application/grpc'' then grpc w
     else ServeHTTP None matched call r w)"
  by (simp add: ServeHTTP_def Let_def)

text \<open>A server started again without a stop keeps serving its first listener after the stop.\<close>

lemma started_twice_stops_once:
  assumes "HttpServer_Start E raw_listen listen addr_of h = Some (Ret h1)"
    and "HttpServer_Start E raw_listen listen addr_of h1 = Some (Ret h2)"
    and "hs_running h = []" and "\<not> hs_close_ch h"
  shows "\<exists>lis h3. hs_running h1 = [lis] \<and> HttpServer_Stop h2 = Some (Ret h3) \<and> hs_running h3 = [lis]"
proof -
  have started: "\<exists>lis. hs_server y = Some lis \<and> hs_running y = lis # hs_running x \<and> hs_close_ch y \<and>
      ShutdownTimeout y \<noteq> None \<and> hs_tls_builder y \<noteq> None"
    if "HttpServer_Start E raw_listen listen addr_of x = Some (Ret y)"
      "hs_close_ch x \<longrightarrow> ShutdownTimeout x \<noteq> None" for x y
  proof (cases "hs_tls_builder x")
    case None
    with that(1) show ?thesis by (auto simp: HttpServer_Start_def AssertBeforeStart_def Let_def return_iff)
  next
    case (Some t)
    with that show ?thesis
      by (cases "hs_close_ch x"; cases "ShutdownTimeout x")
        (auto simp: HttpServer_Start_def AssertBeforeStart_def Let_def return_iff)
  qed
  from started [OF assms(1)] assms(3,4) obtain l1 where
    1: "hs_running h1 = [l1]" "ShutdownTimeout h1 \<noteq> None" by auto
  with started [OF assms(2)] obtain l2 where
    "hs_server h2 = Some l2" "hs_running h2 = [l2, l1]" "hs_close_ch h2" "ShutdownTimeout h2 \<noteq> None" by auto
  with 1 show ?thesis by (auto simp: HttpServer_Stop_def)
qed

end
