(* ===== verification/Base64.thy ===== *)
theory Base64
  imports Prelude
begin

text \<open>
  \<^verbatim>\<open>base64.RawStdEncoding\<close> of Go's standard library, the unpadded standard encoding the Lambda
  handlers use for bodies, with the round trip and what its decoder refuses.
\<close>

section \<open>Encoding\<close>

definition b64_alphabet :: string where
  "b64_alphabet = ''ABCDEFGHIJKLMNOPQRSTUVWXYZabcdefghijklmnopqrstuvwxyz0123456789+/''"

definition b64_char :: "nat \<Rightarrow> char" where
  "b64_char i = b64_alphabet ! i"

fun b64_encode :: "bytes \<Rightarrow> string" where
  "b64_encode [] = []"
| "b64_encode [a] = (let x = of_char a in [b64_char (x div 4), b64_char (x mod 4 * 16)])"
| "b64_encode [a, b] = (let x = of_char a; y = of_char b
     in [b64_char (x div 4), b64_char (x mod 4 * 16 + y div 16), b64_char (y mod 16 * 4)])"
| "b64_encode (a # b # c # r) = (let x = of_char a; y = of_char b; z = of_char c
     in b64_char (x div 4) # b64_char (x mod 4 * 16 + y div 16) #
        b64_char (y mod 16 * 4 + z div 64) # b64_char (z mod 64) # b64_encode r)"

section \<open>Decoding\<close>

fun index_in :: "char \<Rightarrow> string \<Rightarrow> nat option" where
  "index_in c [] = None"
| "index_in c (x # xs) = (if x = c then Some 0 else map_option Suc (index_in c xs))"

definition b64_index :: "char \<Rightarrow> nat option" where
  "b64_index c = index_in c b64_alphabet"

definition newline :: "char \<Rightarrow> bool" where
  "newline c \<longleftrightarrow> (of_char c :: nat) \<in> {10, 13}"

text \<open>The digits of a text without line breaks; \<open>None\<close> at a character outside the alphabet.\<close>

fun b64_digits :: "string \<Rightarrow> nat list option" where
  "b64_digits [] = Some []"
| "b64_digits (c # cs) = (case b64_index c of None \<Rightarrow> None | Some i \<Rightarrow>
     (case b64_digits cs of None \<Rightarrow> None | Some is \<Rightarrow> Some (i # is)))"

text \<open>Groups of four digits are three bytes; two or three left over are one or two bytes.\<close>

fun b64_bytes :: "nat list \<Rightarrow> bytes option" where
  "b64_bytes [] = Some []"
| "b64_bytes [i] = None"
| "b64_bytes [i, j] = Some [char_of (i * 4 + j div 16)]"
| "b64_bytes [i, j, k] = Some [char_of (i * 4 + j div 16), char_of (j mod 16 * 16 + k div 4)]"
| "b64_bytes (i # j # k # l # r) = (case b64_bytes r of None \<Rightarrow> None | Some bs \<Rightarrow>
     Some (char_of (i * 4 + j div 16) # char_of (j mod 16 * 16 + k div 4) # char_of (k mod 4 * 64 + l) # bs))"

definition b64_decode :: "string \<Rightarrow> goerr + bytes" where
  "b64_decode s = (case b64_digits (filter (\<lambda>c. \<not> newline c) s) of
      None \<Rightarrow> Inl (ErrOther ''illegal base64 data'')
    | Some ds \<Rightarrow> (case b64_bytes ds of
        None \<Rightarrow> Inl (ErrOther ''illegal base64 data'') | Some bs \<Rightarrow> Inr bs))"

section \<open>The round trip\<close>

lemma b64_alphabet_ok:
  "list_all (\<lambda>i. b64_index (b64_char i) = Some i \<and> \<not> newline (b64_char i)) [0..<64]"
  by code_simp

lemma b64_index_char [simp]: "i < 64 \<Longrightarrow> b64_index (b64_char i) = Some i"
  and not_newline_char [simp]: "i < 64 \<Longrightarrow> \<not> newline (b64_char i)"
  using b64_alphabet_ok by (simp_all add: list_all_iff)

lemma of_char_less: "(of_char c :: nat) < 256"
  by simp

text \<open>The digits of an encoded text are in range, so decoding reads them back.\<close>

fun b64_groups :: "nat list \<Rightarrow> nat list" where
  "b64_groups [] = []"
| "b64_groups [x] = [x div 4, x mod 4 * 16]"
| "b64_groups [x, y] = [x div 4, x mod 4 * 16 + y div 16, y mod 16 * 4]"
| "b64_groups (x # y # z # r) =
     x div 4 # (x mod 4 * 16 + y div 16) # (y mod 16 * 4 + z div 64) # z mod 64 # b64_groups r"

lemma b64_encode_groups: "b64_encode s = map b64_char (b64_groups (map of_char s))"
  by (induction s rule: b64_encode.induct) (simp_all add: Let_def)

lemma small_sums:
  "x < 256 \<Longrightarrow> x div 4 < (64 :: nat)" "x mod 4 * 16 < (64 :: nat)" "y mod 16 * 4 < (64 :: nat)"
  "y < 256 \<Longrightarrow> x mod 4 * 16 + y div 16 < (64 :: nat)"
  "z < 256 \<Longrightarrow> y mod 16 * 4 + z div 64 < (64 :: nat)"
  by (simp_all add: less_mult_imp_div_less)

lemma b64_groups_range: "\<forall>x \<in> set xs. x < 256 \<Longrightarrow> \<forall>i \<in> set (b64_groups xs). i < 64"
  by (induction xs rule: b64_groups.induct) (simp_all add: small_sums)

lemma b64_digits_map: "\<forall>i \<in> set is. i < 64 \<Longrightarrow> b64_digits (map b64_char is) = Some is"
  by (induction "is") simp_all

lemma filter_b64: "\<forall>i \<in> set is. i < 64 \<Longrightarrow> filter (\<lambda>c. \<not> newline c) (map b64_char is) = map b64_char is"
  by (induction "is") simp_all

lemma first_byte: "(x :: nat) div 4 * 4 + (x mod 4 * 16 + y div 16) div 16 = x" if "y < 256"
  using that by (simp add: less_mult_imp_div_less)

lemma second_byte:
  "((x :: nat) mod 4 * 16 + y div 16) mod 16 * 16 + (y mod 16 * 4 + z div 64) div 4 = y" if "y < 256" "z < 256"
  using that by (simp add: less_mult_imp_div_less)

lemma third_byte: "((y :: nat) mod 16 * 4 + z div 64) mod 4 * 64 + z mod 64 = z" if "z < 256"
  using that by (simp add: less_mult_imp_div_less)

lemma b64_bytes_groups:
  "\<forall>x \<in> set xs. x < 256 \<Longrightarrow> b64_bytes (b64_groups xs) = Some (map char_of xs)"
proof (induction xs rule: b64_groups.induct)
  case 1
  then show ?case by simp
next
  case (2 x)
  then show ?case using first_byte [of 0 x] by simp
next
  case (3 x y)
  then show ?case using first_byte [of y x] second_byte [of y 0 x] by simp
next
  case (4 x y z r)
  then show ?case using first_byte [of y x] second_byte [of y z x] third_byte [of z y] by simp
qed

lemma b64_round_trip: "b64_decode (b64_encode s) = Inr s"
proof -
  let ?xs = "map of_char s :: nat list"
  have r: "\<forall>x \<in> set ?xs. x < 256" by simp
  note g = b64_groups_range [OF r]
  have "b64_decode (b64_encode s) = Inr (map char_of ?xs)"
    by (simp add: b64_decode_def b64_encode_groups filter_b64 [OF g] b64_digits_map [OF g] b64_bytes_groups [OF r])
  then show ?thesis by (simp add: comp_def)
qed

text \<open>A character outside the alphabet, such as the padding of other encodings, is refused.\<close>

lemma b64_digits_None: "c \<in> set s \<Longrightarrow> b64_index c = None \<Longrightarrow> b64_digits s = None"
  by (induction s) (auto split: option.splits)

lemma b64_decode_padded: "CHR ''='' \<in> set s \<Longrightarrow> b64_decode s = Inl (ErrOther ''illegal base64 data'')"
proof -
  assume "CHR ''='' \<in> set s"
  moreover have "b64_index (CHR ''='') = None" "\<not> newline (CHR ''='')" by code_simp+
  ultimately have "b64_digits (filter (\<lambda>c. \<not> newline c) s) = None"
    by (intro b64_digits_None [of "CHR ''=''"]) simp_all
  then show ?thesis by (simp add: b64_decode_def)
qed

end
