(* ===== verification/RandString.thy ===== *)
theory RandString
  imports Prelude
begin

text \<open>
  The random string of \<^verbatim>\<open>provider/aws/helpers.go\<close>: letters are cut out of 63-bit random
  words, six bits at a time, and a six-bit number that names no letter is skipped. The source of
  random words is a parameter, \<open>src k\<close> its \<open>k\<close>-th word; a loop that never ends is \<open>None\<close>.
\<close>

unbundle bit_operations_syntax

definition letterBytes :: string where
  "letterBytes = ''abcdefghijklmnopqrstuvwxyzABCDEFGHIJKLMNOPQRSTUVWXYZ''"

definition letterIdxBits :: nat where "letterIdxBits = 6"
definition letterIdxMask :: int64 where "letterIdxMask = push_bit letterIdxBits 1 - 1"
definition letterIdxMax :: nat where "letterIdxMax = 63 div letterIdxBits"

text \<open>The body of the loop: the draw of a new word, then the next six bits.\<close>

definition refill :: "(nat \<Rightarrow> int64) \<Rightarrow> nat \<Rightarrow> int64 \<Rightarrow> nat \<Rightarrow> nat \<times> int64 \<times> nat" where
  "refill src k cache remain =
     (if remain = 0 then (Suc k, src k, letterIdxMax) else (k, cache, remain))"

definition letter_index :: "int64 \<Rightarrow> nat" where
  "letter_index cache = unat (cache AND letterIdxMask)"

partial_function (option) rand_loop ::
    "(nat \<Rightarrow> int64) \<Rightarrow> nat \<Rightarrow> int \<Rightarrow> int64 \<Rightarrow> nat \<Rightarrow> string \<Rightarrow> (string \<times> nat) option" where
  "rand_loop src k i cache remain sb =
     (if i < 0 then Some (sb, k)
      else let (k, cache, remain) = refill src k cache remain;
               idx = letter_index cache
           in if idx < length letterBytes
              then rand_loop src k (i - 1) (signed_drop_bit letterIdxBits cache) (remain - 1)
                     (sb @ [letterBytes ! idx])
              else rand_loop src k i (signed_drop_bit letterIdxBits cache) (remain - 1) sb)"

text \<open>The string and the position of the source after it; a negative length panics.\<close>

definition RandStringBytesMaskImprSrcSB :: "(nat \<Rightarrow> int64) \<Rightarrow> nat \<Rightarrow> int \<Rightarrow> (string \<times> nat) run_val" where
  "RandStringBytesMaskImprSrcSB src k n =
     (if n < 0 then Some (Panics ''strings.Builder.Grow: negative count'')
      else map_option Ret (rand_loop src (Suc k) (n - 1) (src k) letterIdxMax []))"

section \<open>The string has the length asked for and only letters\<close>

lemma rand_loop_letters:
  "rand_loop src k i cache remain sb = Some r \<Longrightarrow>
    length (fst r) = length sb + nat (i + 1) \<and> set (fst r) \<subseteq> set sb \<union> set letterBytes"
proof (erule rand_loop.raw_induct [where P = "\<lambda>src k i cache remain sb r.
    length (fst r) = length sb + nat (i + 1) \<and> set (fst r) \<subseteq> set sb \<union> set letterBytes", rotated])
  fix loop and src :: "nat \<Rightarrow> int64" and k i cache remain sb r
  assume IH: "\<And>src k i cache remain sb r. loop src k i cache remain sb = Some r \<Longrightarrow>
      length (fst r) = length sb + nat (i + 1) \<and> set (fst r) \<subseteq> set sb \<union> set letterBytes"
    and step: "(if i < 0 then Some (sb, k)
      else let (k, cache, remain) = refill src k cache remain;
               idx = letter_index cache
           in if idx < length letterBytes
              then loop src k (i - 1) (signed_drop_bit letterIdxBits cache) (remain - 1)
                     (sb @ [letterBytes ! idx])
              else loop src k i (signed_drop_bit letterIdxBits cache) (remain - 1) sb) = Some r"
  obtain k1 c1 r1 where rf: "refill src k cache remain = (k1, c1, r1)" by (cases "refill src k cache remain")
  let ?next = "signed_drop_bit letterIdxBits c1"
  show "length (fst r) = length sb + nat (i + 1) \<and> set (fst r) \<subseteq> set sb \<union> set letterBytes"
  proof (cases "i < 0")
    case True
    with step show ?thesis by auto
  next
    case False
    show ?thesis
    proof (cases "letter_index c1 < length letterBytes")
      case True
      with step False have "loop src k1 (i - 1) ?next (r1 - 1) (sb @ [letterBytes ! letter_index c1]) = Some r"
        by (simp add: rf)
      from IH [OF this] True False show ?thesis by (auto simp: nth_mem)
    next
      case letter: False
      with step False have "loop src k1 i ?next (r1 - 1) sb = Some r" by (simp add: rf)
      from IH [OF this] show ?thesis .
    qed
  qed
qed

section \<open>It is found, and when it is not\<close>

text \<open>
  A word has a letter among its first \<open>n\<close> groups of six bits. The loop needs at most one such
  word for each letter.
\<close>

fun has_letter :: "int64 \<Rightarrow> nat \<Rightarrow> bool" where
  "has_letter w 0 = False"
| "has_letter w (Suc n) \<longleftrightarrow>
     letter_index w < length letterBytes \<or> has_letter (signed_drop_bit letterIdxBits w) n"

definition rand_found :: "(nat \<Rightarrow> int64) \<Rightarrow> nat \<Rightarrow> int \<Rightarrow> int64 \<Rightarrow> nat \<Rightarrow> bool" where
  "rand_found src k i cache remain \<longleftrightarrow> (\<forall>sb. rand_loop src k i cache remain sb \<noteq> None)"

lemma rand_found_negative: "i < 0 \<Longrightarrow> rand_found src k i cache remain"
  by (simp add: rand_found_def rand_loop.simps)

lemma rand_found_step:
  assumes "refill src k cache remain = (k1, c1, r1)"
    and "letter_index c1 < length letterBytes \<Longrightarrow>
      rand_found src k1 (i - 1) (signed_drop_bit letterIdxBits c1) (r1 - 1)"
    and "\<not> letter_index c1 < length letterBytes \<Longrightarrow>
      rand_found src k1 i (signed_drop_bit letterIdxBits c1) (r1 - 1)"
  shows "rand_found src k i cache remain"
  using assms by (auto simp: rand_found_def Let_def rand_loop.simps [of src k i])

lemma rand_found_letter:
  assumes "\<And>k cache remain. rand_found src k (i - 1) cache remain" and "has_letter cache remain"
  shows "rand_found src k i cache remain"
  using assms(2)
proof (induction remain arbitrary: cache)
  case 0
  then show ?case by simp
next
  case (Suc n)
  show ?case
    by (rule rand_found_step [of src k cache "Suc n" k cache "Suc n"])
      (use Suc assms(1) in \<open>simp_all add: refill_def\<close>)
qed

lemma rand_found_refill:
  assumes "rand_found src (Suc k) i (src k) letterIdxMax"
  shows "rand_found src k i cache 0"
proof (cases "i < 0")
  case False
  have "0 < letterIdxMax" by (simp add: letterIdxMax_def letterIdxBits_def)
  then have "rand_loop src k i cache 0 sb = rand_loop src (Suc k) i (src k) letterIdxMax sb" for sb
    using False by (simp add: rand_loop.simps [of src k i cache 0]
        rand_loop.simps [of src "Suc k" i "src k" letterIdxMax] refill_def)
  with assms show ?thesis by (simp add: rand_found_def)
qed (rule rand_found_negative)

lemma rand_found_after_word:
  assumes "rand_found src (Suc k) i (src k) letterIdxMax"
    and less: "\<And>k cache remain. rand_found src k (i - 1) cache remain"
  shows "rand_found src k i cache remain"
proof (induction remain arbitrary: cache)
  case 0
  show ?case by (rule rand_found_refill [OF assms(1)])
next
  case (Suc r)
  show ?case
    by (rule rand_found_step [of src k cache "Suc r" k cache "Suc r"]) (simp_all add: refill_def less Suc)
qed

text \<open>The next word with a letter is \<open>d\<close> draws away.\<close>

lemma rand_found_within:
  assumes less: "\<And>k cache remain. rand_found src k (i - 1) cache remain"
  shows "has_letter (src (k + d)) letterIdxMax \<Longrightarrow> rand_found src k i cache remain"
proof (induction d arbitrary: k cache remain)
  case 0
  then show ?case by (intro rand_found_after_word [OF rand_found_letter [OF less] less]) simp
next
  case (Suc d)
  have "rand_found src (Suc k) i (src k) letterIdxMax" by (rule Suc.IH) (use Suc.prems in simp)
  then show ?case by (rule rand_found_after_word [OF _ less])
qed

lemma rand_found_always:
  assumes "\<forall>k. \<exists>j \<ge> k. has_letter (src j) letterIdxMax"
  shows "rand_found src k i cache remain"
proof -
  have "\<forall>k cache remain. rand_found src k (int n - 1) cache remain" for n
  proof (induction n)
    case 0
    then show ?case by (simp add: rand_found_negative)
  next
    case (Suc n)
    then have less: "\<And>k cache remain. rand_found src k (int (Suc n) - 1 - 1) cache remain" by simp
    show ?case
    proof (intro allI)
      fix k cache remain
      from assms obtain j where "k \<le> j" "has_letter (src j) letterIdxMax" by blast
      then have "has_letter (src (k + (j - k))) letterIdxMax" by simp
      then show "rand_found src k (int (Suc n) - 1) cache remain" by (rule rand_found_within [OF less])
    qed
  qed
  from this [of "nat (i + 1)"] show ?thesis
    by (cases "i < 0") (simp_all add: rand_found_negative)
qed

text \<open>A source without a word that has a letter is searched forever.\<close>

lemma rand_loop_diverges:
  assumes "rand_loop src k i cache remain sb = Some r" and "\<not> has_letter cache remain"
    and "\<forall>k. \<not> has_letter (src k) letterIdxMax"
  shows "i < 0"
proof -
  have "rand_loop src k i cache remain sb = Some r \<Longrightarrow>
    (\<forall>k. \<not> has_letter (src k) letterIdxMax) \<longrightarrow> \<not> has_letter cache remain \<longrightarrow> i < 0"
  proof (erule rand_loop.raw_induct [where P = "\<lambda>src k i cache remain sb r.
      (\<forall>k. \<not> has_letter (src k) letterIdxMax) \<longrightarrow> \<not> has_letter cache remain \<longrightarrow> i < 0", rotated], intro impI)
    fix loop and src :: "nat \<Rightarrow> int64" and k i cache remain and sb :: string and r
    assume IH: "\<And>src k i cache remain sb r. loop src k i cache remain sb = Some r \<Longrightarrow>
        (\<forall>k. \<not> has_letter (src k) letterIdxMax) \<longrightarrow> \<not> has_letter cache remain \<longrightarrow> i < 0"
      and step: "(if i < 0 then Some (sb, k)
        else let (k, cache, remain) = refill src k cache remain;
                 idx = letter_index cache
             in if idx < length letterBytes
                then loop src k (i - 1) (signed_drop_bit letterIdxBits cache) (remain - 1)
                       (sb @ [letterBytes ! idx])
                else loop src k i (signed_drop_bit letterIdxBits cache) (remain - 1) sb) = Some r"
      and none: "\<forall>k. \<not> has_letter (src k) letterIdxMax" "\<not> has_letter cache remain"
    obtain k1 c1 r1 where rf: "refill src k cache remain = (k1, c1, r1)" by (cases "refill src k cache remain")
    with none have c1: "\<not> has_letter c1 r1" "r1 > 0"
      by (auto simp: refill_def letterIdxMax_def letterIdxBits_def split: if_splits)
    then have "\<not> letter_index c1 < length letterBytes"
        "\<not> has_letter (signed_drop_bit letterIdxBits c1) (r1 - 1)" by (cases r1; simp)+
    then show "i < 0" using step none IH [of src k1 i "signed_drop_bit letterIdxBits c1" "r1 - 1" sb r]
      by (auto simp: rf split: if_splits)
  qed
  with assms show ?thesis by blast
qed

section \<open>Properties\<close>

text \<open>
  C34. A random string is returned, for every length, if the source gives a word with a letter
  among its ten groups of six bits again and again, and then it has exactly the length asked for
  and consists of letters only.
\<close>

theorem random_string_found:
  assumes "\<forall>k. \<exists>j \<ge> k. has_letter (src j) letterIdxMax" and "0 \<le> n"
  shows "\<exists>s k'. RandStringBytesMaskImprSrcSB src k n = Some (Ret (s, k')) \<and>
    length s = nat n \<and> set s \<subseteq> set letterBytes"
proof -
  from rand_found_always [OF assms(1), of "Suc k" "n - 1" "src k" letterIdxMax]
  obtain s k' where r: "rand_loop src (Suc k) (n - 1) (src k) letterIdxMax [] = Some (s, k')"
    by (force simp: rand_found_def)
  with rand_loop_letters [OF r] assms(2) show ?thesis
    by (simp add: RandStringBytesMaskImprSrcSB_def)
qed

theorem random_string_found_witness:
  "\<exists>s k'. RandStringBytesMaskImprSrcSB (\<lambda>k. 0x3FFF) 0 8 = Some (Ret (s, k')) \<and>
    length s = 8 \<and> set s \<subseteq> set letterBytes"
proof -
  have "has_letter 0x3FFF letterIdxMax"
    by code_simp
  then show ?thesis using random_string_found [of "\<lambda>k. 0x3FFF" 8 0] by auto
qed

text \<open>
  The loop has no bound of its own: with a source none of whose words has a letter in its
  ten groups, a string of positive length is searched for forever.
\<close>

theorem random_string_may_not_return:
  assumes "\<forall>k. \<not> has_letter (src k) letterIdxMax" and "0 < n"
  shows "RandStringBytesMaskImprSrcSB src k n = None"
  using assms rand_loop_diverges [of src "Suc k" "n - 1" "src k" letterIdxMax "[]"]
  by (cases "rand_loop src (Suc k) (n - 1) (src k) letterIdxMax []") (auto simp: RandStringBytesMaskImprSrcSB_def)

theorem random_string_may_not_return_witness:
  "RandStringBytesMaskImprSrcSB (\<lambda>k. 0x7FFFFFFFFFFFFFFF) 0 8 = None"
proof -
  have "\<not> has_letter 0x7FFFFFFFFFFFFFFF letterIdxMax"
    by code_simp
  then show ?thesis by (intro random_string_may_not_return) simp_all
qed

end
