(* ===== verification/PubSub.thy ===== *)
theory PubSub
  imports Prelude
begin

text \<open>
  The in-process publish/subscribe of \<^verbatim>\<open>pkg/pubsub/pubsub.go\<close>. A channel is its queue, the
  number of sends it can take now without blocking (free buffer and waiting receivers) and
  whether it is closed. Each operation runs under the lock, so it is one step; a send that
  blocks ends the step as \<open>Blocked\<close>.
\<close>

section \<open>Channels and messages\<close>

record 'p Message =
  msg_topic :: string
  msg_payload :: 'p

record 'p channel =
  ch_items :: "'p Message list"
  ch_room :: nat
  ch_closed :: bool

datatype 's run = Ran 's | Blocked 's | Panicked string

fun run_then :: "'s run \<Rightarrow> ('s \<Rightarrow> 's run) \<Rightarrow> 's run" where
  "run_then (Ran s) f = f s"
| "run_then (Blocked s) f = Blocked s"
| "run_then (Panicked e) f = Panicked e"

fun run_each :: "('s \<Rightarrow> 'a \<Rightarrow> 's run) \<Rightarrow> 'a list \<Rightarrow> 's \<Rightarrow> 's run" where
  "run_each f [] s = Ran s"
| "run_each f (x # xs) s = run_then (f s x) (run_each f xs)"

definition new_channel :: "nat \<Rightarrow> 'p channel" where
  "new_channel n = \<lparr>ch_items = [], ch_room = n, ch_closed = False\<rparr>"

text \<open>\<^verbatim>\<open>ch <- m\<close> and the \<^verbatim>\<open>select\<close> with a default around it; \<^verbatim>\<open>close\<close>.\<close>

definition chan_send :: "bool \<Rightarrow> 'p Message \<Rightarrow> 'p channel \<Rightarrow> 'p channel run" where
  "chan_send blocking m c =
     (if ch_closed c then Panicked ''send on closed channel''
      else if ch_room c > 0 then Ran (c\<lparr>ch_items := ch_items c @ [m], ch_room := ch_room c - 1\<rparr>)
      else if blocking then Blocked c else Ran c)"

definition chan_close :: "'p channel \<Rightarrow> 'p channel run" where
  "chan_close c = (if ch_closed c then Panicked ''close of closed channel'' else Ran (c\<lparr>ch_closed := True\<rparr>))"

section \<open>Subscribers\<close>

record 'p subscriber =
  sub_id :: uint64
  sub_ch :: "'p channel"
  sub_subscriptions :: "string list"

definition subscriber_ID :: "'p subscriber \<Rightarrow> uint64" where
  "subscriber_ID s = sub_id s"

definition subscriber_Stream :: "'p subscriber \<Rightarrow> 'p channel" where
  "subscriber_Stream s = sub_ch s"

definition Put :: "'p Message \<Rightarrow> bool \<Rightarrow> 'p subscriber \<Rightarrow> 'p subscriber run" where
  "Put m blocking s = (case chan_send blocking m (sub_ch s) of
     Ran c \<Rightarrow> Ran (s\<lparr>sub_ch := c\<rparr>) | Blocked c \<Rightarrow> Blocked (s\<lparr>sub_ch := c\<rparr>) | Panicked e \<Rightarrow> Panicked e)"

definition Close_subscriber :: "'p subscriber \<Rightarrow> 'p subscriber run" where
  "Close_subscriber s = (case chan_close (sub_ch s) of
     Ran c \<Rightarrow> Ran (s\<lparr>sub_ch := c\<rparr>) | Blocked c \<Rightarrow> Blocked (s\<lparr>sub_ch := c\<rparr>) | Panicked e \<Rightarrow> Panicked e)"

definition IsSubscribedTo :: "'p subscriber \<Rightarrow> string \<Rightarrow> bool" where
  "IsSubscribedTo s t = (t \<in> set (sub_subscriptions s))"

definition unsubscribe :: "string \<Rightarrow> 'p subscriber \<Rightarrow> 'p subscriber" where
  "unsubscribe t s = s\<lparr>sub_subscriptions := removeAll t (sub_subscriptions s)\<rparr>"

definition subscribe :: "string \<Rightarrow> 'p subscriber \<Rightarrow> 'p subscriber" where
  "subscribe t s = s\<lparr>sub_subscriptions := List.insert t (sub_subscriptions s)\<rparr>"

definition newSubscriber :: "uint64 \<Rightarrow> nat \<Rightarrow> 'p subscriber" where
  "newSubscriber i listenerBufferSize =
     \<lparr>sub_id = i, sub_ch = new_channel listenerBufferSize, sub_subscriptions = []\<rparr>"

definition SubscriptionCount :: "'p subscriber \<Rightarrow> nat" where
  "SubscriptionCount s = length (sub_subscriptions s)"

definition Subscriptions :: "'p subscriber \<Rightarrow> string list" where
  "Subscriptions s = sub_subscriptions s"

section \<open>The hub\<close>

text \<open>
  \<open>ps_subscriptions\<close>: the set of subscriber ids of each topic that has an entry. A set, a Go
  map to the empty struct, is the list of its elements in the order a \<^verbatim>\<open>range\<close> visits them.
\<close>

record 'p pubSub =
  ps_subscriptions :: "string \<rightharpoonup> uint64 list"
  ps_subscribers :: "uint64 \<rightharpoonup> 'p subscriber"
  ps_stream :: "'p channel"
  ps_listener_buffer_size :: nat

definition NewPubSub :: "nat \<Rightarrow> nat \<Rightarrow> 'p pubSub" where
  "NewPubSub streamBufferSize listenerBufferSize =
     \<lparr>ps_subscriptions = Map.empty, ps_subscribers = Map.empty,
      ps_stream = new_channel streamBufferSize, ps_listener_buffer_size = listenerBufferSize\<rparr>"

text \<open>One message of \<^verbatim>\<open>startStreaming\<close>.\<close>

definition put_to :: "'p Message \<Rightarrow> bool \<Rightarrow> 'p pubSub \<Rightarrow> uint64 \<Rightarrow> 'p pubSub run" where
  "put_to m blocking ps i = (case ps_subscribers ps i of
     None \<Rightarrow> Ran ps
   | Some s \<Rightarrow> (case Put m blocking s of
       Ran s' \<Rightarrow> Ran (ps\<lparr>ps_subscribers := (ps_subscribers ps)(i \<mapsto> s')\<rparr>)
     | Blocked s' \<Rightarrow> Blocked (ps\<lparr>ps_subscribers := (ps_subscribers ps)(i \<mapsto> s')\<rparr>)
     | Panicked e \<Rightarrow> Panicked e))"

definition deliver :: "bool \<Rightarrow> 'p pubSub \<Rightarrow> 'p Message \<Rightarrow> 'p pubSub run" where
  "deliver blocking ps m = (case ps_subscriptions ps (msg_topic m) of
     None \<Rightarrow> Ran ps | Some ids \<Rightarrow> run_each (put_to m blocking) ids ps)"

definition startStreaming_step :: "bool \<Rightarrow> 'p pubSub \<Rightarrow> 'p pubSub run" where
  "startStreaming_step blocking ps = (case ch_items (ps_stream ps) of
     [] \<Rightarrow> (if ch_closed (ps_stream ps) then Ran ps else Blocked ps)
   | m # ms \<Rightarrow> deliver blocking (ps\<lparr>ps_stream := (ps_stream ps)\<lparr>ch_items := ms,
       ch_room := Suc (ch_room (ps_stream ps))\<rparr>\<rparr>) m)"

text \<open>\<^verbatim>\<open>Subscribe\<close>: the body of its loop, then the whole.\<close>

definition subscribe_topic :: "uint64 \<Rightarrow> 'p pubSub \<times> 'p subscriber \<Rightarrow> string \<Rightarrow> 'p pubSub \<times> 'p subscriber" where
  "subscribe_topic i x t =
     (let (ps, s) = x;
          ids = (case ps_subscriptions ps t of None \<Rightarrow> [] | Some ids \<Rightarrow> ids)
      in (ps\<lparr>ps_subscriptions := (ps_subscriptions ps)(t \<mapsto> List.insert i ids)\<rparr>, subscribe t s))"

definition Subscribe :: "'p pubSub \<Rightarrow> uint64 \<Rightarrow> string list \<Rightarrow> 'p pubSub" where
  "Subscribe ps i topics =
     (let s = (case ps_subscribers ps i of None \<Rightarrow> newSubscriber i (ps_listener_buffer_size ps)
               | Some s \<Rightarrow> s);
          (ps', s') = foldl (subscribe_topic i) (ps, s) topics
      in ps'\<lparr>ps_subscribers := (ps_subscribers ps')(i \<mapsto> s')\<rparr>)"

text \<open>
  \<^verbatim>\<open>Unsubscribe\<close>: a topic the subscriber \<^emph>\<open>is\<close> subscribed to is skipped, as written.
\<close>

definition unsubscribe_topic :: "uint64 \<Rightarrow> 'p pubSub \<times> 'p subscriber \<Rightarrow> string \<Rightarrow> 'p pubSub \<times> 'p subscriber" where
  "unsubscribe_topic i x t =
     (let (ps, s) = x
      in if IsSubscribedTo s t then (ps, s)
         else
           (let ids = (case ps_subscriptions ps t of None \<Rightarrow> [] | Some ids \<Rightarrow> removeAll i ids)
            in (ps\<lparr>ps_subscriptions := (ps_subscriptions ps)(t := (if ids = [] then None else Some ids))\<rparr>,
                unsubscribe t s)))"

definition Unsubscribe :: "'p pubSub \<Rightarrow> uint64 \<Rightarrow> string list \<Rightarrow> 'p pubSub" where
  "Unsubscribe ps i topics = (case ps_subscribers ps i of
     None \<Rightarrow> ps
   | Some s \<Rightarrow>
       (let topics = (if topics = [] then Subscriptions s else topics);
            (ps', s') = foldl (unsubscribe_topic i) (ps, s) topics
        in ps'\<lparr>ps_subscribers := (ps_subscribers ps')
             (i := (if SubscriptionCount s' = 0 then None else Some s'))\<rparr>))"

text \<open>\<^verbatim>\<open>Publish\<close>, with the count it returns: a blocking publish returns after one send.\<close>

fun Publish_loop ::
    "bool \<Rightarrow> 'p Message list \<Rightarrow> 'p pubSub \<times> nat \<Rightarrow> ('p pubSub \<times> nat) run" where
  "Publish_loop blocking [] x = Ran x"
| "Publish_loop blocking (m # ms) (ps, n) =
     (case ps_subscriptions ps (msg_topic m) of
        None \<Rightarrow> Publish_loop blocking ms (ps, n)
      | Some ids \<Rightarrow>
          (let n' = n + length ids
           in case chan_send blocking m (ps_stream ps) of
                Panicked e \<Rightarrow> Panicked e
              | Blocked c \<Rightarrow> Blocked (ps\<lparr>ps_stream := c\<rparr>, n')
              | Ran c \<Rightarrow> if blocking then Ran (ps\<lparr>ps_stream := c\<rparr>, n')
                  else Publish_loop blocking ms (ps\<lparr>ps_stream := c\<rparr>, n')))"

definition Publish :: "'p pubSub \<Rightarrow> bool \<Rightarrow> 'p Message list \<Rightarrow> ('p pubSub \<times> nat) run" where
  "Publish ps blocking messages = Publish_loop blocking messages (ps, 0)"

definition close_one :: "'p pubSub \<Rightarrow> uint64 \<Rightarrow> 'p pubSub run" where
  "close_one ps i = (case ps_subscribers ps i of
     None \<Rightarrow> Ran ps
   | Some s \<Rightarrow> (case Close_subscriber s of
       Ran s' \<Rightarrow> Ran (ps\<lparr>ps_subscribers := (ps_subscribers ps)(i \<mapsto> s')\<rparr>)
     | Blocked s' \<Rightarrow> Blocked ps
     | Panicked e \<Rightarrow> Panicked e))"

definition Close :: "uint64 list \<Rightarrow> 'p pubSub \<Rightarrow> 'p pubSub run" where
  "Close order ps = run_then (run_each close_one order ps)
     (\<lambda>ps. case chan_close (ps_stream ps) of
        Ran c \<Rightarrow> Ran (ps\<lparr>ps_stream := c\<rparr>) | Blocked c \<Rightarrow> Blocked ps | Panicked e \<Rightarrow> Panicked e)"

section \<open>The two indexes agree\<close>

text \<open>
  A topic's entry lists exactly the subscribers that list the topic, is never empty, and the
  subscribers are known under their ids.
\<close>

definition listed_under :: "'p pubSub \<Rightarrow> uint64 \<Rightarrow> string \<Rightarrow> bool" where
  "listed_under ps i t \<longleftrightarrow> (\<exists>ids. ps_subscriptions ps t = Some ids \<and> i \<in> set ids)"

definition lists_topic :: "'p pubSub \<Rightarrow> uint64 \<Rightarrow> string \<Rightarrow> bool" where
  "lists_topic ps i t \<longleftrightarrow> (\<exists>s. ps_subscribers ps i = Some s \<and> IsSubscribedTo s t)"

definition ps_ok :: "'p pubSub \<Rightarrow> bool" where
  "ps_ok ps \<longleftrightarrow> (\<forall>i t. listed_under ps i t \<longleftrightarrow> lists_topic ps i t) \<and>
     (\<forall>t ids. ps_subscriptions ps t = Some ids \<longrightarrow> ids \<noteq> [] \<and> distinct ids)"

lemma subscribe_topics:
  "foldl (subscribe_topic i) (ps, s) topics = (ps', s') \<Longrightarrow>
    ps_subscribers ps' = ps_subscribers ps \<and> ps_stream ps' = ps_stream ps \<and>
    ps_listener_buffer_size ps' = ps_listener_buffer_size ps \<and>
    sub_id s' = sub_id s \<and> sub_ch s' = sub_ch s \<and>
    (\<forall>t. IsSubscribedTo s' t \<longleftrightarrow> IsSubscribedTo s t \<or> t \<in> set topics) \<and>
    (\<forall>j t. listed_under ps' j t \<longleftrightarrow> listed_under ps j t \<or> (j = i \<and> t \<in> set topics)) \<and>
    ((\<forall>t ids. ps_subscriptions ps t = Some ids \<longrightarrow> ids \<noteq> [] \<and> distinct ids) \<longrightarrow>
     (\<forall>t ids. ps_subscriptions ps' t = Some ids \<longrightarrow> ids \<noteq> [] \<and> distinct ids))"
proof (induction topics arbitrary: ps s)
  case Nil
  then show ?case by simp
next
  case (Cons x topics)
  obtain ps1 s1 where 1: "subscribe_topic i (ps, s) x = (ps1, s1)" by force
  then have f: "ps_subscribers ps1 = ps_subscribers ps" "ps_stream ps1 = ps_stream ps"
      "ps_listener_buffer_size ps1 = ps_listener_buffer_size ps" "sub_id s1 = sub_id s" "sub_ch s1 = sub_ch s"
      "\<And>t. IsSubscribedTo s1 t \<longleftrightarrow> IsSubscribedTo s t \<or> t = x"
      "\<And>j t. listed_under ps1 j t \<longleftrightarrow> listed_under ps j t \<or> (j = i \<and> t = x)"
    by (auto simp: subscribe_topic_def Let_def subscribe_def IsSubscribedTo_def listed_under_def
        split: option.splits if_splits)
  have ok: "\<forall>t ids. ps_subscriptions ps1 t = Some ids \<longrightarrow> ids \<noteq> [] \<and> distinct ids"
    if "\<forall>t ids. ps_subscriptions ps t = Some ids \<longrightarrow> ids \<noteq> [] \<and> distinct ids"
    using 1 that by (auto simp: subscribe_topic_def Let_def split: option.splits if_splits)
      (metis List.insert_def list.distinct(1) distinct_insert)+
  from Cons.prems 1 have "foldl (subscribe_topic i) (ps1, s1) topics = (ps', s')" by simp
  note ih = Cons.IH [OF this]
  show ?case
  proof (intro conjI allI)
    fix t show "IsSubscribedTo s' t \<longleftrightarrow> IsSubscribedTo s t \<or> t \<in> set (x # topics)"
      using ih f(6) by auto
  next
    fix j t show "listed_under ps' j t \<longleftrightarrow> listed_under ps j t \<or> (j = i \<and> t \<in> set (x # topics))"
      using ih f(7) by auto
  next
    show "(\<forall>t ids. ps_subscriptions ps t = Some ids \<longrightarrow> ids \<noteq> [] \<and> distinct ids) \<longrightarrow>
        (\<forall>t ids. ps_subscriptions ps' t = Some ids \<longrightarrow> ids \<noteq> [] \<and> distinct ids)"
      using ih ok by (elim conjE) (intro impI, erule mp)
  qed (use ih f in \<open>simp_all only:\<close>)
qed

lemma Subscribe_spec:
  "ps_ok ps \<Longrightarrow> ps_ok (Subscribe ps i topics) \<and>
    (\<forall>j t. lists_topic (Subscribe ps i topics) j t \<longleftrightarrow> lists_topic ps j t \<or> (j = i \<and> t \<in> set topics))"
proof -
  assume ok: "ps_ok ps"
  let ?s = "case ps_subscribers ps i of None \<Rightarrow> newSubscriber i (ps_listener_buffer_size ps) | Some s \<Rightarrow> s"
  obtain ps' s' where f: "foldl (subscribe_topic i) (ps, ?s) topics = (ps', s')" by force
  have old: "IsSubscribedTo ?s t \<longleftrightarrow> lists_topic ps i t" for t
    by (auto simp: lists_topic_def newSubscriber_def IsSubscribedTo_def split: option.splits)
  have sub: "Subscribe ps i topics = ps'\<lparr>ps_subscribers := (ps_subscribers ps')(i \<mapsto> s')\<rparr>"
    using f by (simp add: Subscribe_def)
  have lt: "lists_topic (Subscribe ps i topics) j t \<longleftrightarrow> lists_topic ps j t \<or> (j = i \<and> t \<in> set topics)" for j t
    using subscribe_topics [OF f] old [of t] by (cases "j = i") (auto simp: sub lists_topic_def)
  have lu: "listed_under (Subscribe ps i topics) j t \<longleftrightarrow> listed_under ps j t \<or> (j = i \<and> t \<in> set topics)" for j t
    using subscribe_topics [OF f] by (simp add: sub listed_under_def)
  have "\<forall>t ids. ps_subscriptions (Subscribe ps i topics) t = Some ids \<longrightarrow> ids \<noteq> [] \<and> distinct ids"
  proof -
    have "\<forall>t ids. ps_subscriptions ps t = Some ids \<longrightarrow> ids \<noteq> [] \<and> distinct ids"
      using ok unfolding ps_ok_def by (elim conjE)
    then have "\<forall>t ids. ps_subscriptions ps' t = Some ids \<longrightarrow> ids \<noteq> [] \<and> distinct ids"
      using subscribe_topics [OF f] by (elim conjE) (erule mp)
    then show ?thesis by (simp add: sub)
  qed
  then show ?thesis unfolding ps_ok_def using lt lu ok by (simp add: ps_ok_def)
qed

text \<open>Unsubscribing a topic never changes anything: it is either skipped or not there.\<close>

lemma unsubscribe_topic_same:
  assumes "ps_ok ps" and "ps_subscribers ps i = Some s"
  shows "unsubscribe_topic i (ps, s) t = (ps, s)"
proof (cases "IsSubscribedTo s t")
  case True
  then show ?thesis by (simp add: unsubscribe_topic_def)
next
  case False
  then have "\<not> listed_under ps i t" using assms by (auto simp: ps_ok_def lists_topic_def)
  then have "ps_subscriptions ps t = Some ids \<Longrightarrow> removeAll i ids = ids" for ids
    by (auto simp: listed_under_def intro: removeAll_id)
  moreover have "ps_subscriptions ps t = Some ids \<Longrightarrow> ids \<noteq> []" for ids
    using assms(1) by (auto simp: ps_ok_def)
  moreover have "unsubscribe t s = s" using False by (simp add: unsubscribe_def IsSubscribedTo_def removeAll_id)
  ultimately show ?thesis using False
    by (cases "ps_subscriptions ps t") (auto simp: unsubscribe_topic_def fun_upd_idem)
qed

lemma unsubscribe_topics_same:
  "ps_ok ps \<Longrightarrow> ps_subscribers ps i = Some s \<Longrightarrow> foldl (unsubscribe_topic i) (ps, s) topics = (ps, s)"
  by (induction topics) (simp_all add: unsubscribe_topic_same)

lemma Unsubscribe_spec:
  assumes "ps_ok ps"
  shows "Unsubscribe ps i topics =
    (case ps_subscribers ps i of None \<Rightarrow> ps
     | Some s \<Rightarrow> if SubscriptionCount s = 0 then ps\<lparr>ps_subscribers := (ps_subscribers ps)(i := None)\<rparr> else ps)"
  using assms by (simp add: Unsubscribe_def unsubscribe_topics_same fun_upd_idem split: option.splits)

lemma ps_ok_new: "ps_ok (NewPubSub a b)"
  by (simp add: ps_ok_def NewPubSub_def listed_under_def lists_topic_def)

lemma Subscribe_stream: "ps_stream (Subscribe ps i topics) = ps_stream ps"
proof -
  let ?s = "case ps_subscribers ps i of None \<Rightarrow> newSubscriber i (ps_listener_buffer_size ps) | Some s \<Rightarrow> s"
  obtain ps' s' where f: "foldl (subscribe_topic i) (ps, ?s) topics = (ps', s')"
    by (cases "foldl (subscribe_topic i) (ps, ?s) topics")
  with subscribe_topics [OF f] show ?thesis by (simp add: Subscribe_def Let_def)
qed

lemma Unsubscribe_stream: "ps_stream (Unsubscribe ps i topics) = ps_stream ps"
proof -
  have "ps_stream (fst (foldl (unsubscribe_topic i) x ts)) = ps_stream (fst x)" for x :: "'a pubSub \<times> 'a subscriber" and ts
    by (induction ts arbitrary: x) (auto simp: unsubscribe_topic_def Let_def split: prod.splits)
  then show ?thesis by (simp add: Unsubscribe_def Let_def split: option.splits prod.splits) (metis fst_conv)
qed

section \<open>Delivery\<close>

text \<open>What a delivery that never blocks leaves of a subscriber.\<close>

definition offered_to :: "'p Message \<Rightarrow> 'p subscriber \<Rightarrow> 'p subscriber" where
  "offered_to m s = (if ch_room (sub_ch s) > 0 then s\<lparr>sub_ch := (sub_ch s)\<lparr>
     ch_items := ch_items (sub_ch s) @ [m], ch_room := ch_room (sub_ch s) - 1\<rparr>\<rparr> else s)"

definition all_open :: "'p pubSub \<Rightarrow> bool" where
  "all_open ps \<longleftrightarrow> (\<forall>i s. ps_subscribers ps i = Some s \<longrightarrow> \<not> ch_closed (sub_ch s))"

lemma Put_open: "\<not> ch_closed (sub_ch s) \<Longrightarrow> Put m False s = Ran (offered_to m s)"
  by (simp add: Put_def chan_send_def offered_to_def)

lemma put_to_open:
  "all_open ps \<Longrightarrow> put_to m False ps i =
    Ran (ps\<lparr>ps_subscribers := (ps_subscribers ps)(i := map_option (offered_to m) (ps_subscribers ps i))\<rparr>)"
  by (cases ps, cases "ps_subscribers ps i") (auto simp: put_to_def all_open_def Put_open fun_upd_idem)

lemma deliver_ids:
  "all_open ps \<Longrightarrow> distinct ids \<Longrightarrow> \<exists>subs. run_each (put_to m False) ids ps =
      Ran (ps\<lparr>ps_subscribers := subs\<rparr>) \<and>
    (\<forall>i. subs i = (if i \<in> set ids then map_option (offered_to m) (ps_subscribers ps i)
      else ps_subscribers ps i))"
proof (induction ids arbitrary: ps)
  case Nil
  then show ?case by (intro exI [of _ "ps_subscribers ps"]) simp
next
  case (Cons i ids)
  let ?ps = "ps\<lparr>ps_subscribers := (ps_subscribers ps)(i := map_option (offered_to m) (ps_subscribers ps i))\<rparr>"
  have "all_open ?ps" using Cons.prems(1) by (auto simp: all_open_def offered_to_def split: if_splits)
  with Cons.IH [of ?ps] Cons.prems(2) obtain subs where
    run: "run_each (put_to m False) ids ?ps = Ran (?ps\<lparr>ps_subscribers := subs\<rparr>)"
    and s: "\<forall>j. subs j = (if j \<in> set ids then map_option (offered_to m) (ps_subscribers ?ps j)
      else ps_subscribers ?ps j)" by auto
  have "subs j = (if j \<in> set (i # ids) then map_option (offered_to m) (ps_subscribers ps j)
      else ps_subscribers ps j)" for j
    using spec [OF s, of j] Cons.prems(2) by (cases "j \<in> set ids"; cases "j = i") simp_all
  moreover have "run_each (put_to m False) (i # ids) ps = Ran (ps\<lparr>ps_subscribers := subs\<rparr>)"
    using put_to_open [OF Cons.prems(1), of m i] run by simp
  ultimately show ?case by blast
qed

lemma deliver_all:
  assumes "ps_ok ps" and "all_open ps"
  shows "\<exists>subs. deliver False ps m = Ran (ps\<lparr>ps_subscribers := subs\<rparr>) \<and>
    (\<forall>i. subs i = (if lists_topic ps i (msg_topic m) then map_option (offered_to m) (ps_subscribers ps i)
      else ps_subscribers ps i))"
proof (cases "ps_subscriptions ps (msg_topic m)")
  case None
  then have "\<not> listed_under ps i (msg_topic m)" for i by (simp add: listed_under_def)
  then have "\<not> lists_topic ps i (msg_topic m)" for i using assms(1) by (simp add: ps_ok_def)
  with None show ?thesis by (intro exI [of _ "ps_subscribers ps"]) (simp add: deliver_def)
next
  case (Some ids)
  then have l: "lists_topic ps i (msg_topic m) \<longleftrightarrow> i \<in> set ids" for i
  proof -
    have "listed_under ps i (msg_topic m) \<longleftrightarrow> i \<in> set ids" using Some by (simp add: listed_under_def)
    then show ?thesis using assms(1) by (simp add: ps_ok_def)
  qed
  have "distinct ids" using assms(1) Some by (auto simp: ps_ok_def)
  from deliver_ids [OF assms(2) this, of m] show ?thesis by (simp add: deliver_def Some l)
qed

lemma all_open_Subscribe: "all_open ps \<Longrightarrow> all_open (Subscribe ps i topics)"
proof -
  assume o: "all_open ps"
  let ?s = "case ps_subscribers ps i of None \<Rightarrow> newSubscriber i (ps_listener_buffer_size ps) | Some s \<Rightarrow> s"
  obtain ps' s' where f: "foldl (subscribe_topic i) (ps, ?s) topics = (ps', s')"
    by (cases "foldl (subscribe_topic i) (ps, ?s) topics")
  have "\<not> ch_closed (sub_ch ?s)"
    using o by (auto simp: all_open_def newSubscriber_def new_channel_def split: option.splits)
  with subscribe_topics [OF f] o show ?thesis by (auto simp: all_open_def Subscribe_def Let_def f)
qed

section \<open>Properties\<close>

datatype 'p hub_op = SubscribeOp uint64 "string list" | UnsubscribeOp uint64 "string list"

fun hub_step :: "'p pubSub \<Rightarrow> 'p hub_op \<Rightarrow> 'p pubSub" where
  "hub_step ps (SubscribeOp i topics) = Subscribe ps i topics"
| "hub_step ps (UnsubscribeOp i topics) = Unsubscribe ps i topics"

lemma Unsubscribe_ok:
  assumes "ps_ok ps"
  shows "ps_ok (Unsubscribe ps i topics) \<and> (\<forall>j t. lists_topic (Unsubscribe ps i topics) j t \<longleftrightarrow> lists_topic ps j t)"
proof (cases "ps_subscribers ps i")
  case None
  with assms show ?thesis by (simp add: Unsubscribe_spec)
next
  case (Some s)
  show ?thesis
  proof (cases "SubscriptionCount s = 0")
    case False
    with assms Some show ?thesis by (simp add: Unsubscribe_spec)
  next
    case True
    let ?ps = "ps\<lparr>ps_subscribers := (ps_subscribers ps)(i := None)\<rparr>"
    have "lists_topic ?ps j t \<longleftrightarrow> lists_topic ps j t" for j t
      using True Some by (auto simp: lists_topic_def SubscriptionCount_def IsSubscribedTo_def)
    moreover have "listed_under ?ps j t \<longleftrightarrow> listed_under ps j t" for j t by (simp add: listed_under_def)
    ultimately show ?thesis using assms True Some by (simp add: Unsubscribe_spec ps_ok_def)
  qed
qed

text \<open>
  After any sequence of subscriptions and unsubscriptions the two indexes agree, and the
  subscriber of an id lists exactly the topics it was ever subscribed to: unsubscribing, whose
  guard is inverted, never removes one.
\<close>

theorem hub_lists_every_subscription:
  "ps_ok (foldl hub_step (NewPubSub a b) ops) \<and>
    (\<forall>i t. lists_topic (foldl hub_step (NewPubSub a b) ops) i t \<longleftrightarrow>
      (\<exists>topics. SubscribeOp i topics \<in> set ops \<and> t \<in> set topics))"
proof (induction ops rule: rev_induct)
  case Nil
  then show ?case by (simp add: ps_ok_new) (simp add: NewPubSub_def lists_topic_def)
next
  case (snoc x ops)
  let ?ps = "foldl hub_step (NewPubSub a b) ops"
  from snoc have ok: "ps_ok ?ps" by blast
  show ?case
  proof (cases x)
    case (SubscribeOp i topics)
    with Subscribe_spec [OF ok, of i topics] snoc show ?thesis by auto
  next
    case (UnsubscribeOp i topics)
    with Unsubscribe_ok [OF ok, of i topics] snoc show ?thesis by auto
  qed
qed

text \<open>
  Delivering a message without blocking appends it to the queue of every subscriber of its
  topic that has room, and changes no other subscriber.
\<close>

theorem deliver_reaches_subscribers:
  assumes "ps_ok ps" and "all_open ps"
  shows "\<exists>subs. deliver False ps m = Ran (ps\<lparr>ps_subscribers := subs\<rparr>) \<and>
    (\<forall>i. subs i = (if lists_topic ps i (msg_topic m) then map_option (offered_to m) (ps_subscribers ps i)
      else ps_subscribers ps i))"
  by (rule deliver_all [OF assms])

text \<open>
  A blocking publish of several messages sends only the first one whose topic has
  subscribers and drops the rest, whatever their topics.
\<close>

theorem blocking_publish_sends_one:
  assumes "ps_subscriptions ps (msg_topic m) = Some ids"
    and "\<not> ch_closed (ps_stream ps)" and "ch_room (ps_stream ps) > 0"
  shows "Publish ps True (m # ms) = Ran (ps\<lparr>ps_stream := (ps_stream ps)\<lparr>
    ch_items := ch_items (ps_stream ps) @ [m], ch_room := ch_room (ps_stream ps) - 1\<rparr>\<rparr>, length ids)"
  using assms by (simp add: Publish_def chan_send_def)

section \<open>Witnesses\<close>

definition sample_hub :: "nat pubSub" where
  "sample_hub = Subscribe (NewPubSub 1 1) 7 [''t'']"

lemma sample_hub_eq:
  "sample_hub = \<lparr>ps_subscriptions = [''t'' \<mapsto> [7]], ps_subscribers = [7 \<mapsto> \<lparr>sub_id = 7,
     sub_ch = new_channel 1, sub_subscriptions = [''t'']\<rparr>], ps_stream = new_channel 1,
     ps_listener_buffer_size = 1\<rparr>"
  by (simp add: sample_hub_def Subscribe_def NewPubSub_def newSubscriber_def subscribe_topic_def subscribe_def)

lemma sample_hub_ok: "ps_ok sample_hub" "all_open sample_hub"
proof -
  show "ps_ok sample_hub"
    unfolding sample_hub_def by (rule Subscribe_spec [OF ps_ok_new, THEN conjunct1])
  show "all_open sample_hub" by (simp add: all_open_def sample_hub_eq new_channel_def)
qed

theorem deliver_reaches_subscribers_witness:
  "\<exists>ps s. deliver False sample_hub \<lparr>msg_topic = ''t'', msg_payload = 3\<rparr> = Ran ps \<and>
    ps_subscribers ps 7 = Some s \<and> ch_items (sub_ch s) = [\<lparr>msg_topic = ''t'', msg_payload = 3\<rparr>]"
proof -
  let ?m = "\<lparr>msg_topic = ''t'', msg_payload = 3 :: nat\<rparr>"
  obtain subs where d: "deliver False sample_hub ?m = Ran (sample_hub\<lparr>ps_subscribers := subs\<rparr>)"
    and s: "subs 7 = (if lists_topic sample_hub 7 ''t'' then map_option (offered_to ?m) (ps_subscribers sample_hub 7)
      else ps_subscribers sample_hub 7)"
    using deliver_reaches_subscribers [OF sample_hub_ok, of ?m] by auto
  have "subs 7 = Some (offered_to ?m \<lparr>sub_id = 7, sub_ch = new_channel 1, sub_subscriptions = [''t'']\<rparr>)"
    unfolding s by (simp add: sample_hub_eq lists_topic_def IsSubscribedTo_def)
  with d show ?thesis by (simp add: offered_to_def new_channel_def)
qed

theorem blocking_publish_sends_one_witness:
  "\<exists>ps. Publish sample_hub True [\<lparr>msg_topic = ''t'', msg_payload = 3\<rparr>, \<lparr>msg_topic = ''t'', msg_payload = 4\<rparr>] =
    Ran (ps, 1) \<and> ch_items (ps_stream ps) = [\<lparr>msg_topic = ''t'', msg_payload = 3\<rparr>]"
proof -
  have h: "ps_subscriptions sample_hub (msg_topic \<lparr>msg_topic = ''t'', msg_payload = 3 :: nat\<rparr>) = Some [7]"
    "\<not> ch_closed (ps_stream sample_hub)" "ch_room (ps_stream sample_hub) > 0"
    "ch_items (ps_stream sample_hub) = []"
    by (simp_all add: sample_hub_eq new_channel_def)
  show ?thesis
    using blocking_publish_sends_one [OF h(1-3), of "[\<lparr>msg_topic = ''t'', msg_payload = 4\<rparr>]"]
    by (simp add: h(4))
qed

end
