(* ===== verification/Lambda.thy ===== *)
theory Lambda
  imports HttpServer Base64 RandString PubSub
begin

text \<open>
  The AWS Lambda handlers of \<^verbatim>\<open>provider/aws\<close>: the gateway handler that makes a handler for
  each call (\<^verbatim>\<open>lambda_gateway_handler.go\<close>), the HTTP handler
  (\<^verbatim>\<open>lambda_http_handler.go\<close>) and the operations of the gRPC handler
  (\<^verbatim>\<open>lambda_grpc_handler.go\<close>); how the latter run concurrently is \<open>LambdaRelay\<close>.
\<close>

section \<open>Requests to and replies from a function\<close>

text \<open>\<^verbatim>\<open>events.APIGatewayProxyRequest\<close> and \<^verbatim>\<open>Response\<close>, the fields used; an absent status
  code is zero.\<close>

record api_request =
  aq_method :: string
  aq_path :: string
  aq_headers :: http_header
  aq_query :: http_header
  aq_body :: string
  aq_base64 :: bool

record api_response =
  ap_status :: int
  ap_headers :: "string \<rightharpoonup> string"
  ap_multi_headers :: http_header
  ap_body :: string
  ap_base64 :: bool

record invoke_output =
  io_function_error :: "string option"
  io_payload :: bytes

text \<open>
  The libraries. \<open>le_invoke n\<close> is the result of the \<open>n\<close>-th invocation, given the function, the
  qualifier and the payload: the SDK returns either an error or an output. \<open>le_keys\<close> is the order in
  which a \<^verbatim>\<open>range\<close> visits a map. The last functions are those of \<^verbatim>\<open>grpc/metadata\<close> and
  \<^verbatim>\<open>time.ParseDuration\<close>.
\<close>

record lambda_env =
  le_marshal :: "api_request \<Rightarrow> goerr + bytes"
  le_unmarshal :: "bytes \<Rightarrow> goerr + api_response"
  le_invoke :: "nat \<Rightarrow> string \<Rightarrow> string \<Rightarrow> bytes \<Rightarrow> goerr + invoke_output"
  le_keys :: "(string \<rightharpoonup> string) \<Rightarrow> string list"
  le_md_new :: "(string \<rightharpoonup> string) \<Rightarrow> http_header"
  le_md_join :: "http_header \<Rightarrow> http_header \<Rightarrow> http_header"
  le_md_get :: "string \<Rightarrow> http_header \<Rightarrow> string list"
  le_md_set :: "string \<Rightarrow> string \<Rightarrow> http_header \<Rightarrow> http_header"
  le_parse_duration :: "string \<Rightarrow> goerr + int64"

definition function_error :: "string \<Rightarrow> goerr" where
  "function_error m = ErrOther (''Lambda function returned error: '' @ m)"

section \<open>The HTTP handler\<close>

definition http_api_request :: "http_request \<Rightarrow> bytes \<Rightarrow> api_request" where
  "http_api_request rq body = \<lparr>aq_method = rq_method rq, aq_path = rq_path rq, aq_headers = rq_header rq,
     aq_query = rq_query rq, aq_body = body, aq_base64 = False\<rparr>"

text \<open>The two loops over the headers: values of the first kind replace, of the second are added.\<close>

definition reply_headers :: "lambda_env \<Rightarrow> api_response \<Rightarrow> http_header \<Rightarrow> http_header" where
  "reply_headers E res h = fold (\<lambda>k h. header_add k (the (ap_headers res k)) h)
     (le_keys E (ap_headers res)) (h ++ ap_multi_headers res)"

definition write_result ::
    "bytes \<Rightarrow> 'w http_response_scheme \<Rightarrow> goerr option \<times> 'w http_response_scheme" where
  "write_result data w = (case write_body data w of
      (Some e, w) \<Rightarrow> (Some e, w) | (None, w) \<Rightarrow> (Some ErrEOF, w))"

definition http_reply ::
    "lambda_env \<Rightarrow> api_response \<Rightarrow> 'w http_response_scheme \<Rightarrow> (goerr option \<times> 'w http_response_scheme) val" where
  "http_reply E res w =
     val_then (WriteHeader (ap_status res) (w\<lparr>rw_header := reply_headers E res (rw_header w)\<rparr>)) (\<lambda>w.
       if ap_base64 res then
         (case b64_decode (ap_body res) of
            Inl e \<Rightarrow> Ret (Some e, w)
          | Inr result \<Rightarrow> Ret (write_result result w))
       else Ret (write_result (ap_body res) w))"

text \<open>
  \<^verbatim>\<open>Call\<close>: the function error is read before the error of the invocation is looked at, so a
  failed invocation, which has no output, panics.
\<close>

definition lambdaHttpHandler_Call ::
    "lambda_env \<Rightarrow> nat \<Rightarrow> lambda_function \<Rightarrow> http_request \<Rightarrow> 'w http_response_scheme \<Rightarrow>
     (goerr option \<times> 'w http_response_scheme) val" where
  "lambdaHttpHandler_Call E n param rq w = (case rq_body rq of
      Inl e \<Rightarrow> Ret (Some e, w)
    | Inr reqBody \<Rightarrow> (case le_marshal E (http_api_request rq reqBody) of
        Inl e \<Rightarrow> Ret (Some e, w)
      | Inr inp \<Rightarrow> (case le_invoke E n (lf_function_name param) (lf_qualifier param) inp of
          Inl e \<Rightarrow> Panics ''nil pointer dereference''
        | Inr out \<Rightarrow> (case io_function_error out of
            Some m \<Rightarrow> Ret (Some (function_error m), w)
          | None \<Rightarrow> (case le_unmarshal E (io_payload out) of
              Inl e \<Rightarrow> Ret (Some e, w)
            | Inr res \<Rightarrow> http_reply E res w)))))"

section \<open>The gRPC handler\<close>

record LambdaNotification =
  Service :: string
  Method :: string

text \<open>A timer: nil, with a value that is or will be in its channel, or with its value taken.\<close>

datatype timer = NoTimer | Armed | Drained

record lambdaGrpcHandler =
  lh_full_path :: string
  lh_param :: lambda_function
  lh_incoming :: http_header
  lh_result :: bytes
  lh_result_count :: nat
  lh_is_last :: bool
  lh_request :: bytes
  lh_timer :: timer
  lh_timeout_header :: string
  lh_stream_error :: "goerr option"
  lh_outgoing :: "http_header option"
  lh_subscriber :: "uint64 option"
  lh_service :: string
  lh_method :: string
  lh_calls :: nat

text \<open>The last two parts of the path; a path without two parts panics.\<close>

definition attachPubSub :: "uint64 \<Rightarrow> lambdaGrpcHandler \<Rightarrow> lambdaGrpcHandler val" where
  "attachPubSub i l = (case rev (split_on (CHR ''/'') (lh_full_path l)) of
      m # s # _ \<Rightarrow> Ret (l\<lparr>lh_service := s, lh_method := m, lh_subscriber := Some i\<rparr>)
    | _ \<Rightarrow> Panics ''index out of range'')"

text \<open>Which notification ends the wait before the next invocation.\<close>

definition signals :: "lambdaGrpcHandler \<Rightarrow> LambdaNotification \<Rightarrow> bool" where
  "signals l n \<longleftrightarrow> (Service n = [] \<or> Service n = lh_service l) \<and> (Method n = [] \<or> Method n = lh_method l)"

definition grpc_api_request :: "lambdaGrpcHandler \<Rightarrow> bytes \<Rightarrow> api_request" where
  "grpc_api_request l payload = \<lparr>aq_method = [], aq_path = lh_full_path l, aq_headers = lh_incoming l,
     aq_query = Map.empty, aq_body = b64_encode payload, aq_base64 = True\<rparr>"

text \<open>The \<^verbatim>\<open>switch\<close> on the status of the reply: the gRPC code of an error.\<close>

definition reply_code :: "int \<Rightarrow> code option" where
  "reply_code s =
     (if s = 410 then Some Aborted
      else if s = 400 then Some InvalidArgument
      else if s = 412 then Some FailedPrecondition
      else if s = 404 then Some NotFound
      else if s = 501 then Some Unimplemented
      else if s = 500 then Some Internal
      else if s = 504 then Some DeadlineExceeded
      else if s = 204 then Some OutOfRange
      else if s = 429 then Some ResourceExhausted
      else if s = 503 then Some Unavailable
      else if s = 409 then Some AlreadyExists
      else if s = 403 then Some Unauthenticated
      else if s = 507 then Some DataLoss
      else if s = 401 then Some PermissionDenied
      else None)"

text \<open>Status 102 keeps the call open for further invocations.\<close>

definition stream_outcome :: "lambdaGrpcHandler \<Rightarrow> lambdaGrpcHandler \<times> goerr option" where
  "stream_outcome l = (l, if lh_result_count l > 0 then None else Some ErrEOF)"

definition server_stream :: "lambda_env \<Rightarrow> bytes \<Rightarrow> lambdaGrpcHandler \<Rightarrow> lambdaGrpcHandler \<times> goerr option" where
  "server_stream E payload l =
     (let l = l\<lparr>lh_request := payload, lh_is_last := False\<rparr>
      in case the (lh_outgoing l) (lh_timeout_header l) of
           Some [t] \<Rightarrow> (case le_parse_duration E t of
               Inl e \<Rightarrow> (l, Some (ErrStatus Internal
                 (''invalid '' @ lh_timeout_header l @ '' header: ['' @ t @ '']'')))
             | Inr d \<Rightarrow> stream_outcome (l\<lparr>lh_timer := Armed\<rparr>))
         | _ \<Rightarrow> stream_outcome l)"

definition after_reply ::
    "lambda_env \<Rightarrow> bytes \<Rightarrow> lambdaGrpcHandler \<Rightarrow> api_response \<Rightarrow> lambdaGrpcHandler \<times> goerr option" where
  "after_reply E payload l res =
     (let l = l\<lparr>lh_outgoing := Some (le_md_join E (le_md_new E (ap_headers res)) (ap_multi_headers res))\<rparr>
      in case (if ap_base64 res then b64_decode (ap_body res) else Inr (ap_body res)) of
           Inl e \<Rightarrow> (l, Some e)
         | Inr result \<Rightarrow>
             (let l = l\<lparr>lh_result := result, lh_is_last := True\<rparr>
              in if ap_status res = 102 then server_stream E payload l
                 else case reply_code (ap_status res) of
                        Some c \<Rightarrow> (l, Some (ErrStatus c (ap_body res)))
                      | None \<Rightarrow> (l, Some ErrEOF)))"

text \<open>\<^verbatim>\<open>Call\<close> between the wait and the deferred signal.\<close>

definition call_body :: "lambda_env \<Rightarrow> bytes \<Rightarrow> lambdaGrpcHandler \<Rightarrow> lambdaGrpcHandler \<times> goerr option" where
  "call_body E payload l = (case le_marshal E (grpc_api_request l payload) of
      Inl e \<Rightarrow> (l, Some e)
    | Inr inp \<Rightarrow>
        (let n = lh_calls l; l = l\<lparr>lh_calls := Suc n\<rparr>
         in case le_invoke E n (lf_function_name (lh_param l)) (lf_qualifier (lh_param l)) inp of
              Inl e \<Rightarrow> (l, Some e)
            | Inr out \<Rightarrow> (case io_function_error out of
                Some m \<Rightarrow> (l, Some (function_error m))
              | None \<Rightarrow> (case le_unmarshal E (io_payload out) of
                  Inl e \<Rightarrow> (l, Some e)
                | Inr res \<Rightarrow> after_reply E payload l res))))"

text \<open>
  \<^verbatim>\<open>Result\<close> after the signal: the result and error it returns and whether it starts another
  \<^verbatim>\<open>Call\<close> in the background.
\<close>

definition Result :: "lambdaGrpcHandler \<Rightarrow> lambdaGrpcHandler \<times> (bytes \<times> goerr option) \<times> bool" where
  "Result l =
     (let l = l\<lparr>lh_result_count := Suc (lh_result_count l)\<rparr>
      in if lh_is_last l then (l, (lh_result l, Some ErrEOF), False)
         else (l, (lh_result l, lh_stream_error l), lh_timer l \<noteq> NoTimer))"

definition GetOutgoingMetadata :: "lambdaGrpcHandler \<Rightarrow> http_header option" where
  "GetOutgoingMetadata l = lh_outgoing l"

definition handler_Close ::
    "lambdaGrpcHandler \<Rightarrow> LambdaNotification pubSub option \<Rightarrow> LambdaNotification pubSub option" where
  "handler_Close l hub = (case lh_subscriber l of
      None \<Rightarrow> hub | Some i \<Rightarrow> map_option (\<lambda>ps. Unsubscribe ps i []) hub)"

section \<open>The gateway handler\<close>

definition nounce :: int where "nounce = 8"

record 'f LambdaGatewayHandler =
  LambdaStreamSubscriber :: "LambdaNotification pubSub option"
  ServerStreamTopicPrefix :: "'f config"
  GrpcServerStreamTimeoutHeader :: "'f config"
  NounceHeader :: "'f config"
  nounceHeader :: string
  subscriberId :: uint64
  lg_rand :: nat

definition LambdaGatewayHandler_Initialize :: "'f LambdaGatewayHandler \<Rightarrow> 'f LambdaGatewayHandler val" where
  "LambdaGatewayHandler_Initialize l = val_then (StringVal (NounceHeader l)) (\<lambda>h. Ret (l\<lparr>nounceHeader := h\<rparr>))"

definition GetHandlerType :: "'f LambdaGatewayHandler \<Rightarrow> HandlerType" where
  "GetHandlerType l = HandlerTypeAwsLambda"

definition ProcessPolicies ::
    "gateway_policy list \<Rightarrow> gateway_policy list \<Rightarrow> 'f LambdaGatewayHandler \<Rightarrow> 'f LambdaGatewayHandler eff" where
  "ProcessPolicies updated dropped l = Done l"

text \<open>The nonce is drawn when the header has no value.\<close>

definition draw_nounce ::
    "(nat \<Rightarrow> int64) \<Rightarrow> 'f LambdaGatewayHandler \<Rightarrow> (string \<times> 'f LambdaGatewayHandler) run_val" where
  "draw_nounce src l = run_then_val (RandStringBytesMaskImprSrcSB src (lg_rand l) nounce)
     (\<lambda>(s, k). Some (Ret (s, l\<lparr>lg_rand := k\<rparr>)))"

definition HandleHttp ::
    "(nat \<Rightarrow> int64) \<Rightarrow> http_request \<Rightarrow> 'f LambdaGatewayHandler \<Rightarrow>
     (http_request \<times> 'f LambdaGatewayHandler) run_val" where
  "HandleHttp src rq l =
     (if header_get (nounceHeader l) (rq_header rq) = [] then
        run_then_val (draw_nounce src l) (\<lambda>(s, l).
          Some (Ret (rq\<lparr>rq_header := header_set (nounceHeader l) s (rq_header rq)\<rparr>, l)))
      else Some (Ret (rq, l)))"

text \<open>The incoming metadata; a nil map cannot be set.\<close>

definition with_nounce ::
    "lambda_env \<Rightarrow> (nat \<Rightarrow> int64) \<Rightarrow> http_header option \<Rightarrow> 'f LambdaGatewayHandler \<Rightarrow>
     (http_header \<times> 'f LambdaGatewayHandler) run_val" where
  "with_nounce E src md l =
     (if (case md of None \<Rightarrow> [] | Some h \<Rightarrow> le_md_get E (nounceHeader l) h) = [] then
        run_then_val (draw_nounce src l) (\<lambda>(s, l). case md of
          None \<Rightarrow> Some (Panics ''assignment to entry in nil map'')
        | Some h \<Rightarrow> Some (Ret (le_md_set E (nounceHeader l) s h, l)))
      else Some (Ret (the md, l)))"

definition signal_header :: "lambda_env \<Rightarrow> string \<Rightarrow> http_header \<Rightarrow> string" where
  "signal_header E key md =
     (if key = [] then [] else case le_md_get E key md of [] \<Rightarrow> [] | v # _ \<Rightarrow> v)"

definition subscribe_handler ::
    "string \<Rightarrow> lambdaGrpcHandler \<Rightarrow> 'f LambdaGatewayHandler \<Rightarrow>
     (lambdaGrpcHandler \<times> 'f LambdaGatewayHandler) val" where
  "subscribe_handler signalHeader h l =
     (if LambdaStreamSubscriber l = None \<or> signalHeader = [] then Ret (h, l)
      else val_then (StringVal (ServerStreamTopicPrefix l)) (\<lambda>prefix.
        let i = subscriberId l + 1;
            l = l\<lparr>subscriberId := i, LambdaStreamSubscriber :=
              map_option (\<lambda>ps. Subscribe ps i [prefix @ signalHeader]) (LambdaStreamSubscriber l)\<rparr>
        in val_then (attachPubSub i h) (\<lambda>h. Ret (h, l))))"

definition HandleGrpc ::
    "lambda_env \<Rightarrow> (nat \<Rightarrow> int64) \<Rightarrow> http_header option \<Rightarrow> string \<Rightarrow> lambda_function \<Rightarrow> gateway_policy \<Rightarrow>
     'f LambdaGatewayHandler \<Rightarrow> (lambdaGrpcHandler \<times> 'f LambdaGatewayHandler) run_val" where
  "HandleGrpc E src md fullPath param policy l =
     run_then_val (with_nounce E src md l) (\<lambda>(incoming, l).
     run_then_val (Some (StringVal (GrpcServerStreamTimeoutHeader l))) (\<lambda>timeoutHeader.
       Some (subscribe_handler (signal_header E (gp_signal_header_key policy) incoming)
         \<lparr>lh_full_path = fullPath, lh_param = param, lh_incoming = incoming, lh_result = [],
          lh_result_count = 0, lh_is_last = False, lh_request = [], lh_timer = NoTimer,
          lh_timeout_header = timeoutHeader, lh_stream_error = None, lh_outgoing = None,
          lh_subscriber = None, lh_service = [], lh_method = [], lh_calls = 0\<rparr> l)))"

section \<open>Notifications from Redis\<close>

record redis_message =
  rm_channel :: string
  rm_payload :: bytes

text \<open>\<open>parse\<close> is \<^verbatim>\<open>json.Unmarshal\<close> into a notification.\<close>

definition LambdaNotificationRedisDeserializer ::
    "(bytes \<Rightarrow> goerr + LambdaNotification) \<Rightarrow> redis_message \<Rightarrow> LambdaNotification Message val" where
  "LambdaNotificationRedisDeserializer parse m = (case parse (rm_payload m) of
      Inl e \<Rightarrow> Panics ''invalid notification''
    | Inr n \<Rightarrow> Ret \<lparr>msg_topic = rm_channel m, msg_payload = n\<rparr>)"

end
