(* ===== verification/LambdaProps.thy ===== *)
theory LambdaProps
  imports Lambda
begin

text \<open>
  What the Lambda handlers do for one HTTP request and for the hub: the reply a client gets, the
  failures, the bodies sent, the subscribers left behind.
\<close>

section \<open>Requests\<close>

text \<open>The answers of the function to a request, taken apart once.\<close>

definition function_replies ::
    "lambda_env \<Rightarrow> nat \<Rightarrow> lambda_function \<Rightarrow> http_request \<Rightarrow> api_response \<Rightarrow> bool" where
  "function_replies E n param rq res \<longleftrightarrow> (\<exists>body inp out. rq_body rq = Inr body \<and>
     le_marshal E (http_api_request rq body) = Inr inp \<and>
     le_invoke E n (lf_function_name param) (lf_qualifier param) inp = Inr out \<and>
     io_function_error out = None \<and> le_unmarshal E (io_payload out) = Inr res)"

lemma lambdaHttpHandler_Call_replies:
  "function_replies E n param rq res \<Longrightarrow> lambdaHttpHandler_Call E n param rq w = http_reply E res w"
  by (auto simp: function_replies_def lambdaHttpHandler_Call_def)

definition fresh :: "'w http_response_scheme \<Rightarrow> bool" where
  "fresh w \<longleftrightarrow> rw_reply w = None \<and> rw_body w = []"

lemma write_result_ok:
  assumes "rw_reply w = Some (c, h)" and "data \<noteq> [] \<longrightarrow> rw_fault w c data = None"
  shows "write_result data w = (Some ErrEOF, w\<lparr>rw_body := rw_body w @ data\<rparr>)"
  using assms by (auto simp: write_result_def write_body_def start_body_def)

text \<open>What the loops over the reply's headers make of the values under a key.\<close>

lemma header_values_add:
  "header_values (header_add j v h) k = header_values h k @ (if canonical_key j = k then [v] else [])"
  by (auto simp: header_add_def header_values_def)

lemma reply_headers_values:
  "header_values (reply_headers E res h) k = header_values (h ++ ap_multi_headers res) k @
    map (\<lambda>j. the (ap_headers res j)) (filter (\<lambda>j. canonical_key j = k) (le_keys E (ap_headers res)))"
proof -
  have "header_values (fold (\<lambda>j h. header_add j (f j) h) ks h) k =
      header_values h k @ map f (filter (\<lambda>j. canonical_key j = k) ks)" for f ks h
    by (induction ks arbitrary: h) (simp_all add: header_values_add)
  then show ?thesis by (simp add: reply_headers_def)
qed

lemma http_reply_ok:
  assumes "fresh w" and "200 \<le> ap_status res" and "ap_status res \<le> 999"
    and "ap_body res = (if ap_base64 res then b64_encode data else data)"
    and "data \<noteq> [] \<longrightarrow> rw_fault w (ap_status res) data = None"
  shows "\<exists>w'. http_reply E res w = Ret (Some ErrEOF, w') \<and>
    rw_reply w' = Some (ap_status res, reply_headers E res (rw_header w)) \<and> rw_body w' = data"
proof -
  let ?h = "reply_headers E res (rw_header w)"
  let ?w = "w\<lparr>rw_header := ?h, rw_reply := Some (ap_status res, ?h)\<rparr>"
  have "WriteHeader (ap_status res) (w\<lparr>rw_header := ?h\<rparr>) = Ret ?w"
    using assms(1-3) by (simp add: WriteHeader_status fresh_def)
  moreover have "write_result data ?w = (Some ErrEOF, ?w\<lparr>rw_body := rw_body ?w @ data\<rparr>)"
    using assms(5) by (intro write_result_ok) simp_all
  ultimately show ?thesis using assms(1,4) by (simp add: http_reply_def b64_round_trip fresh_def)
qed

text \<open>The one handler of a call, as the server runs it.\<close>

abbreviation run_lambda ::
    "lambda_env \<Rightarrow> nat \<Rightarrow> http_request \<Rightarrow> 'h \<times> lambda_function \<Rightarrow> 'w http_response_scheme \<Rightarrow>
     (goerr option \<times> 'w http_response_scheme) val" where
  "run_lambda E n rq hp \<equiv> lambdaHttpHandler_Call E n (snd hp) rq"

section \<open>A small function\<close>

text \<open>It answers what its environment says; invocations of \<^verbatim>\<open>down\<close> fail.\<close>

definition sample_lambda :: "api_response \<Rightarrow> lambda_env" where
  "sample_lambda res = \<lparr>le_marshal = (\<lambda>r. Inr (aq_body r)), le_unmarshal = (\<lambda>b. Inr res),
     le_invoke = (\<lambda>n f q p. if f = ''down'' then Inl (ErrOther ''unreachable'')
        else Inr \<lparr>io_function_error = None, io_payload = p\<rparr>),
     le_keys = (\<lambda>m. []), le_md_new = (\<lambda>m k. map_option (\<lambda>v. [v]) (m k)), le_md_join = (++),
     le_md_get = (\<lambda>k m. header_values m k), le_md_set = (\<lambda>k v m. m(k \<mapsto> [v])),
     le_parse_duration = (\<lambda>t. if t = [] then Inl (ErrOther ''invalid duration'') else Inr 1)\<rparr>"

definition sample_reply :: "int \<Rightarrow> string \<Rightarrow> bool \<Rightarrow> api_response" where
  "sample_reply c body b64 = \<lparr>ap_status = c, ap_headers = Map.empty, ap_multi_headers = [''X-A'' \<mapsto> [''1'']],
     ap_body = body, ap_base64 = b64\<rparr>"

definition sample_request :: http_request where
  "sample_request = \<lparr>rq_method = ''GET'', rq_path = ''/a'', rq_header = Map.empty, rq_query = Map.empty,
     rq_body = Inr []\<rparr>"

definition sample_writer :: http_response where
  "sample_writer = \<lparr>rw_header = Map.empty, rw_reply = None, rw_informational = [], rw_body = [],
     rw_fault = (\<lambda>c b. None)\<rparr>"

definition sample_call :: "string \<Rightarrow> unit matched_call" where
  "sample_call f = \<lparr>mc_policy = \<lparr>gp_source = None, gp_handlers = [], gp_signal_header_key = []\<rparr>,
     mc_handlers = [((), \<lparr>lf_function_name = f, lf_qualifier = []\<rparr>)]\<rparr>"

lemma sample_replies:
  "function_replies (sample_lambda res) n \<lparr>lf_function_name = ''f'', lf_qualifier = []\<rparr> sample_request res"
  by (simp add: function_replies_def sample_lambda_def sample_request_def)

text \<open>The same with one single header, under a key that is not canonical.\<close>

definition sample_tagged :: lambda_env where
  "sample_tagged = (sample_lambda ((sample_reply 201 ''aGk'' True)\<lparr>ap_headers := [''x-a'' \<mapsto> ''2'']\<rparr>))
     \<lparr>le_keys := (\<lambda>m. [''x-a''])\<rparr>"

section \<open>Properties\<close>

text \<open>
  C21. A request that is not gRPC, or comes to a server without gRPC, and is matched to one Lambda
  function that replies with a status from 200 to 999 gets the function's reply: that status, the
  reply's body, decoded when the function says it is encoded, and under each key the values set
  before or those of the reply's lists in their place, then the reply's single headers that have
  this canonical key, each once, in the order in which the loop visits them. A body that is marked as encoded has
  to be base64 without padding, and the writer has to take the body. See \<open>padded_body_lost\<close> and
  \<open>reply_without_status_panics\<close> for replies that do not satisfy this.
\<close>

theorem http_client_gets_function_reply:
  assumes "mc_handlers c = [(h, param)]" and "function_replies E n param rq res"
    and "grpc = None \<or> \<not> contains_sub (header_get ''Content-Type'' (rq_header rq)) ''application/grpc''"
    and "enumerates (le_keys E (ap_headers res)) (ap_headers res)"
    and "fresh w" and "200 \<le> ap_status res" and "ap_status res \<le> 999"
    and "ap_body res = (if ap_base64 res then b64_encode data else data)"
    and "data \<noteq> [] \<longrightarrow> rw_fault w (ap_status res) data = None"
  shows "\<exists>w' hd ks. ServeHTTP grpc (Ret (Inr c)) (run_lambda E n rq) rq w = Ret w' \<and>
    final_status w' = ap_status res \<and> rw_reply w' = Some (ap_status res, hd) \<and> rw_body w' = data \<and>
    distinct ks \<and> set ks = dom (ap_headers res) \<and>
    (\<forall>k. header_values hd k = header_values (rw_header w ++ ap_multi_headers res) k @
       map (\<lambda>j. the (ap_headers res j)) (filter (\<lambda>j. canonical_key j = k) ks))"
proof -
  from http_reply_ok [OF assms(5-9)] obtain w' where
    w': "http_reply E res w = Ret (Some ErrEOF, w')"
    "rw_reply w' = Some (ap_status res, reply_headers E res (rw_header w))" "rw_body w' = data"
    by blast
  have "ServeHTTP grpc (Ret (Inr c)) (run_lambda E n rq) rq w = Ret w'"
    using assms(1,3) w' by (auto simp: ServeHTTP_def Let_def lambdaHttpHandler_Call_replies [OF assms(2)])
  with w' assms(4) reply_headers_values [of E res "rw_header w"] show ?thesis
    by (intro exI [of _ w'] exI [of _ "reply_headers E res (rw_header w)"] exI [of _ "le_keys E (ap_headers res)"])
      (simp add: final_status_def enumerates_def)
qed

theorem http_client_gets_function_reply_witness:
  "\<exists>w' hd. ServeHTTP None (Ret (Inr (sample_call ''f''))) (run_lambda sample_tagged 0 sample_request)
      sample_request sample_writer = Ret w' \<and> final_status w' = 201 \<and> rw_body w' = ''hi'' \<and>
    rw_reply w' = Some (201, hd) \<and> header_values hd ''X-A'' = [''1'', ''2'']"
proof -
  have b: "b64_encode ''hi'' = ''aGk''" by code_simp
  have k: "canonical_key ''x-a'' = ''X-A''" by code_simp
  let ?res = "(sample_reply 201 ''aGk'' True)\<lparr>ap_headers := [''x-a'' \<mapsto> ''2'']\<rparr>"
  have r: "function_replies sample_tagged 0 \<lparr>lf_function_name = ''f'', lf_qualifier = []\<rparr> sample_request ?res"
    using sample_replies [of ?res 0] by (simp add: function_replies_def sample_tagged_def http_api_request_def)
  have e: "enumerates (le_keys sample_tagged (ap_headers ?res)) (ap_headers ?res)"
    by (simp add: enumerates_def sample_tagged_def)
  have body: "ap_body ?res = (if ap_base64 ?res then b64_encode ''hi'' else ''hi'')"
    unfolding b by (simp add: sample_reply_def)
  have "\<exists>w' hd ks. ServeHTTP None (Ret (Inr (sample_call ''f''))) (run_lambda sample_tagged 0 sample_request)
      sample_request sample_writer = Ret w' \<and>
    final_status w' = ap_status ?res \<and> rw_reply w' = Some (ap_status ?res, hd) \<and> rw_body w' = ''hi'' \<and>
    distinct ks \<and> set ks = dom (ap_headers ?res) \<and>
    (\<forall>k. header_values hd k = header_values (rw_header sample_writer ++ ap_multi_headers ?res) k @
       map (\<lambda>j. the (ap_headers ?res j)) (filter (\<lambda>j. canonical_key j = k) ks))"
    by (rule http_client_gets_function_reply [OF _ r _ e _ _ _ body])
      (simp_all add: sample_call_def fresh_def sample_writer_def sample_reply_def)
  then obtain w' hd ks where w: "ServeHTTP None (Ret (Inr (sample_call ''f''))) (run_lambda sample_tagged 0 sample_request)
      sample_request sample_writer = Ret w'" "final_status w' = 201" "rw_reply w' = Some (201, hd)" "rw_body w' = ''hi''"
    and ks: "distinct ks" "set ks = {''x-a''}"
    and v: "header_values hd ''X-A'' = [''1''] @ map (\<lambda>j. the (ap_headers ?res j)) (filter (\<lambda>j. canonical_key j = ''X-A'') ks)"
    by (auto simp: sample_reply_def sample_writer_def header_values_def)
  from ks have "ks = [''x-a'']" by (cases ks; cases "tl ks") auto
  with v k have "header_values hd ''X-A'' = [''1'', ''2'']" by simp
  with w show ?thesis by blast
qed

text \<open>
  A failed invocation of a Lambda function, which the SDK reports as an error without an
  output, makes the HTTP handler panic instead of answering 502 as for the handler's other
  errors.
\<close>

theorem failed_invocation_panics:
  assumes "mc_handlers c = (h, param) # hs" and "rq_body rq = Inr body"
    and "le_marshal E (http_api_request rq body) = Inr inp"
    and "le_invoke E n (lf_function_name param) (lf_qualifier param) inp = Inl e"
  shows "ServeHTTP None (Ret (Inr c)) (run_lambda E n rq) rq w = Panics ''nil pointer dereference''"
  using assms by (simp add: ServeHTTP_def lambdaHttpHandler_Call_def)

theorem failed_invocation_panics_witness:
  "ServeHTTP None (Ret (Inr (sample_call ''down''))) (run_lambda (sample_lambda (sample_reply 200 [] False)) 0 sample_request)
      sample_request sample_writer = Panics ''nil pointer dereference''"
  by (rule failed_invocation_panics [of _ "()" "\<lparr>lf_function_name = ''down'', lf_qualifier = []\<rparr>" "[]" _ "[]" _ "[]"])
    (simp_all add: sample_call_def sample_request_def sample_lambda_def http_api_request_def)

text \<open>
  A reply without a status code, such as the one of the example function, makes the HTTP
  handler panic, since zero is no status that can be written.
\<close>

theorem reply_without_status_panics:
  assumes "mc_handlers c = (h, param) # hs" and "function_replies E n param rq res"
    and "ap_status res = 0" and "fresh w"
  shows "ServeHTTP None (Ret (Inr c)) (run_lambda E n rq) rq w = Panics ''invalid WriteHeader code''"
  using assms by (simp add: ServeHTTP_def lambdaHttpHandler_Call_replies http_reply_def WriteHeader_def fresh_def)

theorem reply_without_status_panics_witness:
  "ServeHTTP None (Ret (Inr (sample_call ''f''))) (run_lambda (sample_lambda (sample_reply 0 ''hi'' False)) 0 sample_request)
      sample_request sample_writer = Panics ''invalid WriteHeader code''"
  by (rule reply_without_status_panics [OF _ sample_replies])
    (simp_all add: sample_call_def sample_reply_def fresh_def sample_writer_def)

text \<open>
  A body encoded with padding, as the standard encoding writes it, is refused after the
  status was sent: the client gets the function's status with an empty body.
\<close>

theorem padded_body_lost:
  assumes "mc_handlers c = [(h, param)]" and "function_replies E n param rq res"
    and "fresh w" and "200 \<le> ap_status res" and "ap_status res \<le> 999"
    and "ap_base64 res" and "CHR ''='' \<in> set (ap_body res)"
  shows "\<exists>w'. ServeHTTP None (Ret (Inr c)) (run_lambda E n rq) rq w = Ret w' \<and>
    final_status w' = ap_status res \<and> rw_body w' = []"
  using assms by (auto simp: ServeHTTP_def lambdaHttpHandler_Call_replies http_reply_def WriteHeader_def
      fresh_def b64_decode_padded final_status_def)

theorem padded_body_lost_witness:
  "\<exists>w'. ServeHTTP None (Ret (Inr (sample_call ''f''))) (run_lambda (sample_lambda (sample_reply 200 ''aGk='' True)) 0 sample_request)
      sample_request sample_writer = Ret w' \<and> final_status w' = 200 \<and> rw_body w' = []"
  using padded_body_lost [of "sample_call ''f''" "()" "\<lparr>lf_function_name = ''f'', lf_qualifier = []\<rparr>"
      "sample_lambda (sample_reply 200 ''aGk='' True)" 0 sample_request "sample_reply 200 ''aGk='' True"
      sample_writer]
  by (simp add: sample_call_def sample_replies fresh_def sample_writer_def sample_reply_def)

text \<open>
  What a gRPC call sends to its function can be read back: the body is flagged as encoded
  and decodes to the very bytes of the client's message, whatever they are.
\<close>

theorem grpc_body_reads_back:
  "aq_base64 (grpc_api_request l payload) \<and> b64_decode (aq_body (grpc_api_request l payload)) = Inr payload"
  by (simp add: grpc_api_request_def b64_round_trip)

text \<open>
  A closed handler stays subscribed: after a call with a signal header was subscribed to its
  topic, closing its handler leaves the hub exactly as it is, with the subscriber listed under
  the topic, so every such call leaves a subscriber behind.
\<close>

theorem closed_handler_stays_subscribed:
  assumes "subscribe_handler signal h l = Ret (h', l')" and "signal \<noteq> []"
    and "LambdaStreamSubscriber l = Some ps" and "ps_ok ps"
    and "StringVal (ServerStreamTopicPrefix l) = Ret topics"
  shows "\<exists>ps'. LambdaStreamSubscriber l' = Some ps' \<and> handler_Close h' (Some ps') = Some ps' \<and>
    lists_topic ps' (subscriberId l') (topics @ signal)"
proof -
  let ?i = "subscriberId l + 1" and ?t = "topics @ signal"
  let ?ps = "Subscribe ps ?i [?t]"
  from assms have l': "LambdaStreamSubscriber l' = Some ?ps" "subscriberId l' = ?i" "lh_subscriber h' = Some ?i"
    by (auto simp: subscribe_handler_def attachPubSub_def Let_def split: list.splits)
  note sub = Subscribe_spec [OF assms(4), of ?i "[?t]"]
  then have "lists_topic ?ps ?i ?t" by simp
  then obtain s where s: "ps_subscribers ?ps ?i = Some s" "IsSubscribedTo s ?t" by (auto simp: lists_topic_def)
  then have "SubscriptionCount s \<noteq> 0" by (auto simp: IsSubscribedTo_def SubscriptionCount_def)
  with s sub have "Unsubscribe ?ps ?i [] = ?ps" by (simp add: Unsubscribe_spec)
  with l' \<open>lists_topic ?ps ?i ?t\<close> show ?thesis by (simp add: handler_Close_def)
qed

definition sample_gateway_handler :: "unit LambdaGatewayHandler" where
  "sample_gateway_handler = \<lparr>LambdaStreamSubscriber = Some (NewPubSub 0 0),
     ServerStreamTopicPrefix = ValReader (AString ''p:''), GrpcServerStreamTimeoutHeader = ValReader (AString ''t''),
     NounceHeader = ValReader (AString ''n''), nounceHeader = ''n'', subscriberId = 0, lg_rand = 0\<rparr>"

definition sample_handler :: lambdaGrpcHandler where
  "sample_handler = \<lparr>lh_full_path = ''/s/m'', lh_param = \<lparr>lf_function_name = ''f'', lf_qualifier = []\<rparr>,
     lh_incoming = Map.empty, lh_result = [], lh_result_count = 0, lh_is_last = False, lh_request = [],
     lh_timer = NoTimer, lh_timeout_header = ''t'', lh_stream_error = None, lh_outgoing = None,
     lh_subscriber = None, lh_service = [], lh_method = [], lh_calls = 0\<rparr>"

theorem closed_handler_stays_subscribed_witness:
  "\<exists>h' l' ps'. subscribe_handler ''x'' sample_handler sample_gateway_handler = Ret (h', l') \<and>
    handler_Close h' (Some ps') = Some ps' \<and> lists_topic ps' 1 ''p:x''"
proof -
  have "\<exists>h' l'. subscribe_handler ''x'' sample_handler sample_gateway_handler = Ret (h', l') \<and> subscriberId l' = 1"
    by (simp add: subscribe_handler_def attachPubSub_def sample_handler_def sample_gateway_handler_def
        StringVal_def Let_def)
  then obtain h' l' where s: "subscribe_handler ''x'' sample_handler sample_gateway_handler = Ret (h', l')"
      "subscriberId l' = 1" by blast
  have "StringVal (ServerStreamTopicPrefix sample_gateway_handler) = Ret ''p:''"
    "LambdaStreamSubscriber sample_gateway_handler = Some (NewPubSub 0 0)"
    by (simp_all add: sample_gateway_handler_def StringVal_def)
  from closed_handler_stays_subscribed [OF s(1) _ this(2) ps_ok_new this(1)] s show ?thesis by auto
qed

end
