(* ===== verification/LambdaRelay.thy ===== *)
theory LambdaRelay
  imports LambdaProps
begin

text \<open>
  A proxied gRPC call to a Lambda function as it runs: the receiving goroutine with its
  \<^verbatim>\<open>Call\<close>, the sending goroutine with its \<^verbatim>\<open>Result\<close>, the further calls \<^verbatim>\<open>Result\<close> starts
  in the background, and the unbuffered channel \<^verbatim>\<open>waitCall\<close> they meet on
  (\<^verbatim>\<open>grpc_proxy.go\<close> and \<^verbatim>\<open>lambda_grpc_handler.go\<close> together). The steps are those of the
  definitions of \<open>Proxy\<close> and \<open>Lambda\<close>.

  The proxy's loop takes what it sees of the two goroutines whenever it is scheduled, so the call may
  return at any state of a run in which \<open>call_can_return\<close> holds, or later. A run describes the call up to
  its return: a state says what was sent to the client if the call has not returned before it. What the
  goroutines do after the return reaches no client and is not part of the call.
\<close>

section \<open>The goroutines\<close>

text \<open>
  A \<^verbatim>\<open>Call\<close>: waiting for the timer or a notification, at its body, in the deferred send of
  the signal, after it.
\<close>

datatype call_pc = C_Wait bytes | C_Body bytes | C_Signal "goerr option" | C_Return "goerr option"

datatype recv_pc = V_Recv | V_Calling call_pc | V_Done "goerr option"

datatype send_pc = S_Wait nat | S_Got nat | S_Have nat "bytes \<times> goerr option" | S_Done "goerr option"

record relay =
  ry_handler :: lambdaGrpcHandler
  ry_requests :: "(goerr + bytes) list"
  ry_recv :: recv_pc
  ry_send :: send_pc
  ry_async :: "call_pc list"
  ry_closed :: bool
  ry_sent :: "http_header sent"
  ry_panic :: bool

text \<open>
  The wait of a call ends at once without a timer, when the timer fires, or with a notification
  that signals the handler's subscriber.
\<close>

inductive wait_ends :: "lambdaGrpcHandler \<Rightarrow> lambdaGrpcHandler \<Rightarrow> bool" where
  no_timer: "lh_timer l = NoTimer \<Longrightarrow> wait_ends l l"
| fired: "lh_timer l = Armed \<Longrightarrow> wait_ends l (l\<lparr>lh_timer := Drained\<rparr>)"
| signalled: "lh_timer l \<noteq> NoTimer \<Longrightarrow> lh_subscriber l \<noteq> None \<Longrightarrow> signals l n \<Longrightarrow> wait_ends l l"

text \<open>
  One step of the relay. A send on the closed channel and a second close panic; a panic ends the
  process, so nothing steps after it.
\<close>

definition after_call :: "http_header stream_env \<Rightarrow> goerr option \<Rightarrow> recv_pc" where
  "after_call SE e = (case call_returned SE e of Again \<Rightarrow> V_Recv | Stop r \<Rightarrow> V_Done r)"

text \<open>The end of the deferred function: the channel is closed after the last result.\<close>

definition close_if_last :: "relay \<Rightarrow> relay" where
  "close_if_last c = (if lh_is_last (ry_handler c)
     then (if ry_closed c then c\<lparr>ry_panic := True\<rparr> else c\<lparr>ry_closed := True\<rparr>) else c)"

definition got_result :: "nat \<Rightarrow> relay \<Rightarrow> relay" where
  "got_result i c = (let (l, r, more) = Result (ry_handler c)
     in c\<lparr>ry_handler := l, ry_send := S_Have i r,
          ry_async := ry_async c @ (if more then [C_Wait (lh_request l)] else [])\<rparr>)"

definition send_result :: "http_header stream_env \<Rightarrow> nat \<Rightarrow> bytes \<times> goerr option \<Rightarrow> relay \<Rightarrow> relay" where
  "send_result SE i r c = (case send_iter SE i r (GetOutgoingMetadata (ry_handler c)) (ry_sent c) of
      (Again, s) \<Rightarrow> c\<lparr>ry_sent := s, ry_send := S_Wait (Suc i)\<rparr>
    | (Stop e, s) \<Rightarrow> c\<lparr>ry_sent := s, ry_send := S_Done e\<rparr>)"

inductive relay_step :: "lambda_env \<Rightarrow> http_header stream_env \<Rightarrow> relay \<Rightarrow> relay \<Rightarrow> bool" for E SE where
  recv_failed: "\<not> ry_panic c \<Longrightarrow> ry_recv c = V_Recv \<Longrightarrow> ry_requests c = Inl err # xs \<Longrightarrow>
    relay_step E SE c (c\<lparr>ry_requests := xs, ry_recv := V_Done (recv_failed err)\<rparr>)"
| recv_msg: "\<not> ry_panic c \<Longrightarrow> ry_recv c = V_Recv \<Longrightarrow> ry_requests c = Inr p # xs \<Longrightarrow>
    relay_step E SE c (c\<lparr>ry_requests := xs, ry_recv := V_Calling (C_Wait p)\<rparr>)"
| call_wait: "\<not> ry_panic c \<Longrightarrow> ry_recv c = V_Calling (C_Wait p) \<Longrightarrow> wait_ends (ry_handler c) l \<Longrightarrow>
    relay_step E SE c (c\<lparr>ry_handler := l, ry_recv := V_Calling (C_Body p)\<rparr>)"
| call_body: "\<not> ry_panic c \<Longrightarrow> ry_recv c = V_Calling (C_Body p) \<Longrightarrow> call_body E p (ry_handler c) = (l, e) \<Longrightarrow>
    relay_step E SE c (c\<lparr>ry_handler := l, ry_recv := V_Calling (C_Signal e)\<rparr>)"
| call_signal: "\<not> ry_panic c \<Longrightarrow> ry_recv c = V_Calling (C_Signal e) \<Longrightarrow> \<not> ry_closed c \<Longrightarrow>
    ry_send c = S_Wait i \<Longrightarrow>
    relay_step E SE c (c\<lparr>ry_recv := V_Calling (C_Return e), ry_send := S_Got i\<rparr>)"
| call_signal_closed: "\<not> ry_panic c \<Longrightarrow> ry_recv c = V_Calling (C_Signal e) \<Longrightarrow> ry_closed c \<Longrightarrow>
    relay_step E SE c (c\<lparr>ry_panic := True\<rparr>)"
| call_return: "\<not> ry_panic c \<Longrightarrow> ry_recv c = V_Calling (C_Return e) \<Longrightarrow>
    relay_step E SE c (close_if_last (c\<lparr>ry_recv := after_call SE e\<rparr>))"
| async_wait: "\<not> ry_panic c \<Longrightarrow> ry_async c = xs @ C_Wait p # ys \<Longrightarrow> wait_ends (ry_handler c) l \<Longrightarrow>
    relay_step E SE c (c\<lparr>ry_handler := l, ry_async := xs @ C_Body p # ys\<rparr>)"
| async_body: "\<not> ry_panic c \<Longrightarrow> ry_async c = xs @ C_Body p # ys \<Longrightarrow> call_body E p (ry_handler c) = (l, e) \<Longrightarrow>
    relay_step E SE c (c\<lparr>ry_handler := l, ry_async := xs @ C_Signal e # ys\<rparr>)"
| async_signal: "\<not> ry_panic c \<Longrightarrow> ry_async c = xs @ C_Signal e # ys \<Longrightarrow> \<not> ry_closed c \<Longrightarrow>
    ry_send c = S_Wait i \<Longrightarrow>
    relay_step E SE c (c\<lparr>ry_async := xs @ C_Return e # ys, ry_send := S_Got i\<rparr>)"
| async_signal_closed: "\<not> ry_panic c \<Longrightarrow> ry_async c = xs @ C_Signal e # ys \<Longrightarrow> ry_closed c \<Longrightarrow>
    relay_step E SE c (c\<lparr>ry_panic := True\<rparr>)"
| async_return: "\<not> ry_panic c \<Longrightarrow> ry_async c = xs @ C_Return e # ys \<Longrightarrow>
    relay_step E SE c (close_if_last (c\<lparr>ry_async := xs @ ys,
      ry_handler := (ry_handler c)\<lparr>lh_stream_error := e\<rparr>\<rparr>))"
| result_closed: "\<not> ry_panic c \<Longrightarrow> ry_send c = S_Wait i \<Longrightarrow> ry_closed c \<Longrightarrow>
    relay_step E SE c (c\<lparr>ry_send := S_Got i\<rparr>)"
| result: "\<not> ry_panic c \<Longrightarrow> ry_send c = S_Got i \<Longrightarrow> relay_step E SE c (got_result i c)"
| send: "\<not> ry_panic c \<Longrightarrow> ry_send c = S_Have i r \<Longrightarrow> relay_step E SE c (send_result SE i r c)"

inductive_cases relay_stepE: "relay_step E SE c c'"

definition start_relay :: "lambdaGrpcHandler \<Rightarrow> (goerr + bytes) list \<Rightarrow> relay" where
  "start_relay l requests = \<lparr>ry_handler = l, ry_requests = requests, ry_recv = V_Recv,
     ry_send = S_Wait 0, ry_async = [], ry_closed = False,
     ry_sent = \<lparr>sn_headers = [], sn_msgs = []\<rparr>, ry_panic = False\<rparr>"

abbreviation runs_to ::
    "lambda_env \<Rightarrow> http_header stream_env \<Rightarrow> lambdaGrpcHandler \<Rightarrow> (goerr + bytes) list \<Rightarrow> relay \<Rightarrow> bool" where
  "runs_to E SE l requests c \<equiv> (relay_step E SE)\<^sup>*\<^sup>* (start_relay l requests) c"

text \<open>What the proxy's loop sees of the two goroutines, and what the call can return with.\<close>

fun recv_outcome :: "recv_pc \<Rightarrow> goerr option option" where
  "recv_outcome (V_Done e) = Some e"
| "recv_outcome _ = None"

fun send_outcome :: "send_pc \<Rightarrow> goerr option option" where
  "send_outcome (S_Done e) = Some e"
| "send_outcome _ = None"

definition call_can_return :: "relay \<Rightarrow> goerr option \<Rightarrow> bool" where
  "call_can_return c r \<longleftrightarrow> loop_ends (recv_outcome (ry_recv c)) (send_outcome (ry_send c)) r"

lemma recv_outcome_iff [simp]: "recv_outcome v = Some e \<longleftrightarrow> v = V_Done e"
  by (cases v rule: recv_outcome.cases) auto

lemma send_outcome_iff [simp]: "send_outcome s = Some e \<longleftrightarrow> s = S_Done e"
  by (cases s rule: send_outcome.cases) auto

lemma call_can_return_iff:
  "call_can_return c r \<longleftrightarrow> (case r of
      None \<Rightarrow> ry_recv c = V_Done None \<and> ry_send c = S_Done None
    | Some e \<Rightarrow> ry_recv c = V_Done (Some e) \<or> ry_send c = S_Done (Some e))"
  by (simp add: call_can_return_def loop_ends_iff split: option.splits)

text \<open>An invariant of the steps holds in every state of a run.\<close>

lemma runs_to_inv:
  assumes "runs_to E SE l requests c" and "I (start_relay l requests)"
    and "\<And>c c'. I c \<Longrightarrow> relay_step E SE c c' \<Longrightarrow> I c'"
  shows "I c"
  using assms by (induction rule: rtranclp_induct) auto

section \<open>A handler as the gateway makes it\<close>

definition new_handler :: "lambdaGrpcHandler \<Rightarrow> bool" where
  "new_handler l \<longleftrightarrow> lh_result l = [] \<and> lh_result_count l = 0 \<and> \<not> lh_is_last l \<and> lh_timer l = NoTimer \<and>
     lh_stream_error l = None \<and> lh_outgoing l = None \<and> lh_calls l = 0"

lemma HandleGrpc_new:
  assumes "HandleGrpc E src md fullPath param policy l = Some (Ret (h, l'))"
  shows "new_handler h"
  using assms by (auto simp: HandleGrpc_def subscribe_handler_def attachPubSub_def new_handler_def
      return_iff Let_def split: if_splits list.splits)

section \<open>A call without messages\<close>

definition empty_inv :: "goerr \<Rightarrow> relay \<Rightarrow> bool" where
  "empty_inv err c \<longleftrightarrow> ry_send c = S_Wait 0 \<and> ry_async c = [] \<and> \<not> ry_closed c \<and>
     (ry_recv c = V_Recv \<and> (\<exists>xs. ry_requests c = Inl err # xs) \<or> ry_recv c = V_Done (recv_failed err))"

lemma empty_inv_step: "empty_inv err c \<Longrightarrow> relay_step E SE c c' \<Longrightarrow> empty_inv err c'"
  by (erule relay_stepE) (auto simp: empty_inv_def close_if_last_def)

section \<open>A call with one reply\<close>

definition nothing_sent :: "http_header sent" where
  "nothing_sent = \<lparr>sn_headers = [], sn_msgs = []\<rparr>"

text \<open>
  A stream that works: messages are sent, and the header is accepted before the first of them (gRPC
  refuses it afterwards).
\<close>

definition stream_works :: "http_header stream_env \<Rightarrow> bool" where
  "stream_works SE \<longleftrightarrow> (\<forall>md. se_set_header SE nothing_sent md = None) \<and> (\<forall>s p. se_send SE s p = None)"

definition reply_sent :: "lambdaGrpcHandler \<Rightarrow> http_header sent" where
  "reply_sent l = \<lparr>sn_headers = (case lh_outgoing l of None \<Rightarrow> [] | Some m \<Rightarrow> [m]), sn_msgs = [lh_result l]\<rparr>"

text \<open>Before the signal: the handler is still \<open>l\<close>, or \<open>l1\<close> once the body has run.\<close>

definition before_signal ::
    "lambdaGrpcHandler \<Rightarrow> bytes \<Rightarrow> lambdaGrpcHandler \<Rightarrow> goerr option \<Rightarrow> (goerr + bytes) list \<Rightarrow> relay \<Rightarrow> bool" where
  "before_signal l p l1 e xs c \<longleftrightarrow> ry_send c = S_Wait 0 \<and> \<not> ry_closed c \<and> ry_sent c = nothing_sent \<and>
     (ry_handler c = l \<and> ry_recv c = V_Recv \<and> ry_requests c = Inr p # xs \<or>
      ry_handler c = l \<and> ry_recv c = V_Calling (C_Wait p) \<or>
      ry_handler c = l \<and> ry_recv c = V_Calling (C_Body p) \<or>
      ry_handler c = l1 \<and> ry_recv c = V_Calling (C_Signal e))"

definition unary_inv ::
    "http_header stream_env \<Rightarrow> lambdaGrpcHandler \<Rightarrow> bytes \<Rightarrow> lambdaGrpcHandler \<Rightarrow> goerr option \<Rightarrow>
     (goerr + bytes) list \<Rightarrow> relay \<Rightarrow> bool" where
  "unary_inv SE l p l1 e xs c \<longleftrightarrow> \<not> ry_panic c \<and> ry_async c = [] \<and>
     (before_signal l p l1 e xs c \<or>
      (ry_recv c = V_Calling (C_Return e) \<and> \<not> ry_closed c \<or> ry_recv c = after_call SE e \<and> ry_closed c) \<and>
      (ry_send c = S_Got 0 \<and> ry_handler c = l1 \<and> ry_sent c = nothing_sent \<or>
       ry_send c = S_Have 0 (lh_result l1, Some ErrEOF) \<and>
         ry_handler c = l1\<lparr>lh_result_count := Suc (lh_result_count l1)\<rparr> \<and> ry_sent c = nothing_sent \<or>
       ry_send c = S_Done None \<and>
         ry_handler c = l1\<lparr>lh_result_count := Suc (lh_result_count l1)\<rparr> \<and> ry_sent c = reply_sent l1))"

text \<open>The error a call ends with for a \<^verbatim>\<open>Call\<close> that returned an error.\<close>

definition call_error :: "http_header stream_env \<Rightarrow> goerr \<Rightarrow> goerr option" where
  "call_error SE e = (if e = ErrEOF then None else Some (to_status SE e))"

lemma after_call_error: "after_call SE (Some e) = V_Done (call_error SE e)"
  by (simp add: after_call_def call_returned_def call_error_def)

lemma send_reply:
  assumes "stream_works SE"
  shows "send_iter SE 0 (b, Some ErrEOF) md nothing_sent =
    (Stop None, \<lparr>sn_headers = (case md of None \<Rightarrow> [] | Some m \<Rightarrow> [m]), sn_msgs = [b]\<rparr>)"
  using assms by (cases md) (simp_all add: stream_works_def send_iter_def send_msg_def nothing_sent_def)

lemma unary_inv_step:
  assumes "stream_works SE" and "lh_timer l = NoTimer"
    and "call_body E p l = (l1, Some e)" and "lh_is_last l1"
    and "unary_inv SE l p l1 (Some e) xs c" and "relay_step E SE c c'"
  shows "unary_inv SE l p l1 (Some e) xs c'"
  using assms(6,5,1-4)
  by cases (auto simp: unary_inv_def before_signal_def after_call_error close_if_last_def got_result_def
      Result_def send_result_def send_reply reply_sent_def GetOutgoingMetadata_def elim!: wait_ends.cases)

lemma unary_inv_start: "unary_inv SE l p l1 e xs (start_relay l (Inr p # xs))"
  by (simp add: unary_inv_def before_signal_def start_relay_def nothing_sent_def)

lemma unary_progress:
  assumes "unary_inv SE l p l1 (Some e) xs c" and "lh_timer l = NoTimer"
  shows "(\<exists>c'. relay_step E SE c c') \<or>
    ry_recv c = V_Done (call_error SE e) \<and> ry_send c = S_Done None \<and> ry_sent c = reply_sent l1"
proof -
  have "relay_step E SE c (got_result 0 c)" if "ry_send c = S_Got 0" "\<not> ry_panic c"
    using that by (intro result)
  moreover have "relay_step E SE c (send_result SE 0 r c)" if "ry_send c = S_Have 0 r" "\<not> ry_panic c" for r
    using that by (intro send)
  moreover have "\<exists>c'. relay_step E SE c c'"
    if "ry_recv c = V_Calling (C_Wait p)" "\<not> ry_panic c" "ry_handler c = l"
    using call_wait [OF that(2,1), of l] assms(2) that(3) by (blast intro: no_timer)
  moreover have "\<exists>c'. relay_step E SE c c'" if "ry_recv c = V_Calling (C_Body p)" "\<not> ry_panic c"
    using call_body [OF that(2,1)] by (metis surj_pair)
  ultimately show ?thesis
    using assms(1) by (auto simp: unary_inv_def before_signal_def after_call_error intro: relay_step.intros)
qed

text \<open>The number of steps taken, read off the two goroutines.\<close>

fun recv_steps :: "recv_pc \<Rightarrow> nat" where
  "recv_steps V_Recv = 0"
| "recv_steps (V_Calling (C_Wait p)) = 1"
| "recv_steps (V_Calling (C_Body p)) = 2"
| "recv_steps (V_Calling (C_Signal e)) = 3"
| "recv_steps (V_Calling (C_Return e)) = 4"
| "recv_steps (V_Done e) = 5"

fun send_steps :: "send_pc \<Rightarrow> nat" where
  "send_steps (S_Wait i) = 0"
| "send_steps (S_Got i) = 0"
| "send_steps (S_Have i r) = 1"
| "send_steps (S_Done e) = 2"

lemma unary_step_counts:
  assumes "stream_works SE" and "lh_is_last l1"
    and "unary_inv SE l p l1 (Some e) xs c" and "relay_step E SE c c'"
  shows "recv_steps (ry_recv c') + send_steps (ry_send c') = Suc (recv_steps (ry_recv c) + send_steps (ry_send c))"
  using assms(4,3,1,2)
  by cases (auto simp: unary_inv_def before_signal_def after_call_error close_if_last_def got_result_def
      Result_def send_result_def send_reply)

lemma unary_steps:
  assumes "stream_works SE" and "lh_timer l = NoTimer" and "call_body E p l = (l1, Some e)" and "lh_is_last l1"
    and "(relay_step E SE ^^ n) (start_relay l (Inr p # xs)) c"
  shows "unary_inv SE l p l1 (Some e) xs c \<and> n = recv_steps (ry_recv c) + send_steps (ry_send c)"
  using assms(5)
proof (induction n arbitrary: c)
  case 0
  then show ?case using unary_inv_start [of SE l p l1 "Some e" xs] by (auto simp: start_relay_def)
next
  case (Suc n)
  then obtain d where "unary_inv SE l p l1 (Some e) xs d" "n = recv_steps (ry_recv d) + send_steps (ry_send d)"
      "relay_step E SE d c" by auto
  with unary_inv_step [OF assms(1-4)] unary_step_counts [OF assms(1,4)] show ?case by simp
qed

section \<open>A call whose invocation fails\<close>

text \<open>The invocation failed before the handler had a last result: \<open>b\<close> is what it has instead.\<close>

definition failed_inv ::
    "http_header stream_env \<Rightarrow> lambdaGrpcHandler \<Rightarrow> bytes \<Rightarrow> lambdaGrpcHandler \<Rightarrow> goerr \<Rightarrow>
     (goerr + bytes) list \<Rightarrow> relay \<Rightarrow> bool" where
  "failed_inv SE l p l1 e xs c \<longleftrightarrow> \<not> ry_panic c \<and> ry_async c = [] \<and>
     (before_signal l p l1 (Some e) xs c \<or>
      \<not> ry_closed c \<and> (ry_recv c = V_Calling (C_Return (Some e)) \<or> ry_recv c = V_Done (call_error SE e)) \<and>
      (ry_send c = S_Got 0 \<and> ry_handler c = l1 \<and> ry_sent c = nothing_sent \<or>
       ry_send c = S_Have 0 (lh_result l1, None) \<and>
         ry_handler c = l1\<lparr>lh_result_count := Suc (lh_result_count l1)\<rparr> \<and> ry_sent c = nothing_sent \<or>
       ry_send c = S_Wait 1 \<and>
         ry_handler c = l1\<lparr>lh_result_count := Suc (lh_result_count l1)\<rparr> \<and> ry_sent c = reply_sent l1))"

lemma send_partial:
  assumes "no_faults SE"
  shows "send_iter SE 0 (b, None) md nothing_sent =
    (Again, \<lparr>sn_headers = (case md of None \<Rightarrow> [] | Some m \<Rightarrow> [m]), sn_msgs = [b]\<rparr>)"
  using send_iter_ok [OF assms, of None 0 b md nothing_sent] by (simp add: nothing_sent_def)

lemma failed_inv_step:
  assumes "no_faults SE" and "lh_timer l = NoTimer" and "call_body E p l = (l1, Some e)"
    and "\<not> lh_is_last l1" and "lh_timer l1 = NoTimer" and "lh_stream_error l1 = None"
    and "failed_inv SE l p l1 e xs c" and "relay_step E SE c c'"
  shows "failed_inv SE l p l1 e xs c'"
  using assms(8,7,1-6)
  by cases (auto simp: failed_inv_def before_signal_def after_call_error close_if_last_def got_result_def
      Result_def send_result_def send_partial reply_sent_def GetOutgoingMetadata_def elim!: wait_ends.cases)

lemma failed_progress:
  assumes "failed_inv SE l p l1 e xs c" and "lh_timer l = NoTimer"
  shows "(\<exists>c'. relay_step E SE c c') \<or>
    ry_recv c = V_Done (call_error SE e) \<and> ry_send c = S_Wait 1 \<and> ry_sent c = reply_sent l1"
proof -
  have "relay_step E SE c (got_result 0 c)" if "ry_send c = S_Got 0" "\<not> ry_panic c"
    using that by (intro result)
  moreover have "relay_step E SE c (send_result SE 0 r c)" if "ry_send c = S_Have 0 r" "\<not> ry_panic c" for r
    using that by (intro send)
  moreover have "\<exists>c'. relay_step E SE c c'"
    if "ry_recv c = V_Calling (C_Wait p)" "\<not> ry_panic c" "ry_handler c = l"
    using call_wait [OF that(2,1), of l] assms(2) that(3) by (blast intro: no_timer)
  moreover have "\<exists>c'. relay_step E SE c c'" if "ry_recv c = V_Calling (C_Body p)" "\<not> ry_panic c"
    using call_body [OF that(2,1)] by (metis surj_pair)
  ultimately show ?thesis
    using assms(1) by (auto simp: failed_inv_def before_signal_def intro: relay_step.intros)
qed

section \<open>A call that streams\<close>

text \<open>
  The function answers the first invocation with status 102 and a timeout, and a later one with
  an error status: \<open>l1\<close> and \<open>b\<close> are the handler and the body after the first. Once the handler
  holds its last result, no further call is started.
\<close>

definition first_message :: "lambdaGrpcHandler \<Rightarrow> send_pc \<Rightarrow> bytes list \<Rightarrow> bool" where
  "first_message l1 v ms \<longleftrightarrow> v = S_Have 0 (lh_result l1, None) \<and> ms = [] \<or> v = S_Wait 1 \<and> ms = [lh_result l1]"

definition last_message :: "lambdaGrpcHandler \<Rightarrow> bytes \<Rightarrow> send_pc \<Rightarrow> bytes list \<Rightarrow> bool" where
  "last_message l1 b v ms \<longleftrightarrow> (v = S_Got 1 \<or> v = S_Have 1 (b, Some ErrEOF)) \<and> ms = [lh_result l1] \<or>
     v = S_Done None \<and> ms = [lh_result l1, b]"

lemma message_simps [simp]:
  "first_message l1 (S_Wait i) ms \<longleftrightarrow> i = 1 \<and> ms = [lh_result l1]"
  "\<not> first_message l1 (S_Got i) ms"
  "first_message l1 (S_Have i r) ms \<longleftrightarrow> i = 0 \<and> r = (lh_result l1, None) \<and> ms = []"
  "\<not> first_message l1 (S_Done e) ms"
  "\<not> last_message l1 b (S_Wait i) ms"
  "last_message l1 b (S_Got i) ms \<longleftrightarrow> i = 1 \<and> ms = [lh_result l1]"
  "last_message l1 b (S_Have i r) ms \<longleftrightarrow> i = 1 \<and> r = (b, Some ErrEOF) \<and> ms = [lh_result l1]"
  "last_message l1 b (S_Done e) ms \<longleftrightarrow> e = None \<and> ms = [lh_result l1, b]"
  by (auto simp: first_message_def last_message_def)

definition stream_first :: "lambdaGrpcHandler \<Rightarrow> relay \<Rightarrow> bool" where
  "stream_first l1 c \<longleftrightarrow> \<not> ry_panic c \<and> \<not> ry_closed c \<and> ry_send c = S_Got 0 \<and> ry_handler c = l1 \<and> ry_async c = [] \<and>
     sn_msgs (ry_sent c) = []"

definition stream_open :: "bytes \<Rightarrow> lambdaGrpcHandler \<Rightarrow> relay \<Rightarrow> bool" where
  "stream_open p l1 c \<longleftrightarrow> \<not> ry_panic c \<and> \<not> ry_closed c \<and> first_message l1 (ry_send c) (sn_msgs (ry_sent c)) \<and>
     (\<exists>t. ry_handler c = l1\<lparr>lh_result_count := 1, lh_timer := t\<rparr> \<and>
       (t = Armed \<and> ry_async c = [C_Wait p] \<or> ry_async c = [C_Body p]))"

definition stream_last :: "lambdaGrpcHandler \<Rightarrow> goerr \<Rightarrow> bytes \<Rightarrow> relay \<Rightarrow> bool" where
  "stream_last l1 err b c \<longleftrightarrow> lh_is_last (ry_handler c) \<and> lh_result (ry_handler c) = b \<and>
     (ry_async c = [C_Signal (Some err)] \<and> first_message l1 (ry_send c) (sn_msgs (ry_sent c)) \<or>
      (ry_async c = [] \<or> ry_async c = [C_Signal (Some err)] \<or> ry_async c = [C_Return (Some err)]) \<and>
      last_message l1 b (ry_send c) (sn_msgs (ry_sent c)))"

definition stream_inv ::
    "lambdaGrpcHandler \<Rightarrow> bytes \<Rightarrow> lambdaGrpcHandler \<Rightarrow> goerr \<Rightarrow> bytes \<Rightarrow> (goerr + bytes) list \<Rightarrow> relay \<Rightarrow> bool" where
  "stream_inv l p l1 err b xs c \<longleftrightarrow>
     \<not> ry_panic c \<and> ry_async c = [] \<and> before_signal l p l1 (Some ErrEOF) xs c \<or>
     (ry_recv c = V_Calling (C_Return (Some ErrEOF)) \<or> ry_recv c = V_Done None) \<and>
     (stream_first l1 c \<or> stream_open p l1 c \<or> stream_last l1 err b c)"

lemmas stream_defs = stream_inv_def before_signal_def stream_first_def stream_open_def stream_last_def

text \<open>Which stage a step is taken in.\<close>

lemma single_split:
  "[x] = xs @ y # ys \<longleftrightarrow> xs = [] \<and> ys = [] \<and> y = x"
  "xs @ y # ys = [x] \<longleftrightarrow> xs = [] \<and> ys = [] \<and> y = x"
  by (cases xs; auto)+

lemma stream_waiting:
  assumes "stream_inv l p l1 err b xs c" and "ry_async c = ys @ C_Wait q # zs"
  shows "ys = [] \<and> zs = [] \<and> q = p \<and> stream_open p l1 c \<and>
    ry_handler c = l1\<lparr>lh_result_count := 1, lh_timer := Armed\<rparr> \<and>
    (ry_recv c = V_Calling (C_Return (Some ErrEOF)) \<or> ry_recv c = V_Done None)"
proof -
  have "ry_async c \<noteq> []" "\<And>e. ry_async c \<noteq> [C_Signal e]" "\<And>e. ry_async c \<noteq> [C_Return e]"
    using assms(2) by (auto simp: single_split)
  with assms(1) have o: "stream_open p l1 c"
    and r: "ry_recv c = V_Calling (C_Return (Some ErrEOF)) \<or> ry_recv c = V_Done None"
    unfolding stream_inv_def stream_first_def stream_last_def by blast+
  from o assms(2) have "ys = [] \<and> zs = [] \<and> q = p \<and> ry_handler c = l1\<lparr>lh_result_count := 1, lh_timer := Armed\<rparr>"
    unfolding stream_open_def by (elim conjE exE disjE) (simp_all add: single_split)
  with o r show ?thesis by blast
qed

lemma stream_at_body:
  assumes "stream_inv l p l1 err b xs c" and "ry_async c = ys @ C_Body q # zs"
  shows "ys = [] \<and> zs = [] \<and> q = p \<and> stream_open p l1 c \<and>
    (ry_recv c = V_Calling (C_Return (Some ErrEOF)) \<or> ry_recv c = V_Done None)"
proof -
  have "ry_async c \<noteq> []" "\<And>e. ry_async c \<noteq> [C_Signal e]" "\<And>e. ry_async c \<noteq> [C_Return e]"
    using assms(2) by (auto simp: single_split)
  with assms(1) have o: "stream_open p l1 c"
    and r: "ry_recv c = V_Calling (C_Return (Some ErrEOF)) \<or> ry_recv c = V_Done None"
    unfolding stream_inv_def stream_first_def stream_last_def by blast+
  from o assms(2) have "ys = [] \<and> zs = [] \<and> q = p"
    unfolding stream_open_def by (elim conjE exE disjE) (simp_all add: single_split)
  with o r show ?thesis by blast
qed

lemma send_later:
  "no_faults SE \<Longrightarrow> \<exists>s'. send_iter SE i (b, None) md s = (Again, s') \<and> sn_msgs s' = sn_msgs s @ [b]"
  "no_faults SE \<Longrightarrow> \<exists>s'. send_iter SE i (b, Some ErrEOF) md s = (Stop None, s') \<and> sn_msgs s' = sn_msgs s @ [b]"
  using send_iter_ok [of SE None i b md s] send_iter_ok [of SE "Some ErrEOF" i b md s] by auto

lemma stream_ending:
  assumes "stream_inv l p l1 err b xs c" and "ry_async c = ys @ x # zs" and "x = C_Signal e \<or> x = C_Return e"
  shows "stream_last l1 err b c \<and> (ry_recv c = V_Calling (C_Return (Some ErrEOF)) \<or> ry_recv c = V_Done None)"
  using assms unfolding stream_inv_def before_signal_def stream_first_def stream_open_def
  by (auto simp: single_split)

lemma stream_inv_send:
  assumes "no_faults SE" and inv: "stream_inv l p l1 err b xs c" and send: "ry_send c = S_Have i r"
  shows "stream_inv l p l1 err b xs (send_result SE i r c)"
proof -
  from inv send have "i = 0 \<and> r = (lh_result l1, None) \<and> sn_msgs (ry_sent c) = [] \<or>
      i = 1 \<and> r = (b, Some ErrEOF) \<and> sn_msgs (ry_sent c) = [lh_result l1]"
    unfolding stream_defs by auto
  then show ?thesis
  proof
    assume r: "i = 0 \<and> r = (lh_result l1, None) \<and> sn_msgs (ry_sent c) = []"
    obtain s' where "send_result SE i r c = c\<lparr>ry_sent := s', ry_send := S_Wait 1\<rparr>" "sn_msgs s' = [lh_result l1]"
      using send_later(1) [OF assms(1), of 0 "lh_result l1" "GetOutgoingMetadata (ry_handler c)" "ry_sent c"] r
      by (auto simp: send_result_def)
    with send r inv show ?thesis unfolding stream_defs by simp
  next
    assume r: "i = 1 \<and> r = (b, Some ErrEOF) \<and> sn_msgs (ry_sent c) = [lh_result l1]"
    obtain s' where "send_result SE i r c = c\<lparr>ry_sent := s', ry_send := S_Done None\<rparr>" "sn_msgs s' = [lh_result l1, b]"
      using send_later(2) [OF assms(1), of 1 b "GetOutgoingMetadata (ry_handler c)" "ry_sent c"] r
      by (auto simp: send_result_def)
    with send r inv show ?thesis unfolding stream_defs by auto
  qed
qed

lemma stream_inv_result:
  assumes "\<not> lh_is_last l1" "lh_timer l1 = Armed" "lh_stream_error l1 = None" "lh_request l1 = p"
      "lh_result_count l1 = 0"
    and inv: "stream_inv l p l1 err b xs c" and got: "ry_send c = S_Got i"
  shows "stream_inv l p l1 err b xs (got_result i c)"
proof -
  from inv got have st: "i = 0 \<and> stream_first l1 c \<or> i = 1 \<and> stream_last l1 err b c"
    and r: "ry_recv c = V_Calling (C_Return (Some ErrEOF)) \<or> ry_recv c = V_Done None"
    unfolding stream_inv_def before_signal_def stream_first_def stream_open_def stream_last_def by auto
  from st show ?thesis
  proof (elim disjE)
    assume f: "i = 0 \<and> stream_first l1 c"
    have "l1\<lparr>lh_result_count := 1\<rparr> = l1\<lparr>lh_result_count := 1, lh_timer := Armed\<rparr>" using assms(2) by simp
    with f have "stream_open p l1 (got_result i c)"
      using assms(1-5) by (auto simp: stream_first_def stream_open_def got_result_def Result_def)
    with r show ?thesis by (simp add: stream_inv_def got_result_def Result_def Let_def)
  next
    assume "i = 1 \<and> stream_last l1 err b c"
    with got have "stream_last l1 err b (got_result i c)"
      by (auto simp: stream_last_def got_result_def Result_def)
    with r show ?thesis by (auto simp: stream_inv_def got_result_def Result_def Let_def)
  qed
qed

lemma stream_inv_return:
  assumes "\<not> lh_is_last l1" and inv: "stream_inv l p l1 err b xs c" and ret: "ry_recv c = V_Calling (C_Return e)"
  shows "stream_inv l p l1 err b xs (close_if_last (c\<lparr>ry_recv := after_call SE e\<rparr>))"
proof -
  let ?c = "close_if_last (c\<lparr>ry_recv := after_call SE e\<rparr>)"
  from inv ret have e: "e = Some ErrEOF" and st: "stream_first l1 c \<or> stream_open p l1 c \<or> stream_last l1 err b c"
    unfolding stream_inv_def before_signal_def by auto
  from st have "stream_first l1 ?c \<or> stream_open p l1 ?c \<or> stream_last l1 err b ?c"
  proof (elim disjE)
    assume "stream_first l1 c"
    then show ?thesis using assms(1) unfolding stream_first_def close_if_last_def by simp
  next
    assume "stream_open p l1 c"
    then show ?thesis using assms(1) unfolding stream_open_def close_if_last_def by auto
  next
    assume "stream_last l1 err b c"
    then show ?thesis unfolding stream_last_def close_if_last_def by auto
  qed
  moreover have "ry_recv ?c = V_Done None"
    by (simp add: close_if_last_def e after_call_error call_error_def)
  ultimately show ?thesis by (simp add: stream_inv_def)
qed

lemma stream_inv_step:
  assumes "no_faults SE" and "lh_timer l = NoTimer" and first: "call_body E p l = (l1, Some ErrEOF)"
    and h: "\<not> lh_is_last l1" "lh_timer l1 = Armed" "lh_stream_error l1 = None" "lh_request l1 = p"
      "lh_result_count l1 = 0"
    and later: "\<And>t l2 e. call_body E p (l1\<lparr>lh_result_count := 1, lh_timer := t\<rparr>) = (l2, e) \<Longrightarrow>
      lh_is_last l2 \<and> lh_result l2 = b \<and> e = Some err"
    and inv: "stream_inv l p l1 err b xs c" and step: "relay_step E SE c c'"
  shows "stream_inv l p l1 err b xs c'"
  using step
proof cases
  case (send i r)
  then show ?thesis using stream_inv_send [OF assms(1) inv] by simp
next
  case (result i)
  then show ?thesis using stream_inv_result [OF h inv] by simp
next
  case (call_return e)
  then show ?thesis using stream_inv_return [OF h(1) inv] by simp
next
  case (async_body ys p' zs l2 e)
  note at = stream_at_body [OF inv async_body(3)]
  then obtain t where t: "ry_handler c = l1\<lparr>lh_result_count := 1, lh_timer := t\<rparr>"
    unfolding stream_open_def by blast
  with at async_body(4) have "lh_is_last l2 \<and> lh_result l2 = b \<and> e = Some err" by (intro later [of t]) simp
  with at show ?thesis unfolding async_body(1) stream_inv_def stream_open_def stream_last_def by auto
next
  case (async_wait ys p' zs l2)
  note at = stream_waiting [OF inv async_wait(3)]
  with async_wait(4) have "\<exists>t. l2 = l1\<lparr>lh_result_count := 1, lh_timer := t\<rparr>"
    by (auto elim!: wait_ends.cases)
  with at show ?thesis unfolding async_wait(1) stream_inv_def stream_open_def by auto
next
  case (async_return ys e zs)
  note at = stream_ending [OF inv async_return(3), of e]
  with async_return have "stream_last l1 err b c'"
    by (auto simp: stream_last_def close_if_last_def single_split)
  with at show ?thesis by (simp add: stream_inv_def async_return(1) close_if_last_def)
next
  case (async_signal ys e zs i)
  note at = stream_ending [OF inv async_signal(3), of e]
  with async_signal have "stream_last l1 err b c'" by (auto simp: stream_last_def single_split)
  with at show ?thesis by (simp add: stream_inv_def async_signal(1))
next
  case (async_signal_closed ys e zs)
  with stream_ending [OF inv async_signal_closed(3), of e] show ?thesis
    by (simp add: stream_inv_def stream_last_def)
next
  case (result_closed i)
  with inv show ?thesis unfolding stream_defs by auto
qed (use inv first assms(2) in \<open>auto simp: stream_inv_def before_signal_def stream_first_def nothing_sent_def elim!: wait_ends.cases\<close>)

text \<open>When a goroutine of the relay can move.\<close>

lemma relay_can_step:
  assumes "\<not> ry_panic c"
  shows "ry_recv c = V_Calling (C_Wait p) \<Longrightarrow> lh_timer (ry_handler c) = NoTimer \<Longrightarrow> \<exists>c'. relay_step E SE c c'"
    and "ry_recv c = V_Calling (C_Body p) \<Longrightarrow> \<exists>c'. relay_step E SE c c'"
    and "ry_recv c = V_Calling (C_Return e) \<Longrightarrow> \<exists>c'. relay_step E SE c c'"
    and "ry_send c = S_Have i r \<or> ry_send c = S_Got i \<Longrightarrow> \<exists>c'. relay_step E SE c c'"
    and "ry_async c = [C_Wait p] \<Longrightarrow> lh_timer (ry_handler c) = Armed \<Longrightarrow> \<exists>c'. relay_step E SE c c'"
    and "ry_async c = [C_Body p] \<Longrightarrow> \<exists>c'. relay_step E SE c c'"
    and "ry_async c = [C_Signal e] \<Longrightarrow> ry_send c = S_Wait i \<Longrightarrow> \<exists>c'. relay_step E SE c c'"
proof -
  show "\<exists>c'. relay_step E SE c c'" if "ry_recv c = V_Calling (C_Wait p)" "lh_timer (ry_handler c) = NoTimer"
    using call_wait [OF assms that(1)] that(2) by (blast intro: no_timer)
  show "\<exists>c'. relay_step E SE c c'" if "ry_recv c = V_Calling (C_Body p)"
    using call_body [OF assms that] by (metis surj_pair)
  show "\<exists>c'. relay_step E SE c c'" if "ry_recv c = V_Calling (C_Return e)"
    using assms that call_return by blast
  show "\<exists>c'. relay_step E SE c c'" if "ry_send c = S_Have i r \<or> ry_send c = S_Got i"
    using assms that result send by blast
  show "\<exists>c'. relay_step E SE c c'" if "ry_async c = [C_Wait p]" "lh_timer (ry_handler c) = Armed"
    using async_wait [of c "[]" p "[]"] assms that fired by fastforce
  show "\<exists>c'. relay_step E SE c c'" if "ry_async c = [C_Body p]"
    using async_body [of c "[]" p "[]"] assms that by (metis append_Nil surj_pair)
  show "\<exists>c'. relay_step E SE c c'" if "ry_async c = [C_Signal e]" "ry_send c = S_Wait i"
    using async_signal [of c "[]" e "[]" i] async_signal_closed [of c "[]" e "[]"] assms that by (metis append_Nil)
qed

lemma stream_progress:
  assumes "stream_inv l p l1 err b xs c" and "lh_timer l = NoTimer"
  shows "ry_panic c \<or> (\<exists>c'. relay_step E SE c c') \<or> call_can_return c None"
proof (cases "ry_panic c")
  case False
  note can = relay_can_step [OF False]
  from assms(1) consider (first) "before_signal l p l1 (Some ErrEOF) xs c"
    | (return) "ry_recv c = V_Calling (C_Return (Some ErrEOF))"
    | (rest) "ry_recv c = V_Done None" "stream_first l1 c \<or> stream_open p l1 c \<or> stream_last l1 err b c"
    unfolding stream_inv_def by blast
  then show ?thesis
  proof cases
    case first
    with False assms(2) can(1,2) show ?thesis unfolding before_signal_def by (auto intro: relay_step.intros)
  next
    case return
    with can(3) show ?thesis by blast
  next
    case rest
    from rest(2) consider "ry_send c = S_Got 0" | (op) "stream_open p l1 c" | (la) "stream_last l1 err b c"
      unfolding stream_first_def by blast
    then show ?thesis
    proof cases
      case 1
      with can(4) show ?thesis by blast
    next
      case op
      then have "ry_async c = [C_Wait p] \<and> lh_timer (ry_handler c) = Armed \<or> ry_async c = [C_Body p]"
        unfolding stream_open_def by auto
      with can(5,6) show ?thesis by blast
    next
      case la
      then have "(\<exists>e. ry_async c = [C_Signal e]) \<and> ry_send c = S_Wait 1 \<or>
          (\<exists>i r. ry_send c = S_Have i r \<or> ry_send c = S_Got i) \<or> ry_send c = S_Done None"
        unfolding stream_last_def first_message_def last_message_def by blast
      with can(4,7) rest(1) show ?thesis by (auto simp: call_can_return_iff)
    qed
  qed
qed simp

text \<open>What a body leaves alone, and that only a reply for streaming starts the timer.\<close>

lemma call_body_keeps:
  assumes "call_body E p l = (l1, e)"
  shows "lh_result_count l1 = lh_result_count l \<and> lh_stream_error l1 = lh_stream_error l \<and>
    (lh_timer l1 = lh_timer l \<or> lh_timer l1 = Armed \<and> lh_request l1 = p)"
  using assms by (auto simp: call_body_def after_reply_def server_stream_def stream_outcome_def Let_def
      split: sum.splits option.splits if_splits list.splits)

lemma call_body_last:
  assumes "call_body E p l = (l1, e)" and "\<not> lh_is_last l1" and "e \<noteq> Some ErrEOF" and "lh_result_count l = 0"
  shows "lh_timer l1 = lh_timer l"
  using assms by (auto simp: call_body_def after_reply_def server_stream_def stream_outcome_def Let_def
      split: sum.splits option.splits if_splits list.splits)

section \<open>Properties\<close>

text \<open>
  C8. A call whose function answers its first message, with a status other than the one for
  streams, on a stream that takes what is sent: whatever the scheduling, a run has at most seven steps
  and panics nowhere, and it can go on until the call can return. At every moment the call can
  return with nothing but the outcome of \<^verbatim>\<open>Call\<close>. With nil it returns only once exactly the
  function's body was sent, once, with the metadata of the reply; with the status an error code of the
  reply was mapped to, it may return before the body is sent or after it, and nothing else is
  ever sent. A run that cannot go on has sent the reply.
\<close>

theorem one_reply_relayed:
  assumes "stream_works SE" and "new_handler l" and "call_body E p l = (l1, Some e)" and "lh_is_last l1"
    and "(relay_step E SE ^^ n) (start_relay l (Inr p # xs)) c"
  shows "n \<le> 7 \<and> \<not> ry_panic c \<and>
    ((\<exists>c'. relay_step E SE c c') \<or> call_can_return c (call_error SE e) \<and> ry_sent c = reply_sent l1) \<and>
    {(r, ry_sent c) | r. call_can_return c r} \<subseteq> (case call_error SE e of
        None \<Rightarrow> {(None, reply_sent l1)}
      | Some err \<Rightarrow> {(Some err, reply_sent l1), (Some err, nothing_sent)})"
proof -
  have t: "lh_timer l = NoTimer" using assms(2) by (simp add: new_handler_def)
  note inv = unary_steps [OF assms(1) t assms(3-5)]
  have "recv_steps (ry_recv c) \<le> 5" by (cases "ry_recv c" rule: recv_steps.cases) simp_all
  moreover have "send_steps (ry_send c) \<le> 2" by (cases "ry_send c") simp_all
  ultimately have n: "n \<le> 7" using inv by linarith
  have "{(r, ry_sent c) | r. call_can_return c r} \<subseteq> (case call_error SE e of
        None \<Rightarrow> {(None, reply_sent l1)}
      | Some err \<Rightarrow> {(Some err, reply_sent l1), (Some err, nothing_sent)})"
  proof -
    have "x = call_error SE e \<and> (ry_sent c = reply_sent l1 \<or> ry_sent c = nothing_sent)" if "ry_recv c = V_Done x" for x
      using inv that by (auto simp: unary_inv_def before_signal_def after_call_error)
    moreover have "x = None \<and> ry_sent c = reply_sent l1" if "ry_send c = S_Done x" for x
      using inv that by (auto simp: unary_inv_def before_signal_def)
    ultimately show ?thesis by (fastforce simp: call_can_return_iff split: option.splits)
  qed
  moreover have "call_can_return c (call_error SE e)"
    if "ry_recv c = V_Done (call_error SE e)" "ry_send c = S_Done None"
    using that by (simp add: call_can_return_iff split: option.splits)
  moreover have "\<not> ry_panic c" using inv by (simp add: unary_inv_def)
  ultimately show ?thesis using unary_progress [of SE l p l1 e xs c E] inv t n by blast
qed
text \<open>
  A client that ends its stream before its first message is never answered: no run of the
  relay lets the call return, with nil or with an error, and the sending goroutine waits for a
  result forever.
\<close>

theorem call_without_messages_hangs:
  assumes "runs_to E SE l (Inl ErrEOF # xs) c"
  shows "{r. call_can_return c r} = {} \<and> ry_send c = S_Wait 0"
proof -
  have "empty_inv ErrEOF c"
    by (rule runs_to_inv [OF assms _ empty_inv_step]) (simp_all add: empty_inv_def start_relay_def)
  then show ?thesis by (auto simp: empty_inv_def call_can_return_iff recv_failed_def split: option.splits)
qed

text \<open>
  A call whose first invocation fails, or whose reply cannot be read, returns that error in
  every run, but not before or without a message: every run can go on until the message the
  handler happens to hold (an empty one when the invocation failed) was sent to the client, and
  the sending goroutine then waits forever.
\<close>

theorem failed_call_sends_a_message:
  assumes "no_faults SE" and "new_handler l" and "call_body E p l = (l1, Some e)" and "\<not> lh_is_last l1"
    and "e \<noteq> ErrEOF" and "runs_to E SE l (Inr p # xs) c"
  shows "{r. call_can_return c r} \<subseteq> {Some (to_status SE e)} \<and> send_outcome (ry_send c) = None \<and>
    ((\<exists>c'. relay_step E SE c c') \<or>
      call_can_return c (Some (to_status SE e)) \<and> ry_sent c = reply_sent l1 \<and> ry_send c = S_Wait 1)"
proof -
  have t: "lh_timer l = NoTimer" and n: "lh_result_count l = 0" and s: "lh_stream_error l = None"
    using assms(2) by (simp_all add: new_handler_def)
  have t1: "lh_timer l1 = NoTimer" using call_body_last [OF assms(3,4) _ n] assms(5) t by simp
  have s1: "lh_stream_error l1 = None" using call_body_keeps [OF assms(3)] s by simp
  have ce: "call_error SE e = Some (to_status SE e)" using assms(5) by (simp add: call_error_def)
  have inv: "failed_inv SE l p l1 e xs c"
  proof (rule runs_to_inv [OF assms(6)])
    show "failed_inv SE l p l1 e xs (start_relay l (Inr p # xs))"
      by (simp add: failed_inv_def before_signal_def start_relay_def nothing_sent_def)
    show "failed_inv SE l p l1 e xs c'" if "failed_inv SE l p l1 e xs d" "relay_step E SE d c'" for d c'
      by (rule failed_inv_step [OF assms(1) t assms(3,4) t1 s1 that])
  qed
  have "{r. call_can_return c r} \<subseteq> {Some (to_status SE e)} \<and> send_outcome (ry_send c) = None"
    using inv by (auto simp: failed_inv_def before_signal_def call_can_return_iff ce split: option.splits)
  moreover have "call_can_return c (Some (to_status SE e))" if "ry_recv c = V_Done (call_error SE e)"
    using that by (simp add: call_can_return_iff ce)
  ultimately show ?thesis using failed_progress [OF inv t] by blast
qed

text \<open>
  C38. When a function streams (status 102 with a timeout) and then answers the second invocation
  with an error status, the client never learns of the error, if the stream takes what is sent:
  in any run the call can return with nil only, and once it can, the bodies of the two replies were
  sent, as if both were results; and every run, unless the relay panics (\<open>overlapping_calls_panic\<close>),
  can go on until the call can return.
\<close>

theorem stream_error_lost:
  assumes "no_faults SE" and "new_handler l" and "call_body E p l = (l1, Some ErrEOF)"
    and "\<not> lh_is_last l1" and "lh_timer l1 = Armed"
    and later: "\<And>t l2 e. call_body E p (l1\<lparr>lh_result_count := 1, lh_timer := t\<rparr>) = (l2, e) \<Longrightarrow>
      lh_is_last l2 \<and> lh_result l2 = b \<and> e = Some err"
    and "runs_to E SE l (Inr p # xs) c"
  shows "{(r, sn_msgs (ry_sent c)) | r. call_can_return c r} \<subseteq> {(None, [lh_result l1, b])} \<and>
    (ry_panic c \<or> (\<exists>c'. relay_step E SE c c') \<or> call_can_return c None)"
proof -
  have t: "lh_timer l = NoTimer" using assms(2) by (simp add: new_handler_def)
  have k: "lh_stream_error l1 = None" "lh_request l1 = p" "lh_result_count l1 = 0"
    using call_body_keeps [OF assms(3)] assms(2,5) by (auto simp: new_handler_def)
  have inv: "stream_inv l p l1 err b xs c"
  proof (rule runs_to_inv [OF assms(7)])
    show "stream_inv l p l1 err b xs (start_relay l (Inr p # xs))"
      by (simp add: stream_inv_def before_signal_def start_relay_def nothing_sent_def)
    show "stream_inv l p l1 err b xs c'" if "stream_inv l p l1 err b xs d" "relay_step E SE d c'" for d c'
      by (rule stream_inv_step [OF assms(1) t assms(3-5) k later that])
  qed
  then have "ry_recv c \<noteq> V_Done (Some e)" for e unfolding stream_inv_def before_signal_def by auto
  moreover have "e = None \<and> sn_msgs (ry_sent c) = [lh_result l1, b]" if "ry_send c = S_Done e" for e
    using inv that unfolding stream_inv_def before_signal_def stream_first_def stream_open_def stream_last_def
    by (elim disjE conjE exE) simp_all
  ultimately have "{(r, sn_msgs (ry_sent c)) | r. call_can_return c r} \<subseteq> {(None, [lh_result l1, b])}"
    by (auto simp: call_can_return_iff split: option.splits)
  with stream_progress [OF inv t] show ?thesis by blast
qed

text \<open>
  The relay can panic: the deferred function of a call reads whether the last result has
  come after it has signalled, so a call that is overtaken by the next one closes the channel the
  next one is about to send on, and the process ends with a send on a closed channel.
\<close>

theorem overlapping_calls_panic:
  assumes "new_handler l" and "call_body E p l = (l1, Some ErrEOF)"
    and "\<not> lh_is_last l1" and "lh_timer l1 = Armed"
    and "call_body E p (l1\<lparr>lh_result_count := 1, lh_timer := Drained\<rparr>) = (l2, e)" and "lh_is_last l2"
  shows "\<exists>c. runs_to E SE l (Inr p # xs) c \<and> ry_panic c"
proof -
  have k: "lh_timer l = NoTimer" "lh_stream_error l1 = None" "lh_request l1 = p" "lh_result_count l1 = 0"
    using call_body_keeps [OF assms(2)] assms(1,4) by (auto simp: new_handler_def)
  let ?c = "\<lambda>h v s a. (start_relay l xs)\<lparr>ry_handler := h, ry_recv := V_Calling v, ry_send := s, ry_async := a\<rparr>"
  let ?r = "S_Have 0 (lh_result l1, None)" and ?l = "l1\<lparr>lh_result_count := 1\<rparr>"
  let ?last = "(?c l2 (C_Return (Some ErrEOF)) ?r [C_Signal e])\<lparr>ry_recv := after_call SE (Some ErrEOF),
    ry_closed := True, ry_panic := True\<rparr>"
  have "relay_step E SE (start_relay l (Inr p # xs)) (?c l (C_Wait p) (S_Wait 0) [])"
    using recv_msg [of "start_relay l (Inr p # xs)" p xs E SE] by (simp add: start_relay_def)
  moreover have "relay_step E SE (?c l (C_Wait p) (S_Wait 0) []) (?c l (C_Body p) (S_Wait 0) [])"
    using call_wait [of "?c l (C_Wait p) (S_Wait 0) []" p l E SE] k(1)
    by (simp add: start_relay_def no_timer)
  moreover have "relay_step E SE (?c l (C_Body p) (S_Wait 0) []) (?c l1 (C_Signal (Some ErrEOF)) (S_Wait 0) [])"
    using call_body [of "?c l (C_Body p) (S_Wait 0) []" p E l1 "Some ErrEOF" SE] assms(2)
    by (simp add: start_relay_def)
  moreover have "relay_step E SE (?c l1 (C_Signal (Some ErrEOF)) (S_Wait 0) [])
      (?c l1 (C_Return (Some ErrEOF)) (S_Got 0) [])"
    using call_signal [of "?c l1 (C_Signal (Some ErrEOF)) (S_Wait 0) []" "Some ErrEOF" 0 E SE]
    by (simp add: start_relay_def)
  moreover have "relay_step E SE (?c l1 (C_Return (Some ErrEOF)) (S_Got 0) [])
      (?c ?l (C_Return (Some ErrEOF)) ?r [C_Wait p])"
    using result [of "?c l1 (C_Return (Some ErrEOF)) (S_Got 0) []" 0 E SE] k assms(3,4)
    by (simp add: start_relay_def got_result_def Result_def)
  moreover have "relay_step E SE (?c ?l (C_Return (Some ErrEOF)) ?r [C_Wait p])
      (?c (?l\<lparr>lh_timer := Drained\<rparr>) (C_Return (Some ErrEOF)) ?r [C_Body p])"
    using async_wait [of "?c ?l (C_Return (Some ErrEOF)) ?r [C_Wait p]" "[]" p "[]" "?l\<lparr>lh_timer := Drained\<rparr>" E SE]
      fired [of ?l] assms(4)
    by (simp add: start_relay_def)
  moreover have "relay_step E SE (?c (?l\<lparr>lh_timer := Drained\<rparr>) (C_Return (Some ErrEOF)) ?r [C_Body p])
      (?c l2 (C_Return (Some ErrEOF)) ?r [C_Signal e])"
    using async_body [of "?c (?l\<lparr>lh_timer := Drained\<rparr>) (C_Return (Some ErrEOF)) ?r [C_Body p]" "[]" p "[]" E l2 e SE]
      assms(5)
    by (simp add: start_relay_def)
  moreover have "relay_step E SE (?c l2 (C_Return (Some ErrEOF)) ?r [C_Signal e])
      ((?c l2 (C_Return (Some ErrEOF)) ?r [C_Signal e])\<lparr>ry_recv := after_call SE (Some ErrEOF), ry_closed := True\<rparr>)"
    using call_return [of "?c l2 (C_Return (Some ErrEOF)) ?r [C_Signal e]" "Some ErrEOF" E SE] assms(6)
    by (simp add: start_relay_def close_if_last_def)
  moreover have "relay_step E SE
      ((?c l2 (C_Return (Some ErrEOF)) ?r [C_Signal e])\<lparr>ry_recv := after_call SE (Some ErrEOF), ry_closed := True\<rparr>)
      ?last"
    using async_signal_closed [of "(?c l2 (C_Return (Some ErrEOF)) ?r [C_Signal e])\<lparr>ry_recv := after_call SE (Some ErrEOF),
        ry_closed := True\<rparr>" "[]" e "[]" E SE]
    by (simp add: start_relay_def)
  ultimately have "runs_to E SE l (Inr p # xs) ?last"
    by (meson r_into_rtranclp rtranclp.rtrancl_into_rtrancl)
  moreover have "ry_panic ?last" by simp
  ultimately show ?thesis by blast
qed

section \<open>Runs of a small function\<close>

text \<open>It streams its first reply and answers \<^verbatim>\<open>not found\<close> afterwards.\<close>

definition stream_lambda :: lambda_env where
  "stream_lambda = (sample_lambda (sample_reply 200 [] False))\<lparr>
     le_invoke := (\<lambda>n f q p. Inr \<lparr>io_function_error = None, io_payload = (if n = 0 then ''0'' else ''1'')\<rparr>),
     le_unmarshal := (\<lambda>b. Inr (if b = ''0''
       then (sample_reply 102 ''a'' False)\<lparr>ap_multi_headers := [''t'' \<mapsto> [''1s'']]\<rparr>
       else sample_reply 404 ''gone'' False))\<rparr>"

definition sample_sender :: "http_header stream_env" where
  "sample_sender = \<lparr>se_set_header = (\<lambda>s md. None), se_send = (\<lambda>s p. None), se_error = (\<lambda>e. ''e'')\<rparr>"

lemmas lambda_defs = call_body_def after_reply_def server_stream_def stream_outcome_def grpc_api_request_def
  sample_lambda_def sample_reply_def sample_handler_def Let_def

lemma sample_new: "new_handler sample_handler" and sample_no_faults: "no_faults sample_sender"
  and sample_works: "stream_works sample_sender"
  by (simp_all add: new_handler_def sample_handler_def no_faults_def stream_works_def sample_sender_def)

theorem one_reply_relayed_witness:
  "\<exists>l1. call_body (sample_lambda (sample_reply 404 ''hi'' False)) ''m'' sample_handler =
      (l1, Some (ErrStatus NotFound ''hi'')) \<and>
    {r. call_can_return (start_relay sample_handler [Inr ''m'']) r} \<subseteq> {Some (ErrStatus NotFound ''hi'')}"
proof -
  let ?E = "sample_lambda (sample_reply 404 ''hi'' False)"
  have b: "\<exists>l1. call_body ?E ''m'' sample_handler = (l1, Some (ErrStatus NotFound ''hi'')) \<and> lh_is_last l1"
    by (simp add: lambda_defs reply_code_def)
  then obtain l1 where l1: "call_body ?E ''m'' sample_handler = (l1, Some (ErrStatus NotFound ''hi''))"
    "lh_is_last l1" by blast
  have "call_error sample_sender (ErrStatus NotFound ''hi'') = Some (ErrStatus NotFound ''hi'')"
    by (simp add: call_error_def to_status_def is_status_def)
  with one_reply_relayed [OF sample_works sample_new l1, of 0 "[]"] l1 show ?thesis by auto
qed

theorem call_without_messages_hangs_witness:
  "{r. call_can_return (start_relay sample_handler [Inl ErrEOF]) r} = {}"
  using call_without_messages_hangs [of stream_lambda sample_sender sample_handler "[]"] by simp

theorem failed_call_sends_a_message_witness:
  "\<exists>l1. call_body (sample_lambda (sample_reply 200 [] False)) ''m''
      (sample_handler\<lparr>lh_param := \<lparr>lf_function_name = ''down'', lf_qualifier = []\<rparr>\<rparr>) =
        (l1, Some (ErrOther ''unreachable'')) \<and> reply_sent l1 = \<lparr>sn_headers = [], sn_msgs = [ [] ]\<rparr> \<and>
    (\<exists>c'. relay_step (sample_lambda (sample_reply 200 [] False)) sample_sender
      (start_relay (sample_handler\<lparr>lh_param := \<lparr>lf_function_name = ''down'', lf_qualifier = []\<rparr>\<rparr>) [Inr ''m'']) c')"
proof -
  let ?E = "sample_lambda (sample_reply 200 [] False)"
  let ?h = "sample_handler\<lparr>lh_param := \<lparr>lf_function_name = ''down'', lf_qualifier = []\<rparr>\<rparr>"
  have "\<exists>l1. call_body ?E ''m'' ?h = (l1, Some (ErrOther ''unreachable'')) \<and> \<not> lh_is_last l1 \<and>
      reply_sent l1 = \<lparr>sn_headers = [], sn_msgs = [ [] ]\<rparr>"
    by (simp add: lambda_defs reply_sent_def)
  then obtain l1 where l1: "call_body ?E ''m'' ?h = (l1, Some (ErrOther ''unreachable''))" "\<not> lh_is_last l1"
    "reply_sent l1 = \<lparr>sn_headers = [], sn_msgs = [ [] ]\<rparr>" by blast
  have "new_handler ?h" by (simp add: new_handler_def sample_handler_def)
  from failed_call_sends_a_message [OF sample_no_faults this l1(1,2), of "[]" "start_relay ?h [Inr ''m'']"] l1
  show ?thesis by (auto simp: start_relay_def call_can_return_iff)
qed

lemma stream_lambda_first:
  "\<exists>l1. call_body stream_lambda ''m'' sample_handler = (l1, Some ErrEOF) \<and> \<not> lh_is_last l1 \<and>
    lh_timer l1 = Armed \<and>
    (\<forall>t. \<exists>l2. call_body stream_lambda ''m'' (l1\<lparr>lh_result_count := 1, lh_timer := t\<rparr>) =
      (l2, Some (ErrStatus NotFound ''gone'')) \<and> lh_is_last l2 \<and> lh_result l2 = ''gone'') \<and> lh_result l1 = ''a''"
  by (simp add: stream_lambda_def lambda_defs reply_code_def)

theorem stream_error_lost_witness:
  "{(r, sn_msgs (ry_sent (start_relay sample_handler [Inr ''m'']))) | r.
      call_can_return (start_relay sample_handler [Inr ''m'']) r} \<subseteq> {(None, [''a'', ''gone''])} \<and>
    (\<exists>c'. relay_step stream_lambda sample_sender (start_relay sample_handler [Inr ''m'']) c')"
proof -
  obtain l1 where l1: "call_body stream_lambda ''m'' sample_handler = (l1, Some ErrEOF)"
      "\<not> lh_is_last l1" "lh_timer l1 = Armed" and a: "lh_result l1 = ''a''"
    and later: "\<forall>t. \<exists>l2. call_body stream_lambda ''m'' (l1\<lparr>lh_result_count := 1, lh_timer := t\<rparr>) =
      (l2, Some (ErrStatus NotFound ''gone'')) \<and> lh_is_last l2 \<and> lh_result l2 = ''gone''"
    using stream_lambda_first by blast
  have err: "lh_is_last l2 \<and> lh_result l2 = ''gone'' \<and> e = Some (ErrStatus NotFound ''gone'')"
    if "call_body stream_lambda ''m'' (l1\<lparr>lh_result_count := 1, lh_timer := t\<rparr>) = (l2, e)" for t l2 e
    using later that by (metis prod.inject)
  let ?c = "start_relay sample_handler [Inr ''m'']"
  have "{(r, sn_msgs (ry_sent ?c)) | r. call_can_return ?c r} \<subseteq> {(None, [lh_result l1, ''gone''])} \<and>
    (ry_panic ?c \<or> (\<exists>c'. relay_step stream_lambda sample_sender ?c c') \<or> call_can_return ?c None)"
    by (rule stream_error_lost [OF sample_no_faults sample_new l1 err]) (assumption, rule rtranclp.rtrancl_refl)
  then show ?thesis by (simp add: a) (simp add: start_relay_def call_can_return_iff)
qed

theorem overlapping_calls_panic_witness:
  "\<exists>c. runs_to stream_lambda sample_sender sample_handler [Inr ''m''] c \<and> ry_panic c"
proof -
  obtain l1 where l1: "call_body stream_lambda ''m'' sample_handler = (l1, Some ErrEOF)"
      "\<not> lh_is_last l1" "lh_timer l1 = Armed"
    and later: "\<forall>t. \<exists>l2. call_body stream_lambda ''m'' (l1\<lparr>lh_result_count := 1, lh_timer := t\<rparr>) =
      (l2, Some (ErrStatus NotFound ''gone'')) \<and> lh_is_last l2"
    using stream_lambda_first by blast
  from later obtain l2 where "call_body stream_lambda ''m'' (l1\<lparr>lh_result_count := 1, lh_timer := Drained\<rparr>) =
      (l2, Some (ErrStatus NotFound ''gone''))" "lh_is_last l2" by blast
  from overlapping_calls_panic [OF sample_new l1 this] show ?thesis .
qed

end
