(* ===== verification/Specs.thy ===== *)
theory Specs
  imports Messages
begin

text \<open>
  What a list of resources carries for a client that reads their specs with \<open>um\<close>: the messages it
  understands, by resource id, the last one of an id winning. The gateway reads gateway policies,
  the xDS server routing policies.
\<close>

definition note_spec :: "(any_msg option \<Rightarrow> 'p option) \<Rightarrow> resource \<Rightarrow> (string \<rightharpoonup> 'p) \<Rightarrow> string \<rightharpoonup> 'p" where
  "note_spec um x m = (case um (r_spec x) of None \<Rightarrow> m | Some p \<Rightarrow> m(r_id x \<mapsto> p))"

definition policies_of :: "(any_msg option \<Rightarrow> 'p option) \<Rightarrow> resource list \<Rightarrow> string \<rightharpoonup> 'p" where
  "policies_of um xs = fold (note_spec um) xs Map.empty"

lemma note_spec_fold:
  "finite (dom m) \<Longrightarrow> finite (dom (fold (note_spec um) xs m)) \<and>
    ran (fold (note_spec um) xs m) \<subseteq> ran m \<union> {p. \<exists>x \<in> set xs. um (r_spec x) = Some p}"
proof (induction xs arbitrary: m)
  case Nil
  then show ?case by simp
next
  case (Cons x xs)
  show ?case
  proof (cases "um (r_spec x)")
    case None
    then have "note_spec um x m = m" by (simp add: note_spec_def)
    with Cons.IH [OF Cons.prems] show ?thesis by fastforce
  next
    case (Some p)
    then have n: "note_spec um x m = m(r_id x \<mapsto> p)" by (simp add: note_spec_def)
    have "ran (m(r_id x \<mapsto> p)) \<subseteq> insert p (ran m)" by (auto simp: ran_def)
    with Cons.IH [of "m(r_id x \<mapsto> p)"] Cons.prems n Some show ?thesis
      by (fastforce simp del: fun_upd_apply)
  qed
qed

lemma policies_of_ok:
  "finite (dom (policies_of um xs))"
  "ran (policies_of um xs) \<subseteq> {p. \<exists>x \<in> set xs. um (r_spec x) = Some p}"
  using note_spec_fold [of Map.empty um xs] by (simp_all add: policies_of_def)

lemma note_spec_fold_add: "fold (note_spec um) xs m = m ++ policies_of um xs"
proof (induction xs rule: rev_induct)
  case Nil
  then show ?case by (simp add: policies_of_def)
next
  case (snoc x xs)
  then show ?case
    by (cases "um (r_spec x)") (simp_all add: policies_of_def note_spec_def del: fun_upd_apply)
qed

lemma policies_of_append: "policies_of um (xs @ ys) = policies_of um xs ++ policies_of um ys"
  by (simp add: policies_of_def [of um "xs @ ys"] note_spec_fold_add)

lemma policies_of_Nil: "policies_of um [] = Map.empty"
  by (simp add: policies_of_def)

lemma policies_of_single:
  "policies_of um [x] = (case um (r_spec x) of None \<Rightarrow> Map.empty | Some p \<Rightarrow> [r_id x \<mapsto> p])"
  by (simp add: policies_of_def note_spec_def)

lemma policies_of_other: "k \<notin> r_id ` set xs \<Longrightarrow> policies_of um xs k = None"
  by (induction xs rule: rev_induct)
    (auto simp: policies_of_Nil policies_of_append policies_of_single map_add_def split: option.splits)

lemma policies_of_last:
  assumes "r_id x \<notin> r_id ` set ys" and "um (r_spec x) = Some p"
  shows "policies_of um (xs @ x # ys) (r_id x) = Some p"
proof -
  have "policies_of um (xs @ x # ys) = policies_of um xs ++ (policies_of um [x] ++ policies_of um ys)"
    using policies_of_append [of um xs "x # ys"] policies_of_append [of um "[x]" ys] by simp
  with assms show ?thesis by (simp add: policies_of_single policies_of_other map_add_def)
qed

lemma policies_of_distinct:
  assumes "distinct (map r_id xs)" and "x \<in> set xs"
  shows "policies_of um xs (r_id x) = um (r_spec x)"
proof -
  obtain ys zs where xs: "xs = ys @ x # zs" using assms(2) by (auto simp: in_set_conv_decomp)
  with assms(1) have n: "r_id x \<notin> r_id ` set ys" "r_id x \<notin> r_id ` set zs" by auto
  show ?thesis
  proof (cases "um (r_spec x)")
    case None
    have "policies_of um xs = policies_of um ys ++ (policies_of um [x] ++ policies_of um zs)"
      using policies_of_append [of um ys "x # zs"] policies_of_append [of um "[x]" zs] by (simp add: xs)
    with None n show ?thesis by (simp add: policies_of_single policies_of_other map_add_def)
  next
    case (Some p)
    then show ?thesis unfolding xs by (simp add: policies_of_last [where um = um, OF n(2) Some])
  qed
qed

end
