(* ===== verification/Sessions.thy ===== *)
theory Sessions
  imports Synchronizer Specs
begin

text \<open>
  The loops of a response seen from the table a client keeps: what \<^verbatim>\<open>OnUpdated\<close> and
  \<^verbatim>\<open>OnDropped\<close> make of a list of resources when each call makes \<open>g\<close> of the table, and the
  table of a client that takes the updates of a response before its drops.
\<close>

text \<open>\<open>R\<close> is what each call leaves alone, \<open>I\<close> what it keeps, \<open>t\<close> the table.\<close>

lemma note_loop:
  assumes "\<forall>x \<in> set xs. r_version x \<noteq> None \<and> A x" and "I (Handler rss)"
    and R: "reflp R" "transp R"
    and f: "\<And>s x. I s \<Longrightarrow> A x \<Longrightarrow> \<exists>s'. f s x = Done s' \<and> I s' \<and> R s s' \<and> t s' = g x (t s)"
  shows "\<exists>c s'. for_each (note_resource f) xs rss = Done (rss\<lparr>IndexCursor := c, Handler := s'\<rparr>) \<and> I s' \<and>
    R (Handler rss) s' \<and> t s' = fold g xs (t (Handler rss))"
  using assms(1,2)
proof (induction xs arbitrary: rss)
  case Nil
  then show ?case using reflpD [OF R(1)]
    by (intro exI [of _ "IndexCursor rss"] exI [of _ "Handler rss"]) simp
next
  case (Cons x xs)
  then obtain v where v: "r_version x = Some v" "A x" by auto
  from f [OF Cons.prems(2) v(2)] obtain s' where
    s': "f (Handler rss) x = Done s'" "I s'" "R (Handler rss) s'" "t s' = g x (t (Handler rss))" by blast
  let ?c = "if sint (v_index v) > sint (IndexCursor rss) then v_index v else IndexCursor rss"
  let ?r = "rss\<lparr>IndexCursor := ?c, Handler := s'\<rparr>"
  have n: "note_resource f rss x = Done ?r"
    using v(1) s'(1) by (cases rss) (simp add: note_resource_def lift_eff_def Let_def)
  from Cons.IH [of ?r] Cons.prems(1) s'(2) obtain c s2 where
    "for_each (note_resource f) xs ?r = Done (?r\<lparr>IndexCursor := c, Handler := s2\<rparr>)" "I s2" "R s' s2"
    "t s2 = fold g xs (t s')" by auto
  with n s' show ?case using transpD [OF R(2) s'(3)]
    by (intro exI [of _ c] exI [of _ s2]) simp
qed

text \<open>A response up to \<^verbatim>\<open>AfterBatch\<close>: the handler with what the response updates and drops.\<close>

definition batch_filled ::
    "'s event_handler \<Rightarrow> 's synchronizer \<Rightarrow> watch_response \<Rightarrow> 's synchronizer eff" where
  "batch_filled H rss m = and_then (lift_eff rss (eh_before_batch H (Handler rss)))
     (\<lambda>rss. and_then (for_each (note_resource (eh_on_updated H)) (wr_updated m) rss)
     (\<lambda>rss. for_each (note_resource (eh_on_dropped H)) (wr_dropped m) rss))"

lemma handle_response_filled:
  assumes "\<not> wr_end_of_list m" and "batch_filled H rss m = Done r"
  shows "handle_response H rss m = lift_eff r (eh_after_batch H (Handler r))"
proof -
  from assms(2) obtain r0 r1 where "lift_eff rss (eh_before_batch H (Handler rss)) = Done r0"
    "for_each (note_resource (eh_on_updated H)) (wr_updated m) r0 = Done r1"
    "for_each (note_resource (eh_on_dropped H)) (wr_dropped m) r1 = Done r"
    by (auto simp: batch_filled_def and_then_Done_iff)
  with assms(1) show ?thesis by (simp add: handle_response_def)
qed

text \<open>The updates first, then the drops, of whatever kind the dropped resource was.\<close>

definition updates_then_drops ::
    "(any_msg option \<Rightarrow> 'p option) \<Rightarrow> watch_response \<Rightarrow> (string \<rightharpoonup> 'p) \<Rightarrow> string \<rightharpoonup> 'p" where
  "updates_then_drops um m T = (if wr_end_of_list m then T
     else (T ++ policies_of um (wr_updated m)) |` (- r_id ` set (wr_dropped m)))"

lemma fold_drop: "fold (\<lambda>x m. m(r_id x := None)) xs m = m |` (- r_id ` set xs)"
  by (induction xs arbitrary: m) (auto simp: restrict_map_def fun_eq_iff)

lemma updates_then_drops_fold:
  "\<not> wr_end_of_list m \<Longrightarrow> updates_then_drops um m T =
    fold (\<lambda>x m. m(r_id x := None)) (wr_dropped m) (fold (note_spec um) (wr_updated m) T)"
  by (simp add: updates_then_drops_def fold_drop note_spec_fold_add)

end
