(* ===== verification/GatewayProps.thy ===== *)
theory GatewayProps
  imports Gateway Sessions
begin

text \<open>
  The gateway over whole sessions: it meets the contract of an event handler (locale
  \<open>batch_handler\<close>), its active policies are a function of the stream it was given, every call
  it matches is answered by a policy the stream published, and the two places where it does not
  follow the store: a moved route and the updates of a batch without drops.
\<close>

section \<open>The contract of an event handler\<close>

definition orders_ok :: "('t, 'h) range_orders \<Rightarrow> bool" where
  "orders_ok ord \<longleftrightarrow> (\<forall>g u d. gw_updated g = Some u \<longrightarrow> gw_dropped g = Some d \<longrightarrow>
     finite (dom u) \<longrightarrow> finite (dom d) \<longrightarrow>
     enumerates (fst (ord g)) d \<and> enumerates (fst (snd (ord g))) u)"

definition gateway_idle :: "'t radix_ops \<Rightarrow> ('t, 'h) gateway \<Rightarrow> bool" where
  "gateway_idle R g \<longleftrightarrow> (\<exists>ops. gateway_inv R ops g)"

definition gateway_in_batch :: "'t radix_ops \<Rightarrow> ('t, 'h) gateway \<Rightarrow> bool" where
  "gateway_in_batch R g \<longleftrightarrow> gateway_idle R g \<and> (\<exists>u d. gw_updated g = Some u \<and>
     gw_dropped g = Some d \<and> finite (dom u) \<and> finite (dom d) \<and> policies_ok u)"

text \<open>A resource the gateway is safe on: its spec is no policy, or a well-formed one.\<close>

definition gateway_admits :: "('t, 'h) gateway_env \<Rightarrow> resource \<Rightarrow> bool" where
  "gateway_admits E x = (case ge_unmarshal E (r_spec x) of None \<Rightarrow> True | Some p \<Rightarrow> policy_ok p)"

lemma gateway_inv_cong:
  "gateway_inv R ops g \<Longrightarrow> gw_grpc g' = gw_grpc g \<Longrightarrow> gw_http g' = gw_http g \<Longrightarrow>
    gw_active g' = gw_active g \<Longrightarrow> gateway_inv R ops g'"
  by (simp add: gateway_inv_def routing_rel_def)

lemma gateway_idle_cong:
  "gateway_idle R g \<Longrightarrow> gw_grpc g' = gw_grpc g \<Longrightarrow> gw_http g' = gw_http g \<Longrightarrow>
    gw_active g' = gw_active g \<Longrightarrow> gateway_idle R g'"
  unfolding gateway_idle_def using gateway_inv_cong by blast

locale gateway_batches = radix_tree R
  for R :: "'t radix_ops" +
  fixes E :: "('t, 'h) gateway_env" and ord :: "('t, 'h) range_orders"
  assumes radix: "ge_radix E = R" and orders: "orders_ok ord"
begin

lemma after_batch:
  assumes "gateway_inv R ops g" and "gw_updated g = Some u" "policies_ok u" "finite (dom u)"
    and "gw_dropped g = Some d" "finite (dom d)" and "ord g = (ds, us, hs)"
  shows "\<exists>g' updated dropped. AfterBatch E ds us hs g = for_each (dispatch E updated dropped) hs g' \<and>
    gateway_inv R (ops @ batch_ops (gw_active g) ds u us) g' \<and>
    gw_active g' = (gw_active g |` (- dom d)) ++ u \<and> gw_handlers g' = gw_handlers g \<and>
    gw_log g' = gw_log g \<and>
    dropped = map_of_types (List.map_filter (gw_active g) ds) \<and>
    updated = map_of_types (map (\<lambda>k. the (u k)) us)"
proof -
  from orders assms have "enumerates ds d" "enumerates us u"
    unfolding orders_ok_def by (metis fst_conv snd_conv)+
  with assms radix show ?thesis by (intro AfterBatch_loops) simp_all
qed

lemma before_contract:
  "gateway_idle R s \<Longrightarrow> eff_done (gateway_in_batch R) (eh_before_batch (gateway_handler E ord) s)"
  by (auto simp: gateway_handler_def BeforeBatch_def gateway_in_batch_def policies_ok_def
      intro: gateway_idle_cong)

lemma updated_contract:
  "gateway_in_batch R s \<Longrightarrow> gateway_admits E x \<Longrightarrow>
    eff_done (gateway_in_batch R) (eh_on_updated (gateway_handler E ord) s x)"
  by (auto simp: gateway_handler_def OnUpdated_def gateway_in_batch_def gateway_admits_def
      policies_ok_upd split: option.splits intro: gateway_idle_cong)

lemma dropped_contract:
  "gateway_in_batch R s \<Longrightarrow> gateway_admits E x \<Longrightarrow>
    eff_done (gateway_in_batch R) (eh_on_dropped (gateway_handler E ord) s x)"
  by (auto simp: gateway_handler_def OnDropped_def gateway_in_batch_def gateway_admits_def
      split: option.splits intro: gateway_idle_cong)

lemma after_contract:
  assumes "gateway_in_batch R g"
  shows "eff_done (gateway_idle R) (eh_after_batch (gateway_handler E ord) g)"
proof -
  from assms obtain ops u d where i: "gateway_inv R ops g" and u: "gw_updated g = Some u"
      "policies_ok u" "finite (dom u)" and d: "gw_dropped g = Some d" "finite (dom d)"
    by (auto simp: gateway_in_batch_def gateway_idle_def)
  obtain ds us hs where o: "ord g = (ds, us, hs)" by (metis prod_cases3)
  from after_batch [OF i u d o] obtain g' updated dropped where
      a: "AfterBatch E ds us hs g = for_each (dispatch E updated dropped) hs g'"
    and g': "gateway_idle R g'" by (auto simp: gateway_idle_def)
  have "eff_done (gateway_idle R) (for_each (dispatch E updated dropped) hs g')"
    using dispatch_log [of g' E updated dropped hs] g'
    by (cases "for_each (dispatch E updated dropped) hs g'") (auto intro: gateway_idle_cong)
  then show ?thesis by (simp add: gateway_handler_def o a)
qed

lemma end_contract:
  "gateway_idle R s \<Longrightarrow> eff_done (gateway_idle R) (eh_on_end_of_page (gateway_handler E ord) s)"
  by (simp add: gateway_handler_def OnEndOfPage_def)

end

sublocale gateway_batches \<subseteq> bh: batch_handler "gateway_handler E ord" "gateway_idle R"
    "gateway_in_batch R" "gateway_admits E"
  by unfold_locales (simp_all add: before_contract updated_contract dropped_contract
      after_contract end_contract)

text \<open>
  The orders by key are admissible, so the contract holds of the gateway with a concrete radix
  tree and these orders.
\<close>

definition key_orders :: "('t, 'h) range_orders" where
  "key_orders g = (sorted_keys (or_empty (gw_dropped g)), sorted_keys (or_empty (gw_updated g)),
     sorted_keys (gw_handlers g))"

lemma key_orders_ok: "orders_ok key_orders"
  by (simp add: orders_ok_def key_orders_def or_empty_def sorted_keys_enumerates)

text \<open>An environment for the witnesses: any way of unmarshalling, handlers that never fail.\<close>

definition sample_env ::
    "(any_msg option \<Rightarrow> gateway_policy option) \<Rightarrow> ((string \<times> addr) list, string) gateway_env" where
  "sample_env um = \<lparr>ge_radix = alist_radix, ge_unmarshal = um, ge_handler_type = (\<lambda>h. h),
     ge_process = (\<lambda>h u d. None)\<rparr>"

interpretation sample_gateway: gateway_batches alist_radix "sample_env um" key_orders for um
  by unfold_locales (simp_all add: sample_env_def key_orders_ok)

section \<open>A session as a function of the stream\<close>

text \<open>What one response makes of the active policies: drops first, then updates.\<close>

definition active_step ::
    "('t, 'h) gateway_env \<Rightarrow> watch_response \<Rightarrow> (string \<rightharpoonup> gateway_policy) \<Rightarrow> string \<rightharpoonup> gateway_policy"
  where "active_step E m A = (if wr_end_of_list m then A
    else (A |` (- dom (policies_of (ge_unmarshal E) (wr_dropped m)))) ++ policies_of (ge_unmarshal E) (wr_updated m))"

definition published :: "('t, 'h) gateway_env \<Rightarrow> watch_response list \<Rightarrow> gateway_policy set" where
  "published E ms = {p. \<exists>m \<in> set ms. \<exists>x \<in> set (wr_updated m). ge_unmarshal E (r_spec x) = Some p}"

lemma policies_of_admitted:
  assumes "\<forall>x \<in> set xs. gateway_admits E x"
  shows "policies_ok (policies_of (ge_unmarshal E) xs)"
  unfolding policies_ok_def
proof
  fix p assume "p \<in> ran (policies_of (ge_unmarshal E) xs)"
  then obtain x where "x \<in> set xs" "ge_unmarshal E (r_spec x) = Some p"
    using policies_of_ok(2) by fastforce
  with assms show "policy_ok p" by (fastforce simp: gateway_admits_def)
qed

lemma note_updated_loop:
  assumes "gw_updated (Handler rss) = Some u" and "\<forall>x \<in> set xs. r_version x \<noteq> None"
  shows "\<exists>c. for_each (note_resource (OnUpdated E)) xs rss = Done (rss\<lparr>IndexCursor := c,
    Handler := (Handler rss)\<lparr>gw_updated := Some (fold (note_spec (ge_unmarshal E)) xs u)\<rparr>\<rparr>)"
proof -
  let ?R = "\<lambda>s s'. \<exists>m. s' = s\<lparr>gw_updated := m\<rparr>"
  have "?R s s" for s by (rule exI [of _ "gw_updated s"]) simp
  then have refl: "reflp ?R" by (rule reflpI)
  have trans: "transp ?R" by (auto intro!: transpI)
  have f: "\<exists>s'. OnUpdated E s x = Done s' \<and> gw_updated s' \<noteq> None \<and> ?R s s' \<and>
      the (gw_updated s') = note_spec (ge_unmarshal E) x (the (gw_updated s))" if "gw_updated s \<noteq> None" True for s x
    using that by (auto simp: OnUpdated_def note_spec_def intro: exI [of _ "gw_updated s"] split: option.splits)
  from assms(1) have "gw_updated (Handler rss) \<noteq> None" by simp
  from note_loop [where A = "\<lambda>_. True" and R = ?R and I = "\<lambda>s. gw_updated s \<noteq> None" and t = "\<lambda>s. the (gw_updated s)"
      and f = "OnUpdated E" and g = "note_spec (ge_unmarshal E)" and rss = rss and xs = xs, OF _ this refl trans f] assms
  show ?thesis by auto
qed

lemma note_dropped_loop:
  assumes "gw_dropped (Handler rss) = Some d" and "\<forall>x \<in> set xs. r_version x \<noteq> None"
  shows "\<exists>c. for_each (note_resource (OnDropped E)) xs rss = Done (rss\<lparr>IndexCursor := c,
    Handler := (Handler rss)\<lparr>gw_dropped := Some (fold (note_spec (ge_unmarshal E)) xs d)\<rparr>\<rparr>)"
proof -
  let ?R = "\<lambda>s s'. \<exists>m. s' = s\<lparr>gw_dropped := m\<rparr>"
  have "?R s s" for s by (rule exI [of _ "gw_dropped s"]) simp
  then have refl: "reflp ?R" by (rule reflpI)
  have trans: "transp ?R" by (auto intro!: transpI)
  have f: "\<exists>s'. OnDropped E s x = Done s' \<and> gw_dropped s' \<noteq> None \<and> ?R s s' \<and>
      the (gw_dropped s') = note_spec (ge_unmarshal E) x (the (gw_dropped s))" if "gw_dropped s \<noteq> None" True for s x
    using that by (auto simp: OnDropped_def note_spec_def intro: exI [of _ "gw_dropped s"] split: option.splits)
  from assms(1) have "gw_dropped (Handler rss) \<noteq> None" by simp
  from note_loop [where A = "\<lambda>_. True" and R = ?R and I = "\<lambda>s. gw_dropped s \<noteq> None" and t = "\<lambda>s. the (gw_dropped s)"
      and f = "OnDropped E" and g = "note_spec (ge_unmarshal E)" and rss = rss and xs = xs, OF _ this refl trans f] assms
  show ?thesis by auto
qed

definition never_fails :: "('t, 'h) gateway_env \<Rightarrow> bool" where
  "never_fails E \<longleftrightarrow> (\<forall>h u d. ge_process E h u d = None)"

text \<open>The log of one batch: what each handler is called with, in the order of the loop.\<close>

definition batch_log ::
    "'h handlerMatcher \<Rightarrow> HandlerType list \<Rightarrow> gateway_policy list \<Rightarrow> gateway_policy list \<Rightarrow>
     ('h \<times> gateway_policy list \<times> gateway_policy list) list" where
  "batch_log hm hs upd drp = List.map_filter (\<lambda>t. map_option (\<lambda>h.
     (h, if by_type t drp = [] then [] else by_type t upd, by_type t drp)) (hm t)) hs"

lemma dispatch_Done:
  assumes "never_fails E"
  shows "for_each (dispatch E (map_of_types upd) (map_of_types drp)) hs g =
    Done (g\<lparr>gw_log := gw_log g @ batch_log (gw_handlers g) hs upd drp\<rparr>)"
proof (induction hs arbitrary: g)
  case Nil
  then show ?case by (simp add: batch_log_def List.map_filter_simps)
next
  case (Cons t hs)
  show ?case
  proof (cases "gw_handlers g t")
    case None
    then show ?thesis using Cons.IH
      by (simp add: dispatch_def batch_log_def List.map_filter_simps)
  next
    case (Some h)
    then show ?thesis using Cons.IH assms
      by (simp add: dispatch_def batch_log_def List.map_filter_simps map_of_types_def
          never_fails_def)
  qed
qed

text \<open>One response: the batch runs to its end and leaves the invariant.\<close>

text \<open>The gateway before \<^verbatim>\<open>AfterBatch\<close>: its two maps hold what the response carries.\<close>

definition with_batch :: "('t, 'h) gateway_env \<Rightarrow> watch_response \<Rightarrow> ('t, 'h) gateway \<Rightarrow> ('t, 'h) gateway" where
  "with_batch E m g = g\<lparr>gw_updated := Some (policies_of (ge_unmarshal E) (wr_updated m)),
     gw_dropped := Some (policies_of (ge_unmarshal E) (wr_dropped m))\<rparr>"

lemma gateway_batch_filled:
  assumes "\<forall>x \<in> set (wr_updated m @ wr_dropped m). r_version x \<noteq> None"
  shows "\<exists>c. batch_filled (gateway_handler E ord) rss m =
    Done (rss\<lparr>IndexCursor := c, Handler := with_batch E m (Handler rss)\<rparr>)"
proof -
  let ?b = "rss\<lparr>Handler := (Handler rss)\<lparr>gw_updated := Some Map.empty, gw_dropped := Some Map.empty\<rparr>\<rparr>"
  have b: "lift_eff rss (eh_before_batch (gateway_handler E ord) (Handler rss)) = Done ?b"
    by (simp add: gateway_handler_def BeforeBatch_def lift_eff_def)
  obtain c where u: "for_each (note_resource (OnUpdated E)) (wr_updated m) ?b = Done (?b\<lparr>IndexCursor := c,
      Handler := (Handler ?b)\<lparr>gw_updated := Some (policies_of (ge_unmarshal E) (wr_updated m))\<rparr>\<rparr>)"
    using note_updated_loop [of ?b Map.empty "wr_updated m" E] assms by (auto simp: policies_of_def)
  let ?u = "?b\<lparr>IndexCursor := c, Handler := (Handler ?b)\<lparr>gw_updated := Some (policies_of (ge_unmarshal E) (wr_updated m))\<rparr>\<rparr>"
  obtain c' where d: "for_each (note_resource (OnDropped E)) (wr_dropped m) ?u = Done (?u\<lparr>IndexCursor := c',
      Handler := (Handler ?u)\<lparr>gw_dropped := Some (policies_of (ge_unmarshal E) (wr_dropped m))\<rparr>\<rparr>)"
    using note_dropped_loop [of ?u Map.empty "wr_dropped m" E] assms by (auto simp: policies_of_def)
  have up: "eh_on_updated (gateway_handler E ord) = OnUpdated E"
    and dr: "eh_on_dropped (gateway_handler E ord) = OnDropped E"
    by (simp_all add: gateway_handler_def)
  show ?thesis unfolding batch_filled_def b up dr with_batch_def using u d by (intro exI [of _ c']) simp
qed

lemma handle_response_batch:
  assumes e: "\<not> wr_end_of_list m" and v: "\<forall>x \<in> set (wr_updated m @ wr_dropped m). r_version x \<noteq> None"
  shows "\<exists>c. handle_response (gateway_handler E ord) rss m =
    lift_eff (rss\<lparr>IndexCursor := c\<rparr>) (eh_after_batch (gateway_handler E ord)
      ((Handler rss)\<lparr>gw_updated := Some (policies_of (ge_unmarshal E) (wr_updated m)),
        gw_dropped := Some (policies_of (ge_unmarshal E) (wr_dropped m))\<rparr>))"
proof -
  from gateway_batch_filled [OF v] obtain c where "batch_filled (gateway_handler E ord) rss m =
    Done (rss\<lparr>IndexCursor := c, Handler := with_batch E m (Handler rss)\<rparr>)" by blast
  from handle_response_filled [OF e this] show ?thesis
    by (intro exI [of _ c]) (simp add: lift_eff_def with_batch_def split: eff.splits)
qed

text \<open>The route operations of one response.\<close>

definition response_ops ::
    "('t, 'h) gateway_env \<Rightarrow> watch_response \<Rightarrow> (string \<rightharpoonup> gateway_policy) \<Rightarrow> route_op list \<Rightarrow> bool" where
  "response_ops E m A xs \<longleftrightarrow> (if wr_end_of_list m then xs = []
    else \<exists>ds us. enumerates ds (policies_of (ge_unmarshal E) (wr_dropped m)) \<and>
      enumerates us (policies_of (ge_unmarshal E) (wr_updated m)) \<and>
      xs = batch_ops A ds (policies_of (ge_unmarshal E) (wr_updated m)) us)"

lemma response_ops_published:
  assumes "response_ops E m A xs" and "AddPolicy p \<in> set xs"
  shows "p \<in> published E [m]"
proof -
  from assms(1) show ?thesis
  proof (cases "wr_end_of_list m")
    case True
    with assms show ?thesis by (simp add: response_ops_def)
  next
    case False
    with assms(1) obtain ds us where us: "enumerates us (policies_of (ge_unmarshal E) (wr_updated m))"
      and xs: "xs = batch_ops A ds (policies_of (ge_unmarshal E) (wr_updated m)) us"
      by (auto simp: response_ops_def)
    from assms(2) xs obtain k where "k \<in> set us" "p = the (policies_of (ge_unmarshal E) (wr_updated m) k)"
      by (auto simp: batch_ops_def)
    with us have "p \<in> ran (policies_of (ge_unmarshal E) (wr_updated m))"
      by (auto simp: enumerates_def intro: ranI)
    with policies_of_ok(2) show ?thesis by (fastforce simp: published_def)
  qed
qed

text \<open>The route operations of a stream: those of its responses, one after the other.\<close>

fun stream_ops ::
    "('t, 'h) gateway_env \<Rightarrow> watch_response list \<Rightarrow> (string \<rightharpoonup> gateway_policy) \<Rightarrow> route_op list \<Rightarrow> bool" where
  "stream_ops E [] A ops \<longleftrightarrow> ops = []"
| "stream_ops E (m # ms) A ops \<longleftrightarrow> (\<exists>xs ys. ops = xs @ ys \<and> response_ops E m A xs \<and>
     stream_ops E ms (active_step E m A) ys)"

context gateway_batches begin

lemma gateway_session_safe:
  assumes "reachable (gateway_handler E ord) script rss c" and "gateway_idle R (Handler rss)"
    and "\<And>m. RecvMsg m \<in> set script \<Longrightarrow> response_ok (gateway_admits E) m"
  shows "\<forall>p. ss_main c = M_Panic p \<longrightarrow> ss_cancelled c"
  using bh.session_safe [OF assms] by blast

lemma handled_response:
  assumes nf: "never_fails E" and i: "gateway_inv R ops (Handler rss)"
    and m: "response_ok (gateway_admits E) m"
  shows "\<exists>rss' ops'. handle_response (gateway_handler E ord) rss m = Done rss' \<and>
    gateway_inv R (ops @ ops') (Handler rss') \<and>
    gw_active (Handler rss') = active_step E m (gw_active (Handler rss)) \<and>
    gw_handlers (Handler rss') = gw_handlers (Handler rss) \<and>
    response_ops E m (gw_active (Handler rss)) ops'"
proof (cases "wr_end_of_list m")
  case True
  then show ?thesis using i
    by (intro exI [of _ rss] exI [of _ "[]"])
      (simp add: handle_response_def gateway_handler_def OnEndOfPage_def lift_eff_def active_step_def
        response_ops_def)
next
  case False
  let ?u = "policies_of (ge_unmarshal E) (wr_updated m)" and ?d = "policies_of (ge_unmarshal E) (wr_dropped m)"
  let ?g = "(Handler rss)\<lparr>gw_updated := Some ?u, gw_dropped := Some ?d\<rparr>"
  have v: "\<forall>x \<in> set (wr_updated m @ wr_dropped m). r_version x \<noteq> None"
    and ok: "\<forall>x \<in> set (wr_updated m). gateway_admits E x"
    using m by (auto simp: response_ok_def list_all_iff)
  from handle_response_batch [OF False v] obtain c where
    h: "handle_response (gateway_handler E ord) rss m =
      lift_eff (rss\<lparr>IndexCursor := c\<rparr>) (eh_after_batch (gateway_handler E ord) ?g)" by blast
  obtain ds us hs where o: "ord ?g = (ds, us, hs)" by (metis prod_cases3)
  have i': "gateway_inv R ops ?g" using i by (rule gateway_inv_cong) simp_all
  obtain g' updated dropped where
      a: "AfterBatch E ds us hs ?g = for_each (dispatch E updated dropped) hs g'"
    and g': "gateway_inv R (ops @ batch_ops (gw_active (Handler rss)) ds ?u us) g'"
      "gw_active g' = (gw_active (Handler rss) |` (- dom ?d)) ++ ?u"
      "gw_handlers g' = gw_handlers (Handler rss)"
    and log: "dropped = map_of_types (List.map_filter (gw_active ?g) ds)"
      "updated = map_of_types (map (\<lambda>k. the (?u k)) us)"
    using after_batch [OF i' _ policies_of_admitted [OF ok] policies_of_ok(1) _
        policies_of_ok(1) [of "ge_unmarshal E" "wr_dropped m"] o] by auto
  let ?g' = "g'\<lparr>gw_log := gw_log g' @ batch_log (gw_handlers g') hs (map (\<lambda>k. the (?u k)) us)
      (List.map_filter (gw_active ?g) ds)\<rparr>"
  have d: "eh_after_batch (gateway_handler E ord) ?g = Done ?g'"
    using dispatch_Done [OF nf] by (simp add: gateway_handler_def o a log)
  have "enumerates ds ?d \<and> enumerates us ?u"
    using orders o policies_of_ok(1) [of "ge_unmarshal E" "wr_updated m"] policies_of_ok(1) [of "ge_unmarshal E" "wr_dropped m"]
    unfolding orders_ok_def by (elim allE [of _ ?g]) simp
  then have pub: "response_ops E m (gw_active (Handler rss)) (batch_ops (gw_active (Handler rss)) ds ?u us)"
    using False by (auto simp: response_ops_def)
  have inv: "gateway_inv R (ops @ batch_ops (gw_active (Handler rss)) ds ?u us) ?g'"
    using g'(1) by (rule gateway_inv_cong) simp_all
  show ?thesis
    using h d inv pub g' False
    by (intro exI [of _ "rss\<lparr>IndexCursor := c, Handler := ?g'\<rparr>"]
        exI [of _ "batch_ops (gw_active (Handler rss)) ds ?u us"] conjI)
      (simp_all add: lift_eff_def active_step_def)
qed

lemma handled_session:
  assumes "never_fails E" and "gateway_inv R ops (Handler rss)"
    and "list_all (response_ok (gateway_admits E)) ms"
  shows "\<exists>rss' ops'. handle_all (gateway_handler E ord) ms rss = Done rss' \<and>
    gateway_inv R (ops @ ops') (Handler rss') \<and>
    gw_active (Handler rss') = fold (active_step E) ms (gw_active (Handler rss)) \<and>
    gw_handlers (Handler rss') = gw_handlers (Handler rss) \<and>
    stream_ops E ms (gw_active (Handler rss)) ops' \<and>
    (\<forall>p. AddPolicy p \<in> set ops' \<longrightarrow> p \<in> published E ms)"
  using assms
proof (induction ms arbitrary: rss ops)
  case Nil
  then show ?case by (intro exI [of _ rss] exI [of _ "[]"]) (simp add: handle_all_def)
next
  case (Cons m ms)
  from handled_response [OF Cons.prems(1,2), of m] Cons.prems(3) obtain r1 ops1 where
    1: "handle_response (gateway_handler E ord) rss m = Done r1" "gateway_inv R (ops @ ops1) (Handler r1)"
      "gw_active (Handler r1) = active_step E m (gw_active (Handler rss))"
      "gw_handlers (Handler r1) = gw_handlers (Handler rss)"
      "response_ops E m (gw_active (Handler rss)) ops1" by auto
  from Cons.IH [OF Cons.prems(1) 1(2)] Cons.prems(3) obtain r2 ops2 where
    2: "handle_all (gateway_handler E ord) ms r1 = Done r2"
      "gateway_inv R ((ops @ ops1) @ ops2) (Handler r2)"
      "gw_active (Handler r2) = fold (active_step E) ms (gw_active (Handler r1))"
      "gw_handlers (Handler r2) = gw_handlers (Handler r1)"
      "stream_ops E ms (gw_active (Handler r1)) ops2"
      "\<forall>p. AddPolicy p \<in> set ops2 \<longrightarrow> p \<in> published E ms" by auto
  have pub: "p \<in> published E (m # ms)" if "AddPolicy p \<in> set (ops1 @ ops2)" for p
    using that response_ops_published [OF 1(5)] 2(6) by (fastforce simp: published_def)
  have so: "stream_ops E (m # ms) (gw_active (Handler rss)) (ops1 @ ops2)"
    using 1(3,5) 2(5) by auto
  from 1 2 pub so show ?case
    by (intro exI [of _ r2] exI [of _ "ops1 @ ops2"] conjI) (simp_all add: handle_all_def del: stream_ops.simps)
qed

end

lemma Initialize_inv:
  assumes "radix_tree (ge_radix E)"
  shows "gateway_inv (ge_radix E) [] (Initialize E hs)"
  using radix_tree.grpc_rel_new [OF assms] radix_tree.http_rel_new [OF assms]
  by (simp add: gateway_inv_def routing_rel_def Initialize_def routes_of_def policies_ok_def)

section \<open>Answering calls\<close>

definition lambda_of :: "policy_handler \<Rightarrow> lambda_function option" where
  "lambda_of x = (case getHandlerFromOneOf x of Ret (l, _) \<Rightarrow> Some l | Panics _ \<Rightarrow> None)"

text \<open>The call made of a policy: its lambda functions, if a lambda handler is registered.\<close>

definition answer :: "'h handlerMatcher \<Rightarrow> gateway_policy \<Rightarrow> 'h matched_call" where
  "answer hm p = \<lparr>mc_policy = p, mc_handlers = (case hm HandlerTypeAwsLambda of None \<Rightarrow> []
     | Some h \<Rightarrow> List.map_filter (\<lambda>x. map_option (Pair h) (lambda_of x)) (gp_handlers p))\<rparr>"

lemma collect_handlers_ok:
  assumes "list_all handler_ok xs"
  shows "collect_handlers hm xs = Ret (case hm HandlerTypeAwsLambda of None \<Rightarrow> []
     | Some h \<Rightarrow> List.map_filter (\<lambda>x. map_option (Pair h) (lambda_of x)) xs)"
  using assms
proof (induction xs)
  case Nil
  then show ?case by (simp add: List.map_filter_simps split: option.splits)
next
  case (Cons x xs)
  from Cons.prems obtain l where l: "getHandlerFromOneOf x = Ret (l, HandlerTypeAwsLambda)"
    by (auto simp: handler_ok_iff)
  then have "lambda_of x = Some l" by (simp add: lambda_of_def)
  with Cons l show ?case by (cases "hm HandlerTypeAwsLambda") (simp_all add: List.map_filter_simps)
qed

lemma make_call_ok: "policy_ok p \<Longrightarrow> make_call hm p = Ret (Inr (answer hm p))"
  by (simp add: make_call_def policy_ok_def collect_handlers_ok answer_def)

context radix_tree begin

lemma added_ok: "gateway_inv R ops g \<Longrightarrow> AddPolicy p \<in> set ops \<Longrightarrow> policy_ok p"
  by (fastforce simp: gateway_inv_def list_all_iff)

lemma MatchGrpc_inv:
  assumes i: "gateway_inv R ops g" and R: "ge_radix E = R"
  shows "MatchGrpc E g (Some k) = Ret (case grpc_spec (fold grpc_step ops no_routes) k of
      None \<Rightarrow> Inl (ErrStatus Unimplemented (''Unknown method: '' @ k))
    | Some p \<Rightarrow> Inr (answer (gw_handlers g) p))"
proof -
  from i have "matchPolicy R (gw_grpc g) [k] = Ret (grpc_spec (fold grpc_step ops no_routes) k)"
    by (intro grpc_rel_match) (simp add: gateway_inv_def routing_rel_def routes_of_def)
  then show ?thesis
    using grpc_spec_sound [of ops k] added_ok [OF i]
    by (auto simp: MatchGrpc_def R make_call_ok split: option.splits)
qed

lemma MatchHttp_inv:
  assumes i: "gateway_inv R ops g" and R: "ge_radix E = R"
  shows "MatchHttp E g path method =
    Ret (case http_spec (fold http_step ops no_routes) path
        (method_name (fromHttpMethodToProtomeshHttpMethod method)) of
      None \<Rightarrow> Inl ErrNotSupported
    | Some p \<Rightarrow> Inr (answer (gw_handlers g) p))"
proof -
  let ?n = "method_name (fromHttpMethodToProtomeshHttpMethod method)"
  from i have "matchPolicy R (gw_http g) [path, ?n] =
      Ret (http_spec (fold http_step ops no_routes) path ?n)"
    by (intro http_rel_match) (simp add: gateway_inv_def routing_rel_def routes_of_def)
  then show ?thesis
    using http_spec_sound [of ops path ?n] added_ok [OF i]
    by (auto simp: MatchHttp_def R Let_def make_call_ok split: option.splits)
qed

end

section \<open>Properties\<close>

definition start_gateway :: "('t, 'h) gateway_env \<Rightarrow> 'h list \<Rightarrow> ('t, 'h) gateway synchronizer" where
  "start_gateway E hs = \<lparr>IndexCursor = 0, Handler = Initialize E hs\<rparr>"

text \<open>
  C30. A gateway that follows the store never panics, whatever the interleaving of the two
  goroutines and the iteration order of its maps, as long as every policy has AWS Lambda
  handlers only, every resource a version, and the context is not cancelled.
\<close>

theorem gateway_session_never_panics:
  assumes R: "radix_tree (ge_radix E)" and ord: "orders_ok ord"
    and c: "reachable (gateway_handler E ord) script (start_gateway E hs) c"
    and ok: "\<forall>m. RecvMsg m \<in> set script \<longrightarrow> response_ok (gateway_admits E) m"
    and p: "ss_main c = M_Panic msg"
  shows "ss_cancelled c"
proof -
  have g: "gateway_batches (ge_radix E) E ord"
    using R ord by (simp add: gateway_batches_def gateway_batches_axioms_def)
  have "gateway_idle (ge_radix E) (Handler (start_gateway E hs))"
    using Initialize_inv [OF R, of hs] unfolding start_gateway_def gateway_idle_def by auto
  from gateway_batches.gateway_session_safe [OF g c this] ok p show ?thesis by blast
qed

text \<open>
  The active policies after any sequence of responses are a function of the sequence alone:
  each response removes what it drops, then stores what it updates, in every iteration order.
\<close>

theorem gateway_active_follows_stream:
  assumes "radix_tree (ge_radix E)" and "orders_ok ord" and "never_fails E"
    and "list_all (response_ok (gateway_admits E)) ms"
  shows "\<exists>r. handle_all (gateway_handler E ord) ms (start_gateway E hs) = Done r \<and>
    gw_active (Handler r) = fold (active_step E) ms Map.empty"
proof -
  have g: "gateway_batches (ge_radix E) E ord"
    using assms by (simp add: gateway_batches_def gateway_batches_axioms_def)
  show ?thesis
    using gateway_batches.handled_session [OF g assms(3), of "[]" "start_gateway E hs" ms]
      Initialize_inv [OF assms(1), of hs] assms(4)
    by (auto simp: start_gateway_def Initialize_def)
qed

lemma session_answers:
  assumes "radix_tree (ge_radix E)" and "orders_ok ord" and "never_fails E"
    and "list_all (response_ok (gateway_admits E)) ms"
  shows "\<exists>r ops. handle_all (gateway_handler E ord) ms (start_gateway E hs) = Done r \<and>
    gateway_inv (ge_radix E) ops (Handler r) \<and> stream_ops E ms Map.empty ops \<and>
    (\<forall>p. AddPolicy p \<in> set ops \<longrightarrow> p \<in> published E ms) \<and>
    gw_handlers (Handler r) = fromHandlersSlice (ge_handler_type E) hs newHandlerMatcher"
proof -
  have g: "gateway_batches (ge_radix E) E ord"
    using assms by (simp add: gateway_batches_def gateway_batches_axioms_def)
  show ?thesis
    using gateway_batches.handled_session [OF g assms(3), of "[]" "start_gateway E hs" ms]
      Initialize_inv [OF assms(1), of hs] assms(4)
    by (auto simp: start_gateway_def Initialize_def)
qed

text \<open>
  C3. After any session the gateway answers every call as the routing tables of the stream do:
  starting from empty tables, each response in turn removes the routes of the active policies
  it drops and adds the routes of those it updates; a call without a route gets the status
  Unimplemented (gRPC) or not supported (HTTP).
\<close>

theorem gateway_refines_routing_tables:
  assumes "radix_tree (ge_radix E)" and "orders_ok ord" and "never_fails E"
    and "list_all (response_ok (gateway_admits E)) ms"
  shows "\<exists>r ops. handle_all (gateway_handler E ord) ms (start_gateway E hs) = Done r \<and>
    stream_ops E ms Map.empty ops \<and>
    (\<forall>k. MatchGrpc E (Handler r) (Some k) = Ret (case grpc_spec (fold grpc_step ops no_routes) k of
        None \<Rightarrow> Inl (ErrStatus Unimplemented (''Unknown method: '' @ k))
      | Some p \<Rightarrow> Inr (answer (gw_handlers (Handler r)) p))) \<and>
    (\<forall>path method. MatchHttp E (Handler r) path method =
      Ret (case http_spec (fold http_step ops no_routes) path
          (method_name (fromHttpMethodToProtomeshHttpMethod method)) of
        None \<Rightarrow> Inl ErrNotSupported | Some p \<Rightarrow> Inr (answer (gw_handlers (Handler r)) p)))"
proof -
  from session_answers [OF assms] obtain r ops where
    r: "handle_all (gateway_handler E ord) ms (start_gateway E hs) = Done r" "stream_ops E ms Map.empty ops"
    and i: "gateway_inv (ge_radix E) ops (Handler r)" by blast
  with radix_tree.MatchGrpc_inv [OF assms(1) i refl] radix_tree.MatchHttp_inv [OF assms(1) i refl]
  show ?thesis by (intro exI [of _ r] exI [of _ ops]) simp
qed

text \<open>
  After any session an HTTP call is refused or answered by a policy the stream published,
  whose path and method match the request; and since CONNECT and TRACE have no entry in the method table of the
  gateway, a policy for one of them is never the answer.
\<close>

lemma gateway_answers_http_from_stream:
  assumes "radix_tree (ge_radix E)" and "orders_ok ord" and "never_fails E"
    and "list_all (response_ok (gateway_admits E)) ms"
  shows "\<exists>r. handle_all (gateway_handler E ord) ms (start_gateway E hs) = Done r \<and>
    (\<forall>path method. MatchHttp E (Handler r) path method = Ret (Inl ErrNotSupported) \<or>
      (\<exists>p s. MatchHttp E (Handler r) path method = Ret (Inr (answer (gw_handlers (Handler r)) p)) \<and>
        p \<in> published E ms \<and> gp_source p = Some (GatewayPolicy_Http s) \<and>
        (if hs_exact_path_match s then hs_path s = path else prefix (hs_path s) path) \<and>
        hs_method s \<in> {HTTP_METHOD_UNDEFINED, fromHttpMethodToProtomeshHttpMethod method} \<and>
        hs_method s \<notin> {HTTP_METHOD_CONNECT, HTTP_METHOD_TRACE}))"
proof -
  from session_answers [OF assms] obtain r ops where
    r: "handle_all (gateway_handler E ord) ms (start_gateway E hs) = Done r"
    and i: "gateway_inv (ge_radix E) ops (Handler r)"
    and p: "\<forall>p. AddPolicy p \<in> set ops \<longrightarrow> p \<in> published E ms" by blast
  show ?thesis
  proof (intro exI [of _ r] conjI allI r)
    fix path meth
    let ?m = "fromHttpMethodToProtomeshHttpMethod meth"
    have m: "?m \<in> dom HttpMethod_name" "?m \<notin> {HTTP_METHOD_CONNECT, HTTP_METHOD_TRACE}"
      by (simp_all add: fromHttpMethodToProtomeshHttpMethod_def dom_HttpMethod_name http_method_defs)
    show "MatchHttp E (Handler r) path meth = Ret (Inl ErrNotSupported) \<or>
      (\<exists>p s. MatchHttp E (Handler r) path meth = Ret (Inr (answer (gw_handlers (Handler r)) p)) \<and>
        p \<in> published E ms \<and> gp_source p = Some (GatewayPolicy_Http s) \<and>
        (if hs_exact_path_match s then hs_path s = path else prefix (hs_path s) path) \<and>
        hs_method s \<in> {HTTP_METHOD_UNDEFINED, ?m} \<and>
        hs_method s \<notin> {HTTP_METHOD_CONNECT, HTTP_METHOD_TRACE})"
    proof (cases "http_spec (fold http_step ops no_routes) path (method_name ?m)")
      case None
      then show ?thesis using radix_tree.MatchHttp_inv [OF assms(1) i refl, of path meth] by simp
    next
      case (Some q)
      from http_spec_sound [OF this] obtain s where s: "AddPolicy q \<in> set ops"
          "gp_source q = Some (GatewayPolicy_Http s)"
          "if hs_exact_path_match s then hs_path s = path else prefix (hs_path s) path"
          "hs_method s = HTTP_METHOD_UNDEFINED \<or> method_name (hs_method s) = method_name ?m" by blast
      from s(4) method_name_inj [OF m(1), of "hs_method s"]
      have "hs_method s \<in> {HTTP_METHOD_UNDEFINED, ?m}" by auto
      moreover from this m(2) have "hs_method s \<notin> {HTTP_METHOD_CONNECT, HTTP_METHOD_TRACE}"
        by (auto simp: http_method_defs)
      moreover have "MatchHttp E (Handler r) path meth = Ret (Inr (answer (gw_handlers (Handler r)) q))"
        using radix_tree.MatchHttp_inv [OF assms(1) i refl, of path meth] Some by simp
      ultimately show ?thesis using s(1-3) p by blast
    qed
  qed
qed

text \<open>The same for gRPC: a call is refused or answered by a policy published for its method.\<close>

lemma gateway_answers_grpc_from_stream:
  assumes "radix_tree (ge_radix E)" and "orders_ok ord" and "never_fails E"
    and "list_all (response_ok (gateway_admits E)) ms"
  shows "\<exists>r. handle_all (gateway_handler E ord) ms (start_gateway E hs) = Done r \<and>
    (MatchGrpc E (Handler r) (Some k) = Ret (Inl (ErrStatus Unimplemented (''Unknown method: '' @ k))) \<or>
      (\<exists>p s. MatchGrpc E (Handler r) (Some k) = Ret (Inr (answer (gw_handlers (Handler r)) p)) \<and>
        p \<in> published E ms \<and> gp_source p = Some (GatewayPolicy_Grpc s) \<and>
        (if gs_exact_method_name_match s then gs_method_name s = k else prefix (gs_method_name s) k)))"
proof -
  from session_answers [OF assms] obtain r ops where
    r: "handle_all (gateway_handler E ord) ms (start_gateway E hs) = Done r"
    and i: "gateway_inv (ge_radix E) ops (Handler r)"
    and p: "\<forall>p. AddPolicy p \<in> set ops \<longrightarrow> p \<in> published E ms" by blast
  show ?thesis
  proof (cases "grpc_spec (fold grpc_step ops no_routes) k")
    case None
    with r radix_tree.MatchGrpc_inv [OF assms(1) i refl, of k] show ?thesis by simp
  next
    case (Some q)
    then have "MatchGrpc E (Handler r) (Some k) = Ret (Inr (answer (gw_handlers (Handler r)) q))"
      using radix_tree.MatchGrpc_inv [OF assms(1) i refl, of k] by simp
    with grpc_spec_sound [OF Some] p r show ?thesis by blast
  qed
qed

text \<open>
  A batch in which nothing is dropped calls every handler with no policies at all: the second
  guard of the loop resets the updated policies, not the dropped ones, so handlers do not hear
  of updates before something is dropped.
\<close>

theorem updates_withheld_without_drops:
  "eff_inv (\<lambda>g'. \<exists>l. gw_log g' = gw_log g @ l \<and> list_all (\<lambda>x. snd x = ([], [])) l)
    (AfterBatch E [] us hs (g :: ('t, 'h) gateway))"
proof -
  let ?I = "\<lambda>g' :: ('t, 'h) gateway. \<exists>l. gw_log g' = gw_log g @ l \<and> list_all (\<lambda>x. snd x = ([], [])) l"
  have matcher: "on_matcher f p a = Ret b \<Longrightarrow> gw_log b = gw_log a" for f p and a b :: "('t, 'h) gateway"
    by (auto simp: on_matcher_def split: option.splits policy_source.splits val.splits)
  have upd: "eff_inv (\<lambda>s. gw_log (fst s) = gw_log g) (for_each (update_one R u) us (g, Map.empty))" for R u
    by (rule eff_inv_for_each)
      (auto simp: update_one_def note_policy_def split: option.splits val.splits dest!: matcher)
  have disp: "eff_inv ?I (for_each (dispatch E upd Map.empty) hs g1)" if "gw_log g1 = gw_log g" for upd g1
  proof (rule eff_inv_for_each)
    show "?I g1" using that by (intro exI [of _ "[]"]) simp
  next
    fix s :: "('t, 'h) gateway" and t assume "?I s"
    then obtain l where l: "gw_log s = gw_log g @ l" "list_all (\<lambda>x. snd x = ([], [])) l" by blast
    have "?I (s\<lparr>gw_log := gw_log s @ [(h, [], [])]\<rparr>)" for h
      using l by (intro exI [of _ "l @ [(h, [], [])]"]) auto
    with l show "eff_inv ?I (dispatch E upd Map.empty s t)"
      by (auto simp: dispatch_def Let_def split: option.splits)
  qed
  show ?thesis
    using upd [of "ge_radix E" "or_empty (gw_updated g)"] disp
    by (auto simp: AfterBatch_def split: eff.splits intro: exI [of _ "[]"])
qed

lemma response_ops_update:
  assumes "response_ops E m A xs" and "wr_updated m = [x]" "wr_dropped m = []"
    and "wr_end_of_list m = False" and "ge_unmarshal E (r_spec x) = Some p"
  shows "xs = [AddPolicy p]"
proof -
  have u: "policies_of (ge_unmarshal E) (wr_updated m) = [r_id x \<mapsto> p]" "policies_of (ge_unmarshal E) (wr_dropped m) = Map.empty"
    using assms by (simp_all add: policies_of_def note_spec_def)
  from assms(1,4) obtain us where us: "enumerates us [r_id x \<mapsto> p]"
      "xs = map (\<lambda>k. AddPolicy (the ([r_id x \<mapsto> p] k))) us"
    by (auto simp: response_ops_def u batch_ops_def List.map_filter_simps simp del: fun_upd_apply)
  from us(1) have "us = [r_id x]"
    by (cases us; cases "tl us") (auto simp: enumerates_def)
  with us(2) show ?thesis by simp
qed

text \<open>
  C40. A policy whose exact method name changes keeps answering under its old name: an update
  adds the new route and never removes the old one, though only the new policy is active.
\<close>

theorem moved_route_stays:
  assumes "radix_tree (ge_radix E)" and "orders_ok ord" and "never_fails E"
    and x: "r_id x2 = r_id x1" "r_version x1 \<noteq> None" "r_version x2 \<noteq> None"
      "ge_unmarshal E (r_spec x1) = Some p1" "ge_unmarshal E (r_spec x2) = Some p2"
    and p: "policy_ok p1" "gp_source p1 = Some (GatewayPolicy_Grpc s1)" "gs_exact_method_name_match s1"
      "policy_ok p2" "gp_source p2 = Some (GatewayPolicy_Grpc s2)" "gs_exact_method_name_match s2"
    and moved: "gs_method_name s1 \<noteq> gs_method_name s2"
  shows "\<exists>r. handle_all (gateway_handler E ord)
      [\<lparr>wr_updated = [x1], wr_dropped = [], wr_end_of_list = False\<rparr>,
       \<lparr>wr_updated = [x2], wr_dropped = [], wr_end_of_list = False\<rparr>] (start_gateway E hs) = Done r \<and>
    gw_active (Handler r) = [r_id x1 \<mapsto> p2] \<and>
    MatchGrpc E (Handler r) (Some (gs_method_name s1)) = Ret (Inr (answer (gw_handlers (Handler r)) p1))"
proof -
  let ?m1 = "\<lparr>wr_updated = [x1], wr_dropped = [], wr_end_of_list = False\<rparr>"
  let ?m2 = "\<lparr>wr_updated = [x2], wr_dropped = [], wr_end_of_list = False\<rparr>"
  have g: "gateway_batches (ge_radix E) E ord"
    using assms by (simp add: gateway_batches_def gateway_batches_axioms_def)
  have m: "response_ok (gateway_admits E) ?m1" "response_ok (gateway_admits E) ?m2"
    using x p by (auto simp: response_ok_def gateway_admits_def)
  have "gateway_inv (ge_radix E) [] (Handler (start_gateway E hs))"
    using Initialize_inv [OF assms(1)] by (simp add: start_gateway_def)
  from gateway_batches.handled_response [OF g assms(3) this m(1)] obtain r1 ops1 where
    r1: "handle_response (gateway_handler E ord) (start_gateway E hs) ?m1 = Done r1"
      "gateway_inv (ge_radix E) ops1 (Handler r1)"
      "gw_active (Handler r1) = active_step E ?m1 Map.empty"
    and o1: "response_ops E ?m1 Map.empty ops1"
    by (auto simp: start_gateway_def Initialize_def)
  have ops1: "ops1 = [AddPolicy p1]" by (rule response_ops_update [OF o1 _ _ _ x(4)]) simp_all
  from gateway_batches.handled_response [OF g assms(3) r1(2) m(2)] obtain r2 ops2 where
    r2: "handle_response (gateway_handler E ord) r1 ?m2 = Done r2"
      "gateway_inv (ge_radix E) (ops1 @ ops2) (Handler r2)"
      "gw_active (Handler r2) = active_step E ?m2 (gw_active (Handler r1))"
    and o2: "response_ops E ?m2 (gw_active (Handler r1)) ops2" by auto
  have "ops2 = [AddPolicy p2]" by (rule response_ops_update [OF o2 _ _ _ x(5)]) simp_all
  with ops1 p moved have "grpc_spec (fold grpc_step (ops1 @ ops2) no_routes) (gs_method_name s1) = Some p1"
    by (simp add: no_routes_def grpc_spec_def)
  with radix_tree.MatchGrpc_inv [OF assms(1) r2(2) refl, of "gs_method_name s1"]
  have "MatchGrpc E (Handler r2) (Some (gs_method_name s1)) = Ret (Inr (answer (gw_handlers (Handler r2)) p1))"
    by simp
  moreover have "gw_active (Handler r2) = [r_id x1 \<mapsto> p2]"
    using r1(3) r2(3) x by (simp add: active_step_def policies_of_def note_spec_def)
  ultimately show ?thesis using r1(1) r2(1) by (auto simp: handle_all_def)
qed

section \<open>Witnesses\<close>

definition sample_resource :: "string \<Rightarrow> string \<Rightarrow> resource" where
  "sample_resource rid url = \<lparr>r_namespace = ''default'', r_id = rid, r_name = ''policy'',
     r_spec = Some \<lparr>any_type_url = url, any_value = []\<rparr>,
     r_version = Some \<lparr>v_sha256_hash = [], v_timestamp = \<lparr>t_unix = 0, t_nsec = 0\<rparr>, v_index = 1\<rparr>\<rparr>"

definition sample_handlers :: "policy_handler list" where
  "sample_handlers = [\<lparr>ph_handler = Some (GatewayPolicy_Handler_Aws \<lparr>ah_handler =
     Some (AwsHandler_Lambda \<lparr>lf_function_name = ''fn'', lf_qualifier = []\<rparr>)\<rparr>)\<rparr>]"

text \<open>Unmarshalling for the witnesses: a gRPC route named by the type URL, or an HTTP one.\<close>

definition sample_grpc_unmarshal :: "any_msg option \<Rightarrow> gateway_policy option" where
  "sample_grpc_unmarshal a = map_option (\<lambda>x.
     (sample_grpc (any_type_url x) True)\<lparr>gp_handlers := sample_handlers\<rparr>) a"

definition sample_http_unmarshal :: "any_msg option \<Rightarrow> gateway_policy option" where
  "sample_http_unmarshal a = map_option (\<lambda>x.
     (sample_http (any_type_url x) HTTP_METHOD_GET True)\<lparr>gp_handlers := sample_handlers\<rparr>) a"

definition sample_response :: "string \<Rightarrow> watch_response" where
  "sample_response url =
     \<lparr>wr_updated = [sample_resource ''x'' url], wr_dropped = [], wr_end_of_list = False\<rparr>"

lemma sample_env_ok:
  "radix_tree (ge_radix (sample_env um))" "never_fails (sample_env um)"
  by (simp_all add: sample_env_def alist_tree.radix_tree_axioms never_fails_def)

lemmas sample_defs = sample_response_def sample_resource_def sample_env_def sample_handlers_def
  sample_grpc_unmarshal_def sample_http_unmarshal_def sample_grpc_def sample_http_def

lemma sample_response_ok:
  "list_all (response_ok (gateway_admits (sample_env sample_grpc_unmarshal))) [sample_response u]"
  "list_all (response_ok (gateway_admits (sample_env sample_http_unmarshal))) [sample_response u]"
  by (simp_all add: response_ok_def gateway_admits_def sample_defs policy_ok_def handler_ok_def)

theorem gateway_active_follows_stream_witness:
  "\<exists>r. handle_all (gateway_handler (sample_env sample_grpc_unmarshal) key_orders)
      [sample_response ''/a''] (start_gateway (sample_env sample_grpc_unmarshal) [''aws_lambda'']) = Done r \<and>
    gw_active (Handler r) ''x'' = Some ((sample_grpc ''/a'' True)\<lparr>gp_handlers := sample_handlers\<rparr>)"
proof -
  have "fold (active_step (sample_env sample_grpc_unmarshal)) [sample_response ''/a''] Map.empty ''x'' =
      Some ((sample_grpc ''/a'' True)\<lparr>gp_handlers := sample_handlers\<rparr>)"
    by (simp add: active_step_def policies_of_def note_spec_def sample_defs)
  with gateway_active_follows_stream [OF sample_env_ok(1) key_orders_ok sample_env_ok(2)
      sample_response_ok(1), of "''/a''" "[''aws_lambda'']"]
  show ?thesis by (metis (no_types, lifting))
qed

theorem gateway_refines_routing_tables_witness:
  "\<exists>r. handle_all (gateway_handler (sample_env sample_grpc_unmarshal) key_orders)
      [sample_response ''/a''] (start_gateway (sample_env sample_grpc_unmarshal) [''aws_lambda'']) = Done r \<and>
    MatchGrpc (sample_env sample_grpc_unmarshal) (Handler r) (Some ''/a'') =
      Ret (Inr (answer (gw_handlers (Handler r)) ((sample_grpc ''/a'' True)\<lparr>gp_handlers := sample_handlers\<rparr>))) \<and>
    MatchGrpc (sample_env sample_grpc_unmarshal) (Handler r) (Some ''/b'') =
      Ret (Inl (ErrStatus Unimplemented ''Unknown method: /b''))"
proof -
  let ?E = "sample_env sample_grpc_unmarshal"
  let ?p = "(sample_grpc ''/a'' True)\<lparr>gp_handlers := sample_handlers\<rparr>"
  from gateway_refines_routing_tables [OF sample_env_ok(1) key_orders_ok sample_env_ok(2)
      sample_response_ok(1), of "''/a''" "[''aws_lambda'']"]
  obtain r ops where r: "handle_all (gateway_handler ?E key_orders) [sample_response ''/a'']
      (start_gateway ?E [''aws_lambda'']) = Done r" and o: "stream_ops ?E [sample_response ''/a''] Map.empty ops"
    and m: "\<forall>k. MatchGrpc ?E (Handler r) (Some k) = Ret (case grpc_spec (fold grpc_step ops no_routes) k of
        None \<Rightarrow> Inl (ErrStatus Unimplemented (''Unknown method: '' @ k))
      | Some p \<Rightarrow> Inr (answer (gw_handlers (Handler r)) p))" by blast
  from o have "response_ops ?E (sample_response ''/a'') Map.empty ops" by auto
  then have "ops = [AddPolicy ?p]"
    by (rule response_ops_update [where x = "sample_resource ''x'' ''/a''"]) (simp_all add: sample_defs)
  then have "grpc_spec (fold grpc_step ops no_routes) ''/a'' = Some ?p"
    "grpc_spec (fold grpc_step ops no_routes) ''/b'' = None"
    by (simp_all add: sample_grpc_def no_routes_def grpc_spec_def longest_prefix_def find_None_iff)
  with m [THEN spec, of "''/a''"] m [THEN spec, of "''/b''"] r show ?thesis by simp
qed

theorem moved_route_stays_witness:
  "\<exists>r. handle_all (gateway_handler (sample_env sample_grpc_unmarshal) key_orders)
      [sample_response ''/a'', sample_response ''/b'']
      (start_gateway (sample_env sample_grpc_unmarshal) [''aws_lambda'']) = Done r \<and>
    MatchGrpc (sample_env sample_grpc_unmarshal) (Handler r) (Some ''/a'') =
      Ret (Inr (answer (gw_handlers (Handler r)) ((sample_grpc ''/a'' True)\<lparr>gp_handlers := sample_handlers\<rparr>)))"
  using moved_route_stays [OF sample_env_ok(1) key_orders_ok sample_env_ok(2),
      of "sample_resource ''x'' ''/b''" "sample_resource ''x'' ''/a''" sample_grpc_unmarshal
        "(sample_grpc ''/a'' True)\<lparr>gp_handlers := sample_handlers\<rparr>"
        "(sample_grpc ''/b'' True)\<lparr>gp_handlers := sample_handlers\<rparr>"
        "\<lparr>gs_method_name = ''/a'', gs_exact_method_name_match = True\<rparr>"
        "\<lparr>gs_method_name = ''/b'', gs_exact_method_name_match = True\<rparr>" "[''aws_lambda'']"]
  by (auto simp: sample_response_def) (auto simp: sample_defs policy_ok_def handler_ok_def)

text \<open>The context is cancelled in a session that panics by the closed channel.\<close>

theorem gateway_session_never_panics_witness:
  "\<exists>c. reachable (gateway_handler (sample_env sample_grpc_unmarshal) key_orders) []
      (start_gateway (sample_env sample_grpc_unmarshal) []) c \<and>
    ss_main c = M_Panic ''nil pointer dereference'' \<and> ss_cancelled c"
proof -
  let ?E = "sample_env sample_grpc_unmarshal"
  obtain c where c: "reachable (gateway_handler ?E key_orders) [] (start_gateway ?E []) c"
      "ss_main c = M_Panic ''nil pointer dereference''"
    using closed_channel_panic by blast
  from gateway_session_never_panics [OF sample_env_ok(1) key_orders_ok c(1) _ c(2)] c
  show ?thesis by auto
qed

end
