(* ===== verification/GrpcCalls.thy ===== *)
theory GrpcCalls
  imports LambdaRelay GatewayProps
begin

text \<open>
  A gRPC call from its route to its reply: \<^verbatim>\<open>MatchGrpc\<close> with the handler objects it makes
  (\<^verbatim>\<open>gateway.go\<close>, \<^verbatim>\<open>lambda_gateway_handler.go\<close>), and the loop of \<^verbatim>\<open>grpc_proxy.go\<close> that
  proxies the call through one handler after the other, each as it runs in \<open>LambdaRelay\<close>.
\<close>

section \<open>The handlers of a call, one after the other\<close>

text \<open>
  The handler objects of a matched call, made in order; \<open>l\<close> is the gateway handler, whose
  random source and subscriptions they go through.
\<close>

fun make_grpc_handlers ::
    "lambda_env \<Rightarrow> (nat \<Rightarrow> int64) \<Rightarrow> http_header option \<Rightarrow> string \<Rightarrow> gateway_policy \<Rightarrow> ('h \<times> lambda_function) list \<Rightarrow>
     'f LambdaGatewayHandler \<Rightarrow> (lambdaGrpcHandler list \<times> 'f LambdaGatewayHandler) run_val" where
  "make_grpc_handlers E src md fullPath policy [] l = Some (Ret ([], l))"
| "make_grpc_handlers E src md fullPath policy ((_, param) # hs) l =
     run_then_val (HandleGrpc E src md fullPath param policy l) (\<lambda>(h, l).
     run_then_val (make_grpc_handlers E src md fullPath policy hs l) (\<lambda>(hs, l). Some (Ret (h # hs, l))))"

text \<open>
  \<open>relays E SE hs requests sent e sent'\<close>: with the messages \<open>requests\<close> still to be received and
  \<open>sent\<close> sent, the handlers \<open>hs\<close> can end the call with \<open>e\<close> and have \<open>sent'\<close> sent by then. The next
  handler has the same stream, its goroutines start when both of the one before have ended.
\<close>

definition relay_from :: "lambdaGrpcHandler \<Rightarrow> (goerr + bytes) list \<Rightarrow> http_header sent \<Rightarrow> relay" where
  "relay_from h requests s = (start_relay h requests)\<lparr>ry_sent := s\<rparr>"

inductive relays ::
    "lambda_env \<Rightarrow> http_header stream_env \<Rightarrow> lambdaGrpcHandler list \<Rightarrow> (goerr + bytes) list \<Rightarrow> http_header sent \<Rightarrow>
     goerr option \<Rightarrow> http_header sent \<Rightarrow> bool" for E SE where
  all_done: "relays E SE [] requests s None s"
| next_handler: "relays E SE (h # hs) requests s e s'"
    if "(relay_step E SE)\<^sup>*\<^sup>* (relay_from h requests s) c" "\<not> ry_panic c" "call_can_return c None"
       "relays E SE hs (ry_requests c) (ry_sent c) e s'"
| handler_failed: "relays E SE (h # hs) requests s (Some e) (ry_sent c)"
    if "(relay_step E SE)\<^sup>*\<^sup>* (relay_from h requests s) c" "\<not> ry_panic c" "call_can_return c (Some e)"

inductive_simps relays_Nil: "relays E SE [] requests s e s'"
inductive_simps relays_Cons: "relays E SE (h # hs) requests s e s'"

lemma relay_from_nothing: "relay_from h requests nothing_sent = start_relay h requests"
  by (simp add: relay_from_def start_relay_def nothing_sent_def)

lemma make_grpc_handlers_new:
  "make_grpc_handlers E src md k policy hs l = Some (Ret (ls, l')) \<Longrightarrow>
    length ls = length hs \<and> list_all new_handler ls"
proof (induction hs arbitrary: l ls)
  case Nil
  then show ?case by simp
next
  case (Cons x hs)
  then obtain h l1 ls1 where "HandleGrpc E src md k (snd x) policy l = Some (Ret (h, l1))"
      "make_grpc_handlers E src md k policy hs l1 = Some (Ret (ls1, l'))" "ls = h # ls1"
    by (cases x) (auto simp: return_iff)
  with Cons.IH HandleGrpc_new show ?case by auto
qed

section \<open>One handler that answers\<close>

text \<open>What is left to receive after the first message was taken.\<close>

definition requests_inv :: "bytes \<Rightarrow> (goerr + bytes) list \<Rightarrow> relay \<Rightarrow> bool" where
  "requests_inv p xs c \<longleftrightarrow> (if ry_recv c = V_Recv then ry_requests c = Inr p # xs else ry_requests c = xs)"

lemma unary_requests:
  assumes "stream_works SE" and "lh_timer l = NoTimer" and "call_body E p l = (l1, Some e)" and "lh_is_last l1"
    and "runs_to E SE l (Inr p # xs) c"
  shows "unary_inv SE l p l1 (Some e) xs c \<and> requests_inv p xs c"
proof (rule runs_to_inv [OF assms(5)])
  show "unary_inv SE l p l1 (Some e) xs (start_relay l (Inr p # xs)) \<and> requests_inv p xs (start_relay l (Inr p # xs))"
    using unary_inv_start by (simp add: requests_inv_def start_relay_def)
next
  fix c c' assume i: "unary_inv SE l p l1 (Some e) xs c \<and> requests_inv p xs c" and s: "relay_step E SE c c'"
  from s i have "requests_inv p xs c'"
    by cases (auto simp: requests_inv_def unary_inv_def after_call_error close_if_last_def got_result_def
        before_signal_def send_result_def Let_def split: prod.splits iter.splits if_splits)
  with unary_inv_step [OF assms(1-4)] i s show "unary_inv SE l p l1 (Some e) xs c' \<and> requests_inv p xs c'" by blast
qed

text \<open>The run in which the receiving goroutine is done first.\<close>

lemma reply_run:
  assumes "stream_works SE" and "new_handler l" and "call_body E p l = (l1, Some e)" and "lh_is_last l1"
  shows "\<exists>c. runs_to E SE l (Inr p # xs) c \<and> \<not> ry_panic c \<and> ry_recv c = V_Done (call_error SE e) \<and>
      ry_send c = S_Got 0 \<and> ry_sent c = nothing_sent \<and> ry_requests c = xs" (is ?early)
    and "\<exists>c. runs_to E SE l (Inr p # xs) c \<and> \<not> ry_panic c \<and> ry_recv c = V_Done (call_error SE e) \<and>
      ry_send c = S_Done None \<and> ry_sent c = reply_sent l1 \<and> ry_requests c = xs" (is ?late)
proof -
  let ?s = "start_relay l (Inr p # xs)"
  let ?c = "\<lambda>h v s. (start_relay l xs)\<lparr>ry_handler := h, ry_recv := v, ry_send := s\<rparr>"
  let ?c5 = "(?c l1 (V_Done (call_error SE e)) (S_Got 0))\<lparr>ry_closed := True\<rparr>"
  let ?l2 = "l1\<lparr>lh_result_count := Suc (lh_result_count l1)\<rparr>"
  let ?c6 = "(?c ?l2 (V_Done (call_error SE e)) (S_Have 0 (lh_result l1, Some ErrEOF)))\<lparr>ry_closed := True\<rparr>"
  let ?c7 = "(?c ?l2 (V_Done (call_error SE e)) (S_Done None))\<lparr>ry_closed := True, ry_sent := reply_sent l1\<rparr>"
  have t: "lh_timer l = NoTimer" using assms(2) by (simp add: new_handler_def)
  have 1: "relay_step E SE ?s (?c l (V_Calling (C_Wait p)) (S_Wait 0))"
    using recv_msg [of ?s p xs E SE] by (simp add: start_relay_def)
  have 2: "relay_step E SE (?c l (V_Calling (C_Wait p)) (S_Wait 0)) (?c l (V_Calling (C_Body p)) (S_Wait 0))"
    using call_wait [of "?c l (V_Calling (C_Wait p)) (S_Wait 0)" p l E SE] no_timer [OF t] by (simp add: start_relay_def)
  have 3: "relay_step E SE (?c l (V_Calling (C_Body p)) (S_Wait 0)) (?c l1 (V_Calling (C_Signal (Some e))) (S_Wait 0))"
    using call_body [of "?c l (V_Calling (C_Body p)) (S_Wait 0)" p E l1 "Some e" SE] assms(3)
    by (simp add: start_relay_def)
  have 4: "relay_step E SE (?c l1 (V_Calling (C_Signal (Some e))) (S_Wait 0)) (?c l1 (V_Calling (C_Return (Some e))) (S_Got 0))"
    using call_signal [of "?c l1 (V_Calling (C_Signal (Some e))) (S_Wait 0)" "Some e" 0 E SE]
    by (simp add: start_relay_def)
  have 5: "relay_step E SE (?c l1 (V_Calling (C_Return (Some e))) (S_Got 0)) ?c5"
    using call_return [of "?c l1 (V_Calling (C_Return (Some e))) (S_Got 0)" "Some e" E SE] assms(4)
    by (simp add: start_relay_def close_if_last_def after_call_error)
  have 6: "relay_step E SE ?c5 ?c6"
    using result [of ?c5 0 E SE] assms(4) by (simp add: start_relay_def got_result_def Result_def)
  have "nothing_sent = ry_sent ?c6" by (simp add: start_relay_def nothing_sent_def)
  then have 7: "relay_step E SE ?c6 ?c7"
    using send [of ?c6 0 "(lh_result l1, Some ErrEOF)" E SE] send_reply [OF assms(1), of "lh_result l1"]
    by (simp add: start_relay_def send_result_def GetOutgoingMetadata_def reply_sent_def)
  note to5 = converse_rtranclp_into_rtranclp [OF 1 converse_rtranclp_into_rtranclp [OF 2
    converse_rtranclp_into_rtranclp [OF 3 converse_rtranclp_into_rtranclp [OF 4 r_into_rtranclp [of "relay_step E SE", OF 5]]]]]
  show ?early by (intro exI [of _ ?c5]) (use to5 in \<open>simp add: start_relay_def nothing_sent_def\<close>)
  show ?late
    by (intro exI [of _ ?c7])
      (use rtranclp.rtrancl_into_rtrancl [OF rtranclp.rtrancl_into_rtrancl [OF to5 6] 7] in \<open>simp add: start_relay_def\<close>)
qed

text \<open>Every end of a call with one handler that answers its first message.\<close>

lemma one_handler_ends:
  assumes "stream_works SE" and "new_handler l" and "call_body E p l = (l1, Some e)" and "lh_is_last l1"
  shows "relays E SE [l] (Inr p # xs) nothing_sent res s \<longleftrightarrow>
    res = call_error SE e \<and> (s = reply_sent l1 \<or> res \<noteq> None \<and> s = nothing_sent)"
proof -
  have t: "lh_timer l = NoTimer" using assms(2) by (simp add: new_handler_def)
  have sound: "r = call_error SE e \<and> (ry_sent c = reply_sent l1 \<or> r \<noteq> None \<and> ry_sent c = nothing_sent)"
    if "runs_to E SE l (Inr p # xs) c" "call_can_return c r" for c r
    using unary_requests [OF assms(1) t assms(3,4) that(1)] that(2)
    by (auto simp: call_can_return_iff unary_inv_def before_signal_def after_call_error split: option.splits)
  note runs = reply_run [OF assms, of xs]
  have ends: "relays E SE [l] (Inr p # xs) nothing_sent (call_error SE e) (ry_sent c)"
    if "runs_to E SE l (Inr p # xs) c" "\<not> ry_panic c" "call_can_return c (call_error SE e)" for c
    using that relays.all_done [of E SE "ry_requests c" "ry_sent c"]
    by (cases "call_error SE e") (auto simp: relay_from_nothing intro: relays.intros)
  have "relays E SE [l] (Inr p # xs) nothing_sent (call_error SE e) (reply_sent l1)"
    using runs(2) ends by (force simp: call_can_return_iff split: option.splits)
  moreover have "relays E SE [l] (Inr p # xs) nothing_sent (call_error SE e) nothing_sent" if "call_error SE e \<noteq> None"
    using runs(1) ends that by (force simp: call_can_return_iff split: option.splits)
  moreover have "\<exists>c. runs_to E SE l (Inr p # xs) c \<and> call_can_return c res \<and> s = ry_sent c"
    if "relays E SE [l] (Inr p # xs) nothing_sent res s"
    using that unfolding relays_Cons relays_Nil relay_from_nothing by blast
  ultimately show ?thesis using sound by blast
qed

section \<open>A second handler\<close>

text \<open>A handler that is given no message keeps the call from returning.\<close>

lemma no_message_no_return:
  assumes "(relay_step E SE)\<^sup>*\<^sup>* (relay_from l (Inl ErrEOF # xs) s) c"
  shows "\<not> call_can_return c r"
proof -
  have "empty_inv ErrEOF c"
    using assms by (induction rule: rtranclp_induct)
      (simp add: empty_inv_def relay_from_def start_relay_def, rule empty_inv_step)
  then show ?thesis by (auto simp: empty_inv_def call_can_return_iff recv_failed_def split: option.splits)
qed

section \<open>Properties\<close>

text \<open>
  C9. From the route to the reply: after any session, a call to a method that is matched to one
  Lambda function, which answers the first message, is a call of a policy the stream published
  for the method. Under every interleaving it can only end with the outcome of the function: with
  nil and then exactly the function's body sent under its metadata, or with the status its code is
  mapped to, and then the body may or may not have been sent before. Each of these ends is
  possible.
\<close>

theorem grpc_client_gets_function_reply:
  assumes "radix_tree (ge_radix G)" and "orders_ok ord" and "never_fails G"
    and "list_all (response_ok (gateway_admits G)) ms"
    and "handle_all (gateway_handler G ord) ms (start_gateway G hs) = Done r"
    and "MatchGrpc G (Handler r) (Some k) = Ret (Inr c)" and "mc_handlers c = [(h, param)]"
    and "make_grpc_handlers E src md k (mc_policy c) (mc_handlers c) l = Some (Ret ([lh], l'))"
    and "call_body E p lh = (l1, Some e)" and "lh_is_last l1" and "stream_works SE"
  shows "mc_policy c \<in> published G ms \<and>
    (\<exists>s. gp_source (mc_policy c) = Some (GatewayPolicy_Grpc s) \<and>
      (if gs_exact_method_name_match s then gs_method_name s = k else prefix (gs_method_name s) k)) \<and>
    {(res, s). relays E SE [lh] (Inr p # xs) nothing_sent res s} =
      (case call_error SE e of
         None \<Rightarrow> {(None, reply_sent l1)}
       | Some err \<Rightarrow> {Some err} \<times> {nothing_sent, reply_sent l1})"
proof -
  from gateway_answers_grpc_from_stream [OF assms(1-4), of hs k] assms(5,6) obtain q s where
    "c = answer (gw_handlers (Handler r)) q" "q \<in> published G ms" "gp_source q = Some (GatewayPolicy_Grpc s)"
    "if gs_exact_method_name_match s then gs_method_name s = k else prefix (gs_method_name s) k" by auto
  moreover from this have "mc_policy c = q" by (simp add: answer_def)
  moreover have "new_handler lh" using make_grpc_handlers_new [OF assms(8)] by simp
  from one_handler_ends [OF assms(11) this assms(9,10)]
  have "{(res, s). relays E SE [lh] (Inr p # xs) nothing_sent res s} =
      (case call_error SE e of None \<Rightarrow> {(None, reply_sent l1)} | Some err \<Rightarrow> {Some err} \<times> {nothing_sent, reply_sent l1})"
    by (auto split: option.splits)
  ultimately show ?thesis by (intro conjI exI [of _ s]; simp only:)
qed

text \<open>
  C39. A policy with two Lambda functions hangs every unary call whose first function succeeds: the
  first handler takes the client's only message, the second finds the end of the stream, invokes
  nothing and waits for a result, so the call can never return, with nil or with an error.
\<close>

theorem second_handler_hangs_unary_call:
  assumes "stream_works SE" and "make_grpc_handlers E src md k policy ((h, f) # (h', f') # hs) l = Some (Ret (lh # lhs, l'))"
    and "call_body E p lh = (l1, Some ErrEOF)" and "lh_is_last l1"
  shows "{(res, s). relays E SE (lh # lhs) (Inr p # Inl ErrEOF # xs) nothing_sent res s} = {}"
proof -
  from make_grpc_handlers_new [OF assms(2)] obtain lh' ls where
    n: "new_handler lh" "lhs = lh' # ls" by (cases lhs) auto
  then have t: "lh_timer lh = NoTimer" by (simp add: new_handler_def)
  have c: "call_error SE ErrEOF = None" by (simp add: call_error_def)
  have "ry_requests c = Inl ErrEOF # xs \<and> r = None"
    if "runs_to E SE lh (Inr p # Inl ErrEOF # xs) c" "call_can_return c r" for c r
    using unary_requests [OF assms(1) t assms(3,4) that(1)] that(2) c
    by (auto simp: call_can_return_iff unary_inv_def before_signal_def after_call_error requests_inv_def split: option.splits)
  then show ?thesis
    using no_message_no_return unfolding n(2) relays_Cons relay_from_nothing by fastforce
qed

section \<open>Witnesses\<close>

text \<open>The policy of \<open>sample_response\<close> for the method \<^verbatim>\<open>/s/m\<close>, and a call of it with a nonce.\<close>

abbreviation sample_call_policy :: gateway_policy where
  "sample_call_policy \<equiv> (sample_grpc ''/s/m'' True)\<lparr>gp_handlers := sample_handlers\<rparr>"

abbreviation sample_function :: lambda_function where
  "sample_function \<equiv> \<lparr>lf_function_name = ''fn'', lf_qualifier = []\<rparr>"

definition sample_metadata :: http_header where
  "sample_metadata = [''n'' \<mapsto> [''1'']]"

lemma sample_grpc_session:
  "\<exists>r. handle_all (gateway_handler (sample_env sample_grpc_unmarshal) key_orders)
      [sample_response ''/s/m''] (start_gateway (sample_env sample_grpc_unmarshal) [HandlerTypeAwsLambda]) = Done r \<and>
    MatchGrpc (sample_env sample_grpc_unmarshal) (Handler r) (Some ''/s/m'') =
      Ret (Inr \<lparr>mc_policy = sample_call_policy, mc_handlers = [(HandlerTypeAwsLambda, sample_function)]\<rparr>)"
proof -
  let ?E = "sample_env sample_grpc_unmarshal"
  from session_answers [OF sample_env_ok(1) key_orders_ok sample_env_ok(2) sample_response_ok(1), of "''/s/m''" "[HandlerTypeAwsLambda]"]
  obtain r ops where r: "handle_all (gateway_handler ?E key_orders) [sample_response ''/s/m'']
      (start_gateway ?E [HandlerTypeAwsLambda]) = Done r" "gateway_inv (ge_radix ?E) ops (Handler r)"
      "stream_ops ?E [sample_response ''/s/m''] Map.empty ops"
      "gw_handlers (Handler r) = fromHandlersSlice (ge_handler_type ?E) [HandlerTypeAwsLambda] newHandlerMatcher" by blast
  from r(3) have "response_ops ?E (sample_response ''/s/m'') Map.empty ops" by auto
  then have "ops = [AddPolicy sample_call_policy]"
    by (rule response_ops_update [where x = "sample_resource ''x'' ''/s/m''"]) (simp_all add: sample_defs)
  then have "grpc_spec (fold grpc_step ops no_routes) ''/s/m'' = Some sample_call_policy"
    by (simp add: sample_grpc_def no_routes_def grpc_spec_def)
  with radix_tree.MatchGrpc_inv [OF sample_env_ok(1) r(2) refl, of "''/s/m''"]
  have "MatchGrpc ?E (Handler r) (Some ''/s/m'') = Ret (Inr (answer (gw_handlers (Handler r)) sample_call_policy))"
    by simp
  moreover have "answer (gw_handlers (Handler r)) sample_call_policy =
      \<lparr>mc_policy = sample_call_policy, mc_handlers = [(HandlerTypeAwsLambda, sample_function)]\<rparr>"
    by (simp add: answer_def r(4) newHandlerMatcher_def sample_env_def sample_handlers_def lambda_of_def
        fromHandlersSlice_def getHandlerFromOneOf_def List.map_filter_simps)
  ultimately show ?thesis using r(1) by auto
qed

definition sample_call_handler :: lambdaGrpcHandler where
  "sample_call_handler = sample_handler\<lparr>lh_param := sample_function, lh_incoming := sample_metadata\<rparr>"

lemma sample_handlers_made:
  "make_grpc_handlers (sample_lambda (sample_reply c b False)) src (Some sample_metadata) ''/s/m''
      sample_call_policy (replicate n (h, sample_function)) sample_gateway_handler =
    Some (Ret (replicate n sample_call_handler, sample_gateway_handler))"
  by (induction n) (auto simp: HandleGrpc_def with_nounce_def subscribe_handler_def signal_header_def
      sample_metadata_def sample_lambda_def sample_gateway_handler_def header_values_def StringVal_def sample_grpc_def
      sample_call_handler_def sample_handler_def)

theorem grpc_client_gets_function_reply_witness:
  "\<exists>r l1. handle_all (gateway_handler (sample_env sample_grpc_unmarshal) key_orders)
      [sample_response ''/s/m''] (start_gateway (sample_env sample_grpc_unmarshal) [HandlerTypeAwsLambda]) = Done r \<and>
    call_body (sample_lambda (sample_reply 404 ''gone'' False)) ''m'' sample_call_handler =
      (l1, Some (ErrStatus NotFound ''gone'')) \<and>
    {(res, s). relays (sample_lambda (sample_reply 404 ''gone'' False)) sample_sender [sample_call_handler] [Inr ''m'']
        nothing_sent res s} = {Some (ErrStatus NotFound ''gone'')} \<times> {nothing_sent, reply_sent l1}"
proof -
  let ?E = "sample_lambda (sample_reply 404 ''gone'' False)"
  from sample_grpc_session obtain r where
    r: "handle_all (gateway_handler (sample_env sample_grpc_unmarshal) key_orders) [sample_response ''/s/m'']
        (start_gateway (sample_env sample_grpc_unmarshal) [HandlerTypeAwsLambda]) = Done r"
      "MatchGrpc (sample_env sample_grpc_unmarshal) (Handler r) (Some ''/s/m'') =
        Ret (Inr \<lparr>mc_policy = sample_call_policy, mc_handlers = [(HandlerTypeAwsLambda, sample_function)]\<rparr>)" by blast
  have "\<exists>l1. call_body ?E ''m'' sample_call_handler = (l1, Some (ErrStatus NotFound ''gone'')) \<and> lh_is_last l1"
    by (simp add: lambda_defs reply_code_def sample_call_handler_def)
  then obtain l1 where l1: "call_body ?E ''m'' sample_call_handler = (l1, Some (ErrStatus NotFound ''gone''))"
    "lh_is_last l1" by blast
  have e: "call_error sample_sender (ErrStatus NotFound ''gone'') = Some (ErrStatus NotFound ''gone'')"
    by (simp add: call_error_def to_status_def is_status_def)
  have "make_grpc_handlers ?E (\<lambda>n. 0) (Some sample_metadata) ''/s/m'' sample_call_policy
      [(HandlerTypeAwsLambda, sample_function)] sample_gateway_handler = Some (Ret ([sample_call_handler], sample_gateway_handler))"
    using sample_handlers_made [of 404 "''gone''" "\<lambda>n. 0" 1 HandlerTypeAwsLambda] by simp
  with grpc_client_gets_function_reply [OF sample_env_ok(1) key_orders_ok sample_env_ok(2) sample_response_ok(1) r,
      of HandlerTypeAwsLambda sample_function ?E "\<lambda>n. 0" "Some sample_metadata" sample_gateway_handler
        sample_call_handler sample_gateway_handler "''m''" l1 "ErrStatus NotFound ''gone''" sample_sender "[]"]
    l1 e sample_works r(1)
  show ?thesis by auto
qed

theorem second_handler_hangs_unary_call_witness:
  "{(res, s). relays (sample_lambda (sample_reply 200 ''hi'' False)) sample_sender
     [sample_call_handler, sample_call_handler] [Inr ''m'', Inl ErrEOF] nothing_sent res s} = {}"
proof -
  let ?E = "sample_lambda (sample_reply 200 ''hi'' False)"
  have "\<exists>l1. call_body ?E ''m'' sample_call_handler = (l1, Some ErrEOF) \<and> lh_is_last l1"
    by (simp add: lambda_defs reply_code_def sample_call_handler_def)
  then obtain l1 where l1: "call_body ?E ''m'' sample_call_handler = (l1, Some ErrEOF)" "lh_is_last l1" by blast
  have "make_grpc_handlers ?E (\<lambda>n. 0) (Some sample_metadata) ''/s/m'' sample_call_policy
      [((), sample_function), ((), sample_function)] sample_gateway_handler =
        Some (Ret ([sample_call_handler, sample_call_handler], sample_gateway_handler))"
    using sample_handlers_made [of 200 "''hi''" "\<lambda>n. 0" 2 "()"] by (simp add: numeral_2_eq_2)
  from second_handler_hangs_unary_call [OF sample_works this l1] show ?thesis .
qed

end
