(* ===== verification/GatewayRequests.thy ===== *)
theory GatewayRequests
  imports GatewayProps
begin

text \<open>
  Calls that are matched while the synchronizer's goroutine handles a batch. A call takes the read
  lock of a source matcher, each step of the two loops of \<^verbatim>\<open>AfterBatch\<close> its write lock, so a call
  sees the gateway between two steps of the loops.
\<close>

section \<open>What calls see during a batch\<close>

inductive seen_during ::
    "('t, 'h) gateway_env \<Rightarrow> ('t, 'h) range_orders \<Rightarrow> ('t, 'h) gateway synchronizer \<Rightarrow> watch_response \<Rightarrow>
     ('t, 'h) gateway \<Rightarrow> bool" for E ord rss m where
  dropping: "seen_during E ord rss m g"
    if "batch_filled (gateway_handler E ord) rss m = Done r" "ord (Handler r) = (ds @ ds', us, hs)"
      "for_each (drop_one (ge_radix E)) ds (Handler r, Map.empty) = Done (g, dropped)"
| updating: "seen_during E ord rss m g"
    if "batch_filled (gateway_handler E ord) rss m = Done r" "ord (Handler r) = (ds, us @ us', hs)"
      "for_each (drop_one (ge_radix E)) ds (Handler r, Map.empty) = Done (g0, dropped)"
      "for_each (update_one (ge_radix E) (or_empty (gw_updated g0))) us (g0, Map.empty) = Done (g, updated)"

text \<open>The policies a batch adds or drops, and whether a policy's route covers a call.\<close>

definition touched ::
    "('t, 'h) gateway_env \<Rightarrow> ('t, 'h) gateway \<Rightarrow> watch_response \<Rightarrow> gateway_policy set" where
  "touched E g m = published E [m] \<union> {p. \<exists>x \<in> set (wr_dropped m). gw_active g (r_id x) = Some p}"

definition covers_method :: "gateway_policy \<Rightarrow> string \<Rightarrow> bool" where
  "covers_method p k = (case gp_source p of
      Some (GatewayPolicy_Grpc s) \<Rightarrow> (if gs_exact_method_name_match s then gs_method_name s = k else prefix (gs_method_name s) k)
    | _ \<Rightarrow> False)"

definition covers_path :: "gateway_policy \<Rightarrow> string \<Rightarrow> bool" where
  "covers_path p path = (case gp_source p of
      Some (GatewayPolicy_Http s) \<Rightarrow> (if hs_exact_path_match s then hs_path s = path else prefix (hs_path s) path)
    | _ \<Rightarrow> False)"

definition exact_on :: "gateway_policy \<Rightarrow> string \<Rightarrow> bool" where
  "exact_on p k \<longleftrightarrow> (\<exists>s. gp_source p = Some (GatewayPolicy_Grpc s) \<and> gs_exact_method_name_match s \<and> gs_method_name s = k)"

section \<open>Operations on other routes\<close>

lemma longest_prefix_cong:
  assumes "\<And>p. prefix p k \<Longrightarrow> f p = g p"
  shows "longest_prefix f k = longest_prefix g k"
proof -
  have "find (\<lambda>p. f p \<noteq> None) (rev (prefixes k)) = find (\<lambda>p. g p \<noteq> None) (rev (prefixes k))"
    using assms by (intro find_cong) auto
  moreover have "Option.bind (find (\<lambda>p. g p \<noteq> None) (rev (prefixes k))) f =
      Option.bind (find (\<lambda>p. g p \<noteq> None) (rev (prefixes k))) g"
    using find_SomeD [of "\<lambda>p. g p \<noteq> None" "rev (prefixes k)"] assms
    by (cases "find (\<lambda>p. g p \<noteq> None) (rev (prefixes k))") auto
  ultimately show ?thesis by (simp add: longest_prefix_def)
qed

lemma pick_upd_other:
  "\<not> (if ex then q = k else prefix q k) \<Longrightarrow> pick ex (T(q := v)) k = pick ex T k"
  by (cases ex) (auto simp: pick_def intro!: longest_prefix_cong)

lemma grpc_step_other:
  assumes "\<not> covers_method (op_policy x) k"
  shows "grpc_spec (grpc_step x T) k = grpc_spec T k"
proof -
  obtain X P where T: "T = (X, P)" by force
  show ?thesis
    using assms pick_upd_other [of True _ k X] pick_upd_other [of False _ k P]
    by (auto simp: T grpc_spec_def covers_method_def pick_def Let_def split: option.splits policy_source.splits)
qed

lemma http_step_other:
  assumes "\<not> covers_path (op_policy x) path"
  shows "http_spec (http_step x T) path name = http_spec T path name"
proof -
  obtain X P where T: "T = (X, P)" by force
  have put: "pick ex (http_put t s p) path = pick ex t path" and del: "pick ex (http_del t s) path = pick ex t path"
    if "\<not> (if ex then hs_path s = path else prefix (hs_path s) path)" for ex t s p
    using pick_upd_other [OF that] by (auto simp: http_put_def http_del_def Let_def split: option.splits prod.splits)
  show ?thesis
    using assms put [of True] put [of False] del [of True] del [of False]
    by (cases x) (auto simp: T http_spec_def http_lookup_def covers_path_def split: option.splits policy_source.splits)
qed

lemma other_routes_kept:
  "list_all (\<lambda>x. \<not> covers_method (op_policy x) k) xs \<Longrightarrow> grpc_spec (fold grpc_step xs T) k = grpc_spec T k"
  "list_all (\<lambda>x. \<not> covers_path (op_policy x) path) xs \<Longrightarrow> http_spec (fold http_step xs U) path name = http_spec U path name"
  by (induction xs arbitrary: T U) (simp_all add: grpc_step_other http_step_other)

text \<open>A route that was dropped, and that no policy with a prefix covers.\<close>

lemma drops_exact:
  "\<exists>p \<in> set ps. exact_on p k \<Longrightarrow> fst (fold grpc_step (map DropPolicy ps) T) k = None"
proof (induction ps rule: rev_induct)
  case (snoc p ps)
  obtain X P where T: "fold grpc_step (map DropPolicy ps) T = (X, P)" by force
  have keep: "fst (grpc_step (DropPolicy p) (X, P)) k = None" if "X k = None"
    using that by (auto simp: Let_def split: option.splits policy_source.splits)
  show ?case
  proof (cases "exact_on p k")
    case True
    then show ?thesis by (auto simp: T exact_on_def)
  next
    case False
    with snoc T keep show ?thesis by simp
  qed
qed simp

lemma dropped_route_gone:
  assumes "\<exists>p \<in> set ps. exact_on p k"
    and "\<And>q. AddPolicy q \<in> set ops \<Longrightarrow> covers_method q k \<Longrightarrow> exact_on q k"
  shows "grpc_spec (fold grpc_step (ops @ map DropPolicy ps) no_routes) k = None"
proof -
  let ?xs = "ops @ map DropPolicy ps"
  let ?T = "fold grpc_step ?xs no_routes"
  have ok: "grpc_tab_ok (set ?xs) False (snd ?T)"
    using grpc_tab_ok_fold [of "set ?xs" no_routes ?xs] by (simp add: no_routes_def grpc_tab_ok_def)
  have none: "snd ?T q = None" if q: "prefix q k" for q
  proof (rule ccontr)
    assume "snd ?T q \<noteq> None"
    then obtain p where p: "snd ?T q = Some p" by blast
    with ok obtain s where s: "AddPolicy p \<in> set ?xs" "gp_source p = Some (GatewayPolicy_Grpc s)"
      "gs_method_name s = q" "\<not> gs_exact_method_name_match s" unfolding grpc_tab_ok_def by blast
    then have "covers_method p k" using q by (simp add: covers_method_def)
    moreover have "AddPolicy p \<in> set ops" using s(1) by auto
    ultimately have "exact_on p k" by (intro assms(2))
    with s show False by (simp add: exact_on_def)
  qed
  have "longest_prefix (snd ?T) k = None" using none by (simp only: longest_prefix_None) blast
  moreover have "fst ?T k = None" using drops_exact [OF assms(1)] by simp
  ultimately show ?thesis by (simp add: grpc_spec_def)
qed

section \<open>The steps of a batch\<close>

text \<open>What the two loops of a batch do is done to policies of the batch.\<close>

lemma drops_touched:
  assumes "set ds \<subseteq> dom (policies_of (ge_unmarshal E) (wr_dropped m))"
  shows "list_all (\<lambda>x. op_policy x \<in> touched E g m) (map DropPolicy (List.map_filter (gw_active g) ds))"
proof -
  have "p \<in> touched E g m" if "k \<in> set ds" "gw_active g k = Some p" for k p
  proof -
    have "k \<in> dom (policies_of (ge_unmarshal E) (wr_dropped m))" using assms that(1) by blast
    then have "k \<in> r_id ` set (wr_dropped m)" using policies_of_other [of k "wr_dropped m" "ge_unmarshal E"]
      by (cases "k \<in> r_id ` set (wr_dropped m)") (auto simp: domIff)
    with that(2) show ?thesis by (auto simp: touched_def)
  qed
  then show ?thesis by (auto simp: list_all_iff List.map_filter_def)
qed

lemma updates_touched:
  assumes "set us \<subseteq> dom (policies_of (ge_unmarshal E) (wr_updated m))"
  shows "list_all (\<lambda>x. op_policy x \<in> touched E g m)
    (map (\<lambda>k. AddPolicy (the (policies_of (ge_unmarshal E) (wr_updated m) k))) us)"
proof -
  have "the (policies_of (ge_unmarshal E) (wr_updated m) k) \<in> touched E g m" if "k \<in> set us" for k
  proof -
    from that assms obtain p where p: "policies_of (ge_unmarshal E) (wr_updated m) k = Some p" by fastforce
    then have "p \<in> ran (policies_of (ge_unmarshal E) (wr_updated m))" by (auto simp: ran_def)
    with p policies_of_ok(2) [of "ge_unmarshal E" "wr_updated m"] show ?thesis by (auto simp: touched_def published_def)
  qed
  then show ?thesis by (simp add: list_all_iff)
qed

context gateway_batches begin

text \<open>Whatever a call sees, the routes are those of the history and of operations of the batch.\<close>

lemma seen_routes:
  assumes i: "gateway_inv R ops (Handler rss)" and m: "response_ok (gateway_admits E) m"
    and seen: "seen_during E ord rss m g"
  shows "\<exists>xs. gateway_inv R (ops @ xs) g \<and> gw_handlers g = gw_handlers (Handler rss) \<and>
    list_all (\<lambda>x. op_policy x \<in> touched E (Handler rss) m) xs"
proof -
  have v: "\<forall>x \<in> set (wr_updated m @ wr_dropped m). r_version x \<noteq> None"
    and adm: "\<forall>x \<in> set (wr_updated m). gateway_admits E x" using m by (auto simp: response_ok_def list_all_iff)
  let ?u = "policies_of (ge_unmarshal E) (wr_updated m)" and ?d = "policies_of (ge_unmarshal E) (wr_dropped m)"
  let ?b = "with_batch E m (Handler rss)"
  from gateway_batch_filled [OF v, of E ord rss] obtain c where
    b: "batch_filled (gateway_handler E ord) rss m = Done (rss\<lparr>IndexCursor := c, Handler := ?b\<rparr>)" by blast
  have ib: "gateway_inv R ops ?b" using i by (rule gateway_inv_cong) (simp_all add: with_batch_def)
  have fin: "finite (dom ?u)" "finite (dom ?d)" by (simp_all add: policies_of_ok(1))
  have enum: "enumerates ds ?d \<and> enumerates us ?u" if "ord ?b = (ds, us, hs)" for ds us hs
    using orders fin that unfolding orders_ok_def by (elim allE [of _ ?b]) (simp add: with_batch_def)
  from seen show ?thesis
  proof cases
    case (dropping r ds ds' us hs dropped)
    with b have r: "Handler r = ?b" by simp
    with dropping enum [of "ds @ ds'" us hs] have d: "distinct ds" "set ds \<subseteq> dom ?d" by (auto simp: enumerates_def)
    from drops_done [OF ib d(1)] dropping(3) r radix have
      "gateway_inv R (ops @ map DropPolicy (List.map_filter (gw_active ?b) ds)) g" "gw_handlers g = gw_handlers ?b" by auto
    with drops_touched [OF d(2), of "Handler rss"] show ?thesis
      by (intro exI [of _ "map DropPolicy (List.map_filter (gw_active ?b) ds)"]) (simp add: with_batch_def)
  next
    case (updating r ds us us' hs g0 dropped updated)
    with b have r: "Handler r = ?b" by simp
    with updating enum [of ds "us @ us'" hs] have d: "distinct ds" "set ds \<subseteq> dom ?d" "set us \<subseteq> dom ?u"
      by (auto simp: enumerates_def)
    let ?xs = "map DropPolicy (List.map_filter (gw_active ?b) ds)"
    from drops_done [OF ib d(1)] updating(3) r radix have
      g0: "gateway_inv R (ops @ ?xs) g0" "gw_handlers g0 = gw_handlers ?b" "gw_updated g0 = Some ?u"
      by (auto simp: with_batch_def)
    from updates_done [OF g0(1) policies_of_admitted [OF adm] d(3)] updating(4) g0(3) radix have
      "gateway_inv R ((ops @ ?xs) @ map (\<lambda>k. AddPolicy (the (?u k))) us) g" "gw_handlers g = gw_handlers g0" by (auto simp: or_empty_def)
    with g0(2) drops_touched [OF d(2), of "Handler rss"] updates_touched [OF d(3), of "Handler rss"] show ?thesis
      by (intro exI [of _ "?xs @ map (\<lambda>k. AddPolicy (the (?u k))) us"]) (simp add: with_batch_def)
  qed
qed

text \<open>After all drops and before the first update.\<close>

lemma seen_after_drops:
  assumes i: "gateway_inv R ops (Handler rss)" and m: "response_ok (gateway_admits E) m"
  shows "\<exists>ds g. seen_during E ord rss m g \<and> gw_handlers g = gw_handlers (Handler rss) \<and>
    set ds = dom (policies_of (ge_unmarshal E) (wr_dropped m)) \<and>
    gateway_inv R (ops @ map DropPolicy (List.map_filter (gw_active (Handler rss)) ds)) g"
proof -
  have v: "\<forall>x \<in> set (wr_updated m @ wr_dropped m). r_version x \<noteq> None"
    using m by (auto simp: response_ok_def list_all_iff)
  let ?u = "policies_of (ge_unmarshal E) (wr_updated m)" and ?d = "policies_of (ge_unmarshal E) (wr_dropped m)"
  let ?b = "with_batch E m (Handler rss)"
  from gateway_batch_filled [OF v, of E ord rss] obtain c where
    b: "batch_filled (gateway_handler E ord) rss m = Done (rss\<lparr>IndexCursor := c, Handler := ?b\<rparr>)" by blast
  obtain ds us hs where o: "ord ?b = (ds, us, hs)" by (metis prod_cases3)
  have "finite (dom ?u)" "finite (dom ?d)" by (simp_all add: policies_of_ok(1))
  with orders o have e: "enumerates ds ?d"
    unfolding orders_ok_def by (elim allE [of _ ?b]) (simp add: with_batch_def)
  have ib: "gateway_inv R ops ?b" using i by (rule gateway_inv_cong) (simp_all add: with_batch_def)
  from e have "distinct ds" by (simp add: enumerates_def)
  from drops_done [OF ib this] radix obtain g dropped where
    g: "for_each (drop_one (ge_radix E)) ds (?b, Map.empty) = Done (g, dropped)"
      "gateway_inv R (ops @ map DropPolicy (List.map_filter (gw_active ?b) ds)) g" "gw_handlers g = gw_handlers ?b" by fastforce
  have "seen_during E ord rss m g" using b o g(1) by (intro seen_during.dropping [where ds = ds and ds' = "[]"]) auto
  with g e show ?thesis by (intro exI [of _ ds] exI [of _ g]) (simp add: with_batch_def enumerates_def)
qed

end

lemma session_routes:
  assumes "radix_tree (ge_radix E)" and "orders_ok ord" and "never_fails E"
    and "list_all (response_ok (gateway_admits E)) ms"
    and "handle_all (gateway_handler E ord) ms (start_gateway E hs) = Done r"
  shows "\<exists>ops. gateway_inv (ge_radix E) ops (Handler r) \<and> (\<forall>p. AddPolicy p \<in> set ops \<longrightarrow> p \<in> published E ms)"
proof -
  have b: "gateway_batches (ge_radix E) E ord"
    using assms by (simp add: gateway_batches_def gateway_batches_axioms_def)
  have "gateway_inv (ge_radix E) [] (Handler (start_gateway E hs))"
    using Initialize_inv [OF assms(1)] by (simp add: start_gateway_def)
  from gateway_batches.handled_session [OF b assms(3) this assms(4)] assms(5) show ?thesis by auto
qed

lemma policies_of_listed:
  assumes "x \<in> set xs" and "um (r_spec x) \<noteq> None"
  shows "r_id x \<in> dom (policies_of um xs)"
proof -
  obtain ys zs where xs: "xs = ys @ x # zs" using assms(1) by (auto simp: in_set_conv_decomp)
  have "policies_of um xs = policies_of um ys ++ (policies_of um [x] ++ policies_of um zs)"
    using policies_of_append [of um ys "x # zs"] policies_of_append [of um "[x]" zs] by (simp add: xs)
  with assms(2) show ?thesis by (auto simp: policies_of_single map_add_def split: option.splits)
qed

section \<open>Properties\<close>

text \<open>
  C31. Calls are undisturbed by a batch that does not touch their routes: at any moment of a batch,
  between any two steps of its two loops, a gRPC call whose method no dropped and no updated policy
  covers is answered as before the batch, and so is an HTTP request whose path none of them covers.
\<close>

theorem requests_undisturbed_by_batch:
  assumes "radix_tree (ge_radix E)" and "orders_ok ord" and "never_fails E"
    and ok: "list_all (response_ok (gateway_admits E)) (ms @ [m])"
    and session: "handle_all (gateway_handler E ord) ms (start_gateway E hs) = Done r"
    and seen: "seen_during E ord r m g"
  shows "((\<forall>p \<in> touched E (Handler r) m. \<not> covers_method p k) \<longrightarrow> MatchGrpc E g (Some k) = MatchGrpc E (Handler r) (Some k)) \<and>
    ((\<forall>p \<in> touched E (Handler r) m. \<not> covers_path p path) \<longrightarrow> MatchHttp E g path name = MatchHttp E (Handler r) path name)"
proof -
  from session_routes [OF assms(1-3) _ session] ok obtain ops where
    i: "gateway_inv (ge_radix E) ops (Handler r)" by auto
  have b: "gateway_batches (ge_radix E) E ord"
    using assms by (simp add: gateway_batches_def gateway_batches_axioms_def)
  from gateway_batches.seen_routes [OF b i _ seen] ok obtain xs where
    x: "gateway_inv (ge_radix E) (ops @ xs) g" "gw_handlers g = gw_handlers (Handler r)"
      "list_all (\<lambda>x. op_policy x \<in> touched E (Handler r) m) xs" by auto
  note matched = radix_tree.MatchGrpc_inv [OF assms(1) _ refl] radix_tree.MatchHttp_inv [OF assms(1) _ refl]
  have "grpc_spec (fold grpc_step (ops @ xs) no_routes) k = grpc_spec (fold grpc_step ops no_routes) k"
    if "\<forall>p \<in> touched E (Handler r) m. \<not> covers_method p k"
    using x(3) that by (simp add: list_all_iff other_routes_kept(1))
  moreover have "http_spec (fold http_step (ops @ xs) no_routes) path n = http_spec (fold http_step ops no_routes) path n"
    if "\<forall>p \<in> touched E (Handler r) m. \<not> covers_path p path" for n
    using x(3) that by (simp add: list_all_iff other_routes_kept(2))
  ultimately show ?thesis unfolding matched [OF i] matched [OF x(1)] x(2) by simp
qed

text \<open>
  A route that a batch hands from one policy to another is unserved in between: when a batch
  drops a policy with an exact method name, there is a moment of the batch at which a call of that
  method is refused as unknown, even if the same batch adds a policy with the same method, or other
  active policies have it.
\<close>

theorem dropped_route_unserved_meanwhile:
  assumes "radix_tree (ge_radix E)" and "orders_ok ord" and "never_fails E"
    and ok: "list_all (response_ok (gateway_admits E)) (ms @ [m])"
    and session: "handle_all (gateway_handler E ord) ms (start_gateway E hs) = Done r"
    and x: "x \<in> set (wr_dropped m)" "ge_unmarshal E (r_spec x) \<noteq> None" "gw_active (Handler r) (r_id x) = Some p"
    and p: "exact_on p k" and others: "\<forall>q \<in> published E ms. covers_method q k \<longrightarrow> exact_on q k"
  shows "\<exists>g. seen_during E ord r m g \<and>
    MatchGrpc E g (Some k) = Ret (Inl (ErrStatus Unimplemented (''Unknown method: '' @ k)))"
proof -
  from session_routes [OF assms(1-3) _ session] ok obtain ops where
    i: "gateway_inv (ge_radix E) ops (Handler r)" "\<forall>q. AddPolicy q \<in> set ops \<longrightarrow> q \<in> published E ms" by auto
  have b: "gateway_batches (ge_radix E) E ord"
    using assms by (simp add: gateway_batches_def gateway_batches_axioms_def)
  from gateway_batches.seen_after_drops [OF b i(1), of m] ok obtain ds g where
    g: "seen_during E ord r m g" "set ds = dom (policies_of (ge_unmarshal E) (wr_dropped m))"
      "gateway_inv (ge_radix E) (ops @ map DropPolicy (List.map_filter (gw_active (Handler r)) ds)) g" by auto
  have "r_id x \<in> set ds" using policies_of_listed [where um = "ge_unmarshal E", OF x(1,2)] g(2) by simp
  with x(3) p have "\<exists>p \<in> set (List.map_filter (gw_active (Handler r)) ds). exact_on p k"
    by (force simp: List.map_filter_def)
  from dropped_route_gone [OF this, of ops] i(2) others
  have "grpc_spec (fold grpc_step (ops @ map DropPolicy (List.map_filter (gw_active (Handler r)) ds)) no_routes) k = None"
    by blast
  with radix_tree.MatchGrpc_inv [OF assms(1) g(3) refl, of k] g(1) show ?thesis by auto
qed

text \<open>
  C33. A drop takes the route from every policy that shares it: after a batch that drops a policy with
  an exact method name and adds none that covers the method, calls of the method are refused, while
  another policy with the same method stays active. This is where no policy that the stream has ever
  published covers the method by a prefix (every policy that covers it has it as its exact name);
  one that does would answer these calls after the drop.
\<close>

theorem shared_route_lost:
  assumes "radix_tree (ge_radix E)" and "orders_ok ord" and "never_fails E"
    and ok: "list_all (response_ok (gateway_admits E)) (ms @ [m])" and m: "\<not> wr_end_of_list m"
    and session: "handle_all (gateway_handler E ord) ms (start_gateway E hs) = Done r"
    and x: "x \<in> set (wr_dropped m)" "ge_unmarshal E (r_spec x) \<noteq> None" "gw_active (Handler r) (r_id x) = Some p"
    and p: "exact_on p k" and others: "\<forall>q \<in> published E ms. covers_method q k \<longrightarrow> exact_on q k"
    and new: "\<forall>q \<in> published E [m]. \<not> covers_method q k"
    and kept: "gw_active (Handler r) j = Some q" "j \<notin> r_id ` set (wr_updated m @ wr_dropped m)"
  shows "\<exists>r'. handle_all (gateway_handler E ord) (ms @ [m]) (start_gateway E hs) = Done r' \<and>
    gw_active (Handler r') j = Some q \<and>
    MatchGrpc E (Handler r') (Some k) = Ret (Inl (ErrStatus Unimplemented (''Unknown method: '' @ k)))"
proof -
  from session_routes [OF assms(1-3) _ session] ok obtain ops where
    i: "gateway_inv (ge_radix E) ops (Handler r)" "\<forall>q. AddPolicy q \<in> set ops \<longrightarrow> q \<in> published E ms" by auto
  have b: "gateway_batches (ge_radix E) E ord"
    using assms by (simp add: gateway_batches_def gateway_batches_axioms_def)
  from gateway_batches.handled_response [OF b assms(3) i(1), of m] ok obtain r' xs where
    r': "handle_response (gateway_handler E ord) r m = Done r'" "gateway_inv (ge_radix E) (ops @ xs) (Handler r')"
      "gw_active (Handler r') = active_step E m (gw_active (Handler r))" "response_ops E m (gw_active (Handler r)) xs" by auto
  let ?u = "policies_of (ge_unmarshal E) (wr_updated m)" and ?d = "policies_of (ge_unmarshal E) (wr_dropped m)"
  from r'(4) m obtain ds us where xs: "enumerates ds ?d" "enumerates us ?u"
      "xs = map DropPolicy (List.map_filter (gw_active (Handler r)) ds) @ map (\<lambda>k. AddPolicy (the (?u k))) us"
    by (auto simp: response_ops_def batch_ops_def)
  have "r_id x \<in> set ds" using policies_of_listed [where um = "ge_unmarshal E", OF x(1,2)] xs(1) by (simp add: enumerates_def)
  with x(3) p have "\<exists>p \<in> set (List.map_filter (gw_active (Handler r)) ds). exact_on p k"
    by (force simp: List.map_filter_def)
  from dropped_route_gone [OF this, of ops] i(2) others
  have gone: "grpc_spec (fold grpc_step (ops @ map DropPolicy (List.map_filter (gw_active (Handler r)) ds)) no_routes) k = None"
    by blast
  have "\<not> covers_method (the (?u i)) k" if "i \<in> set us" for i
  proof -
    from that xs(2) obtain q where "?u i = Some q" by (auto simp: enumerates_def)
    moreover from this have "q \<in> published E [m]"
      using policies_of_ok(2) [of "ge_unmarshal E" "wr_updated m"] by (auto simp: published_def ran_def)
    ultimately show ?thesis using new by simp
  qed
  then have "list_all (\<lambda>x. \<not> covers_method (op_policy x) k) (map (\<lambda>k. AddPolicy (the (?u k))) us)"
    by (simp add: list_all_iff)
  from other_routes_kept(1) [OF this] gone have "grpc_spec (fold grpc_step (ops @ xs) no_routes) k = None"
    by (simp add: xs(3))
  with radix_tree.MatchGrpc_inv [OF assms(1) r'(2) refl, of k]
  have "MatchGrpc E (Handler r') (Some k) = Ret (Inl (ErrStatus Unimplemented (''Unknown method: '' @ k)))" by simp
  moreover have "?u j = None" "?d j = None" by (rule policies_of_other, use kept(2) in auto)+
  then have "gw_active (Handler r') j = Some q"
    using kept(1) m by (auto simp: r'(3) active_step_def map_add_def restrict_map_def dom_def)
  moreover have "handle_all (gateway_handler E ord) (ms @ [m]) (start_gateway E hs) = Done r'"
    using session r'(1) by (simp add: handle_all_snoc)
  ultimately show ?thesis by blast
qed

section \<open>Witnesses\<close>

text \<open>Resources of one version, and what a gateway with the sample environment makes of them.\<close>

definition batch_of :: "resource list \<Rightarrow> resource list \<Rightarrow> watch_response" where
  "batch_of updated dropped = \<lparr>wr_updated = updated, wr_dropped = dropped, wr_end_of_list = False\<rparr>"

abbreviation sample_policy_of :: "string \<Rightarrow> gateway_policy" where
  "sample_policy_of url \<equiv> (sample_grpc url True)\<lparr>gp_handlers := sample_handlers\<rparr>"

lemma sample_batches_ok: "list_all (response_ok (gateway_admits (sample_env sample_grpc_unmarshal)))
    (map (\<lambda>(us, ds). batch_of (map (\<lambda>(i, u). sample_resource i u) us) (map (\<lambda>(i, u). sample_resource i u) ds)) bs)"
  by (auto simp: list_all_iff batch_of_def response_ok_def gateway_admits_def sample_defs policy_ok_def handler_ok_def)

lemma sample_spec: "ge_unmarshal (sample_env sample_grpc_unmarshal) (r_spec (sample_resource i u)) = Some (sample_policy_of u)"
  "r_id (sample_resource i u) = i" "r_version (sample_resource i u) \<noteq> None"
  by (simp_all add: sample_defs)

lemma sample_routes: "exact_on (sample_policy_of u) k \<longleftrightarrow> u = k" "covers_method (sample_policy_of u) k \<longleftrightarrow> u = k"
  by (auto simp: exact_on_def covers_method_def sample_grpc_def)

lemma sample_session_active:
  assumes "list_all (response_ok (gateway_admits (sample_env sample_grpc_unmarshal))) ms"
  shows "\<exists>r. handle_all (gateway_handler (sample_env sample_grpc_unmarshal) key_orders) ms
      (start_gateway (sample_env sample_grpc_unmarshal) [''aws_lambda'']) = Done r \<and>
    gw_active (Handler r) = fold (active_step (sample_env sample_grpc_unmarshal)) ms Map.empty"
proof -
  have "gateway_inv alist_radix [] (Handler (start_gateway (sample_env sample_grpc_unmarshal) [''aws_lambda'']))"
    using Initialize_inv [OF sample_env_ok(1)] by (simp add: start_gateway_def sample_env_def)
  from sample_gateway.handled_session [OF sample_env_ok(2) this assms] show ?thesis
    by (auto simp: start_gateway_def Initialize_def)
qed

theorem requests_undisturbed_by_batch_witness:
  "\<exists>r g. handle_all (gateway_handler (sample_env sample_grpc_unmarshal) key_orders)
      [batch_of [sample_resource ''x'' ''/a''] []] (start_gateway (sample_env sample_grpc_unmarshal) [''aws_lambda'']) = Done r \<and>
    seen_during (sample_env sample_grpc_unmarshal) key_orders r (batch_of [sample_resource ''y'' ''/b''] []) g \<and>
    MatchGrpc (sample_env sample_grpc_unmarshal) g (Some ''/a'') =
      MatchGrpc (sample_env sample_grpc_unmarshal) (Handler r) (Some ''/a'')"
proof -
  let ?E = "sample_env sample_grpc_unmarshal" and ?m = "batch_of [sample_resource ''y'' ''/b''] []"
  have ok: "list_all (response_ok (gateway_admits ?E)) ([batch_of [sample_resource ''x'' ''/a''] []] @ [?m])"
    using sample_batches_ok [of "[([(''x'', ''/a'')], []), ([(''y'', ''/b'')], [])]"] by simp
  then have "list_all (response_ok (gateway_admits ?E)) [batch_of [sample_resource ''x'' ''/a''] []]" by simp
  from sample_session_active [OF this] obtain r where
    r: "handle_all (gateway_handler ?E key_orders) [batch_of [sample_resource ''x'' ''/a''] []]
      (start_gateway ?E [''aws_lambda'']) = Done r" by blast
  from session_routes [OF sample_env_ok(1) key_orders_ok sample_env_ok(2) _ r] ok obtain ops where
    "gateway_inv alist_radix ops (Handler r)" by (auto simp: sample_env_def)
  from sample_gateway.seen_after_drops [OF this, of sample_grpc_unmarshal ?m] ok obtain g where
    g: "seen_during ?E key_orders r ?m g" by auto
  have "\<forall>p \<in> touched ?E (Handler r) ?m. \<not> covers_method p ''/a''"
    by (auto simp: touched_def published_def batch_of_def sample_spec sample_routes)
  with requests_undisturbed_by_batch [OF sample_env_ok(1) key_orders_ok sample_env_ok(2) ok r g, of "''/a''"]
  have "MatchGrpc ?E g (Some ''/a'') = MatchGrpc ?E (Handler r) (Some ''/a'')" by blast
  with r g show ?thesis by blast
qed

text \<open>A batch that drops one policy and adds another one with the same method.\<close>

theorem dropped_route_unserved_meanwhile_witness:
  "\<exists>r g. handle_all (gateway_handler (sample_env sample_grpc_unmarshal) key_orders)
      [batch_of [sample_resource ''x'' ''/a''] []] (start_gateway (sample_env sample_grpc_unmarshal) [''aws_lambda'']) = Done r \<and>
    seen_during (sample_env sample_grpc_unmarshal) key_orders r
      (batch_of [sample_resource ''y'' ''/a''] [sample_resource ''x'' ''/a'']) g \<and>
    MatchGrpc (sample_env sample_grpc_unmarshal) g (Some ''/a'') =
      Ret (Inl (ErrStatus Unimplemented ''Unknown method: /a''))"
proof -
  let ?E = "sample_env sample_grpc_unmarshal"
  let ?ms = "[batch_of [sample_resource ''x'' ''/a''] []]"
  let ?m = "batch_of [sample_resource ''y'' ''/a''] [sample_resource ''x'' ''/a'']"
  have ok: "list_all (response_ok (gateway_admits ?E)) (?ms @ [?m])"
    using sample_batches_ok [of "[([(''x'', ''/a'')], []), ([(''y'', ''/a'')], [(''x'', ''/a'')])]"] by simp
  then have "list_all (response_ok (gateway_admits ?E)) ?ms" by simp
  from sample_session_active [OF this] obtain r where
    r: "handle_all (gateway_handler ?E key_orders) ?ms (start_gateway ?E [''aws_lambda'']) = Done r"
      "gw_active (Handler r) = [''x'' \<mapsto> sample_policy_of ''/a'']"
    by (auto simp: active_step_def batch_of_def policies_of_def note_spec_def sample_spec)
  have "sample_resource ''x'' ''/a'' \<in> set (wr_dropped ?m)" "exact_on (sample_policy_of ''/a'') ''/a''"
    "\<forall>q \<in> published ?E ?ms. covers_method q ''/a'' \<longrightarrow> exact_on q ''/a''"
    by (auto simp: batch_of_def published_def sample_spec sample_routes)
  with dropped_route_unserved_meanwhile [OF sample_env_ok(1) key_orders_ok sample_env_ok(2) ok r(1), of "sample_resource ''x'' ''/a''"
      "sample_policy_of ''/a''" "''/a''"] r show ?thesis by (auto simp: sample_spec)
qed

text \<open>Two policies with one method, of which one is dropped.\<close>

theorem shared_route_lost_witness:
  "\<exists>r. handle_all (gateway_handler (sample_env sample_grpc_unmarshal) key_orders)
      [batch_of [sample_resource ''x'' ''/a'', sample_resource ''y'' ''/a''] [], batch_of [] [sample_resource ''x'' ''/a'']]
      (start_gateway (sample_env sample_grpc_unmarshal) [''aws_lambda'']) = Done r \<and>
    gw_active (Handler r) ''y'' = Some (sample_policy_of ''/a'') \<and>
    MatchGrpc (sample_env sample_grpc_unmarshal) (Handler r) (Some ''/a'') =
      Ret (Inl (ErrStatus Unimplemented ''Unknown method: /a''))"
proof -
  let ?E = "sample_env sample_grpc_unmarshal"
  let ?ms = "[batch_of [sample_resource ''x'' ''/a'', sample_resource ''y'' ''/a''] []]"
  let ?m = "batch_of [] [sample_resource ''x'' ''/a'']"
  have ok: "list_all (response_ok (gateway_admits ?E)) (?ms @ [?m])"
    using sample_batches_ok [of "[([(''x'', ''/a''), (''y'', ''/a'')], []), ([], [(''x'', ''/a'')])]"] by simp
  then have "list_all (response_ok (gateway_admits ?E)) ?ms" by simp
  from sample_session_active [OF this] obtain r where
    r: "handle_all (gateway_handler ?E key_orders) ?ms (start_gateway ?E [''aws_lambda'']) = Done r"
      "gw_active (Handler r) = [''x'' \<mapsto> sample_policy_of ''/a'', ''y'' \<mapsto> sample_policy_of ''/a'']"
    by (auto simp: active_step_def batch_of_def policies_of_def note_spec_def sample_spec)
  have "sample_resource ''x'' ''/a'' \<in> set (wr_dropped ?m)" "exact_on (sample_policy_of ''/a'') ''/a''"
    "\<forall>q \<in> published ?E ?ms. covers_method q ''/a'' \<longrightarrow> exact_on q ''/a''"
    "\<forall>q \<in> published ?E [?m]. \<not> covers_method q ''/a''" "\<not> wr_end_of_list ?m"
    "''y'' \<notin> r_id ` set (wr_updated ?m @ wr_dropped ?m)"
    by (auto simp: batch_of_def published_def sample_spec sample_routes)
  with shared_route_lost [OF sample_env_ok(1) key_orders_ok sample_env_ok(2) ok _ r(1), of "sample_resource ''x'' ''/a''"
      "sample_policy_of ''/a''" "''/a''" "''y''" "sample_policy_of ''/a''"] r(2) show ?thesis by (auto simp: sample_spec)
qed

end
