(* ===== verification/Redis.thy ===== *)
theory Redis
  imports LambdaProps
begin

text \<open>
  The Redis client and listener of \<^verbatim>\<open>provider/redis\<close>, and the way of a notification from a
  Redis channel through the in-process hub to the Lambda handler waiting for it.
\<close>

section \<open>The client\<close>

text \<open>\<open>rc_client\<close>: the addresses of the client, none when it is nil.\<close>

record 'f RedisClient =
  Host :: "'f config"
  UseSrvRecords :: "'f config"
  rc_client :: "string list option"

text \<open>\<open>lookup\<close> is \<^verbatim>\<open>net.LookupSRV\<close>: the targets and ports found for a name.\<close>

definition lookupSrvRecords ::
    "(string \<Rightarrow> goerr + (string \<times> nat) list) \<Rightarrow> string \<Rightarrow> goerr + string list" where
  "lookupSrvRecords lookup record =
     (let hostname = hd (split_on (CHR '':'') record)
      in case lookup hostname of
           Inl e \<Rightarrow> Inl e
         | Inr srvs \<Rightarrow> Inr (map (\<lambda>(target, port). target @ '':'' @ dec port) srvs))"

definition RedisClient_Initialize ::
    "(string \<Rightarrow> goerr + (string \<times> nat) list) \<Rightarrow> 'f RedisClient \<Rightarrow> 'f RedisClient val" where
  "RedisClient_Initialize lookup rc = val_then (StringVal (Host rc)) (\<lambda>redisHost.
     if redisHost = [] then Ret rc
     else val_then (BoolVal (UseSrvRecords rc)) (\<lambda>srv.
       if srv then (case lookupSrvRecords lookup redisHost of
           Inl e \<Rightarrow> Panics ''Failed to lookup SRV records''
         | Inr records \<Rightarrow> Ret (rc\<lparr>rc_client := Some records\<rparr>))
       else Ret (rc\<lparr>rc_client := Some [redisHost]\<rparr>)))"

section \<open>The listener\<close>

text \<open>
  What happens to the goroutine of \<^verbatim>\<open>Listen\<close>: a message, the close of the channel (which it
  reads as a nil message), the end of its context; and, between its steps, the hub's own goroutine
  delivering a message. \<open>Blocked\<close> is a publish that waits for the hub's stream.
\<close>

datatype listen_event = Received redis_message | ChannelClosed | ContextDone | HubDelivers

text \<open>A panic of the deserializer is not recovered.\<close>

definition publish_message ::
    "(redis_message \<Rightarrow> 'p Message val) \<Rightarrow> bool \<Rightarrow> redis_message \<Rightarrow> 'p pubSub \<Rightarrow> 'p pubSub run" where
  "publish_message deserializer blockingPublish m ps = (case deserializer m of
      Panics e \<Rightarrow> Panicked e
    | Ret msg \<Rightarrow> (case Publish ps blockingPublish [msg] of
        Ran (ps', n) \<Rightarrow> Ran ps' | Blocked (ps', n) \<Rightarrow> Blocked ps' | Panicked e \<Rightarrow> Panicked e))"

text \<open>The driver: the client it subscribes with, the hub it publishes to, and how it reads a message.\<close>

record 'p redisPubSubDriver =
  dr_rdb :: "string list"
  dr_pub :: "'p pubSub"
  dr_deserializer :: "redis_message \<Rightarrow> 'p Message val"

definition NewRedisPubSubDriver ::
    "string list \<Rightarrow> 'p pubSub \<Rightarrow> (redis_message \<Rightarrow> 'p Message val) \<Rightarrow> 'p redisPubSubDriver" where
  "NewRedisPubSubDriver rdb pub deserializer = \<lparr>dr_rdb = rdb, dr_pub = pub, dr_deserializer = deserializer\<rparr>"

text \<open>\<^verbatim>\<open>Listen\<close> until its goroutine starts; \<open>receive\<close> is the subscription's first answer.\<close>

definition start_listening :: "(string list \<Rightarrow> goerr option) \<Rightarrow> string list \<Rightarrow> string list val" where
  "start_listening receive topics = (case receive topics of
      Some e \<Rightarrow> Panics ''Redis pubsub listener failed'' | None \<Rightarrow> Ret topics)"

fun Listen ::
    "(redis_message \<Rightarrow> 'p Message val) \<Rightarrow> bool \<Rightarrow> listen_event list \<Rightarrow> 'p pubSub \<Rightarrow> 'p pubSub run" where
  "Listen deserializer blockingPublish [] ps = Ran ps"
| "Listen deserializer blockingPublish (ContextDone # es) ps = Ran ps"
| "Listen deserializer blockingPublish (ChannelClosed # es) ps = Panicked ''nil pointer dereference''"
| "Listen deserializer blockingPublish (Received m # es) ps =
     run_then (publish_message deserializer blockingPublish m ps) (Listen deserializer blockingPublish es)"
| "Listen deserializer blockingPublish (HubDelivers # es) ps =
     run_then (startStreaming_step False ps) (Listen deserializer blockingPublish es)"

definition DefaultRedisPubSubDeserializer :: "redis_message \<Rightarrow> string Message val" where
  "DefaultRedisPubSubDeserializer m = Ret \<lparr>msg_topic = rm_channel m, msg_payload = rm_payload m\<rparr>"

section \<open>The way of a notification\<close>

lemma subscribe_handler_hub:
  assumes "subscribe_handler signal h l = Ret (h', l')" and "signal \<noteq> []"
    and "LambdaStreamSubscriber l = Some ps" and "StringVal (ServerStreamTopicPrefix l) = Ret topics"
  shows "LambdaStreamSubscriber l' = Some (Subscribe ps (subscriberId l') [topics @ signal])"
  using assms by (auto simp: subscribe_handler_def attachPubSub_def Let_def split: list.splits)

lemma publish_then_deliver:
  assumes "ps_ok ps" and "all_open ps" and "lists_topic ps i (msg_topic m)"
    and stream: "ch_items (ps_stream ps) = []" "\<not> ch_closed (ps_stream ps)" "ch_room (ps_stream ps) > 0"
  shows "\<exists>ps1 ps2. Publish ps True [m] = Ran (ps1, length (the (ps_subscriptions ps (msg_topic m)))) \<and>
    startStreaming_step False ps1 = Ran ps2 \<and>
    (\<forall>j. ps_subscribers ps2 j = (if lists_topic ps j (msg_topic m)
       then map_option (offered_to m) (ps_subscribers ps j) else ps_subscribers ps j))"
proof -
  have "listed_under ps i (msg_topic m)" using assms(1,3) by (simp add: ps_ok_def)
  then obtain ids where ids: "ps_subscriptions ps (msg_topic m) = Some ids"
    by (auto simp: listed_under_def split: option.splits)
  let ?ps1 = "ps\<lparr>ps_stream := (ps_stream ps)\<lparr>ch_items := [m], ch_room := ch_room (ps_stream ps) - 1\<rparr>\<rparr>"
  let ?ps = "?ps1\<lparr>ps_stream := (ps_stream ?ps1)\<lparr>ch_items := [], ch_room := Suc (ch_room (ps_stream ?ps1))\<rparr>\<rparr>"
  have same: "listed_under ?ps = listed_under ps" "lists_topic ?ps = lists_topic ps"
    by (simp_all add: fun_eq_iff listed_under_def lists_topic_def)
  have "ps_ok ?ps" using assms(1) unfolding ps_ok_def same by simp
  moreover have "all_open ?ps" using assms(2) by (simp add: all_open_def)
  ultimately obtain subs where d: "deliver False ?ps m = Ran (?ps\<lparr>ps_subscribers := subs\<rparr>)"
    and subs: "\<forall>j. subs j = (if lists_topic ps j (msg_topic m) then map_option (offered_to m) (ps_subscribers ps j)
      else ps_subscribers ps j)"
    using deliver_all [of ?ps m] unfolding same by auto
  have "Publish ps True [m] = Ran (?ps1, length ids)"
    using stream ids by (simp add: Publish_def chan_send_def)
  moreover have "startStreaming_step False ?ps1 = Ran (?ps\<lparr>ps_subscribers := subs\<rparr>)"
    using d by (simp add: startStreaming_step_def)
  ultimately show ?thesis using ids subs by auto
qed

text \<open>
  A goroutine that waits to receive from a channel gives it room for one more send. The hub with
  its own goroutine waiting for a message, and the call of subscriber \<open>i\<close> waiting or not in the
  \<^verbatim>\<open>select\<close> of its \<^verbatim>\<open>Call\<close>:
\<close>

definition awaited :: "'p channel \<Rightarrow> 'p channel" where
  "awaited c = c\<lparr>ch_room := Suc (ch_room c)\<rparr>"

definition ready_hub :: "bool \<Rightarrow> uint64 \<Rightarrow> 'p pubSub \<Rightarrow> 'p pubSub" where
  "ready_hub waits i ps = ps\<lparr>ps_stream := awaited (ps_stream ps),
     ps_subscribers := (if waits then (ps_subscribers ps)(i := map_option (\<lambda>s. s\<lparr>sub_ch := awaited (sub_ch s)\<rparr>)
       (ps_subscribers ps i)) else ps_subscribers ps)\<rparr>"

lemma ready_hub_lists: "lists_topic (ready_hub waits i ps) = lists_topic ps"
  by (auto simp: lists_topic_def ready_hub_def IsSubscribedTo_def fun_eq_iff)

lemma ready_hub_ok: "ps_ok ps \<Longrightarrow> ps_ok (ready_hub waits i ps)" "all_open ps \<Longrightarrow> all_open (ready_hub waits i ps)"
proof -
  have "listed_under (ready_hub waits i ps) = listed_under ps"
    by (simp add: listed_under_def ready_hub_def fun_eq_iff)
  then show "ps_ok (ready_hub waits i ps)" if "ps_ok ps"
    using that unfolding ps_ok_def ready_hub_lists by (simp add: ready_hub_def)
  show "all_open (ready_hub waits i ps)" if "all_open ps"
    using that by (auto simp: all_open_def ready_hub_def awaited_def split: if_splits)
qed

section \<open>Properties\<close>

text \<open>
  C27. A notification reaches the handler it is for if its call waits for it: once a call with a signal
  header is subscribed, and while the hub's goroutine waits on an empty stream, a well-formed message
  on the Redis channel made of the configured prefix and the header's value is published and offered to
  the call's subscriber. It gets the message exactly when the call waits on the subscriber's channel
  or the channel's buffer has room, and otherwise the message is dropped. The gateway's hub has no
  buffers, so there a notification that comes while no call waits is lost. No subscriber of another
  topic gets it.
\<close>

theorem notification_reaches_handler:
  assumes "subscribe_handler signal h l = Ret (h', l')" and "signal \<noteq> []"
    and "LambdaStreamSubscriber l = Some ps" and "StringVal (ServerStreamTopicPrefix l) = Ret topics"
    and "ps_ok ps" and "all_open ps" and "ch_items (ps_stream ps) = []" and "\<not> ch_closed (ps_stream ps)"
    and "parse payload = Inr n"
  shows "\<exists>hub s. LambdaStreamSubscriber l' = Some hub \<and> ps_subscribers hub (subscriberId l') = Some s \<and>
    (\<forall>waits. \<exists>hub' s'. Listen (LambdaNotificationRedisDeserializer parse) True
        [Received \<lparr>rm_channel = topics @ signal, rm_payload = payload\<rparr>, HubDelivers]
        (ready_hub waits (subscriberId l') hub) = Ran hub' \<and>
      ps_subscribers hub' (subscriberId l') = Some s' \<and>
      ch_items (sub_ch s') = ch_items (sub_ch s) @
        (if waits \<or> ch_room (sub_ch s) > 0 then [\<lparr>msg_topic = topics @ signal, msg_payload = n\<rparr>] else []) \<and>
      {j. \<not> lists_topic hub j (topics @ signal)} \<subseteq> {j. ps_subscribers hub' j = ps_subscribers hub j})"
proof -
  let ?t = "topics @ signal" and ?i = "subscriberId l'"
  let ?m = "\<lparr>msg_topic = topics @ signal, msg_payload = n\<rparr>" and ?hub = "Subscribe ps (subscriberId l') [topics @ signal]"
  note sub = Subscribe_spec [OF assms(5), of ?i "[?t]"]
  have l: "lists_topic ?hub ?i ?t" using sub by simp
  then obtain s where s: "ps_subscribers ?hub ?i = Some s" by (auto simp: lists_topic_def)
  have "\<exists>hub' s'. Listen (LambdaNotificationRedisDeserializer parse) True
        [Received \<lparr>rm_channel = ?t, rm_payload = payload\<rparr>, HubDelivers] (ready_hub waits ?i ?hub) = Ran hub' \<and>
      ps_subscribers hub' ?i = Some s' \<and>
      ch_items (sub_ch s') = ch_items (sub_ch s) @ (if waits \<or> ch_room (sub_ch s) > 0 then [?m] else []) \<and>
      {j. \<not> lists_topic ?hub j ?t} \<subseteq> {j. ps_subscribers hub' j = ps_subscribers ?hub j}" for waits
  proof -
    let ?ready = "ready_hub waits ?i ?hub"
    have "\<exists>ps1 ps2. Publish ?ready True [?m] = Ran (ps1, length (the (ps_subscriptions ?ready (msg_topic ?m)))) \<and>
        startStreaming_step False ps1 = Ran ps2 \<and>
        (\<forall>j. ps_subscribers ps2 j = (if lists_topic ?ready j (msg_topic ?m)
          then map_option (offered_to ?m) (ps_subscribers ?ready j) else ps_subscribers ?ready j))"
    proof (rule publish_then_deliver [where i = ?i])
      show "ps_ok ?ready" "all_open ?ready" using sub assms(6) by (simp_all add: ready_hub_ok all_open_Subscribe)
      show "lists_topic ?ready ?i (msg_topic ?m)" using l by (simp add: ready_hub_lists)
    qed (use assms(7,8) in \<open>simp_all add: ready_hub_def awaited_def Subscribe_stream\<close>)
    then obtain ps1 k ps2 where run: "Publish ?ready True [?m] = Ran (ps1, k)" "startStreaming_step False ps1 = Ran ps2"
      and subs: "\<And>j. ps_subscribers ps2 j = (if lists_topic ?hub j ?t
          then map_option (offered_to ?m) (ps_subscribers ?ready j) else ps_subscribers ?ready j)"
      by (auto simp: ready_hub_lists)
    have "\<exists>s'. ps_subscribers ps2 ?i = Some s' \<and>
        ch_items (sub_ch s') = ch_items (sub_ch s) @ (if waits \<or> ch_room (sub_ch s) > 0 then [?m] else [])"
      using subs [of ?i] l s by (auto simp: ready_hub_def awaited_def offered_to_def)
    moreover have "ps_subscribers ps2 j = ps_subscribers ?hub j" if "\<not> lists_topic ?hub j ?t" for j
      using subs [of j] that l by (auto simp: ready_hub_def)
    ultimately show ?thesis using run assms(9)
      by (intro exI [of _ ps2]) (auto simp: publish_message_def LambdaNotificationRedisDeserializer_def)
  qed
  with s subscribe_handler_hub [OF assms(1-4)] show ?thesis by (intro exI [of _ ?hub] exI [of _ s]) blast
qed

text \<open>
  A malformed notification ends the process: a message whose payload is not a notification
  makes the listening goroutine panic, whatever the channel it came on and whoever is subscribed,
  and so does the close of the Redis channel.
\<close>

theorem malformed_notification_panics:
  assumes "parse (rm_payload m) = Inl e"
  shows "Listen (LambdaNotificationRedisDeserializer parse) blocking (Received m # es) hub =
      Panicked ''invalid notification'' \<and>
    Listen (LambdaNotificationRedisDeserializer parse) blocking (ChannelClosed # es) hub =
      Panicked ''nil pointer dereference''"
  using assms by (simp add: publish_message_def LambdaNotificationRedisDeserializer_def)

theorem malformed_notification_panics_witness:
  "Listen (LambdaNotificationRedisDeserializer (\<lambda>b. Inl (ErrOther ''invalid character'')))
    True [Received \<lparr>rm_channel = ''p:x'', rm_payload = ''?''\<rparr>] (NewPubSub 0 0) = Panicked ''invalid notification''"
  using malformed_notification_panics [of "\<lambda>b. Inl (ErrOther ''invalid character'')" "\<lparr>rm_channel = ''p:x'', rm_payload = ''?''\<rparr>"]
  by simp

text \<open>On the hub the gateway makes, which has no buffers.\<close>

theorem notification_reaches_handler_witness:
  "\<exists>h' l' hub hub' s' hub'' s''. subscribe_handler ''x'' sample_handler
      (sample_gateway_handler\<lparr>LambdaStreamSubscriber := Some (NewPubSub 0 0)\<rparr>) = Ret (h', l') \<and>
    LambdaStreamSubscriber l' = Some hub \<and>
    Listen (LambdaNotificationRedisDeserializer (\<lambda>b. Inr \<lparr>Service = [], Method = b\<rparr>)) True
      [Received \<lparr>rm_channel = ''p:x'', rm_payload = ''m''\<rparr>, HubDelivers] (ready_hub True 1 hub) = Ran hub' \<and>
    ps_subscribers hub' 1 = Some s' \<and>
    ch_items (sub_ch s') = [\<lparr>msg_topic = ''p:x'', msg_payload = \<lparr>Service = [], Method = ''m''\<rparr>\<rparr>] \<and>
    Listen (LambdaNotificationRedisDeserializer (\<lambda>b. Inr \<lparr>Service = [], Method = b\<rparr>)) True
      [Received \<lparr>rm_channel = ''p:x'', rm_payload = ''m''\<rparr>, HubDelivers] (ready_hub False 1 hub) = Ran hub'' \<and>
    ps_subscribers hub'' 1 = Some s'' \<and> ch_items (sub_ch s'') = []"
proof -
  let ?l = "sample_gateway_handler\<lparr>LambdaStreamSubscriber := Some (NewPubSub 0 0)\<rparr>"
  let ?D = "LambdaNotificationRedisDeserializer (\<lambda>b. Inr \<lparr>Service = [], Method = b\<rparr>)"
  let ?es = "[Received \<lparr>rm_channel = ''p:x'', rm_payload = ''m''\<rparr>, HubDelivers]"
  let ?m = "\<lparr>msg_topic = ''p:x'', msg_payload = \<lparr>Service = [], Method = ''m''\<rparr>\<rparr>"
  have "\<exists>h' l'. subscribe_handler ''x'' sample_handler ?l = Ret (h', l') \<and> subscriberId l' = 1 \<and>
      (\<forall>hub. LambdaStreamSubscriber l' = Some hub \<longrightarrow>
        map_option sub_ch (ps_subscribers hub 1) = Some (new_channel 0))"
    by (simp add: subscribe_handler_def attachPubSub_def sample_handler_def sample_gateway_handler_def
        StringVal_def Let_def Subscribe_def NewPubSub_def newSubscriber_def subscribe_topic_def subscribe_def)
  then obtain h' l' where s: "subscribe_handler ''x'' sample_handler ?l = Ret (h', l')" "subscriberId l' = 1"
    and empty: "\<And>hub. LambdaStreamSubscriber l' = Some hub \<Longrightarrow>
      map_option sub_ch (ps_subscribers hub 1) = Some (new_channel 0)" by blast
  have h: "StringVal (ServerStreamTopicPrefix ?l) = Ret ''p:''" "LambdaStreamSubscriber ?l = Some (NewPubSub 0 0)"
    "all_open (NewPubSub 0 0)" "ch_items (ps_stream (NewPubSub 0 0)) = []" "\<not> ch_closed (ps_stream (NewPubSub 0 0))"
    by (simp_all add: sample_gateway_handler_def StringVal_def all_open_def NewPubSub_def new_channel_def)
  from notification_reaches_handler [OF s(1) _ h(2,1) ps_ok_new h(3-5),
      of "\<lambda>b. Inr \<lparr>Service = [], Method = b\<rparr>" "''m''" "\<lparr>Service = [], Method = ''m''\<rparr>",
      unfolded s(2) append.simps]
  obtain hub t where hub: "LambdaStreamSubscriber l' = Some hub" "ps_subscribers hub 1 = Some t"
    and all: "\<forall>waits. \<exists>hub' s'. Listen ?D True ?es (ready_hub waits 1 hub) = Ran hub' \<and>
        ps_subscribers hub' 1 = Some s' \<and>
        ch_items (sub_ch s') = ch_items (sub_ch t) @ (if waits \<or> ch_room (sub_ch t) > 0 then [?m] else []) \<and>
        {j. \<not> lists_topic hub j ''p:x''} \<subseteq> {j. ps_subscribers hub' j = ps_subscribers hub j}" by blast
  from empty [OF hub(1)] hub(2) have "ch_items (sub_ch t) = []" "ch_room (sub_ch t) = 0"
    by (simp_all add: new_channel_def)
  with spec [OF all, of True] spec [OF all, of False] obtain hub' s' hub'' s'' where
    "Listen ?D True ?es (ready_hub True 1 hub) = Ran hub'" "ps_subscribers hub' 1 = Some s'"
    "ch_items (sub_ch s') = [?m]" "Listen ?D True ?es (ready_hub False 1 hub) = Ran hub''"
    "ps_subscribers hub'' 1 = Some s''" "ch_items (sub_ch s'') = []"
    by (simp del: Listen.simps) blast
  with s(1) hub(1) show ?thesis by blast
qed

end
