(* ===== verification/Temporal.thy ===== *)
theory Temporal
  imports Config
begin

text \<open>
  The Temporal client of \<^verbatim>\<open>provider/temporal\<close>: the payload converter
  (\<^verbatim>\<open>protojson.go\<close>), which works by reflection on Go values, and the options of the client
  (\<^verbatim>\<open>temporal.go\<close>). The JSON libraries are parameters.
\<close>

section \<open>Go values as reflection sees them\<close>

text \<open>
  Types and values of the kinds the converter tells apart: a struct by its name, a pointer by
  the type it points to, an interface variable, the map type \<^verbatim>\<open>map[string]interface{}\<close>, any
  other type by its name. \<open>'m\<close> is the contents of a struct, \<open>'j\<close> of such a map.
\<close>

datatype go_type = TStruct string | TPtr go_type | TInterface | TMap | TOther string

datatype ('m, 'j) go_val = VStruct string 'm | VPtr go_type "('m, 'j) go_val option"
  | VInterface "('m, 'j) go_val option" | VMap 'j | VOther string

fun type_of :: "('m, 'j) go_val \<Rightarrow> go_type" where
  "type_of (VStruct n m) = TStruct n"
| "type_of (VPtr t v) = TPtr t"
| "type_of (VInterface v) = TInterface"
| "type_of (VMap j) = TMap"
| "type_of (VOther n) = TOther n"

text \<open>
  The libraries. \<open>pe_message n\<close>: pointers to the struct \<open>n\<close> are protobuf messages.
  \<open>pe_unmarshal allow discard\<close> is \<^verbatim>\<open>protojson\<close>'s \<^verbatim>\<open>Unmarshal\<close> with the two options; it fills the
  message it is given, also when it fails. The last three are the SDK's metadata keys and the
  name of the encoding.
\<close>

record ('m, 'j) payload_env =
  pe_message :: "string \<Rightarrow> bool"
  pe_zero :: "string \<Rightarrow> 'm"
  pe_nil_map :: 'j
  pe_marshal :: "string \<Rightarrow> 'm \<Rightarrow> goerr + bytes"
  pe_unmarshal :: "bool \<Rightarrow> bool \<Rightarrow> string \<Rightarrow> bytes \<Rightarrow> 'm \<Rightarrow> goerr option \<times> 'm"
  pe_json :: "'j \<Rightarrow> goerr + bytes"
  pe_encoding_key :: string
  pe_type_key :: string
  pe_proto_json :: string

fun zero_of :: "('m, 'j) payload_env \<Rightarrow> go_type \<Rightarrow> ('m, 'j) go_val" where
  "zero_of E (TStruct n) = VStruct n (pe_zero E n)"
| "zero_of E (TPtr t) = VPtr t None"
| "zero_of E TInterface = VInterface None"
| "zero_of E TMap = VMap (pe_nil_map E)"
| "zero_of E (TOther n) = VOther n"

section \<open>The payload converter\<close>

record payload =
  pl_metadata :: "string \<rightharpoonup> bytes"
  pl_data :: bytes

datatype payload_error = ErrUnableToEncode goerr | ErrUnableToDecode goerr | ErrValuePtrIsNotPointer
  | ErrUnableToSetValue | ErrValuePtrMustConcreteType | ErrTypeNotImplementProtoMessage

text \<open>The options the converter is made with: \<^verbatim>\<open>AllowPartial\<close> and \<^verbatim>\<open>DiscardUnknown\<close>.\<close>

record ProtoJSONPayloadConverter =
  unmarshal_allow_partial :: bool
  unmarshal_discard_unknown :: bool
  marshal_multiline :: bool
  marshal_allow_partial :: bool

definition NewProtoJSONPayloadConverter :: ProtoJSONPayloadConverter where
  "NewProtoJSONPayloadConverter = \<lparr>unmarshal_allow_partial = True, unmarshal_discard_unknown = True,
     marshal_multiline = False, marshal_allow_partial = True\<rparr>"

definition jsonNil :: bytes where "jsonNil = ''null''"

definition Encoding :: "('m, 'j) payload_env \<Rightarrow> bytes" where
  [simp]: "Encoding E = pe_proto_json E"

definition newPayload :: "('m, 'j) payload_env \<Rightarrow> bytes \<Rightarrow> payload" where
  "newPayload E data = \<lparr>pl_metadata = [pe_encoding_key E \<mapsto> Encoding E], pl_data = data\<rparr>"

definition newProtoPayload :: "('m, 'j) payload_env \<Rightarrow> bytes \<Rightarrow> string \<Rightarrow> payload" where
  "newProtoPayload E data messageType =
     \<lparr>pl_metadata = [pe_encoding_key E \<mapsto> Encoding E, pe_type_key E \<mapsto> messageType], pl_data = data\<rparr>"

definition pointerTo :: "('m, 'j) go_val \<Rightarrow> ('m, 'j) go_val" where
  "pointerTo v = VPtr (type_of v) (Some v)"

text \<open>The message a nil pointer is made to point to, by the name of its struct.\<close>

definition newOfSameType :: "('m, 'j) payload_env \<Rightarrow> string \<Rightarrow> 'm" where
  [simp]: "newOfSameType E n = pe_zero E n"

fun isInterfaceNil :: "('m, 'j) go_val option \<Rightarrow> bool" where
  "isInterfaceNil None = True"
| "isInterfaceNil (Some (VPtr t None)) = True"
| "isInterfaceNil _ = False"

text \<open>One round of the loop of \<^verbatim>\<open>ToPayload\<close>: a map, a message, or neither.\<close>

fun payload_of :: "('m, 'j) payload_env \<Rightarrow> ('m, 'j) go_val \<Rightarrow> (payload_error + payload) option" where
  "payload_of E (VMap j) = Some (case pe_json E j of
      Inl e \<Rightarrow> Inl (ErrUnableToEncode e) | Inr buf \<Rightarrow> Inr (newProtoPayload E buf ''Unknown''))"
| "payload_of E (VPtr (TStruct n) (Some (VStruct n' m))) =
     (if pe_message E n then Some (case pe_marshal E n m of
        Inl e \<Rightarrow> Inl (ErrUnableToEncode e) | Inr buf \<Rightarrow> Inr (newProtoPayload E buf n)) else None)"
| "payload_of E v = None"

text \<open>\<open>Inr None\<close> is the nil payload, which tells the SDK to try its next converter.\<close>

definition ToPayload :: "('m, 'j) payload_env \<Rightarrow> ('m, 'j) go_val option \<Rightarrow> payload_error + payload option" where
  "ToPayload E value =
     (if isInterfaceNil value then Inr (Some (newPayload E jsonNil))
      else case payload_of E (the value) of
        Some r \<Rightarrow> map_sum id Some r
      | None \<Rightarrow> (case payload_of E (pointerTo (the value)) of
          Some r \<Rightarrow> map_sum id Some r | None \<Rightarrow> Inr None))"

text \<open>Decoding into the message of a struct: the default options of the package are used.\<close>

definition decode_into ::
    "('m, 'j) payload_env \<Rightarrow> payload \<Rightarrow> string \<Rightarrow> 'm \<Rightarrow> payload_error option \<times> 'm" where
  "decode_into E p n m = (case pe_unmarshal E False False n (pl_data p) m of
      (err, m') \<Rightarrow> (map_option ErrUnableToDecode err, m'))"

fun is_message_type :: "('m, 'j) payload_env \<Rightarrow> go_type \<Rightarrow> bool" where
  "is_message_type E (TPtr (TStruct n)) = pe_message E n"
| "is_message_type E _ = False"

text \<open>The value \<open>valuePtr\<close> points to, decoded: an error and the value after the call.\<close>

fun decode_value ::
    "('m, 'j) payload_env \<Rightarrow> payload \<Rightarrow> ('m, 'j) go_val \<Rightarrow> payload_error option \<times> ('m, 'j) go_val" where
  "decode_value E p (VInterface v) = (Some ErrValuePtrMustConcreteType, VInterface v)"
| "decode_value E p (VStruct n m) =
     (if is_message_type E (TPtr (TStruct n))
      then (let (err, m') = decode_into E p n m in (err, VStruct n m'))
      else (Some ErrTypeNotImplementProtoMessage, VStruct n m))"
| "decode_value E p (VPtr (TStruct n) v) =
     (if is_message_type E (TPtr (TStruct n))
      then (let m = (case v of Some (VStruct n' m) \<Rightarrow> m | _ \<Rightarrow> newOfSameType E n);
                (err, m') = decode_into E p n m
            in (err, VPtr (TStruct n) (Some (VStruct n m'))))
      else (Some ErrTypeNotImplementProtoMessage, VPtr (TStruct n) v))"
| "decode_value E p v = (Some ErrTypeNotImplementProtoMessage, v)"

fun FromPayload ::
    "('m, 'j) payload_env \<Rightarrow> payload \<Rightarrow> ('m, 'j) go_val \<Rightarrow> payload_error option \<times> ('m, 'j) go_val" where
  "FromPayload E p (VPtr t None) = (Some ErrUnableToSetValue, VPtr t None)"
| "FromPayload E p (VPtr t (Some v)) =
     (if pl_data p = jsonNil then (None, VPtr t (Some (zero_of E t)))
      else let (err, v') = decode_value E p v in (err, VPtr t (Some v')))"
| "FromPayload E p v = (Some ErrValuePtrIsNotPointer, v)"

definition ToString :: "payload \<Rightarrow> string" where
  "ToString p = pl_data p"

section \<open>The client\<close>

datatype data_converter = NilConverter | ByteSliceConverter | ProtoJSONConverter ProtoJSONPayloadConverter
  | JSONConverter

record client_options =
  op_namespace :: string
  op_host_port :: string
  op_converters :: "data_converter list"

record 'f TemporalBuilder =
  Namespace :: "'f config"
  HostPort :: "'f config"

definition GetTemporalClient ::
    "(client_options \<Rightarrow> goerr + 'c) \<Rightarrow> 'f TemporalBuilder \<Rightarrow> 'c val" where
  "GetTemporalClient dial t = val_then (StringVal (Namespace t)) (\<lambda>ns.
     val_then (StringVal (HostPort t)) (\<lambda>hostPort.
       case dial \<lparr>op_namespace = (if ns = [] then ''default'' else ns), op_host_port = hostPort,
           op_converters = [NilConverter, ByteSliceConverter,
             ProtoJSONConverter NewProtoJSONPayloadConverter, JSONConverter]\<rparr> of
         Inl e \<Rightarrow> Panics ''Unable to dial temporal server'' | Inr c \<Rightarrow> Ret c))"

section \<open>A small instance\<close>

definition sample_payload_env :: "(nat, nat) payload_env" where
  "sample_payload_env = \<lparr>pe_message = (\<lambda>n. n = ''T''), pe_zero = (\<lambda>n. 0), pe_nil_map = 0,
     pe_marshal = (\<lambda>n m. Inr (CHR ''m'' # replicate m (CHR ''x''))),
     pe_unmarshal = (\<lambda>allow discard n b m. if b = [] then (Some (ErrOther ''eof''), m)
        else if CHR ''?'' \<in> set b \<and> \<not> discard then (Some (ErrOther ''unknown field''), m)
        else (None, length (filter ((=) (CHR ''x'')) b))),
     pe_json = (\<lambda>j. Inr (CHR ''j'' # replicate j (CHR ''y''))),
     pe_encoding_key = ''encoding'', pe_type_key = ''messageType'', pe_proto_json = ''json/protobuf''\<rparr>"

section \<open>Properties\<close>

text \<open>
  C23. A protobuf message survives the trip: encoded from a pointer or from the struct itself, and
  decoded into a struct of its type, into a nil pointer or into a pointer to another message, it
  comes back unchanged, whatever the target held before. This is under the laws that \<^verbatim>\<open>protojson\<close> reads
  back what it wrote, into any message, and that what it wrote is not \<^verbatim>\<open>null\<close>.
\<close>

theorem payload_round_trip:
  assumes "pe_message E n" and "pe_marshal E n m = Inr buf" and "buf \<noteq> jsonNil"
    and law: "\<And>old. pe_unmarshal E False False n buf old = (None, m)"
    and source: "value = VStruct n m \<or> value = VPtr (TStruct n) (Some (VStruct n m))"
  shows "\<exists>p. ToPayload E (Some value) = Inr (Some p) \<and>
    FromPayload E p (VPtr (TStruct n) (Some (VStruct n old))) = (None, VPtr (TStruct n) (Some (VStruct n m))) \<and>
    FromPayload E p (VPtr (TPtr (TStruct n)) (Some (VPtr (TStruct n) None))) =
      (None, VPtr (TPtr (TStruct n)) (Some (VPtr (TStruct n) (Some (VStruct n m))))) \<and>
    FromPayload E p (VPtr (TPtr (TStruct n)) (Some (VPtr (TStruct n) (Some (VStruct n old))))) =
      (None, VPtr (TPtr (TStruct n)) (Some (VPtr (TStruct n) (Some (VStruct n m)))))"
proof (intro exI conjI)
  show "ToPayload E (Some value) = Inr (Some (newProtoPayload E buf n))"
    using assms by (auto simp: ToPayload_def pointerTo_def)
qed (use assms in \<open>simp_all add: newProtoPayload_def decode_into_def\<close>)

theorem payload_round_trip_witness:
  "\<exists>p. ToPayload sample_payload_env (Some (VStruct ''T'' 2)) = Inr (Some p) \<and>
    FromPayload sample_payload_env p (VPtr (TStruct ''T'') (Some (VStruct ''T'' 5))) =
      (None, VPtr (TStruct ''T'') (Some (VStruct ''T'' 2))) \<and>
    FromPayload sample_payload_env p (VPtr (TPtr (TStruct ''T'')) (Some (VPtr (TStruct ''T'') (Some (VStruct ''T'' 5))))) =
      (None, VPtr (TPtr (TStruct ''T'')) (Some (VPtr (TStruct ''T'') (Some (VStruct ''T'' 2)))))"
proof -
  have "pe_message sample_payload_env ''T''" "pe_marshal sample_payload_env ''T'' 2 = Inr ''mxx''"
    "pe_unmarshal sample_payload_env False False ''T'' ''mxx'' old = (None, 2)" for old
    by (simp_all add: sample_payload_env_def eval_nat_numeral)
  from payload_round_trip [OF this(1,2) _ this(3), of "VStruct ''T'' 2" 5] show ?thesis
    unfolding jsonNil_def by blast
qed

text \<open>
  What the converter encodes it cannot always decode: a map is encoded as a payload of this
  converter, and decoding any payload but \<^verbatim>\<open>null\<close> into a map variable fails and leaves the
  variable as it was.
\<close>

theorem map_payload_not_decodable:
  assumes "pe_json E j = Inr buf" and "buf \<noteq> jsonNil"
  shows "\<exists>p. ToPayload E (Some (VMap j)) = Inr (Some p) \<and> pl_data p = buf \<and>
    FromPayload E p (VPtr TMap (Some (VMap old))) =
      (Some ErrTypeNotImplementProtoMessage, VPtr TMap (Some (VMap old)))"
  using assms by (simp add: ToPayload_def newProtoPayload_def)

theorem map_payload_not_decodable_witness:
  "\<exists>p. ToPayload sample_payload_env (Some (VMap 1)) = Inr (Some p) \<and> pl_data p = ''jy'' \<and>
    FromPayload sample_payload_env p (VPtr TMap (Some (VMap 0))) =
      (Some ErrTypeNotImplementProtoMessage, VPtr TMap (Some (VMap 0)))"
  using map_payload_not_decodable [of sample_payload_env 1 "''jy''" 0]
  by (simp add: sample_payload_env_def jsonNil_def)

text \<open>
  The converter's own decoding options are never used: a payload that is refused with the
  package's default options is refused, even if decoding it with the options the converter was
  made with would succeed.
\<close>

theorem decoding_options_unused:
  assumes "pe_message E n" and "pl_data p \<noteq> jsonNil"
    and "pe_unmarshal E False False n (pl_data p) old = (Some e, old')"
    and "fst (pe_unmarshal E (unmarshal_allow_partial NewProtoJSONPayloadConverter)
      (unmarshal_discard_unknown NewProtoJSONPayloadConverter) n (pl_data p) old) = None"
  shows "fst (FromPayload E p (VPtr (TStruct n) (Some (VStruct n old)))) = Some (ErrUnableToDecode e)"
  using assms by (simp add: decode_into_def)

theorem decoding_options_unused_witness:
  "fst (FromPayload sample_payload_env \<lparr>pl_metadata = Map.empty, pl_data = ''m?x''\<rparr>
    (VPtr (TStruct ''T'') (Some (VStruct ''T'' 5)))) = Some (ErrUnableToDecode (ErrOther ''unknown field''))"
  using decoding_options_unused [of sample_payload_env "''T''" "\<lparr>pl_metadata = Map.empty, pl_data = ''m?x''\<rparr>" 5
      "ErrOther ''unknown field''" 5]
  by (simp add: sample_payload_env_def jsonNil_def NewProtoJSONPayloadConverter_def)

end
