(* ===== verification/Envoy.thy ===== *)
theory Envoy
  imports Messages
begin

text \<open>
  The data the xDS server publishes, \<^verbatim>\<open>provider/envoy/envoy_routes.go\<close>,
  \<^verbatim>\<open>envoy_clusters.go\<close>, \<^verbatim>\<open>envoy_resources.go\<close> and \<^verbatim>\<open>helpers.go\<close>. Envoy's messages
  are records of the fields the code sets, constant ones included, except the names and version
  constants that \<^verbatim>\<open>go-control-plane\<close> defines (\<^verbatim>\<open>DefaultAPIVersion\<close>,
  \<^verbatim>\<open>wellknown.HTTPConnectionManager\<close>); a message packed in an \<^verbatim>\<open>Any\<close> is the message.
  Hashing, kebab case and the seconds of a duration are parameters.
\<close>

section \<open>Virtual hosts\<close>

record envoy_route =
  er_name :: string
  er_prefix :: string
  er_timeout :: "duration_msg option"
  er_cluster :: string
  er_prefix_rewrite :: string
  er_grpc_timeout_header_max :: nat

record cors_policy =
  cp_allow_origin_prefix :: "string list"
  cp_allow_headers :: string
  cp_allow_methods :: string
  cp_expose_headers :: string
  cp_max_age :: string

record virtual_host =
  vh_name :: string
  vh_domains :: "string list"
  vh_routes :: "envoy_route list"
  vh_cors :: "cors_policy option"

record virtualHostExt =
  vx_host :: virtual_host
  vx_route_map :: "string list"
  vx_sha256 :: bytes

text \<open>
  \<open>rt_marshal\<close> and \<open>rt_vh_marshal\<close>: protobuf encodings; \<open>rt_seconds\<close>: the whole seconds of
  a duration, computed in floating point.
\<close>

record routing_env =
  rv_marshal :: "routing_route \<Rightarrow> bytes"
  rv_vh_marshal :: "virtual_host \<Rightarrow> bytes"
  rv_sha256 :: "bytes \<Rightarrow> bytes"
  rv_hex :: "bytes \<Rightarrow> string"
  rv_kebab :: "string \<Rightarrow> string"
  rv_seconds :: "duration_msg \<Rightarrow> int64"

definition hashRoute :: "routing_env \<Rightarrow> routing_route \<Rightarrow> string list \<Rightarrow> string" where
  "hashRoute E route sfx = rv_hex E (rv_sha256 E (rv_marshal E route @ concat sfx))"

definition toEnvoyRoute :: "routing_route \<Rightarrow> envoy_route" where
  "toEnvoyRoute route = \<lparr>er_name = [], er_prefix = rt_match_prefix route, er_timeout = rt_timeout route,
     er_cluster = rt_target_service route, er_prefix_rewrite = rt_prefix_rewrite route,
     er_grpc_timeout_header_max = 0\<rparr>"

definition vhx_hash :: "routing_env \<Rightarrow> virtualHostExt \<Rightarrow> virtualHostExt" where
  "vhx_hash E v = v\<lparr>vx_sha256 := rv_sha256 E (rv_vh_marshal E (vx_host v))\<rparr>"

definition isEqual :: "virtualHostExt \<Rightarrow> virtualHostExt \<Rightarrow> bool" where
  "isEqual v b \<longleftrightarrow> vx_sha256 b = vx_sha256 v"

text \<open>\<^verbatim>\<open>strconv.FormatInt(i, 10)\<close>.\<close>

definition dec_int :: "int64 \<Rightarrow> string" where
  "dec_int i = (if sint i < 0 then CHR ''-'' # dec (nat (- sint i)) else dec (nat (sint i)))"

definition makeCors :: "routing_env \<Rightarrow> routing_policy \<Rightarrow> cors_policy option" where
  "makeCors E policy = (case rp_cors policy of
     None \<Rightarrow> None
   | Some c \<Rightarrow>
      (let hasCors = (rc_allow_origin_prefix c \<noteq> [] \<or> rc_allow_headers c \<noteq> [] \<or>
             rc_allow_methods c \<noteq> [] \<or> rc_expose_headers c \<noteq> [] \<or> rc_max_age c \<noteq> None)
       in if hasCors then Some
            \<lparr>cp_allow_origin_prefix = rc_allow_origin_prefix c,
             cp_allow_headers = join_with '','' (rc_allow_headers c),
             cp_allow_methods = join_with '','' (rc_allow_methods c),
             cp_expose_headers = join_with '','' (rc_expose_headers c),
             cp_max_age = (case rc_max_age c of None \<Rightarrow> [] | Some d \<Rightarrow> dec_int (rv_seconds E d) @ ''s'')\<rparr>
          else None))"

section \<open>Routing\<close>

record routing =
  rg_updated :: "string \<rightharpoonup> virtual_host"
  rg_dropped :: "string list"
  rg_resources :: "string \<rightharpoonup> routing_policy"
  rg_virtual_hosts :: "string \<rightharpoonup> virtualHostExt"

definition newRouting :: routing where
  "newRouting = \<lparr>rg_updated = Map.empty, rg_dropped = [], rg_resources = Map.empty,
     rg_virtual_hosts = Map.empty\<rparr>"

text \<open>The dropped names, a set, are listed in the order a \<^verbatim>\<open>range\<close> visits them.\<close>

definition routing_take :: "routing \<Rightarrow> ((string \<rightharpoonup> virtual_host) \<times> string list) \<times> routing" where
  "routing_take r = ((rg_updated r, rg_dropped r), r\<lparr>rg_updated := Map.empty, rg_dropped := []\<rparr>)"

definition routing_dropPolicy :: "string \<Rightarrow> routing \<Rightarrow> routing" where
  "routing_dropPolicy resourceId r = r\<lparr>rg_resources := (rg_resources r)(resourceId := None)\<rparr>"

definition routing_putPolicy :: "string \<Rightarrow> routing_policy \<Rightarrow> routing \<Rightarrow> routing" where
  "routing_putPolicy resourceId policy r = r\<lparr>rg_resources := (rg_resources r)(resourceId \<mapsto> policy)\<rparr>"

definition sortStringKeys :: "(string \<rightharpoonup> 'v) \<Rightarrow> string list" where
  "sortStringKeys m = sorted_keys m"

text \<open>\<^verbatim>\<open>processChanges\<close>, its first loop: one policy folded into the virtual hosts.\<close>

definition vhost_name :: "routing_env \<Rightarrow> routing_policy \<Rightarrow> string" where
  "vhost_name E policy = join_with ''/'' [rp_ingress_name policy, rv_kebab E (rp_domain policy)]"

definition new_vhost :: "routing_env \<Rightarrow> routing_policy \<Rightarrow> virtualHostExt" where
  "new_vhost E policy = \<lparr>vx_host = \<lparr>vh_name = vhost_name E policy, vh_domains = [rp_domain policy],
     vh_routes = [], vh_cors = makeCors E policy\<rparr>, vx_route_map = [], vx_sha256 = []\<rparr>"

definition add_route :: "routing_env \<Rightarrow> routing_policy \<Rightarrow> virtualHostExt \<Rightarrow> routing_route \<Rightarrow> virtualHostExt" where
  "add_route E policy vhx route =
     (let routeName = hashRoute E route [rp_ingress_name policy, rp_domain policy]
      in if routeName \<in> set (vx_route_map vhx) then vhx
         else vhx\<lparr>vx_route_map := routeName # vx_route_map vhx,
           vx_host := (vx_host vhx)\<lparr>vh_routes := vh_routes (vx_host vhx) @
             [(toEnvoyRoute route)\<lparr>er_name := routeName\<rparr>]\<rparr>\<rparr>)"

definition add_policy :: "routing_env \<Rightarrow> (string \<rightharpoonup> virtualHostExt) \<Rightarrow> routing_policy \<Rightarrow> string \<rightharpoonup> virtualHostExt" where
  "add_policy E m policy =
     (let name = vhost_name E policy;
          vhx = (case m name of Some v \<Rightarrow> v | None \<Rightarrow> new_vhost E policy)
      in m(name \<mapsto> vhx_hash E (foldl (add_route E policy) vhx (rp_routes policy))))"

definition build_vhosts :: "routing_env \<Rightarrow> (string \<rightharpoonup> routing_policy) \<Rightarrow> string \<rightharpoonup> virtualHostExt" where
  "build_vhosts E resources = foldl (\<lambda>m resourceId. case resources resourceId of
     None \<Rightarrow> m | Some policy \<Rightarrow> add_policy E m policy) Map.empty (sortStringKeys resources)"

text \<open>Its other two loops; \<open>olds\<close> and \<open>news\<close> are the orders in which they visit their maps.\<close>

definition diff_old :: "(string \<rightharpoonup> virtualHostExt) \<Rightarrow> (string \<rightharpoonup> virtualHostExt) \<Rightarrow> routing \<Rightarrow> string \<Rightarrow> routing" where
  "diff_old old vhxMap r name = (case old name of
     None \<Rightarrow> r
   | Some vh \<Rightarrow> (case vhxMap name of
       Some vhx \<Rightarrow> if \<not> isEqual vhx vh then r\<lparr>rg_updated := (rg_updated r)(name \<mapsto> vx_host vhx)\<rparr> else r
     | None \<Rightarrow> r\<lparr>rg_dropped := List.insert name (rg_dropped r)\<rparr>))"

definition diff_new :: "(string \<rightharpoonup> virtualHostExt) \<Rightarrow> (string \<rightharpoonup> virtualHostExt) \<Rightarrow> routing \<Rightarrow> string \<Rightarrow> routing" where
  "diff_new old vhxMap r name = (case vhxMap name of
     None \<Rightarrow> r
   | Some vhx \<Rightarrow> if old name \<noteq> None then r
       else r\<lparr>rg_updated := (rg_updated r)(name \<mapsto> vx_host vhx)\<rparr>)"

definition processChanges :: "routing_env \<Rightarrow> string list \<Rightarrow> string list \<Rightarrow> routing \<Rightarrow> routing" where
  "processChanges E olds news r =
     (let vhxMap = build_vhosts E (rg_resources r);
          r1 = foldl (diff_old (rg_virtual_hosts r) vhxMap) r olds;
          r2 = foldl (diff_new (rg_virtual_hosts r) vhxMap) r1 news
      in r2\<lparr>rg_virtual_hosts := vhxMap\<rparr>)"

section \<open>Clusters and endpoints\<close>

text \<open>\<^verbatim>\<open>envoyClusters\<close>: resource id to set of cluster names.\<close>

type_synonym envoyClusters = "string \<rightharpoonup> string list"

definition clusters_Add :: "string \<Rightarrow> string \<Rightarrow> envoyClusters \<Rightarrow> envoyClusters" where
  "clusters_Add resourceId clusterName m =
     m(resourceId \<mapsto> List.insert clusterName (case m resourceId of None \<Rightarrow> [] | Some l \<Rightarrow> l))"

definition clusters_Delete :: "string \<Rightarrow> envoyClusters \<Rightarrow> envoyClusters" where
  "clusters_Delete resourceId m = m(resourceId := None)"

datatype socket_protocol = TCP | UDP

record lb_endpoint =
  le_hostname :: string
  le_protocol :: socket_protocol
  le_address :: string
  le_port :: "32 word"

definition to_endpoint :: "instance_msg \<Rightarrow> lb_endpoint" where
  "to_endpoint inst = \<lparr>le_hostname = in_hostname inst,
     le_protocol = (if in_transport_protocol inst = TRANSPORT_PROTOCOL_UDP then UDP else TCP),
     le_address = in_address inst, le_port = in_port inst\<rparr>"

type_synonym localities = "string \<rightharpoonup> (string \<rightharpoonup> lb_endpoint list)"
type_synonym clustersEndpoints = "string \<rightharpoonup> localities"

definition add_instance :: "localities \<Rightarrow> instance_msg \<Rightarrow> localities" where
  "add_instance cluster inst =
     (let region = (case cluster (in_region inst) of None \<Rightarrow> Map.empty | Some r \<Rightarrow> r);
          zone = (case region (in_zone inst) of None \<Rightarrow> [] | Some z \<Rightarrow> z)
      in cluster(in_region inst \<mapsto> region(in_zone inst \<mapsto> zone @ [to_endpoint inst])))"

definition endpoints_Add :: "string \<Rightarrow> instance_msg list \<Rightarrow> clustersEndpoints \<Rightarrow> clustersEndpoints" where
  "endpoints_Add clusterName instances m =
     m(clusterName \<mapsto> foldl add_instance
       (case m clusterName of None \<Rightarrow> Map.empty | Some c \<Rightarrow> c) instances)"

record locality =
  lo_region :: string
  lo_zone :: string

record locality_endpoints =
  ll_locality :: "locality option"
  ll_endpoints :: "lb_endpoint list"

record load_assignment =
  la_cluster_name :: string
  la_endpoints :: "locality_endpoints list"

definition to_locality :: "string \<Rightarrow> string \<Rightarrow> locality option" where
  "to_locality region zone = (if region \<noteq> [] then Some \<lparr>lo_region = region, lo_zone = zone\<rparr> else None)"

text \<open>\<open>order\<close>: the regions and zones in the order the two nested loops visit them.\<close>

definition ToLoadAssignment :: "(string \<times> string) list \<Rightarrow> string \<Rightarrow> clustersEndpoints \<Rightarrow> load_assignment option" where
  "ToLoadAssignment order clusterName m = (case m clusterName of
     None \<Rightarrow> None
   | Some cluster \<Rightarrow> Some \<lparr>la_cluster_name = clusterName,
       la_endpoints = List.map_filter (\<lambda>(region, zone). case cluster region of
           None \<Rightarrow> None
         | Some zoneMap \<Rightarrow> map_option (\<lambda>endpoints. \<lparr>ll_locality = to_locality region zone,
             ll_endpoints = endpoints\<rparr>) (zoneMap zone)) order\<rparr>)"

definition createClusterLoadId :: "string \<Rightarrow> string \<Rightarrow> string" where
  "createClusterLoadId clusterName resourceId = join_with ''-'' [clusterName, resourceId]"

section \<open>Listeners\<close>

datatype jwks_source = RemoteJwks string string "duration_msg option"
  | LocalJwksFilename string | LocalJwksInline string | LocalJwksNone

record envoy_jwt_provider =
  ej_issuer :: string
  ej_audiences :: "string list"
  ej_forward :: bool
  ej_claim_to_headers :: "(string \<times> string) list"
  ej_from_headers :: "(string \<times> string) list"
  ej_jwks :: "jwks_source option"

datatype jwt_requirement = RequireProvider string | RequireAny "string list"

record requirement_rule =
  rr_prefix :: string
  rr_case_sensitive :: bool
  rr_requires :: jwt_requirement

record jwt_authentication =
  ja_providers :: "string \<rightharpoonup> envoy_jwt_provider"
  ja_rules :: "requirement_rule list"

definition to_jwt_provider :: "jwt_provider \<Rightarrow> envoy_jwt_provider" where
  "to_jwt_provider p = \<lparr>ej_issuer = jp_issuer p, ej_audiences = jp_audiences p, ej_forward = jp_forward p,
     ej_claim_to_headers = map (\<lambda>c. (cth_header_name c, cth_claim_name c)) (jp_claim_to_headers p),
     ej_from_headers = map (\<lambda>h. (fh_header_name h, fh_value_prefix h)) (jp_from_headers p),
     ej_jwks = (case jp_remote_jwks p of
         Some r \<Rightarrow> Some (RemoteJwks (rj_http_uri r) (rj_cluster_name r) (rj_timeout r))
       | None \<Rightarrow> (case jp_local_jwks p of
           None \<Rightarrow> None
         | Some l \<Rightarrow> Some (if lj_filename l \<noteq> [] then LocalJwksFilename (lj_filename l)
             else if lj_inline_string l \<noteq> [] then LocalJwksInline (lj_inline_string l)
             else LocalJwksNone)))\<rparr>"

definition to_rule :: "jwt_rule \<Rightarrow> requirement_rule" where
  "to_rule r = \<lparr>rr_prefix = jr_match_prefix r, rr_case_sensitive = False,
     rr_requires = (case jr_required_providers_names r of
         [p] \<Rightarrow> RequireProvider p | ps \<Rightarrow> RequireAny ps)\<rparr>"

definition to_jwt_authn :: "jwt_provider list \<Rightarrow> jwt_rule list \<Rightarrow> jwt_authentication" where
  "to_jwt_authn providers rules =
     \<lparr>ja_providers = foldl (\<lambda>m p. m(jp_provider_name p \<mapsto> to_jwt_provider p)) Map.empty providers,
      ja_rules = map to_rule rules\<rparr>"

text \<open>The typed configuration of an HTTP filter of Envoy.\<close>

datatype filter_config = JwtAuthnConfig jwt_authentication
  | HealthCheckConfig bool "(string \<times> string) list"
  | GrpcWebConfig | CorsConfig | RouterConfig

record envoy_filter =
  ef_name :: string
  ef_config :: filter_config

text \<open>One turn of the loop over the filters; a disabled filter and an unset one add nothing.\<close>

definition to_filter :: "string \<Rightarrow> http_filter option \<Rightarrow> envoy_filter list" where
  "to_filter ingress x = (case x of
      None \<Rightarrow> []
    | Some (HttpFilter_JwtAuthn providers rules) \<Rightarrow>
        [\<lparr>ef_name = join_with ''-'' [ingress, ''jwtAuthn''],
          ef_config = JwtAuthnConfig (to_jwt_authn providers rules)\<rparr>]
    | Some (HttpFilter_HealthCheck path) \<Rightarrow>
        [\<lparr>ef_name = join_with ''-'' [ingress, ''healthCheck''], 
          ef_config = HealthCheckConfig False [('':path'', path)]\<rparr>]
    | Some (HttpFilter_GrpcWeb enable) \<Rightarrow>
        (if enable then [\<lparr>ef_name = join_with ''-'' [ingress, ''grpcWeb''], ef_config = GrpcWebConfig\<rparr>] else [])
    | Some (HttpFilter_Cors enable) \<Rightarrow>
        (if enable then [\<lparr>ef_name = join_with ''-'' [ingress, ''cors''], ef_config = CorsConfig\<rparr>] else []))"

text \<open>Where Envoy fetches a resource from: the API type, the cluster, the flags set.\<close>

datatype api_type = GRPC | DELTA_GRPC

record config_source =
  cf_initial_fetch_timeout :: "nat option"
  cf_api_type :: api_type
  cf_set_node_on_first_message_only :: bool
  cf_cluster :: string

datatype codec_type = CodecAUTO

record access_log =
  al_name :: string
  al_text_format :: string

record http_connection =
  hc_stat_prefix :: string
  hc_codec_type :: codec_type
  hc_stream_idle_timeout :: nat
  hc_access_logs :: "access_log list"
  hc_filters :: "envoy_filter list"
  hc_rds_source :: config_source
  hc_route_config :: string

record listener =
  ls_name :: string
  ls_protocol :: socket_protocol
  ls_address :: string
  ls_port :: "32 word"
  ls_connection :: http_connection

record route_configuration =
  rn_name :: string
  rn_ignore_port :: bool
  rn_vhds_source :: config_source

definition ingress_connection :: "http_ingress \<Rightarrow> http_connection" where
  "ingress_connection node = \<lparr>hc_stat_prefix = hi_ingress_name node,
     hc_codec_type = CodecAUTO, hc_stream_idle_timeout = 0,
     hc_access_logs = (if hi_access_log_stdout_format node \<noteq> []
       then [\<lparr>al_name = ''envoy.access_loggers.stdout'', al_text_format = hi_access_log_stdout_format node\<rparr>]
       else []),
     hc_filters = concat (map (to_filter (hi_ingress_name node)) (hi_http_filters node)) @
       [\<lparr>ef_name = join_with ''-'' [hi_ingress_name node, ''httpRouter''], ef_config = RouterConfig\<rparr>],
     hc_rds_source = \<lparr>cf_initial_fetch_timeout = Some 0, cf_api_type = GRPC,
       cf_set_node_on_first_message_only = False, cf_cluster = hi_xds_cluster_name node\<rparr>,
     hc_route_config = hi_ingress_name node\<rparr>"

definition fromHttpIngress :: "http_ingress \<Rightarrow> listener \<times> route_configuration" where
  "fromHttpIngress node =
     (\<lparr>ls_name = hi_ingress_name node, ls_protocol = TCP, ls_address = ''0.0.0.0'', ls_port = hi_listen_port node,
       ls_connection = ingress_connection node\<rparr>,
      \<lparr>rn_name = hi_ingress_name node, rn_ignore_port = True,
       rn_vhds_source = \<lparr>cf_initial_fetch_timeout = Some 0, cf_api_type = DELTA_GRPC,
         cf_set_node_on_first_message_only = True, cf_cluster = hi_xds_cluster_name node\<rparr>\<rparr>)"

section \<open>Services\<close>

datatype http_protocol = Http1Options | Http2Options "32 word"

datatype discovery_type = EDS
datatype lb_policy = ROUND_ROBIN
datatype dns_lookup_family = DnsAUTO

record cluster =
  cl_name :: string
  cl_discovery_type :: discovery_type
  cl_eds_service :: string
  cl_eds_source :: config_source
  cl_lb_policy :: lb_policy
  cl_dns_lookup_family :: dns_lookup_family
  cl_connect_timeout :: "duration_msg option"
  cl_transport_socket :: "string option"
  cl_protocol_options :: "string \<rightharpoonup> http_protocol"

definition http_options_key :: string where
  "http_options_key = ''envoy.extensions.upstreams.http.v3.HttpProtocolOptions''"

definition fromService :: "service \<Rightarrow> cluster" where
  "fromService node = \<lparr>cl_name = sv_service_name node, cl_discovery_type = EDS,
     cl_eds_service = sv_service_name node,
     cl_eds_source = \<lparr>cf_initial_fetch_timeout = None, cf_api_type = GRPC,
       cf_set_node_on_first_message_only = False, cf_cluster = sv_xds_cluster_name node\<rparr>,
     cl_lb_policy = ROUND_ROBIN, cl_dns_lookup_family = DnsAUTO,
     cl_connect_timeout = sv_connect_timeout node,
     cl_transport_socket = (if sv_enable_tls_transport node then Some ''envoy.transport_sockets.tls'' else None),
     cl_protocol_options = (case sv_protocol_options node of
         Some Service_InstanceHttp1Options \<Rightarrow> [http_options_key \<mapsto> Http1Options]
       | Some (Service_InstanceHttp2Options m) \<Rightarrow> [http_options_key \<mapsto> Http2Options m]
       | None \<Rightarrow> Map.empty)\<rparr>"

end
