(* ===== verification/Xds.thy ===== *)
theory Xds
  imports Envoy Synchronizer
begin

text \<open>
  The xDS server of \<^verbatim>\<open>provider/envoy/envoy_xds.go\<close> as an event handler: the names it keeps by
  resource id, the transaction of a batch, and the calls it makes to the snapshot caches of
  \<^verbatim>\<open>go-control-plane\<close>, kept in a log; what a cache makes of its calls is \<open>cache_contents\<close>.
\<close>

section \<open>State\<close>

datatype xds_type = ListenerType | ClusterType | EndpointType | VirtualHostType | RouteType

text \<open>
  The types ordered as \<^verbatim>\<open>Initialize\<close> lists them, so that one order in which a \<^verbatim>\<open>range\<close>
  over \<^verbatim>\<open>resourceMap\<close> may visit them can be written down.
\<close>

definition all_types :: "xds_type list" where
  "all_types = [ListenerType, ClusterType, EndpointType, VirtualHostType, RouteType]"

fun type_index :: "xds_type \<Rightarrow> nat" where
  "type_index ListenerType = 0"
| "type_index ClusterType = 1"
| "type_index EndpointType = 2"
| "type_index VirtualHostType = 3"
| "type_index RouteType = 4"

lemma type_index_inj: "type_index a = type_index b \<longleftrightarrow> a = b"
  by (cases a; cases b) simp_all

instantiation xds_type :: linorder
begin

definition less_eq_xds_type :: "xds_type \<Rightarrow> xds_type \<Rightarrow> bool" where
  "a \<le> b \<longleftrightarrow> type_index a \<le> type_index b"

definition less_xds_type :: "xds_type \<Rightarrow> xds_type \<Rightarrow> bool" where
  "a < b \<longleftrightarrow> type_index a < type_index b"

instance
  by standard (auto simp: less_eq_xds_type_def less_xds_type_def type_index_inj)

end

lemma all_types_enumerates: "distinct all_types" "set all_types = UNIV" "sorted all_types"
proof -
  show "distinct all_types" by (simp add: all_types_def)
  show "sorted all_types" by (simp add: all_types_def less_eq_xds_type_def)
  have "t \<in> set all_types" for t by (cases t) (simp_all add: all_types_def)
  then show "set all_types = UNIV" by blast
qed

text \<open>\<^verbatim>\<open>idNameMap\<close>, without its cache.\<close>

type_synonym idNameMap = "string \<rightharpoonup> string"

definition idName_Set :: "string \<Rightarrow> string \<Rightarrow> idNameMap \<Rightarrow> idNameMap" where
  "idName_Set key v m = m(key \<mapsto> v)"

definition idName_Get :: "string \<Rightarrow> idNameMap \<Rightarrow> string" where
  "idName_Get key m = (case m key of None \<Rightarrow> [] | Some v \<Rightarrow> v)"

definition idName_Delete :: "string \<Rightarrow> idNameMap \<Rightarrow> string \<times> idNameMap" where
  "idName_Delete key m = (case m key of None \<Rightarrow> ([], m) | Some v \<Rightarrow> (v, m(key := None)))"

datatype xds_resource = XListener listener | XRoute route_configuration | XCluster cluster
  | XEndpoints "load_assignment option" | XVirtualHost virtual_host

record envoyXdsTxOperation =
  op_update :: "string \<rightharpoonup> xds_resource"
  op_delete :: "string list"

definition newEnvoyXdsTxOperation :: envoyXdsTxOperation where
  "newEnvoyXdsTxOperation = \<lparr>op_update = Map.empty, op_delete = []\<rparr>"

record envoyXdsTransaction =
  tn_operations :: "xds_type \<Rightarrow> envoyXdsTxOperation"
  tn_endpoints :: clustersEndpoints

record xds =
  xd_names :: "xds_type \<Rightarrow> idNameMap"
  xd_instance_sets :: envoyClusters
  xd_routing :: routing
  xd_tx :: "envoyXdsTransaction option"
  xd_calls :: "(xds_type \<times> (string \<rightharpoonup> xds_resource) \<times> string list) list"

text \<open>
  The routing parameters, unmarshalling, the result of a cache update, and the orders of the
  loops: regions and zones of a cluster, the types in \<^verbatim>\<open>OnDropped\<close> and \<^verbatim>\<open>AfterBatch\<close>, the
  virtual hosts in \<^verbatim>\<open>processChanges\<close>.
\<close>

record xds_env =
  xe_routing :: routing_env
  xe_unmarshal :: "any_msg option \<Rightarrow> goerr + spec_message"
  xe_update :: "(xds_type \<times> (string \<rightharpoonup> xds_resource) \<times> string list) list \<Rightarrow> goerr option"
  xe_zones :: "localities \<Rightarrow> (string \<times> string) list"
  xe_drop_types :: "xds \<Rightarrow> xds_type list"
  xe_types :: "xds \<Rightarrow> xds_type list"
  xe_olds :: "xds \<Rightarrow> string list"
  xe_news :: "xds \<Rightarrow> string list"

definition newIdNameMap :: "string \<rightharpoonup> string" where
  [simp]: "newIdNameMap = Map.empty"

definition new_xds :: xds where
  "new_xds = \<lparr>xd_names = (\<lambda>_. newIdNameMap), xd_instance_sets = Map.empty, xd_routing = newRouting,
     xd_tx = None, xd_calls = []\<rparr>"

section \<open>The event handler\<close>

definition xds_BeforeBatch :: "xds \<Rightarrow> xds eff" where
  "xds_BeforeBatch x = Done (x\<lparr>xd_tx := Some \<lparr>tn_operations = (\<lambda>_. newEnvoyXdsTxOperation),
     tn_endpoints = Map.empty\<rparr>\<rparr>)"

text \<open>Using the transaction; a nil one panics.\<close>

definition with_tx :: "xds \<Rightarrow> (envoyXdsTransaction \<Rightarrow> xds eff) \<Rightarrow> xds eff" where
  "with_tx x f = (case xd_tx x of None \<Rightarrow> Crash ''nil pointer dereference'' | Some t \<Rightarrow> f t)"

definition to_update :: "xds_type \<Rightarrow> string \<Rightarrow> xds_resource \<Rightarrow> envoyXdsTransaction \<Rightarrow> envoyXdsTransaction" where
  "to_update ty name r t = t\<lparr>tn_operations := (tn_operations t)(ty := (tn_operations t ty)
     \<lparr>op_update := (op_update (tn_operations t ty))(name \<mapsto> r)\<rparr>)\<rparr>"

definition to_delete :: "xds_type \<Rightarrow> string list \<Rightarrow> envoyXdsTransaction \<Rightarrow> envoyXdsTransaction" where
  "to_delete ty names t = t\<lparr>tn_operations := (tn_operations t)(ty := (tn_operations t ty)
     \<lparr>op_delete := op_delete (tn_operations t ty) @ names\<rparr>)\<rparr>"

definition set_name :: "xds_type \<Rightarrow> string \<Rightarrow> string \<Rightarrow> xds \<Rightarrow> xds" where
  "set_name ty ident name x = x\<lparr>xd_names := (xd_names x)(ty := idName_Set ident name (xd_names x ty))\<rparr>"

text \<open>
  One cluster name of an instance set. The arguments of \<^verbatim>\<open>instanceSetClusterNames.Add\<close> are in
  the order of the source: the cluster name first.
\<close>

definition add_instances ::
    "xds_env \<Rightarrow> string \<Rightarrow> instance_msg list \<Rightarrow> xds \<times> envoyXdsTransaction \<Rightarrow> string \<Rightarrow> xds \<times> envoyXdsTransaction"
  where "add_instances E ident instances s clusterName =
     (let (x, t) = s;
          eps = endpoints_Add clusterName instances (tn_endpoints t);
          zones = (case eps clusterName of None \<Rightarrow> [] | Some c \<Rightarrow> xe_zones E c)
      in (x\<lparr>xd_instance_sets := clusters_Add clusterName ident (xd_instance_sets x)\<rparr>,
          to_update EndpointType clusterName (XEndpoints (ToLoadAssignment zones clusterName eps))
            (t\<lparr>tn_endpoints := eps\<rparr>)))"

definition xds_OnUpdated :: "xds_env \<Rightarrow> xds \<Rightarrow> resource \<Rightarrow> xds eff" where
  "xds_OnUpdated E x res = (case xe_unmarshal E (r_spec res) of
      Inl e \<Rightarrow> Fail e x
    | Inr (Spec_NetworkingNode (Some (NetworkingNode_HttpIngress node))) \<Rightarrow>
        with_tx x (\<lambda>t. let (lis, routeConf) = fromHttpIngress node; name = ls_name lis
          in Done ((set_name RouteType (r_id res) name (set_name ListenerType (r_id res) name x))
            \<lparr>xd_tx := Some (to_update RouteType name (XRoute routeConf)
               (to_update ListenerType name (XListener lis) t))\<rparr>))
    | Inr (Spec_NetworkingNode (Some (NetworkingNode_InstanceSet is))) \<Rightarrow>
        (if is_match_service_names is = [] then Done x
         else with_tx x (\<lambda>t. let (x, t) = foldl (add_instances E (r_id res) (is_instances is)) (x, t)
            (is_match_service_names is) in Done (x\<lparr>xd_tx := Some t\<rparr>)))
    | Inr (Spec_NetworkingNode (Some (NetworkingNode_RoutingPolicy policy))) \<Rightarrow>
        Done (x\<lparr>xd_routing := routing_putPolicy (r_id res) policy (xd_routing x)\<rparr>)
    | Inr (Spec_NetworkingNode (Some (NetworkingNode_Service node))) \<Rightarrow>
        with_tx x (\<lambda>t. let c = fromService node; name = cl_name c
          in Done ((set_name ClusterType (r_id res) name x)
            \<lparr>xd_tx := Some (to_update ClusterType name (XCluster c) t)\<rparr>))
    | Inr _ \<Rightarrow> Done x)"

text \<open>
  The loop of \<^verbatim>\<open>OnDropped\<close> over the types: the \<^verbatim>\<open>return nil\<close> in the endpoint case leaves
  the whole function.
\<close>

fun drop_types :: "string \<Rightarrow> xds_type list \<Rightarrow> xds \<times> envoyXdsTransaction \<Rightarrow> xds \<times> envoyXdsTransaction" where
  "drop_types ident [] s = s"
| "drop_types ident (ty # tys) (x, t) = (case ty of
      EndpointType \<Rightarrow> (case xd_instance_sets x ident of
          None \<Rightarrow> (x, t)
        | Some resMap \<Rightarrow> drop_types ident tys (x, to_delete EndpointType resMap t))
    | VirtualHostType \<Rightarrow>
        drop_types ident tys (x\<lparr>xd_routing := routing_dropPolicy ident (xd_routing x)\<rparr>, t)
    | _ \<Rightarrow> (let (name, m) = idName_Delete ident (xd_names x ty)
            in drop_types ident tys (x\<lparr>xd_names := (xd_names x)(ty := m)\<rparr>,
                 if name \<noteq> [] then to_delete ty [name] t else t)))"

definition xds_OnDropped :: "xds_env \<Rightarrow> xds \<Rightarrow> resource \<Rightarrow> xds eff" where
  "xds_OnDropped E x res = with_tx x (\<lambda>t. let (x, t) = drop_types (r_id res) (xe_drop_types E x) (x, t)
     in Done (x\<lparr>xd_tx := Some t\<rparr>))"

definition update_cache :: "xds_env \<Rightarrow> envoyXdsTransaction \<Rightarrow> xds \<Rightarrow> xds_type \<Rightarrow> xds eff" where
  "update_cache E t x ty =
     (let op = tn_operations t ty
      in if op_update op \<noteq> Map.empty \<or> op_delete op \<noteq> [] then
           (let calls = xd_calls x @ [(ty, op_update op, op_delete op)]
            in case xe_update E calls of None \<Rightarrow> Done (x\<lparr>xd_calls := calls\<rparr>)
               | Some e \<Rightarrow> Fail e (x\<lparr>xd_calls := calls\<rparr>))
         else Done x)"

definition xds_AfterBatch :: "xds_env \<Rightarrow> xds \<Rightarrow> xds eff" where
  "xds_AfterBatch E x = with_tx x (\<lambda>t.
     let r = processChanges (xe_routing E) (xe_olds E x) (xe_news E x) (xd_routing x);
         ((updatedVhs, droppedVhs), r) = routing_take r;
         t = t\<lparr>tn_operations := (tn_operations t)(VirtualHostType :=
           \<lparr>op_update = map_option XVirtualHost \<circ> updatedVhs, op_delete = droppedVhs\<rparr>)\<rparr>
     in for_each (update_cache E t) (xe_types E x) (x\<lparr>xd_routing := r, xd_tx := Some t\<rparr>))"

definition xds_OnEndOfPage :: "xds \<Rightarrow> xds eff" where
  "xds_OnEndOfPage x = Done x"

definition xds_handler :: "xds_env \<Rightarrow> xds event_handler" where
  "xds_handler E = \<lparr>eh_before_batch = xds_BeforeBatch, eh_on_updated = xds_OnUpdated E,
     eh_on_dropped = xds_OnDropped E, eh_after_batch = xds_AfterBatch E,
     eh_on_end_of_page = xds_OnEndOfPage\<rparr>"

text \<open>
  What \<^verbatim>\<open>LinearCache.UpdateResources\<close> documents: the updates are stored, then the names to
  delete are removed.
\<close>

fun cache_step :: "xds_type \<Rightarrow> (string \<rightharpoonup> xds_resource) \<Rightarrow> xds_type \<times> (string \<rightharpoonup> xds_resource) \<times> string list \<Rightarrow>
    string \<rightharpoonup> xds_resource" where
  "cache_step ty m (ty', upd, del) = (if ty' = ty then (m ++ upd) |` (- set del) else m)"

definition cache_contents :: "xds_type \<Rightarrow> xds \<Rightarrow> string \<rightharpoonup> xds_resource" where
  "cache_contents ty x = foldl (cache_step ty) Map.empty (xd_calls x)"

section \<open>The contract of an event handler\<close>

definition xds_in_batch :: "xds \<Rightarrow> bool" where
  "xds_in_batch x \<longleftrightarrow> xd_tx x \<noteq> None"

lemma with_tx_done: "xds_in_batch x \<Longrightarrow> (\<And>t. xd_tx x = Some t \<Longrightarrow> eff_done I (f t)) \<Longrightarrow> eff_done I (with_tx x f)"
  by (auto simp: with_tx_def xds_in_batch_def)

lemma xds_BeforeBatch_done: "eff_done xds_in_batch (xds_BeforeBatch x)"
  by (simp add: xds_BeforeBatch_def xds_in_batch_def)

lemma update_cache_done: "eff_done (\<lambda>_. True) (update_cache E t x ty)"
  by (auto simp: update_cache_def Let_def split: option.splits)

lemma xds_OnUpdated_done: "xds_in_batch x \<Longrightarrow> eff_done xds_in_batch (xds_OnUpdated E x res)"
  by (auto simp: xds_OnUpdated_def Let_def xds_in_batch_def fromHttpIngress_def with_tx_def
      split: sum.splits spec_message.splits option.splits networking_node.splits prod.splits)

lemma xds_OnDropped_done: "xds_in_batch x \<Longrightarrow> eff_done xds_in_batch (xds_OnDropped E x res)"
  by (auto simp: xds_OnDropped_def Let_def xds_in_batch_def intro!: with_tx_done split: prod.splits)

lemma xds_AfterBatch_done: "xds_in_batch x \<Longrightarrow> eff_done (\<lambda>_. True) (xds_AfterBatch E x)"
  unfolding xds_AfterBatch_def Let_def routing_take_def prod.case
  by (rule with_tx_done) (auto intro!: eff_done_for_each update_cache_done)

interpretation xds_events: batch_handler "xds_handler E" "\<lambda>_. True" xds_in_batch "\<lambda>_. True" for E
  by unfold_locales (simp_all add: xds_handler_def xds_OnUpdated_done xds_OnDropped_done
      xds_AfterBatch_done xds_OnEndOfPage_def xds_BeforeBatch_done)

end
