(* ===== verification/Worker.thy ===== *)
theory Worker
  imports Synchronizer
begin

text \<open>
  The workflow worker, \<^verbatim>\<open>pkg/worker\<close>: the triggers it keeps in step with the store, the
  start options it makes of a trigger, and its calls to Temporal. The Temporal client, random
  and hashed UUIDs, protobuf durations and JSON are parameters; what the client answers depends
  on the calls made before.
\<close>

section \<open>Start options\<close>

datatype reuse_policy = AllowDuplicateFailedOnly | TerminateIfRunning

record retry_options =
  ro_initial_interval :: int64
  ro_maximum_interval :: int64
  ro_maximum_attempts :: int32
  ro_non_retryable :: "string list"

record start_options =
  so_id :: string
  so_task_queue :: string
  so_reuse :: reuse_policy
  so_cron :: string
  so_execution_timeout :: int64
  so_run_timeout :: int64
  so_task_timeout :: int64
  so_retry :: "retry_options option"

datatype 'a temporal_call =
    DescribeWorkflow string
  | ExecuteWorkflow start_options string "'a list"
  | CancelWorkflow string
  | TerminateWorkflow string string

text \<open>What \<^verbatim>\<open>DescribeWorkflowExecution\<close> says: not found, an error, or whether it runs.\<close>

datatype describe_result = DescNotFound | DescError goerr | DescRunning bool

record 'a worker_env =
  we_unmarshal :: "any_msg option \<Rightarrow> goerr + spec_message"
  we_random :: "nat \<Rightarrow> goerr + string"
  we_unique :: "string \<Rightarrow> string"
  we_duration :: "duration_msg option \<Rightarrow> int64 option"
  we_json :: "string \<Rightarrow> goerr + 'a list"
  we_describe :: "'a temporal_call list \<Rightarrow> string \<Rightarrow> describe_result"
  we_result :: "'a temporal_call list \<Rightarrow> 'a temporal_call \<Rightarrow> goerr option"

text \<open>
  The worker's state; a stored trigger may be nil. \<open>wk_randoms\<close> counts the random UUIDs drawn,
  \<open>wk_logged\<close> keeps the errors that are only logged.
\<close>

record 'a worker =
  wk_triggers :: "string \<rightharpoonup> trigger option"
  wk_calls :: "'a temporal_call list"
  wk_randoms :: nat
  wk_logged :: "goerr list"

definition new_worker :: "'a worker" where
  "new_worker = \<lparr>wk_triggers = Map.empty, wk_calls = [], wk_randoms = 0, wk_logged = []\<rparr>"

definition workflowIdFromTrigger :: "'a worker_env \<Rightarrow> trigger \<Rightarrow> nat \<Rightarrow> (goerr + string) \<times> nat" where
  "workflowIdFromTrigger E t n = (case tr_id_suffix t of
      Some (Trigger_ExactIdSuffix s) \<Rightarrow> (Inr (tr_id_prefix t @ s), n)
    | Some (Trigger_IdSuffixBuilder b) \<Rightarrow>
        (if b = ID_BUILDER_ONLY_PREFIX then (Inr (tr_id_prefix t), n)
         else if b = ID_BUILDER_RANDOM then
           (case we_random E n of Inl e \<Rightarrow> (Inl e, Suc n) | Inr u \<Rightarrow> (Inr (tr_id_prefix t @ u), Suc n))
         else if b = ID_BUILDER_UNIQUE then
           (Inr (tr_id_prefix t @ we_unique E (tr_id_prefix t)), n)
         else (Inl (ErrOther ''Invalid ID suffix''), n))
    | None \<Rightarrow> (Inl (ErrOther ''Invalid ID suffix''), n))"

text \<open>A timeout is set when it is valid and positive; the zero value means unset.\<close>

definition positive_duration :: "'a worker_env \<Rightarrow> duration_msg option \<Rightarrow> int64" where
  "positive_duration E d = (case we_duration E d of
     None \<Rightarrow> 0 | Some tout \<Rightarrow> if sint tout > 0 then tout else 0)"

definition to_retry :: "'a worker_env \<Rightarrow> trigger_retry_policy \<Rightarrow> retry_options" where
  "to_retry E r = \<lparr>ro_initial_interval = positive_duration E (rp_initial_interval r),
     ro_maximum_interval = positive_duration E (rp_maximum_backoff r),
     ro_maximum_attempts = (if sint (rp_maximum_attempts r) > 0 then rp_maximum_attempts r else 0),
     ro_non_retryable = rp_non_retryable_errors r\<rparr>"

definition triggerToWorkflowStartOptions ::
    "'a worker_env \<Rightarrow> trigger \<Rightarrow> nat \<Rightarrow> (goerr + start_options) \<times> nat" where
  "triggerToWorkflowStartOptions E t n = (case workflowIdFromTrigger E t n of
      (Inl e, n') \<Rightarrow> (Inl e, n')
    | (Inr i, n') \<Rightarrow> (Inr \<lparr>so_id = i, so_task_queue = tr_task_queue t,
        so_reuse = AllowDuplicateFailedOnly, so_cron = tr_cron_schedule t,
        so_execution_timeout = positive_duration E (tr_execution_timeout t),
        so_run_timeout = positive_duration E (tr_run_timeout t),
        so_task_timeout = positive_duration E (tr_task_timeout t),
        so_retry = map_option (to_retry E) (tr_retry_policy t)\<rparr>, n'))"

section \<open>Triggering\<close>

text \<open>
  \<^verbatim>\<open>checkIfIsRunning\<close> returns an error or nil and may change the reuse policy of the options.
\<close>

definition checkIfIsRunning ::
    "'a worker_env \<Rightarrow> trigger \<Rightarrow> start_options \<Rightarrow> 'a worker \<Rightarrow> goerr option \<times> start_options \<times> 'a worker"
  where "checkIfIsRunning E t opts w =
     (let w' = w\<lparr>wk_calls := wk_calls w @ [DescribeWorkflow (so_id opts)]\<rparr>
      in case we_describe E (wk_calls w) (so_id opts) of
           DescError e \<Rightarrow> (Some e, opts, w')
         | DescNotFound \<Rightarrow> (None, opts, w')
         | DescRunning running \<Rightarrow>
            (case tr_if_running t of
               Some a \<Rightarrow>
                 (if a = IF_RUNNING_ABORT then
                    (if running then (None, opts, w')
                     else (None, opts\<lparr>so_reuse := AllowDuplicateFailedOnly\<rparr>, w'))
                  else if a = IF_RUNNING_OVERLAP then (None, opts\<lparr>so_reuse := TerminateIfRunning\<rparr>, w')
                  else (None, opts, w'))
             | None \<Rightarrow> (Some (ErrOther ''Invalid if running specification''), opts, w')))"

text \<open>A call whose outcome is an error or nil.\<close>

definition temporal :: "'a worker_env \<Rightarrow> 'a temporal_call \<Rightarrow> 'a worker \<Rightarrow> 'a worker eff" where
  "temporal E c w = (let w' = w\<lparr>wk_calls := wk_calls w @ [c]\<rparr>
     in case we_result E (wk_calls w) c of None \<Rightarrow> Done w' | Some e \<Rightarrow> Fail e w')"

text \<open>\<^verbatim>\<open>Trigger\<close>: a nil trigger panics; the result of the check is dropped, as written.\<close>

definition Trigger :: "'a worker_env \<Rightarrow> trigger option \<Rightarrow> 'a worker \<Rightarrow> 'a worker eff" where
  "Trigger E tp w = (case tp of
     None \<Rightarrow> Crash ''nil pointer dereference''
   | Some t \<Rightarrow>
      (case triggerToWorkflowStartOptions E t (wk_randoms w) of
         (Inl e, n) \<Rightarrow> Fail e (w\<lparr>wk_randoms := n\<rparr>)
       | (Inr opts, n) \<Rightarrow>
          (let (_, opts, w) = checkIfIsRunning E t opts (w\<lparr>wk_randoms := n\<rparr>)
           in case we_json E (tr_json_arguments t) of
                Inl e \<Rightarrow> Fail e w
              | Inr args \<Rightarrow> temporal E (ExecuteWorkflow opts (tr_name t) args) w)))"

section \<open>The worker as an event handler\<close>

definition worker_BeforeBatch :: "'a worker \<Rightarrow> 'a worker eff" where
  "worker_BeforeBatch w = Done w"

definition worker_OnUpdated :: "'a worker_env \<Rightarrow> 'a worker \<Rightarrow> resource \<Rightarrow> 'a worker eff" where
  "worker_OnUpdated E w x = (case we_unmarshal E (r_spec x) of
      Inl e \<Rightarrow> Fail e w
    | Inr (Spec_Process proc) \<Rightarrow>
        Done (w\<lparr>wk_triggers := (wk_triggers w)(r_id x \<mapsto> GetTrigger (Some proc))\<rparr>)
    | Inr _ \<Rightarrow> Done w)"

text \<open>
  The comparison with a fresh \<^verbatim>\<open>&serviceerror.NotFound{}\<close> is one of pointers and never holds,
  so every error of the client is returned.
\<close>

definition worker_OnDropped :: "'a worker_env \<Rightarrow> 'a worker \<Rightarrow> resource \<Rightarrow> 'a worker eff" where
  "worker_OnDropped E w x = (case wk_triggers w (r_id x) of
     None \<Rightarrow> Done w
   | Some tp \<Rightarrow>
      (let w = w\<lparr>wk_triggers := (wk_triggers w)(r_id x := None)\<rparr>
       in case tp of
            None \<Rightarrow> Crash ''nil pointer dereference''
          | Some t \<Rightarrow>
             (case workflowIdFromTrigger E t (wk_randoms w) of
                (Inl e, n) \<Rightarrow> Fail e (w\<lparr>wk_randoms := n\<rparr>)
              | (Inr i, n) \<Rightarrow>
                 (let w = w\<lparr>wk_randoms := n\<rparr>
                  in case tr_on_drop t of
                       None \<Rightarrow> Fail (ErrOther ''Invalid on drop action'') w
                     | Some a \<Rightarrow>
                         if a = ON_DROP_DO_NOTHING then Done w
                         else if a = ON_DROP_CANCEL then temporal E (CancelWorkflow i) w
                         else if a = ON_DROP_TERMINATE then
                           temporal E (TerminateWorkflow i ''Enforced by workflow trigger (Protomesh)'') w
                         else Done w))))"

definition worker_AfterBatch :: "'a worker \<Rightarrow> 'a worker eff" where
  "worker_AfterBatch w = Done w"

text \<open>The errors of \<^verbatim>\<open>OnEndOfPage\<close> are logged; \<open>order\<close> is that of its loop.\<close>

definition trigger_one :: "'a worker_env \<Rightarrow> 'a worker \<Rightarrow> string \<Rightarrow> 'a worker eff" where
  "trigger_one E w k = (case wk_triggers w k of
     None \<Rightarrow> Done w
   | Some tp \<Rightarrow> (case Trigger E tp w of
       Done w' \<Rightarrow> Done w' | Fail e w' \<Rightarrow> Done (w'\<lparr>wk_logged := wk_logged w' @ [e]\<rparr>) | Crash p \<Rightarrow> Crash p))"

definition worker_OnEndOfPage :: "'a worker_env \<Rightarrow> string list \<Rightarrow> 'a worker \<Rightarrow> 'a worker eff" where
  "worker_OnEndOfPage E order w = for_each (trigger_one E) order w"

definition worker_handler :: "'a worker_env \<Rightarrow> ('a worker \<Rightarrow> string list) \<Rightarrow> 'a worker event_handler" where
  "worker_handler E ord = \<lparr>eh_before_batch = worker_BeforeBatch, eh_on_updated = worker_OnUpdated E,
     eh_on_dropped = worker_OnDropped E, eh_after_batch = worker_AfterBatch,
     eh_on_end_of_page = (\<lambda>w. worker_OnEndOfPage E (ord w) w)\<rparr>"

section \<open>The contract of an event handler\<close>

text \<open>No stored trigger is nil; a process without a trigger is what would store one.\<close>

definition worker_ok :: "'a worker \<Rightarrow> bool" where
  "worker_ok w \<longleftrightarrow> (\<forall>k. wk_triggers w k \<noteq> Some None)"

definition worker_admits :: "'a worker_env \<Rightarrow> resource \<Rightarrow> bool" where
  "worker_admits E x = (case we_unmarshal E (r_spec x) of
     Inr (Spec_Process proc) \<Rightarrow> GetTrigger (Some proc) \<noteq> None | _ \<Rightarrow> True)"

lemma worker_okD: "worker_ok w \<Longrightarrow> wk_triggers w k = Some tp \<Longrightarrow> \<exists>t. tp = Some t"
  by (cases tp) (auto simp: worker_ok_def)

lemma temporal_calls:
  "eff_safe (\<lambda>w'. \<exists>l. w' = w\<lparr>wk_calls := l\<rparr>) (temporal E c w)"
  by (auto simp: temporal_def Let_def split: option.splits)

lemma temporal_ok: "worker_ok w \<Longrightarrow> eff_safe worker_ok (temporal E c w)"
  by (auto simp: temporal_def Let_def worker_ok_def split: option.splits)

lemma check_triggers:
  "checkIfIsRunning E t opts w = (e, opts', w') \<Longrightarrow> wk_triggers w' = wk_triggers w \<and> so_id opts' = so_id opts"
  by (auto simp: checkIfIsRunning_def Let_def split: describe_result.splits option.splits if_splits)

lemma Trigger_ok:
  assumes "worker_ok w"
  shows "eff_safe worker_ok (Trigger E (Some t) w)"
proof (cases "triggerToWorkflowStartOptions E t (wk_randoms w)")
  case (Pair r n)
  show ?thesis
  proof (cases r)
    case (Inl e)
    with Pair assms show ?thesis by (simp add: Trigger_def worker_ok_def)
  next
    case (Inr opts)
    obtain e opts' w' where c: "checkIfIsRunning E t opts (w\<lparr>wk_randoms := n\<rparr>) = (e, opts', w')"
      by (metis prod_cases3)
    from check_triggers [OF c] assms have "worker_ok w'" by (simp add: worker_ok_def)
    with Pair Inr c show ?thesis by (auto simp: Trigger_def temporal_ok split: sum.splits)
  qed
qed

lemma trigger_one_ok: "worker_ok w \<Longrightarrow> eff_safe worker_ok (trigger_one E w k)"
proof -
  assume ok: "worker_ok w"
  show ?thesis
  proof (cases "wk_triggers w k")
    case None
    with ok show ?thesis by (simp add: trigger_one_def)
  next
    case (Some tp)
    with ok obtain t where t: "tp = Some t" by (blast dest: worker_okD)
    from Trigger_ok [OF ok, of E t] show ?thesis
      by (cases "Trigger E (Some t) w") (simp_all add: trigger_one_def Some t worker_ok_def)
  qed
qed

lemma eff_safe_done: "eff_safe I r \<Longrightarrow> eff_done I r"
  by (cases r) simp_all

lemma worker_OnDropped_ok: "worker_ok w \<Longrightarrow> eff_safe worker_ok (worker_OnDropped E w x)"
proof -
  assume ok: "worker_ok w"
  have del: "worker_ok (w\<lparr>wk_triggers := (wk_triggers w)(r_id x := None), wk_randoms := n\<rparr>)" for n
    using ok by (simp add: worker_ok_def)
  show ?thesis
  proof (cases "wk_triggers w (r_id x)")
    case None
    with ok show ?thesis by (simp add: worker_OnDropped_def)
  next
    case (Some tp)
    with ok obtain t where "tp = Some t" by (blast dest: worker_okD)
    with Some del show ?thesis
      by (auto simp: worker_OnDropped_def Let_def temporal_ok split: prod.splits sum.splits option.splits)
  qed
qed

lemma worker_OnUpdated_ok:
  "worker_ok s \<Longrightarrow> worker_admits E x \<Longrightarrow> eff_done worker_ok (worker_OnUpdated E s x)"
  by (auto simp: worker_OnUpdated_def worker_admits_def worker_ok_def
      split: sum.splits spec_message.splits)

lemma worker_OnEndOfPage_ok: "worker_ok s \<Longrightarrow> eff_done worker_ok (worker_OnEndOfPage E order s)"
  unfolding worker_OnEndOfPage_def by (intro eff_safe_done eff_safe_for_each trigger_one_ok)

interpretation worker_events: batch_handler "worker_handler E ord" worker_ok worker_ok "worker_admits E"
  for E ord
  by unfold_locales (simp_all add: worker_handler_def worker_BeforeBatch_def worker_AfterBatch_def
      worker_OnUpdated_ok worker_OnEndOfPage_ok eff_safe_done worker_OnDropped_ok)

section \<open>Properties\<close>

text \<open>
  A worker that follows the store never panics, whatever the interleaving, the iteration order
  and the answers of Temporal, as long as every process it is given has a trigger, every
  resource a version, and the context is not cancelled.
\<close>

theorem worker_session_never_panics:
  assumes "reachable (worker_handler E ord) script \<lparr>IndexCursor = 0, Handler = new_worker\<rparr> c"
    and "\<forall>m. RecvMsg m \<in> set script \<longrightarrow> response_ok (worker_admits E) m"
    and "ss_main c = M_Panic msg"
  shows "ss_cancelled c"
proof -
  have "worker_ok (Handler \<lparr>IndexCursor = 0, Handler = new_worker\<rparr>)"
    by (simp add: worker_ok_def new_worker_def)
  from worker_events.session_safe [OF assms(1) this] assms(2,3) show ?thesis by blast
qed

text \<open>
  The start options of a trigger: its workflow id begins with the trigger's prefix, an unset,
  invalid or non-positive timeout is left unset, and the draw of a random id is the only effect.
\<close>

theorem start_options_of_trigger:
  "case triggerToWorkflowStartOptions E t n of
      (Inl e, n') \<Rightarrow> fst (workflowIdFromTrigger E t n) = Inl e \<and> n' \<in> {n, Suc n}
    | (Inr opts, n') \<Rightarrow> prefix (tr_id_prefix t) (so_id opts) \<and> so_task_queue opts = tr_task_queue t \<and>
        so_reuse opts = AllowDuplicateFailedOnly \<and> so_cron opts = tr_cron_schedule t \<and>
        0 \<le> sint (so_execution_timeout opts) \<and> 0 \<le> sint (so_run_timeout opts) \<and>
        0 \<le> sint (so_task_timeout opts) \<and>
        so_execution_timeout opts \<in> insert 0 (set_option (we_duration E (tr_execution_timeout t))) \<and>
        so_run_timeout opts \<in> insert 0 (set_option (we_duration E (tr_run_timeout t))) \<and>
        so_task_timeout opts \<in> insert 0 (set_option (we_duration E (tr_task_timeout t))) \<and>
        (so_retry opts = None \<longleftrightarrow> tr_retry_policy t = None) \<and>
        n' = (if tr_id_suffix t = Some (Trigger_IdSuffixBuilder ID_BUILDER_RANDOM) then Suc n else n)"
proof -
  have pos: "0 \<le> sint (positive_duration E d)" for d
    by (auto simp: positive_duration_def split: option.splits)
  have set: "positive_duration E d = 0 \<or> we_duration E d = Some (positive_duration E d)" for d
    by (auto simp: positive_duration_def split: option.splits if_splits)
  obtain r n' where w: "workflowIdFromTrigger E t n = (r, n')" by force
  have n': "n' \<in> {n, Suc n}" and pre: "r = Inr i \<Longrightarrow> prefix (tr_id_prefix t) i \<and>
      n' = (if tr_id_suffix t = Some (Trigger_IdSuffixBuilder ID_BUILDER_RANDOM) then Suc n else n)" for i
    using w by (auto simp: workflowIdFromTrigger_def trigger_enum_defs
        split: option.splits trigger_id_suffix.splits if_splits sum.splits)
  show ?thesis
  proof (cases r)
    case (Inl e)
    with w n' show ?thesis by (auto simp: triggerToWorkflowStartOptions_def)
  next
    case (Inr i)
    from pre [OF this] w Inr pos set show ?thesis by (simp add: triggerToWorkflowStartOptions_def)
  qed
qed

text \<open>
  The check for a running execution stops nothing: whatever it finds, including a running
  workflow of a trigger that asks to abort, a trigger with valid options and arguments is
  started, by exactly one start call after exactly one look-up.
\<close>

theorem trigger_always_executes:
  assumes "triggerToWorkflowStartOptions E t (wk_randoms w) = (Inr opts, n)"
    and "we_json E (tr_json_arguments t) = Inr args"
  shows "\<exists>opts'. so_id opts' = so_id opts \<and>
    (case Trigger E (Some t) w of Done w' \<Rightarrow> wk_calls w' | Fail e w' \<Rightarrow> wk_calls w' | Crash _ \<Rightarrow> []) =
      wk_calls w @ [DescribeWorkflow (so_id opts), ExecuteWorkflow opts' (tr_name t) args]"
proof -
  obtain e opts' w' where c: "checkIfIsRunning E t opts (w\<lparr>wk_randoms := n\<rparr>) = (e, opts', w')"
    by (metis prod_cases3)
  have "so_id opts' = so_id opts" "wk_calls w' = wk_calls w @ [DescribeWorkflow (so_id opts)]"
    using c by (auto simp: checkIfIsRunning_def Let_def split: describe_result.splits option.splits if_splits)
  with assms c show ?thesis
    by (intro exI [of _ opts']) (auto simp: Trigger_def temporal_def Let_def split: option.splits)
qed

text \<open>
  A trigger with a random id that is dropped cancels another workflow than the one it
  started, as random ids do not repeat: the id is drawn again at the drop.
\<close>

theorem random_id_cancels_wrong_workflow:
  assumes rnd: "tr_id_suffix t = Some (Trigger_IdSuffixBuilder ID_BUILDER_RANDOM)"
    and "tr_on_drop t = Some ON_DROP_CANCEL"
    and fresh: "\<forall>n. \<exists>u. we_random E n = Inr u" "inj (we_random E)"
    and start: "Trigger E (Some t) w = Done w1" and stored: "wk_triggers w (r_id x) = Some (Some t)"
  shows "\<exists>opts args i. ExecuteWorkflow opts (tr_name t) args = last (wk_calls w1) \<and> i \<noteq> so_id opts \<and>
    (case worker_OnDropped E w1 x of Done w2 \<Rightarrow> wk_calls w2 | Fail e w2 \<Rightarrow> wk_calls w2 | Crash _ \<Rightarrow> []) =
      wk_calls w1 @ [CancelWorkflow i]"
proof -
  let ?n = "wk_randoms w"
  from fresh(1) obtain u u' where u: "we_random E ?n = Inr u" "we_random E (Suc ?n) = Inr u'" by meson
  have "u \<noteq> u'" using fresh(2) u by (metis injD n_not_Suc_n)
  have ids: "workflowIdFromTrigger E t ?n = (Inr (tr_id_prefix t @ u), Suc ?n)"
    "workflowIdFromTrigger E t (Suc ?n) = (Inr (tr_id_prefix t @ u'), Suc (Suc ?n))"
    using u by (simp_all add: workflowIdFromTrigger_def rnd trigger_enum_defs)
  then obtain opts where o: "triggerToWorkflowStartOptions E t ?n = (Inr opts, Suc ?n)"
    "so_id opts = tr_id_prefix t @ u" by (simp add: triggerToWorkflowStartOptions_def)
  obtain e opts' w' where c: "checkIfIsRunning E t opts (w\<lparr>wk_randoms := Suc ?n\<rparr>) = (e, opts', w')"
    by (metis prod_cases3)
  have w': "so_id opts' = so_id opts" "wk_randoms w' = Suc ?n" "wk_triggers w' = wk_triggers w"
    using c by (auto simp: checkIfIsRunning_def Let_def split: describe_result.splits option.splits if_splits)
  from start o c obtain args where x: "we_json E (tr_json_arguments t) = Inr args"
    and r: "temporal E (ExecuteWorkflow opts' (tr_name t) args) w' = Done w1"
    by (auto simp: Trigger_def split: sum.splits)
  have w1: "w1 = w'\<lparr>wk_calls := wk_calls w' @ [ExecuteWorkflow opts' (tr_name t) args]\<rparr>"
    using r by (auto simp: temporal_def Let_def split: option.splits)
  have "(case worker_OnDropped E w1 x of Done w2 \<Rightarrow> wk_calls w2 | Fail e w2 \<Rightarrow> wk_calls w2 | Crash _ \<Rightarrow> []) =
      wk_calls w1 @ [CancelWorkflow (tr_id_prefix t @ u')]"
    using stored w' ids(2) assms(2)
    by (auto simp: worker_OnDropped_def w1 temporal_def Let_def trigger_enum_defs split: option.splits)
  with w1 o(2) w'(1) \<open>u \<noteq> u'\<close> show ?thesis
    by (intro exI [of _ opts'] exI [of _ args] exI [of _ "tr_id_prefix t @ u'"]) simp
qed

section \<open>Witnesses\<close>

definition sample_trigger :: trigger where
  "sample_trigger = \<lparr>tr_name = ''job'', tr_task_queue = ''q'', tr_id_prefix = ''p-'',
     tr_id_suffix = Some (Trigger_IdSuffixBuilder ID_BUILDER_RANDOM), tr_if_running = Some IF_RUNNING_ABORT,
     tr_cron_schedule = [], tr_execution_timeout = None, tr_run_timeout = None, tr_task_timeout = None,
     tr_json_arguments = ''[]'', tr_retry_policy = None, tr_on_drop = Some ON_DROP_CANCEL\<rparr>"

definition sample_worker_env :: "nat worker_env" where
  "sample_worker_env = \<lparr>we_unmarshal = (\<lambda>_. Inr (Spec_Process \<lparr>pc_process = Some (Process_Trigger sample_trigger)\<rparr>)),
     we_random = (\<lambda>n. Inr (replicate n (CHR ''a''))), we_unique = (\<lambda>s. s), we_duration = (\<lambda>_. None),
     we_json = (\<lambda>_. Inr []), we_describe = (\<lambda>_ _. DescRunning True), we_result = (\<lambda>_ _. None)\<rparr>"

lemmas worker_eval = sample_trigger_def sample_worker_env_def new_worker_def Trigger_def
  triggerToWorkflowStartOptions_def workflowIdFromTrigger_def checkIfIsRunning_def temporal_def
  positive_duration_def trigger_enum_defs

theorem worker_session_never_panics_witness:
  "\<exists>c. reachable (worker_handler sample_worker_env (\<lambda>_. [])) []
      \<lparr>IndexCursor = 0, Handler = new_worker\<rparr> c \<and>
    ss_main c = M_Panic ''nil pointer dereference'' \<and> ss_cancelled c"
proof -
  obtain c where c: "reachable (worker_handler sample_worker_env (\<lambda>_. [])) []
      \<lparr>IndexCursor = 0, Handler = new_worker\<rparr> c" "ss_main c = M_Panic ''nil pointer dereference''"
    using closed_channel_panic by blast
  from worker_session_never_panics [OF c(1) _ c(2)] c show ?thesis by auto
qed

theorem trigger_always_executes_witness:
  "\<exists>w opts. Trigger sample_worker_env (Some sample_trigger) new_worker = Done w \<and>
     wk_calls w = [DescribeWorkflow ''p-'', ExecuteWorkflow opts ''job'' []]"
proof -
  obtain w where w: "Trigger sample_worker_env (Some sample_trigger) new_worker = Done w"
    by (simp add: worker_eval)
  obtain opts n where o: "triggerToWorkflowStartOptions sample_worker_env sample_trigger
      (wk_randoms (new_worker :: nat worker)) = (Inr opts, n)" "so_id opts = ''p-''"
    by (simp add: worker_eval)
  from trigger_always_executes [OF o(1), of "[]"] w o(2) show ?thesis
    by (simp add: sample_worker_env_def sample_trigger_def) (auto simp: new_worker_def)
qed

theorem random_id_cancels_wrong_workflow_witness:
  "\<exists>w w1 i opts args. Trigger sample_worker_env (Some sample_trigger) w = Done w1 \<and>
     last (wk_calls w1) = ExecuteWorkflow opts ''job'' args \<and> i \<noteq> so_id opts"
proof -
  let ?w = "new_worker\<lparr>wk_triggers := [''x'' \<mapsto> Some sample_trigger]\<rparr>"
  let ?x = "\<lparr>r_namespace = [], r_id = ''x'', r_name = [], r_spec = None, r_version = None\<rparr>"
  obtain w1 where w1: "Trigger sample_worker_env (Some sample_trigger) ?w = Done w1"
    by (simp add: worker_eval)
  have rnd: "tr_id_suffix sample_trigger = Some (Trigger_IdSuffixBuilder ID_BUILDER_RANDOM)"
    "tr_on_drop sample_trigger = Some ON_DROP_CANCEL" by (simp_all add: sample_trigger_def)
  have fresh: "\<forall>n. \<exists>u. we_random sample_worker_env n = Inr u" "inj (we_random sample_worker_env)"
    by (auto simp: sample_worker_env_def inj_def dest: arg_cong [of _ _ length])
  have stored: "wk_triggers ?w (r_id ?x) = Some (Some sample_trigger)" by simp
  from random_id_cancels_wrong_workflow [OF rnd fresh w1 stored] obtain opts args i where
    "ExecuteWorkflow opts (tr_name sample_trigger) args = last (wk_calls w1)" "i \<noteq> so_id opts" by blast
  with w1 show ?thesis by (metis trigger.select_convs(1) sample_trigger_def)
qed

end
