(* ===== verification/Commands.thy ===== *)
theory Commands
  imports Redis HttpServer Temporal Xds Worker
begin

text \<open>
  The process of \<^verbatim>\<open>cmd\<close>: the instances it is made of (gateway, store, xDS server, worker),
  each with its initialization, start and stop over the components' models, and \<^verbatim>\<open>main\<close>, a
  sequence of calls and deferred calls each of which may panic.
\<close>

section \<open>The gateway instance\<close>

text \<open>
  \<open>NoContext\<close>: the context and its cancel function are nil. The handlers given to the gateway are
  pointers to the instance's one Lambda handler, which also holds the hub that
  \<^verbatim>\<open>AwsLambdaPubSub\<close> points to (\<open>gi_pub_sub\<close>: it is set).
\<close>

datatype run_context = NoContext | LiveContext | CancelledContext

datatype handler_ref = TheLambdaHandler

record ('f, 'k, 'c, 't) GatewayInstance =
  gi_resource_store :: "('f, 'k, 'c) GrpcClient"
  gi_store_client :: "'c option"
  gi_ctx :: run_context
  gi_handlers :: "'f config"
  gi_gateway :: "('t, handler_ref) gateway option"
  gi_syncing :: bool
  gi_lambda :: "'f LambdaGatewayHandler"
  gi_redis :: "'f RedisClient"
  gi_pub_sub :: bool
  gi_driver :: bool
  gi_listening :: "string list"

definition init_lambda :: "('f, 'k, 'c, 't) GatewayInstance \<Rightarrow> ('f, 'k, 'c, 't) GatewayInstance val" where
  "init_lambda p =
     val_then (LambdaGatewayHandler_Initialize (gi_lambda p)) (\<lambda>l.
     val_then (StringVal (ServerStreamTopicPrefix l)) (\<lambda>streamPrefix.
       Ret (if rc_client (gi_redis p) \<noteq> None \<and> streamPrefix \<noteq> []
            then p\<lparr>gi_pub_sub := True, gi_driver := True,
                   gi_lambda := l\<lparr>LambdaStreamSubscriber := Some (NewPubSub 0 0)\<rparr>\<rparr>
            else p\<lparr>gi_lambda := l\<rparr>)))"

text \<open>\<open>to_snake\<close> is \<^verbatim>\<open>strcase.ToSnake\<close>.\<close>

fun init_handlers ::
    "(string \<Rightarrow> string) \<Rightarrow> string list \<Rightarrow> ('f, 'k, 'c, 't) GatewayInstance \<Rightarrow>
     (handler_ref list \<times> ('f, 'k, 'c, 't) GatewayInstance) val" where
  "init_handlers to_snake [] p = Ret ([], p)"
| "init_handlers to_snake (handlerType # types) p =
     (if to_snake handlerType = HandlerTypeAwsLambda then
        val_then (init_lambda p) (\<lambda>p.
        val_then (init_handlers to_snake types p) (\<lambda>(handlers, p). Ret (TheLambdaHandler # handlers, p)))
      else Panics ''Unknown gateway handler'')"

definition GatewayInstance_Initialize ::
    "(string \<Rightarrow> string) \<Rightarrow> (string \<Rightarrow> goerr + (string \<times> nat) list) \<Rightarrow> ('t, handler_ref) gateway_env \<Rightarrow>
     ('f, 'k, 'c, 't) GatewayInstance \<Rightarrow> ('f, 'k, 'c, 't) GatewayInstance val" where
  "GatewayInstance_Initialize to_snake lookup E p =
     val_then (RedisClient_Initialize lookup (gi_redis p)) (\<lambda>redis.
     val_then (StringVal (gi_handlers p)) (\<lambda>types.
     val_then (init_handlers to_snake (split_on (CHR '','') types) (p\<lparr>gi_redis := redis\<rparr>)) (\<lambda>(handlers, p).
       Ret (p\<lparr>gi_gateway := Some (Initialize E handlers)\<rparr>))))"

definition GatewayInstance_Start ::
    "('k, 'p) tls_env \<Rightarrow> (string \<Rightarrow> 'p dial_options \<Rightarrow> goerr + 'c) \<Rightarrow> (string list \<Rightarrow> goerr option) \<Rightarrow>
     ('f, 'k, 'c, 't) GatewayInstance \<Rightarrow> ('f, 'k, 'c, 't) GatewayInstance run_val" where
  "GatewayInstance_Start T dial receive p =
     run_then_val (GrpcClient_Start T dial (gi_resource_store p)) (\<lambda>store.
       let p = p\<lparr>gi_ctx := LiveContext, gi_resource_store := store, gi_store_client := ClientConn store,
                 gi_syncing := True\<rparr>
       in if gi_driver p then
            run_then_val (Some (StringVal (ServerStreamTopicPrefix (gi_lambda p)))) (\<lambda>streamPrefix.
            run_then_val (Some (start_listening receive [streamPrefix @ ''*''])) (\<lambda>topics.
              Some (Ret (p\<lparr>gi_listening := topics\<rparr>))))
          else Some (Ret p))"

text \<open>
  \<open>sync_ends\<close>: the synchronization ends once its context is cancelled. A receive from a nil
  channel waits forever.
\<close>

definition GatewayInstance_Stop ::
    "('c \<Rightarrow> goerr option) \<Rightarrow> bool \<Rightarrow> uint64 list \<Rightarrow>
     ('f, 'k, 'c, 't) GatewayInstance \<Rightarrow> ('f, 'k, 'c, 't) GatewayInstance run_val" where
  "GatewayInstance_Stop close sync_ends order p =
     (if gi_ctx p = NoContext then Some (Panics ''nil pointer dereference'')
      else if \<not> (gi_syncing p \<and> sync_ends) then None
      else run_then_val (Some (GrpcClient_Stop close (gi_resource_store p))) (\<lambda>_.
        let p = p\<lparr>gi_ctx := CancelledContext\<rparr>
        in if \<not> gi_pub_sub p then Some (Ret p)
           else case LambdaStreamSubscriber (gi_lambda p) of
                  None \<Rightarrow> Some (Panics ''nil pointer dereference'')
                | Some hub \<Rightarrow> (case Close order hub of
                    Panicked e \<Rightarrow> Some (Panics e)
                  | Blocked hub \<Rightarrow> None
                  | Ran hub \<Rightarrow> Some (Ret (p\<lparr>gi_lambda :=
                      (gi_lambda p)\<lparr>LambdaStreamSubscriber := Some hub\<rparr>\<rparr>)))))"

section \<open>The store instance\<close>

text \<open>\<^verbatim>\<open>ResourceStore.Initialize\<close>: \<open>migrate\<close> applies the migrations of a directory.\<close>

definition register_service :: "string \<Rightarrow> ('f, 'm) GrpcServer \<Rightarrow> ('f, 'm) GrpcServer val" where
  "register_service s g = (if gs_server g = None then Panics ''nil pointer dereference''
     else Ret (g\<lparr>gs_services := gs_services g @ [s]\<rparr>))"

text \<open>\<^verbatim>\<open>gen/db.go\<close>: the queries and the handle they run on, a database or a transaction.\<close>

datatype 'd Queries = Queries (queries_db: 'd)

definition New :: "'d \<Rightarrow> 'd Queries" where
  "New db = Queries db"

definition WithTx :: "'t \<Rightarrow> 'd Queries \<Rightarrow> 't Queries" where
  "WithTx t q = Queries t"

record ('f, 'd) ResourceStore =
  MigrationFile :: "'f config"
  WatchInterval :: "'f config"
  queries :: "'d option Queries option"

definition ResourceStore_Initialize ::
    "('d option \<Rightarrow> string \<Rightarrow> goerr + nat) \<Rightarrow> 'd option \<Rightarrow> ('f, 'm) GrpcServer \<Rightarrow>
     ('f, 'd) ResourceStore \<Rightarrow> (('f, 'm) GrpcServer \<times> ('f, 'd) ResourceStore) val" where
  "ResourceStore_Initialize migrate db g r = val_then (StringVal (MigrationFile r)) (\<lambda>migrationFile.
     val_then (if migrationFile = [] then Ret 0
       else or_panic ''Error applying migrations to postgres database'' (migrate db migrationFile)) (\<lambda>_.
     val_then (register_service resource_store_service g) (\<lambda>g.
       Ret (g, r\<lparr>queries := Some (New db)\<rparr>))))"

definition postgresResourceStore :: string where "postgresResourceStore = ''postgres''"

record ('f, 'd) StoreInstance =
  si_provider :: "'f config"
  si_sql_client :: "('f, 'd) SqlClient"
  si_postgres :: "('f, 'd) ResourceStore"

definition StoreInstance_Start ::
    "('d option \<Rightarrow> string \<Rightarrow> goerr + nat) \<Rightarrow> (string \<Rightarrow> string \<Rightarrow> goerr + 'd) \<Rightarrow>
     ('f, 'm) GrpcServer \<Rightarrow> ('f, 'd) StoreInstance \<Rightarrow> (('f, 'm) GrpcServer \<times> ('f, 'd) StoreInstance) val" where
  "StoreInstance_Start migrate sql_open g s = val_then (StringVal (si_provider s)) (\<lambda>provider.
     if to_lower provider = postgresResourceStore then
       val_then (SqlClient_Start sql_open (si_sql_client s)) (\<lambda>sql.
       val_then (ResourceStore_Initialize migrate (DB sql) g (si_postgres s)) (\<lambda>(g, postgres).
         Ret (g, s\<lparr>si_sql_client := sql, si_postgres := postgres\<rparr>)))
     else Ret (g, s))"

definition StoreInstance_Stop :: "('f, 'd) StoreInstance \<Rightarrow> unit val" where
  "StoreInstance_Stop s = (if DB (si_sql_client s) \<noteq> None then SqlClient_Stop (si_sql_client s) else Ret ())"

section \<open>The xDS and worker instances\<close>

text \<open>\<^verbatim>\<open>EnvoyXds.Initialize\<close>: a fresh state and the discovery services, in the order registered.\<close>

definition xds_services :: "string list" where
  "xds_services = map (\<lambda>s. ''envoy.service.'' @ s)
     [''discovery.v3.AggregatedDiscoveryService'', ''endpoint.v3.EndpointDiscoveryService'',
      ''cluster.v3.ClusterDiscoveryService'', ''route.v3.RouteDiscoveryService'',
      ''listener.v3.ListenerDiscoveryService'', ''secret.v3.SecretDiscoveryService'',
      ''runtime.v3.RuntimeDiscoveryService'', ''route.v3.VirtualHostDiscoveryService'']"

definition EnvoyXds_Initialize :: "('f, 'm) GrpcServer \<Rightarrow> (xds \<times> ('f, 'm) GrpcServer) val" where
  "EnvoyXds_Initialize g = val_then
     (foldl (\<lambda>r s. val_then r (register_service s)) (Ret g) xds_services) (\<lambda>g. Ret (new_xds, g))"

record ('f, 'k, 'c) EnvoyXdsInstance =
  xi_resource_store :: "('f, 'k, 'c) GrpcClient"
  xi_store_client :: "'c option"
  xi_ctx :: run_context
  xi_xds :: "xds option"
  xi_syncing :: bool

definition EnvoyXdsInstance_Start ::
    "('k, 'p) tls_env \<Rightarrow> (string \<Rightarrow> 'p dial_options \<Rightarrow> goerr + 'c) \<Rightarrow> ('f, 'm) GrpcServer \<Rightarrow>
     ('f, 'k, 'c) EnvoyXdsInstance \<Rightarrow> (('f, 'm) GrpcServer \<times> ('f, 'k, 'c) EnvoyXdsInstance) run_val" where
  "EnvoyXdsInstance_Start T dial g e =
     run_then_val (GrpcClient_Start T dial (xi_resource_store e)) (\<lambda>store.
     run_then_val (Some (EnvoyXds_Initialize g)) (\<lambda>(xds, g).
       Some (Ret (g, e\<lparr>xi_ctx := LiveContext, xi_resource_store := store,
         xi_store_client := ClientConn store, xi_xds := Some xds, xi_syncing := True\<rparr>))))"

definition EnvoyXdsInstance_Stop ::
    "('c \<Rightarrow> goerr option) \<Rightarrow> bool \<Rightarrow> ('f, 'k, 'c) EnvoyXdsInstance \<Rightarrow> ('f, 'k, 'c) EnvoyXdsInstance run_val" where
  "EnvoyXdsInstance_Stop close sync_ends e =
     (if xi_ctx e = NoContext then Some (Panics ''nil pointer dereference'')
      else if \<not> (xi_syncing e \<and> sync_ends) then None
      else run_then_val (Some (GrpcClient_Stop close (xi_resource_store e))) (\<lambda>_.
        Some (Ret (e\<lparr>xi_ctx := CancelledContext\<rparr>))))"

text \<open>
  The Temporal worker, made by \<^verbatim>\<open>Worker.Initialize\<close>: the queue it polls, the names of its
  activities, whether it runs. \<open>start\<close> is the worker's own start.
\<close>

record temporal_worker =
  tw_task_queue :: string
  tw_activities :: "string list"
  tw_running :: bool

record ('f, 'k, 'c, 'a) WorkerInstance =
  wi_resource_store :: "('f, 'k, 'c) GrpcClient"
  wi_store_client :: "'c option"
  wi_ctx :: run_context
  wi_task_queue :: "'f config"
  wi_triggers :: "'a worker option"
  wi_worker :: "temporal_worker option"
  wi_syncing :: bool

definition Worker_Initialize :: "('f, 'k, 'c, 'a) WorkerInstance \<Rightarrow> ('f, 'k, 'c, 'a) WorkerInstance val" where
  "Worker_Initialize w = val_then (StringVal (wi_task_queue w)) (\<lambda>queue.
     Ret (w\<lparr>wi_triggers := Some new_worker,
       wi_worker := Some \<lparr>tw_task_queue = queue, tw_activities = [], tw_running = False\<rparr>\<rparr>))"

definition Worker_Start ::
    "(temporal_worker \<Rightarrow> goerr option) \<Rightarrow> ('f, 'k, 'c, 'a) WorkerInstance \<Rightarrow>
     ('f, 'k, 'c, 'a) WorkerInstance val" where
  "Worker_Start start w = (case wi_worker w of
      None \<Rightarrow> Panics ''nil pointer dereference''
    | Some tw \<Rightarrow>
        (let tw = tw\<lparr>tw_activities := tw_activities tw @
               [''ResourceStore_Drop'', ''ResourceStore_Get'', ''ResourceStore_Put'']\<rparr>
         in case start tw of
              Some e \<Rightarrow> Panics ''Temporal worker failed to start from controller (worker)''
            | None \<Rightarrow> Ret (w\<lparr>wi_worker := Some (tw\<lparr>tw_running := True\<rparr>)\<rparr>)))"

definition Worker_Stop :: "('f, 'k, 'c, 'a) WorkerInstance \<Rightarrow> ('f, 'k, 'c, 'a) WorkerInstance val" where
  "Worker_Stop w = (case wi_worker w of None \<Rightarrow> Panics ''nil pointer dereference''
     | Some tw \<Rightarrow> Ret (w\<lparr>wi_worker := Some (tw\<lparr>tw_running := False\<rparr>)\<rparr>))"

definition WorkerInstance_Start ::
    "('k, 'p) tls_env \<Rightarrow> (string \<Rightarrow> 'p dial_options \<Rightarrow> goerr + 'c) \<Rightarrow> (temporal_worker \<Rightarrow> goerr option) \<Rightarrow>
     ('f, 'k, 'c, 'a) WorkerInstance \<Rightarrow> ('f, 'k, 'c, 'a) WorkerInstance run_val" where
  "WorkerInstance_Start T dial start w =
     run_then_val (GrpcClient_Start T dial (wi_resource_store w)) (\<lambda>store.
     run_then_val (Some (Worker_Initialize (w\<lparr>wi_ctx := LiveContext, wi_resource_store := store,
       wi_store_client := ClientConn store\<rparr>))) (\<lambda>w.
     run_then_val (Some (Worker_Start start w)) (\<lambda>w. Some (Ret (w\<lparr>wi_syncing := True\<rparr>)))))"

definition WorkerInstance_Stop ::
    "('c \<Rightarrow> goerr option) \<Rightarrow> bool \<Rightarrow> ('f, 'k, 'c, 'a) WorkerInstance \<Rightarrow> ('f, 'k, 'c, 'a) WorkerInstance run_val" where
  "WorkerInstance_Stop close sync_ends w =
     (if wi_ctx w = NoContext then Some (Panics ''nil pointer dereference'')
      else if \<not> (wi_syncing w \<and> sync_ends) then None
      else run_then_val (Some (Worker_Stop (w\<lparr>wi_ctx := CancelledContext\<rparr>))) (\<lambda>w.
        run_then_val (Some (GrpcClient_Stop close (wi_resource_store w))) (\<lambda>_. Some (Ret w))))"

text \<open>The activities hand their request to the client of the resource store.\<close>

record 'r resource_store_client =
  cl_put :: "put_request \<Rightarrow> 'r"
  cl_drop :: "drop_request \<Rightarrow> 'r"
  cl_get :: "get_request \<Rightarrow> 'r"

definition Worker_Put :: "'r resource_store_client \<Rightarrow> put_request \<Rightarrow> 'r" where
  "Worker_Put c r = cl_put c r"

definition Worker_Drop :: "'r resource_store_client \<Rightarrow> drop_request \<Rightarrow> 'r" where
  "Worker_Drop c r = cl_drop c r"

definition Worker_Get :: "'r resource_store_client \<Rightarrow> get_request \<Rightarrow> 'r" where
  "Worker_Get c r = cl_get c r"

section \<open>The AWS configuration\<close>

text \<open>
  \<open>dynamodb\<close> is the SDK's identifier of the service; \<open>load\<close> is \<^verbatim>\<open>config.LoadDefaultConfig\<close>
  with the resolver it is given, if any.
\<close>

record aws_endpoint =
  ae_partition :: string
  ae_url :: string
  ae_signing_region :: string

definition customResolver :: "string \<Rightarrow> string \<Rightarrow> string \<Rightarrow> string \<Rightarrow> goerr + aws_endpoint" where
  "customResolver dynamodb url service region =
     (if service = dynamodb then Inr \<lparr>ae_partition = ''aws'', ae_url = url, ae_signing_region = ''us-east-1''\<rparr>
      else Inl (ErrOther ''endpoint not found''))"

record ('f, 'g) AwsBuilder =
  AwsConfig :: "'g option"
  DynamoDBEndpoint :: "'f config"

definition AwsBuilder_Initialize ::
    "string \<Rightarrow> ((string \<Rightarrow> string \<Rightarrow> goerr + aws_endpoint) option \<Rightarrow> goerr + 'g) \<Rightarrow>
     ('f, 'g) AwsBuilder \<Rightarrow> ('f, 'g) AwsBuilder val" where
  "AwsBuilder_Initialize dynamodb load a = val_then (StringVal (DynamoDBEndpoint a)) (\<lambda>url.
     val_then (or_panic ''Unable to load AWS configuration''
       (load (if url = [] then None else Some (customResolver dynamodb url)))) (\<lambda>cfg.
       Ret (a\<lparr>AwsConfig := Some cfg\<rparr>)))"

section \<open>The main function\<close>

datatype call = AppNew | AppClose | AwsInitialize | GatewayInitialize | SetServerGateways | GrpcInitialize
  | TemporalDial | TemporalClose | StoreStart | StoreStop | GatewayStart | GatewayStop
  | XdsStart | XdsStop | WorkerStart | WorkerStop | GrpcStart | GrpcStop | HttpStart | HttpStop
  | Hostname | WaitInterruption

text \<open>A call, made now or deferred, and the condition of the block it stands in.\<close>

datatype action = Run call | Defer call

record 'f root_flags =
  EnableStore :: "'f config"
  EnableEnvoyXds :: "'f config"
  EnableGateway :: "'f config"
  EnableWorker :: "'f config"

definition or_val :: "bool val \<Rightarrow> bool val \<Rightarrow> bool val" where
  "or_val a b = val_then a (\<lambda>x. if x then Ret True else b)"

definition main_actions :: "'f root_flags \<Rightarrow> (bool val \<times> action) list" where
  "main_actions r =
     (let gateway = BoolVal (EnableGateway r); store = BoolVal (EnableStore r);
          xds = BoolVal (EnableEnvoyXds r); worker = BoolVal (EnableWorker r);
          served = or_val gateway (or_val store xds); always = Ret True
      in [(always, Run AppNew), (always, Defer AppClose), (always, Run AwsInitialize),
          (gateway, Run GatewayInitialize), (gateway, Run SetServerGateways),
          (served, Run GrpcInitialize),
          (worker, Run TemporalDial), (worker, Defer TemporalClose),
          (store, Run StoreStart), (store, Defer StoreStop),
          (gateway, Run GatewayStart), (gateway, Defer GatewayStop),
          (xds, Run XdsStart), (xds, Defer XdsStop),
          (worker, Run WorkerStart), (worker, Defer WorkerStop),
          (served, Run GrpcStart), (served, Defer GrpcStart),
          (served, Run HttpStart), (served, Defer HttpStop),
          (always, Run Hostname), (always, Run WaitInterruption)])"

text \<open>
  Go's rules: a panic, or the end of the function, runs the deferred calls, the last one first; a
  deferred call that panics does not keep the others from running. \<open>panics\<close> says which call
  panics after which calls.
\<close>

datatype call_event = Returned call | PanickedIn call

fun call_of :: "call_event \<Rightarrow> call" where
  "call_of (Returned c) = c"
| "call_of (PanickedIn c) = c"

definition make_call :: "(call_event list \<Rightarrow> call \<Rightarrow> bool) \<Rightarrow> call_event list \<Rightarrow> call \<Rightarrow> call_event list" where
  "make_call panics tr c = tr @ [if panics tr c then PanickedIn c else Returned c]"

definition unwind :: "(call_event list \<Rightarrow> call \<Rightarrow> bool) \<Rightarrow> call list \<Rightarrow> call_event list \<Rightarrow> call_event list" where
  "unwind panics ds tr = foldl (make_call panics) tr ds"

fun exec_actions ::
    "(call_event list \<Rightarrow> call \<Rightarrow> bool) \<Rightarrow> (bool val \<times> action) list \<Rightarrow> call list \<Rightarrow> call_event list \<Rightarrow>
     call_event list" where
  "exec_actions panics [] ds tr = unwind panics ds tr"
| "exec_actions panics ((condition, a) # as) ds tr = (case condition of
      Panics e \<Rightarrow> unwind panics ds tr
    | Ret enabled \<Rightarrow>
        if \<not> enabled then exec_actions panics as ds tr
        else (case a of
            Defer c \<Rightarrow> exec_actions panics as (c # ds) tr
          | Run c \<Rightarrow>
              if panics tr c then unwind panics ds (make_call panics tr c)
              else exec_actions panics as ds (make_call panics tr c)))"

definition main :: "(call_event list \<Rightarrow> call \<Rightarrow> bool) \<Rightarrow> 'f root_flags \<Rightarrow> call_event list" where
  "main panics r = exec_actions panics (main_actions r) [] []"

section \<open>What is started is stopped\<close>

text \<open>
  The stop that is due for a call that started something, and what \<^verbatim>\<open>main\<close> defers in its
  place: the same call, but for the gRPC server, whose \<^verbatim>\<open>Start\<close> is deferred (\<^verbatim>\<open>main.go:145\<close>).
\<close>

fun stop_of :: "call \<Rightarrow> call option" where
  "stop_of AppNew = Some AppClose"
| "stop_of TemporalDial = Some TemporalClose"
| "stop_of StoreStart = Some StoreStop"
| "stop_of GatewayStart = Some GatewayStop"
| "stop_of XdsStart = Some XdsStop"
| "stop_of WorkerStart = Some WorkerStop"
| "stop_of GrpcStart = Some GrpcStop"
| "stop_of HttpStart = Some HttpStop"
| "stop_of c = None"

definition is_stop :: "call \<Rightarrow> bool" where
  "is_stop c \<longleftrightarrow> c \<in> {AppClose, TemporalClose, StoreStop, GatewayStop, XdsStop, WorkerStop, GrpcStop, HttpStop}"

definition deferred_for :: "call \<Rightarrow> call" where
  "deferred_for s = (if s = GrpcStop then GrpcStart else s)"

fun stop_due :: "call_event \<Rightarrow> call option" where
  "stop_due (Returned c) = stop_of c"
| "stop_due (PanickedIn c) = None"

text \<open>The stops of a list of calls, and those due for a list of events.\<close>

definition stops :: "call_event list \<Rightarrow> call list" where
  "stops tr = filter is_stop (map call_of tr)"

definition due :: "call_event list \<Rightarrow> call list" where
  "due tr = List.map_filter stop_due tr"

lemma stops_simps [simp]: "stops [] = []" "stops (tr @ tr') = stops tr @ stops tr'"
  "stops [e] = (if is_stop (call_of e) then [call_of e] else [])"
  by (simp_all add: stops_def)

lemma due_simps [simp]: "due [] = []" "due (tr @ tr') = due tr @ due tr'"
  "due [e] = (case stop_due e of None \<Rightarrow> [] | Some s \<Rightarrow> [s])"
  by (simp_all add: due_def map_filter_def split: option.splits)

lemma call_of_make_call: "map call_of (make_call panics tr c) = map call_of tr @ [c]"
  by (simp add: make_call_def)

lemma unwind_calls: "map call_of (unwind panics ds tr) = map call_of tr @ ds"
  by (induction ds arbitrary: tr) (simp_all add: unwind_def call_of_make_call)

lemma unwind_appends: "\<exists>tr'. unwind panics ds tr = tr @ tr' \<and> map call_of tr' = ds"
proof (induction ds arbitrary: tr)
  case Nil
  then show ?case by (simp add: unwind_def)
next
  case (Cons c ds)
  from Cons [of "make_call panics tr c"] obtain tr' where
    "unwind panics (c # ds) tr = make_call panics tr c @ tr'" "map call_of tr' = ds"
    by (auto simp: unwind_def)
  then show ?case by (auto simp: make_call_def)
qed

text \<open>
  Each start of a list of actions is followed by what is deferred for it, under the same condition,
  and nothing else is deferred.
\<close>

fun well_paired :: "(bool val \<times> action) list \<Rightarrow> bool" where
  "well_paired [] = True"
| "well_paired ((g, Defer c) # as) = False"
| "well_paired ((g, Run c) # as) = (\<not> is_stop c \<and> (case stop_of c of
      None \<Rightarrow> well_paired as
    | Some s \<Rightarrow> (case as of
        (g', Defer d) # as' \<Rightarrow> g' = g \<and> d = deferred_for s \<and> well_paired as' | _ \<Rightarrow> False)))"

text \<open>A trace that first makes calls, none of them a stop, and then what is deferred for the starts.\<close>

definition cleaned_up :: "call_event list \<Rightarrow> bool" where
  "cleaned_up tr \<longleftrightarrow> (\<exists>made last. tr = made @ last \<and> stops made = [] \<and>
     map call_of last = rev (map deferred_for (due made)))"

definition balanced :: "call list \<Rightarrow> call_event list \<Rightarrow> bool" where
  "balanced ds tr \<longleftrightarrow> stops tr = [] \<and> ds = rev (map deferred_for (due tr))"

lemma unwind_balanced: "balanced ds tr \<Longrightarrow> cleaned_up (unwind panics ds tr)"
  using unwind_appends [of panics ds tr] unfolding balanced_def cleaned_up_def by auto

lemma well_paired_balanced:
  "well_paired as \<Longrightarrow> balanced ds tr \<Longrightarrow> cleaned_up (exec_actions panics as ds tr)"
proof (induction as arbitrary: ds tr rule: well_paired.induct)
  case 1
  then show ?case by (simp add: unwind_balanced)
next
  case (2 g c as)
  then show ?case by simp
next
  case (3 g c as)
  have c: "\<not> is_stop c" using 3(3) by simp
  have p: "balanced ds (make_call panics tr c)" if "panics tr c \<or> stop_of c = None"
    using 3(4) that c by (auto simp: balanced_def make_call_def)
  show ?case
  proof (cases "stop_of c")
    case None
    with 3 p show ?thesis by (cases g) (simp_all add: unwind_balanced)
  next
    case (Some s)
    with 3(3) obtain as' where as: "as = (g, Defer (deferred_for s)) # as'" and w: "well_paired as'"
      by (auto split: list.splits action.splits)
    have "balanced (deferred_for s # ds) (make_call panics tr c)" if "\<not> panics tr c"
      using 3(4) that c Some by (auto simp: balanced_def make_call_def)
    with 3(2) [OF Some as refl refl w] 3(2) [OF Some as _ _ w 3(4)] p show ?thesis
      by (cases g) (simp_all add: as unwind_balanced 3(4))
  qed
qed

end
