(* ===== verification/SyncRoutine.thy ===== *)
theory SyncRoutine
  imports Synchronizer
begin

text \<open>
  The goroutine \<^verbatim>\<open>Sync\<close> starts and the channel it returns: opening the stream, the session of
  \<open>Synchronizer\<close>, the log line at panic level and the send of the session's result.
\<close>

section \<open>The goroutine\<close>

text \<open>
  What \<^verbatim>\<open>resCli.Watch\<close> returns is a parameter: an error or the script of the stream. So is
  \<open>log_panics\<close>, whether the logger's \<^verbatim>\<open>Panic\<close> panics once it has logged, as a logger's panic
  level is documented to do. \<open>Offering\<close>: at the send on the unbuffered channel; \<open>Ended\<close>: the
  channel's reader has the result; \<open>Dead\<close>: a panic no one recovers, which ends the process.
\<close>

datatype 's routine = Opening "goerr + recv_result list" "'s synchronizer" | InSession "'s session"
  | Logging "goerr option" "'s synchronizer" | Offering "goerr option" | Ended "goerr option" | Dead string

inductive routine_step :: "'s event_handler \<Rightarrow> bool \<Rightarrow> 's routine \<Rightarrow> 's routine \<Rightarrow> bool"
    for H log_panics where
  open_fails: "routine_step H log_panics (Opening (Inl e) r) (Logging (Some e) r)"
| open_stream: "routine_step H log_panics (Opening (Inr script) r) (InSession (start_session script r))"
| session: "sync_step H c c' \<Longrightarrow> routine_step H log_panics (InSession c) (InSession c')"
| session_returns: "ss_main c = M_Return e \<Longrightarrow>
    routine_step H log_panics (InSession c) (Logging e (ss_sync c))"
| session_panics: "ss_main c = M_Panic p \<Longrightarrow> routine_step H log_panics (InSession c) (Dead p)"
| log_panic: "log_panics \<Longrightarrow>
    routine_step H log_panics (Logging e r) (Dead ''Sync resource routine error'')"
| log_returns: "\<not> log_panics \<Longrightarrow> routine_step H log_panics (Logging e r) (Offering e)"
| received: "routine_step H log_panics (Offering e) (Ended e)"

inductive routine_reachable ::
    "'s event_handler \<Rightarrow> bool \<Rightarrow> (goerr + recv_result list) \<Rightarrow> 's synchronizer \<Rightarrow> 's routine \<Rightarrow> bool"
    for H log_panics opened r where
  begin_sync: "routine_reachable H log_panics opened r (Opening opened r)"
| next_step: "routine_reachable H log_panics opened r s \<Longrightarrow> routine_step H log_panics s s' \<Longrightarrow>
    routine_reachable H log_panics opened r s'"

inductive_simps routine_step_Logging: "routine_step H log_panics (Logging e r) s"

section \<open>What a session's end means\<close>

text \<open>
  The result of the synchronization and the state of its handler: the error of opening the
  stream, or the result of a session after a prefix of the script.
\<close>

definition session_result ::
    "'s event_handler \<Rightarrow> (goerr + recv_result list) \<Rightarrow> 's synchronizer \<Rightarrow> goerr option \<Rightarrow> 's synchronizer \<Rightarrow> bool" where
  "session_result H opened r e r' \<longleftrightarrow> (case opened of
      Inl err \<Rightarrow> e = Some err \<and> r' = r
    | Inr script \<Rightarrow> (\<exists>ms rest. script = map RecvMsg ms @ rest \<and>
        (handle_all H ms r = Done r' \<or> (\<exists>err. e = Some err \<and> handle_all H ms r = Fail err r'))))"

definition routine_inv ::
    "'s event_handler \<Rightarrow> bool \<Rightarrow> (goerr + recv_result list) \<Rightarrow> 's synchronizer \<Rightarrow> 's routine \<Rightarrow> bool" where
  "routine_inv H log_panics opened r s \<longleftrightarrow> (case s of
      Opening opened' r' \<Rightarrow> opened' = opened \<and> r' = r
    | InSession c \<Rightarrow> (\<exists>script. opened = Inr script \<and> reachable H script r c)
    | Logging e r' \<Rightarrow> session_result H opened r e r'
    | Offering e \<Rightarrow> \<not> log_panics \<and> (\<exists>r'. session_result H opened r e r')
    | Ended e \<Rightarrow> \<not> log_panics \<and> (\<exists>r'. session_result H opened r e r')
    | Dead p \<Rightarrow> True)"

lemma session_returned:
  assumes "reachable H script r c" and "ss_main c = M_Return e"
  shows "session_result H (Inr script) r e (ss_sync c)"
proof -
  obtain ms rest where "script = map RecvMsg ms @ rest" "main_ok H r ms rest c"
    using reachable_inv [OF assms(1)] by (auto simp: session_inv_def)
  with assms(2) show ?thesis
    by (cases e) (auto simp: session_result_def main_ok_def intro!: exI [of _ ms] exI [of _ rest])
qed

lemma routine_inv_step:
  "routine_step H log_panics s s' \<Longrightarrow> routine_inv H log_panics opened r s \<Longrightarrow>
    routine_inv H log_panics opened r s'"
proof (induction rule: routine_step.induct)
  case (session c c')
  then show ?case by (auto simp: routine_inv_def intro: step)
next
  case (session_returns c e)
  then show ?case by (auto simp: routine_inv_def session_returned)
qed (auto simp: routine_inv_def session_result_def intro: start)

lemma routine_reachable_inv:
  "routine_reachable H log_panics opened r s \<Longrightarrow> routine_inv H log_panics opened r s"
  by (induction rule: routine_reachable.induct) (simp add: routine_inv_def, rule routine_inv_step)

text \<open>The result reaches the reader of the channel only if the logger returns.\<close>

lemma never_ended: "\<not> routine_reachable H True opened r (Ended e)"
  using routine_reachable_inv [of H True opened r "Ended e"] by (auto simp: routine_inv_def)

lemma never_offering: "\<not> routine_reachable H True opened r (Offering e)"
  using routine_reachable_inv [of H True opened r "Offering e"] by (auto simp: routine_inv_def)

text \<open>
  Whatever ended the synchronization, its end panics: with a logger whose panic level panics, the
  only step after the result is known is the panic, and the result is sent to no one.
\<close>

theorem finished_sync_panics:
  assumes "routine_reachable H True opened r s"
  shows "case s of Offering e \<Rightarrow> False | Ended e \<Rightarrow> False
    | Logging e r' \<Rightarrow> session_result H opened r e r' \<and>
        {s'. routine_step H True s s'} = {Dead ''Sync resource routine error''}
    | _ \<Rightarrow> True"
  using routine_reachable_inv [OF assms]
  by (auto simp: routine_inv_def routine_step_Logging split: routine.splits)

theorem finished_sync_panics_witness:
  "{s'. routine_step trivial_handler True (Logging (Some ErrCanceled) start_sync) s'} =
     {Dead ''Sync resource routine error''}"
proof -
  have "routine_reachable trivial_handler True (Inl ErrCanceled) start_sync (Logging (Some ErrCanceled) start_sync)"
    by (rule next_step [OF begin_sync]) (rule open_fails)
  from finished_sync_panics [OF this] show ?thesis by simp
qed

text \<open>With a logger that returns, the reader gets the result of the session.\<close>

lemma logger_returns_result:
  assumes "routine_reachable H False opened r (Logging e r')"
  shows "routine_reachable H False opened r (Ended e)"
proof -
  have "routine_step H False (Logging e r') (Offering e)" by (rule log_returns) simp
  with assms have "routine_reachable H False opened r (Offering e)" by (rule next_step)
  then show ?thesis by (rule next_step) (rule received)
qed

end
