(* ===== verification/Process.thy ===== *)
theory Process
  imports Commands SyncRoutine
begin

text \<open>
  The process of \<^verbatim>\<open>cmd/main.go\<close> as one state: the \<^verbatim>\<open>root\<close> with its parts, how they are made
  and reach each other, what each call of \<^verbatim>\<open>main\<close> does to them, and the run of \<^verbatim>\<open>main\<close> with its
  deferred calls.
\<close>

section \<open>The root and its parts\<close>

text \<open>
  \<open>rt_http_grpc\<close>: the HTTP server's gRPC handler is the root's gRPC server (one pointer);
  \<open>rt_http_gateway\<close>: its gateway is the root's.
\<close>

record ('f, 'k, 'c, 'd, 'l, 'm, 't, 'a, 'g, 'w) root =
  rt_aws :: "('f, 'g) AwsBuilder"
  rt_http :: "('f, 'k, 'l) HttpServer"
  rt_http_grpc :: bool
  rt_http_gateway :: bool
  rt_temporal :: "'f TemporalBuilder"
  rt_temporal_client :: "'w option"
  rt_grpc :: "('f, 'm) GrpcServer"
  rt_flags :: "'f root_flags"
  rt_store :: "('f, 'd) StoreInstance"
  rt_xds :: "('f, 'k, 'c) EnvoyXdsInstance"
  rt_gateway :: "('f, 'k, 'c, 't) GatewayInstance"
  rt_worker :: "('f, 'k, 'c, 'a) WorkerInstance"

text \<open>
  The constructors set pointers; the framework's \<^verbatim>\<open>NewApp\<close> fills in the options, each under the
  path of its tags. \<open>cfg\<close> is what it fills in.
\<close>

type_synonym 'f injected = "string \<Rightarrow> 'f config"

definition injected_loader :: "'f injected \<Rightarrow> string \<Rightarrow> ('f, 'k) CertificateLoader" where
  "injected_loader cfg p = \<lparr>CertificatePath = cfg (p @ ''.path''),
     PrivateKey = \<lparr>KeysPath = cfg (p @ ''.private.key.path''), priv = None, kl_draws = 0\<rparr>\<rparr>"

definition injected_client :: "'f injected \<Rightarrow> string \<Rightarrow> ('f, 'k, 'c) GrpcClient" where
  "injected_client cfg p = \<lparr>ClientConn = None, gc_tls_builder = injected_loader cfg (p @ ''.client.certificate''),
     EnableTls = cfg (p @ ''.client.enable.tls''), ServerNameOverride = cfg (p @ ''.server.name.override''),
     ServerAddress = cfg (p @ ''.server.address'')\<rparr>"

definition NewStoreInstance :: "'f injected \<Rightarrow> ('f, 'd) StoreInstance" where
  "NewStoreInstance cfg = \<lparr>si_provider = cfg ''store.provider'',
     si_sql_client = \<lparr>DB = None, DriverName = cfg ''store.sql.driver.name'',
       ConnectionString = cfg ''store.sql.connection.string''\<rparr>,
     si_postgres = \<lparr>MigrationFile = cfg ''store.postgres.migration.file'',
       WatchInterval = cfg ''store.postgres.watch.interval'', queries = None\<rparr>\<rparr>"

definition NewEnvoyXdsInstance :: "'f injected \<Rightarrow> ('f, 'k, 'c) EnvoyXdsInstance" where
  "NewEnvoyXdsInstance cfg = \<lparr>xi_resource_store = injected_client cfg ''envoy.xds.resource.store'',
     xi_store_client = None, xi_ctx = NoContext, xi_xds = None, xi_syncing = False\<rparr>"

definition NewGatewayInstance :: "'f injected \<Rightarrow> ('f, 'k, 'c, 't) GatewayInstance" where
  "NewGatewayInstance cfg = \<lparr>gi_resource_store = injected_client cfg ''gateway.resource.store'',
     gi_store_client = None, gi_ctx = NoContext, gi_handlers = cfg ''gateway.handlers'', gi_gateway = None,
     gi_syncing = False,
     gi_lambda = \<lparr>LambdaStreamSubscriber = None,
       ServerStreamTopicPrefix = cfg ''gateway.aws.lambda.server.stream.topic.prefix'',
       GrpcServerStreamTimeoutHeader = cfg ''gateway.aws.lambda.grpc.server.stream.timeout.header'',
       NounceHeader = cfg ''gateway.aws.lambda.nounce.header'', nounceHeader = [], subscriberId = 0, lg_rand = 0\<rparr>,
     gi_redis = \<lparr>Host = cfg ''gateway.redis.host'', UseSrvRecords = cfg ''gateway.redis.use.srv.records'',
       rc_client = None\<rparr>,
     gi_pub_sub = False, gi_driver = False, gi_listening = []\<rparr>"

definition NewWorkerInstance :: "'f injected \<Rightarrow> ('f, 'k, 'c, 'a) WorkerInstance" where
  "NewWorkerInstance cfg = \<lparr>wi_resource_store = injected_client cfg ''worker.resource.store'',
     wi_store_client = None, wi_ctx = NoContext, wi_task_queue = cfg ''worker.service.worker.task.queue'',
     wi_triggers = None, wi_worker = None, wi_syncing = False\<rparr>"

definition injected_flags :: "'f injected \<Rightarrow> 'f root_flags" where
  "injected_flags cfg = \<lparr>EnableStore = cfg ''enable.store'', EnableEnvoyXds = cfg ''enable.envoy.xds'',
     EnableGateway = cfg ''enable.gateway'', EnableWorker = cfg ''enable.worker''\<rparr>"

definition injected_tls :: "'f injected \<Rightarrow> ('f, 'k) TlsBuilder" where
  "injected_tls cfg = \<lparr>Certificate = injected_loader cfg ''http.server.tls.certificate.certificates'',
     RootCAs = Some (injected_loader cfg ''http.server.tls.root.cas''),
     InsecureSkipVerify = cfg ''http.server.tls.insecure.skip.verify'',
     ListenerAddress = Some (cfg ''http.server.tls.listener.address''),
     Protocol = Some (cfg ''http.server.tls.protocol'')\<rparr>"

definition newRoot :: "'f injected \<Rightarrow> ('f, 'k, 'c, 'd, 'l, 'm, 't, 'a, 'g, 'w) root" where
  "newRoot cfg =
     \<lparr>rt_aws = \<lparr>AwsConfig = None, DynamoDBEndpoint = cfg ''aws.dynamodb.endpoint.url''\<rparr>,
      rt_http = \<lparr>hs_tls_builder = Some (injected_tls cfg),
        ShutdownTimeout = Some (cfg ''http.server.shutdown.timeout''),
        DisableTls = cfg ''http.server.tls.disable'', hs_close_ch = False, hs_addr = [], hs_server = None,
        hs_running = []\<rparr>,
      rt_http_grpc = True, rt_http_gateway = False,
      rt_temporal = \<lparr>Namespace = cfg ''temporal.namespace'', HostPort = cfg ''temporal.address''\<rparr>,
      rt_temporal_client = None,
      rt_grpc = \<lparr>gs_gateway = False, EnableReflection = Some (cfg ''grpc.server.enable.reflection''),
        gs_server = None, gs_services = [], gs_stopped = False\<rparr>,
      rt_flags = injected_flags cfg,
      rt_store = NewStoreInstance cfg, rt_xds = NewEnvoyXdsInstance cfg,
      rt_gateway = NewGatewayInstance cfg, rt_worker = NewWorkerInstance cfg\<rparr>"

subsection \<open>How the parts reach each other\<close>

definition root_GetGrpcServer ::
    "('f, 'k, 'c, 'd, 'l, 'm, 't, 'a, 'g, 'w) root \<Rightarrow> 'm grpc_options option" where
  "root_GetGrpcServer r = gs_server (rt_grpc r)"

definition root_GetAwsConfig :: "('f, 'k, 'c, 'd, 'l, 'm, 't, 'a, 'g, 'w) root \<Rightarrow> 'g option" where
  "root_GetAwsConfig r = AwsConfig (rt_aws r)"

definition root_GetTemporalClient :: "('f, 'k, 'c, 'd, 'l, 'm, 't, 'a, 'g, 'w) root \<Rightarrow> 'w option" where
  "root_GetTemporalClient r = rt_temporal_client r"

text \<open>
  The instances' accessors; \<open>new_client\<close> is the SDK's constructor of a service client from a
  configuration.
\<close>

definition GetDynamoDBClient ::
    "('g option \<Rightarrow> 'e) \<Rightarrow> ('f, 'k, 'c, 'd, 'l, 'm, 't, 'a, 'g, 'w) root \<Rightarrow> 'e" where
  "GetDynamoDBClient new_client r = new_client (root_GetAwsConfig r)"

definition GetSqlDatabase :: "('f, 'd) StoreInstance \<Rightarrow> 'd option" where
  "GetSqlDatabase s = DB (si_sql_client s)"

definition Store_GetGrpcServer ::
    "('f, 'k, 'c, 'd, 'l, 'm, 't, 'a, 'g, 'w) root \<Rightarrow> 'm grpc_options option" where
  "Store_GetGrpcServer r = root_GetGrpcServer r"

definition Xds_GetGrpcServer ::
    "('f, 'k, 'c, 'd, 'l, 'm, 't, 'a, 'g, 'w) root \<Rightarrow> 'm grpc_options option" where
  "Xds_GetGrpcServer r = root_GetGrpcServer r"

definition Xds_GetResourceStoreClient :: "('f, 'k, 'c) EnvoyXdsInstance \<Rightarrow> 'c option" where
  "Xds_GetResourceStoreClient e = xi_store_client e"

definition GetLambdaClient ::
    "('g option \<Rightarrow> 'e) \<Rightarrow> ('f, 'k, 'c, 'd, 'l, 'm, 't, 'a, 'g, 'w) root \<Rightarrow> 'e" where
  "GetLambdaClient new_client r = new_client (root_GetAwsConfig r)"

definition Gateway_GetResourceStoreClient :: "('f, 'k, 'c, 't) GatewayInstance \<Rightarrow> 'c option" where
  "Gateway_GetResourceStoreClient p = gi_store_client p"

definition Worker_GetResourceStoreClient :: "('f, 'k, 'c, 'a) WorkerInstance \<Rightarrow> 'c option" where
  "Worker_GetResourceStoreClient w = wi_store_client w"

definition Worker_GetTemporalClient ::
    "('f, 'k, 'c, 'd, 'l, 'm, 't, 'a, 'g, 'w) root \<Rightarrow> 'w option" where
  "Worker_GetTemporalClient r = root_GetTemporalClient r"

definition GetTemporalWorker :: "('f, 'k, 'c, 'a) WorkerInstance \<Rightarrow> temporal_worker option" where
  "GetTemporalWorker w = wi_worker w"

section \<open>The calls of \<^verbatim>\<open>main\<close>\<close>

text \<open>
  What the process gets from outside: the libraries' functions each part takes, whether
  \<^verbatim>\<open>NewApp\<close> and \<^verbatim>\<open>os.Hostname\<close> succeed, and whether a synchronization sends its result once
  its context is cancelled (\<open>ho_sync_ends\<close>).
\<close>

record ('k, 'p, 'c, 'd, 'l, 'm, 't, 'g, 'w) host =
  ho_new_app :: bool
  ho_dynamodb :: string
  ho_load_aws :: "(string \<Rightarrow> string \<Rightarrow> goerr + aws_endpoint) option \<Rightarrow> goerr + 'g"
  ho_to_snake :: "string \<Rightarrow> string"
  ho_lookup :: "string \<Rightarrow> goerr + (string \<times> nat) list"
  ho_gateway_env :: "('t, handler_ref) gateway_env"
  ho_proto :: "'m proto_lib"
  ho_temporal_dial :: "client_options \<Rightarrow> goerr + 'w"
  ho_migrate :: "'d option \<Rightarrow> string \<Rightarrow> goerr + nat"
  ho_sql_open :: "string \<Rightarrow> string \<Rightarrow> goerr + 'd"
  ho_tls :: "('k, 'p) tls_env"
  ho_dial :: "string \<Rightarrow> 'p dial_options \<Rightarrow> goerr + 'c"
  ho_receive :: "string list \<Rightarrow> goerr option"
  ho_worker_start :: "temporal_worker \<Rightarrow> goerr option"
  ho_register :: "string list \<Rightarrow> string list run_val"
  ho_raw_listen :: "string \<Rightarrow> string \<Rightarrow> goerr + 'l"
  ho_listen :: "string \<Rightarrow> string \<Rightarrow> ('k, 'p) tls_config \<Rightarrow> goerr + 'l"
  ho_addr_of :: "'l \<Rightarrow> string"
  ho_close :: "'c \<Rightarrow> goerr option"
  ho_sync_ends :: bool
  ho_hub_order :: "uint64 list"
  ho_hostname :: bool

definition map_run :: "('a \<Rightarrow> 'b) \<Rightarrow> 'a run_val \<Rightarrow> 'b run_val" where
  "map_run f r = run_then_val r (\<lambda>a. Some (Ret (f a)))"

fun do_call ::
    "('k, 'p, 'c, 'd, 'l, 'm, 't, 'g, 'w) host \<Rightarrow> call \<Rightarrow>
     ('f, 'k, 'c, 'd, 'l, 'm, 't, 'a, 'g, 'w) root \<Rightarrow>
     ('f, 'k, 'c, 'd, 'l, 'm, 't, 'a, 'g, 'w) root run_val" where
  "do_call H AppNew r = Some (if ho_new_app H then Ret r else Panics ''app'')"
| "do_call H AppClose r = Some (Ret r)"
| "do_call H AwsInitialize r = map_run (\<lambda>a. r\<lparr>rt_aws := a\<rparr>)
     (Some (AwsBuilder_Initialize (ho_dynamodb H) (ho_load_aws H) (rt_aws r)))"
| "do_call H GatewayInitialize r = map_run (\<lambda>g. r\<lparr>rt_gateway := g\<rparr>)
     (Some (GatewayInstance_Initialize (ho_to_snake H) (ho_lookup H) (ho_gateway_env H) (rt_gateway r)))"
| "do_call H SetServerGateways r = Some (Ret (r\<lparr>rt_http_gateway := True,
     rt_grpc := (rt_grpc r)\<lparr>gs_gateway := True\<rparr>\<rparr>))"
| "do_call H GrpcInitialize r = Some (Ret (r\<lparr>rt_grpc := GrpcServer_Initialize (ho_proto H) (rt_grpc r)\<rparr>))"
| "do_call H TemporalDial r = map_run (\<lambda>c. r\<lparr>rt_temporal_client := Some c\<rparr>)
     (Some (GetTemporalClient (ho_temporal_dial H) (rt_temporal r)))"
| "do_call H TemporalClose r = Some (if rt_temporal_client r = None
     then Panics ''nil pointer dereference'' else Ret r)"
| "do_call H StoreStart r = map_run (\<lambda>(g, s). r\<lparr>rt_grpc := g, rt_store := s\<rparr>)
     (Some (StoreInstance_Start (ho_migrate H) (ho_sql_open H) (rt_grpc r) (rt_store r)))"
| "do_call H StoreStop r = map_run (\<lambda>_. r) (Some (StoreInstance_Stop (rt_store r)))"
| "do_call H GatewayStart r = map_run (\<lambda>g. r\<lparr>rt_gateway := g\<rparr>)
     (GatewayInstance_Start (ho_tls H) (ho_dial H) (ho_receive H) (rt_gateway r))"
| "do_call H GatewayStop r = map_run (\<lambda>g. r\<lparr>rt_gateway := g\<rparr>)
     (GatewayInstance_Stop (ho_close H) (ho_sync_ends H) (ho_hub_order H) (rt_gateway r))"
| "do_call H XdsStart r = map_run (\<lambda>(g, e). r\<lparr>rt_grpc := g, rt_xds := e\<rparr>)
     (EnvoyXdsInstance_Start (ho_tls H) (ho_dial H) (rt_grpc r) (rt_xds r))"
| "do_call H XdsStop r = map_run (\<lambda>e. r\<lparr>rt_xds := e\<rparr>)
     (EnvoyXdsInstance_Stop (ho_close H) (ho_sync_ends H) (rt_xds r))"
| "do_call H WorkerStart r = map_run (\<lambda>w. r\<lparr>rt_worker := w\<rparr>)
     (WorkerInstance_Start (ho_tls H) (ho_dial H) (ho_worker_start H) (rt_worker r))"
| "do_call H WorkerStop r = map_run (\<lambda>w. r\<lparr>rt_worker := w\<rparr>)
     (WorkerInstance_Stop (ho_close H) (ho_sync_ends H) (rt_worker r))"
| "do_call H GrpcStart r = map_run (\<lambda>g. r\<lparr>rt_grpc := g\<rparr>)
     (GrpcServer_Start (ho_register H) (rt_grpc r))"
| "do_call H GrpcStop r = map_run (\<lambda>g. r\<lparr>rt_grpc := g\<rparr>) (Some (GrpcServer_Stop (rt_grpc r)))"
| "do_call H HttpStart r = map_run (\<lambda>h. r\<lparr>rt_http := h\<rparr>)
     (HttpServer_Start (ho_tls H) (ho_raw_listen H) (ho_listen H) (ho_addr_of H) (rt_http r))"
| "do_call H HttpStop r = map_run (\<lambda>h. r\<lparr>rt_http := h\<rparr>) (HttpServer_Stop (rt_http r))"
| "do_call H Hostname r = Some (if ho_hostname H then Ret r else Panics ''Failed to get hostname'')"
| "do_call H WaitInterruption r = Some (Ret r)"

text \<open>
  The run of a list of actions on a root: its end and the calls made, or \<open>None\<close> when a call never
  returns or ends the process. A call that panics leaves the root as it found it; no part that is stopped afterwards
  depends on what such a call had already done.
\<close>

type_synonym 'r run_state = "'r \<times> call_event list"

definition perform ::
    "('k, 'p, 'c, 'd, 'l, 'm, 't, 'g, 'w) host \<Rightarrow> call \<Rightarrow>
     ('f, 'k, 'c, 'd, 'l, 'm, 't, 'a, 'g, 'w) root run_state \<Rightarrow>
     (bool \<times> ('f, 'k, 'c, 'd, 'l, 'm, 't, 'a, 'g, 'w) root run_state) option" where
  "perform H c s = (case do_call H c (fst s) of
      None \<Rightarrow> None
    | Some (Ret r) \<Rightarrow> Some (True, r, snd s @ [Returned c])
    | Some (Panics e) \<Rightarrow> Some (False, fst s, snd s @ [PanickedIn c]))"

fun run_deferred ::
    "('k, 'p, 'c, 'd, 'l, 'm, 't, 'g, 'w) host \<Rightarrow> call list \<Rightarrow>
     ('f, 'k, 'c, 'd, 'l, 'm, 't, 'a, 'g, 'w) root run_state \<Rightarrow>
     ('f, 'k, 'c, 'd, 'l, 'm, 't, 'a, 'g, 'w) root run_state option" where
  "run_deferred H [] s = Some s"
| "run_deferred H (c # cs) s = (case perform H c s of None \<Rightarrow> None | Some (ok, s') \<Rightarrow> run_deferred H cs s')"

fun run_actions ::
    "('k, 'p, 'c, 'd, 'l, 'm, 't, 'g, 'w) host \<Rightarrow> (bool val \<times> action) list \<Rightarrow> call list \<Rightarrow>
     ('f, 'k, 'c, 'd, 'l, 'm, 't, 'a, 'g, 'w) root run_state \<Rightarrow>
     ('f, 'k, 'c, 'd, 'l, 'm, 't, 'a, 'g, 'w) root run_state option" where
  "run_actions H [] ds s = run_deferred H ds s"
| "run_actions H ((condition, a) # as) ds s = (case condition of
      Panics e \<Rightarrow> run_deferred H ds s
    | Ret enabled \<Rightarrow>
        if \<not> enabled then run_actions H as ds s
        else (case a of
            Defer c \<Rightarrow> run_actions H as (c # ds) s
          | Run c \<Rightarrow> (case perform H c s of
                None \<Rightarrow> None
              | Some (ok, s') \<Rightarrow> if ok then run_actions H as ds s' else run_deferred H ds s')))"

definition run_main ::
    "('k, 'p, 'c, 'd, 'l, 'm, 't, 'g, 'w) host \<Rightarrow> 'f injected \<Rightarrow>
     ('f, 'k, 'c, 'd, 'l, 'm, 't, 'a, 'g, 'w) root run_state option" where
  "run_main H cfg = (let r = newRoot cfg in run_actions H (main_actions (rt_flags r)) [] (r, []))"

end
