(* ===== verification/CommandsProps.thy ===== *)
theory CommandsProps
  imports Commands
begin

text \<open>
  What the process does as a whole: which components \<^verbatim>\<open>main\<close> stops, what the gateway instance
  needs to initialize, and what happens to a notification that is still being handled when the
  instance stops.
\<close>

section \<open>The actions performed\<close>

text \<open>The calls and the deferred calls of a list of actions all of whose conditions hold.\<close>

definition runs :: "(bool val \<times> action) list \<Rightarrow> call list" where
  "runs as = List.map_filter (\<lambda>(g, a). case a of Run c \<Rightarrow> if g = Ret True then Some c else None
     | Defer c \<Rightarrow> None) as"

definition defers :: "(bool val \<times> action) list \<Rightarrow> call list" where
  "defers as = List.map_filter (\<lambda>(g, a). case a of Defer c \<Rightarrow> if g = Ret True then Some c else None
     | Run c \<Rightarrow> None) as"

lemma runs_simps [simp]: "runs [] = []" "runs (as @ bs) = runs as @ runs bs"
  "runs ((g, Run c) # as) = (if g = Ret True then c # runs as else runs as)" "runs ((g, Defer c) # as) = runs as"
  by (simp_all add: runs_def map_filter_def)

lemma defers_simps [simp]: "defers [] = []" "defers (as @ bs) = defers as @ defers bs"
  "defers ((g, Defer c) # as) = (if g = Ret True then c # defers as else defers as)"
  "defers ((g, Run c) # as) = defers as"
  by (simp_all add: defers_def map_filter_def)

lemma set_runs: "set (runs as) = {c. (Ret True, Run c) \<in> set as}"
proof (induction as)
  case (Cons a as)
  then show ?case by (cases a; cases "snd a") auto
qed simp

lemma set_defers: "set (defers as) = {c. (Ret True, Defer c) \<in> set as}"
proof (induction as)
  case (Cons a as)
  then show ?case by (cases a; cases "snd a") auto
qed simp

lemma count_runs: "count_list (runs as) c = length (filter (\<lambda>a. a = (Ret True, Run c)) as)"
proof (induction as)
  case (Cons a as)
  then show ?case by (cases a; cases "snd a") auto
qed simp

lemma count_defers: "count_list (defers as) c = length (filter (\<lambda>a. a = (Ret True, Defer c)) as)"
proof (induction as)
  case (Cons a as)
  then show ?case by (cases a; cases "snd a") auto
qed simp

lemma exec_performed:
  "\<exists>n. map call_of (exec_actions panics as ds tr) =
    map call_of tr @ runs (take n as) @ rev (defers (take n as)) @ ds"
proof (induction panics as ds tr rule: exec_actions.induct)
  case (1 panics ds tr)
  then show ?case by (simp add: unwind_calls)
next
  case (2 panics condition a as ds tr)
  show ?case
  proof (cases condition)
    case (Panics e)
    then show ?thesis by (auto intro: exI [of _ 0] simp: unwind_calls)
  next
    case (Ret enabled)
    note IH = 2 [OF Ret]
    show ?thesis
    proof (cases enabled)
      case False
      with IH(1) obtain n where "map call_of (exec_actions panics as ds tr) =
        map call_of tr @ runs (take n as) @ rev (defers (take n as)) @ ds" by blast
      with False Ret show ?thesis by (cases a) (auto intro!: exI [of _ "Suc n"])
    next
      case True
      show ?thesis
      proof (cases a)
        case (Defer c)
        with IH(3) True obtain n where "map call_of (exec_actions panics as (c # ds) tr) =
          map call_of tr @ runs (take n as) @ rev (defers (take n as)) @ c # ds" by blast
        with Defer True Ret show ?thesis by (auto intro!: exI [of _ "Suc n"])
      next
        case (Run c)
        show ?thesis
        proof (cases "panics tr c")
          case p: True
          with Run True Ret show ?thesis
            by (auto intro!: exI [of _ "Suc 0"] simp: unwind_calls call_of_make_call)
        next
          case p: False
          with IH(2) [OF _ Run] True obtain n where
            "map call_of (exec_actions panics as ds (make_call panics tr c)) =
              map call_of (make_call panics tr c) @ runs (take n as) @ rev (defers (take n as)) @ ds" by blast
          with p Run True Ret show ?thesis by (auto intro!: exI [of _ "Suc n"] simp: call_of_make_call)
        qed
      qed
    qed
  qed
qed

lemma main_paired: "well_paired (main_actions r)"
  by (simp add: main_actions_def Let_def is_stop_def deferred_for_def)

lemma main_performed:
  "\<exists>n. map call_of (main panics r) = runs (take n (main_actions r)) @ rev (defers (take n (main_actions r)))"
  using exec_performed [of panics "main_actions r" "[]" "[]"] by (simp add: main_def)

text \<open>Where in \<^verbatim>\<open>main\<close> the two servers are started.\<close>

lemma main_prefix_http:
  assumes "HttpStart \<in> set (runs (take n (main_actions r)) @ rev (defers (take n (main_actions r))))"
  shows "18 < n" and "or_val (BoolVal (EnableGateway r)) (or_val (BoolVal (EnableStore r)) (BoolVal (EnableEnvoyXds r))) = Ret True"
proof -
  show "18 < n"
  proof (rule ccontr)
    assume "\<not> 18 < n"
    then have eq: "take n (take 18 (main_actions r)) = take n (main_actions r)" by (simp add: min_absorb1)
    have "HttpStart \<notin> set (runs (take n as)) \<and> HttpStart \<notin> set (defers (take n as))"
      if "\<forall>a \<in> set as. snd a \<noteq> Run HttpStart \<and> snd a \<noteq> Defer HttpStart" for as
    proof -
      have "\<forall>a \<in> set (take n as). snd a \<noteq> Run HttpStart \<and> snd a \<noteq> Defer HttpStart"
        using that by (meson in_set_takeD)
      then show ?thesis by (auto simp: set_runs set_defers)
    qed
    moreover have "\<forall>a \<in> set (take 18 (main_actions r)). snd a \<noteq> Run HttpStart \<and> snd a \<noteq> Defer HttpStart"
      by (simp add: main_actions_def Let_def)
    ultimately have "HttpStart \<notin> set (runs (take n (take 18 (main_actions r))))"
      "HttpStart \<notin> set (defers (take n (take 18 (main_actions r))))" by blast+
    with assms show False by (simp only: eq set_append Un_iff set_rev simp_thms)
  qed
  show "or_val (BoolVal (EnableGateway r)) (or_val (BoolVal (EnableStore r)) (BoolVal (EnableEnvoyXds r))) = Ret True"
  proof (rule ccontr)
    assume "\<not> ?thesis"
    then have "(Ret True, Run HttpStart) \<notin> set (main_actions r) \<and> (Ret True, Defer HttpStart) \<notin> set (main_actions r)"
      by (simp add: main_actions_def Let_def)
    then have "HttpStart \<notin> set (runs (main_actions r)) \<and> HttpStart \<notin> set (defers (main_actions r))"
      by (simp add: set_runs set_defers)
    moreover have "set (runs (take n as)) \<subseteq> set (runs as) \<and> set (defers (take n as)) \<subseteq> set (defers as)" for as
      by (auto simp: set_runs set_defers dest: in_set_takeD)
    ultimately show False using assms by auto
  qed
qed

section \<open>Properties\<close>

text \<open>
  Whichever parts are enabled and whichever calls panic: \<^verbatim>\<open>main\<close> makes its calls, no stop among
  them, and then one call for each start that returned (the application, the Temporal client, the
  store, the gateway, the xDS server, the worker, the two servers), the last start's first: its
  stop, or for the gRPC server its start once more.
\<close>

theorem main_stops_what_it_started: "cleaned_up (main panics r)"
  unfolding main_def by (rule well_paired_balanced [OF main_paired]) (simp add: balanced_def)

text \<open>
  The gRPC server is the exception: it is never stopped, and once the HTTP server has been
  started it is started a second time when the process ends.
\<close>

theorem grpc_server_started_again:
  assumes "HttpStart \<in> set (map call_of (main panics r))"
  shows "GrpcStop \<notin> set (map call_of (main panics r)) \<and> count_list (map call_of (main panics r)) GrpcStart = 2"
proof -
  obtain n where n: "map call_of (main panics r) =
      runs (take n (main_actions r)) @ rev (defers (take n (main_actions r)))"
    using main_performed by blast
  note s = main_prefix_http [OF assms [unfolded n]]
  let ?as = "main_actions r"
  have "n = 19 \<or> n = 20 \<or> n = 21 \<or> n \<ge> 22" using s(1) by linarith
  moreover have "take n ?as = take 22 ?as" if "n \<ge> 22" using that by (simp add: main_actions_def Let_def)
  ultimately obtain k where k: "k \<in> {19, 20, 21, 22 :: nat}" "take n ?as = take k ?as" by force
  have "(Ret True, Run GrpcStop) \<notin> set ?as" "(Ret True, Defer GrpcStop) \<notin> set ?as"
    by (simp_all add: main_actions_def Let_def)
  then have "GrpcStop \<notin> set (map call_of (main panics r))"
    by (auto simp: n set_runs set_defers dest: in_set_takeD)
  moreover have "length (filter (\<lambda>a. a = (Ret True, Run GrpcStart)) (take k ?as)) = 1"
    using k(1) s(2) by (elim insertE emptyE) (simp_all add: main_actions_def Let_def)
  moreover have "length (filter (\<lambda>a. a = (Ret True, Defer GrpcStart)) (take k ?as)) = 1"
    using k(1) s(2) by (elim insertE emptyE) (simp_all add: main_actions_def Let_def)
  ultimately show ?thesis by (simp add: n k(2) count_runs count_defers)
qed

text \<open>
  The store process serves a store only for the provider \<^verbatim>\<open>postgres\<close>, in any case of
  letters: a start that succeeds registers the resource store exactly then; with another provider
  it changes nothing, opens no database, and neither it nor the stop fails.
\<close>

theorem store_served_only_for_postgres:
  assumes "StoreInstance_Start migrate sql_open g s = Ret (g', s')" and "StringVal (si_provider s) = Ret provider"
    and "DB (si_sql_client s) = None"
  shows "gs_services g' = gs_services g @
      (if to_lower provider = postgresResourceStore then [resource_store_service] else []) \<and>
    (to_lower provider = postgresResourceStore \<longleftrightarrow> DB (si_sql_client s') \<noteq> None) \<and>
    StoreInstance_Stop s' = Ret ()"
  using assms
  by (auto simp: StoreInstance_Start_def return_iff SqlClient_Start_def ResourceStore_Initialize_def
      register_service_def StoreInstance_Stop_def SqlClient_Stop_def split: if_splits)

section \<open>The gateway instance\<close>

definition lambda_readable :: "('f, 'k, 'c, 't) GatewayInstance \<Rightarrow> bool" where
  "lambda_readable p \<longleftrightarrow> (\<exists>h topics. StringVal (NounceHeader (gi_lambda p)) = Ret h \<and>
     StringVal (ServerStreamTopicPrefix (gi_lambda p)) = Ret topics)"

lemma init_lambda_readable:
  assumes "lambda_readable p"
  obtains q where "init_lambda p = Ret q" and "lambda_readable q"
  using assms by (auto simp: lambda_readable_def init_lambda_def LambdaGatewayHandler_Initialize_def)

lemma init_handlers_readable:
  "lambda_readable p \<Longrightarrow>
    if to_snake ` set types \<subseteq> {HandlerTypeAwsLambda}
    then \<exists>p'. init_handlers to_snake types p = Ret (replicate (length types) TheLambdaHandler, p')
    else init_handlers to_snake types p = Panics ''Unknown gateway handler''"
proof (induction types arbitrary: p)
  case Nil
  then show ?case by simp
next
  case (Cons t types)
  from Cons.prems obtain q where q: "init_lambda p = Ret q" "lambda_readable q"
    by (rule init_lambda_readable)
  from Cons.IH [OF q(2)] show ?case
    by (cases "to_snake ` set types \<subseteq> {HandlerTypeAwsLambda}") (auto simp: q(1) image_subset_iff)
qed

lemma gateway_handlers:
  "gw_handlers (Initialize E (replicate (Suc n) TheLambdaHandler)) =
    [ge_handler_type E TheLambdaHandler \<mapsto> TheLambdaHandler]"
proof -
  have "fold (\<lambda>x hm. hm(ge_handler_type E x \<mapsto> x)) (replicate n TheLambdaHandler) hm = hm"
    if "hm = [ge_handler_type E TheLambdaHandler \<mapsto> TheLambdaHandler]" for hm
    using that by (induction n arbitrary: hm) auto
  then show ?thesis by (simp add: Initialize_def fromHandlersSlice_def newHandlerMatcher_def)
qed

text \<open>
  The gateway starts exactly with the handlers it knows: with readable options and a reachable
  Redis, its initialization succeeds, with the Lambda handler registered, if every part of its
  comma-separated handler list is \<^verbatim>\<open>aws_lambda\<close> up to its spelling, and panics otherwise; so a
  gateway whose handler list is not set (one empty part) panics.
\<close>

theorem gateway_needs_known_handlers:
  assumes "RedisClient_Initialize lookup (gi_redis p) = Ret redis" and "StringVal (gi_handlers p) = Ret types"
    and "lambda_readable p"
  shows "if to_snake ` set (split_on (CHR '','') types) \<subseteq> {HandlerTypeAwsLambda}
    then \<exists>p' g. GatewayInstance_Initialize to_snake lookup E p = Ret p' \<and> gi_gateway p' = Some g \<and>
      gw_handlers g = [ge_handler_type E TheLambdaHandler \<mapsto> TheLambdaHandler]
    else GatewayInstance_Initialize to_snake lookup E p = Panics ''Unknown gateway handler''"
proof -
  have "lambda_readable (p\<lparr>gi_redis := redis\<rparr>)" using assms(3) by (simp add: lambda_readable_def)
  note h = init_handlers_readable [OF this, of to_snake "split_on (CHR '','') types"]
  obtain n where "length (split_on (CHR '','') types) = Suc n" by (cases "split_on (CHR '','') types") auto
  with h assms(1,2) gateway_handlers [of E n] show ?thesis
    by (auto simp: GatewayInstance_Initialize_def split: if_splits)
qed

section \<open>Stopping with a notification in hand\<close>

lemma close_one_same:
  "close_one ps i = Ran ps' \<Longrightarrow> ps_subscriptions ps' = ps_subscriptions ps \<and> ps_stream ps' = ps_stream ps"
  by (auto simp: close_one_def split: option.splits run.splits)

lemma close_each_same:
  "run_each close_one order ps = Ran ps' \<Longrightarrow> ps_subscriptions ps' = ps_subscriptions ps \<and> ps_stream ps' = ps_stream ps"
proof (induction order arbitrary: ps)
  case (Cons i order)
  then obtain q where "close_one ps i = Ran q" "run_each close_one order q = Ran ps'"
    by (cases "close_one ps i") auto
  with Cons.IH [of q] close_one_same [of ps i q] show ?case by simp
qed simp

lemma Close_closes:
  assumes "Close order ps = Ran ps'"
  shows "ps_subscriptions ps' = ps_subscriptions ps \<and> ch_closed (ps_stream ps')"
proof -
  from assms obtain q where "run_each close_one order ps = Ran q" "Ran ps' = (case chan_close (ps_stream q) of
      Ran c \<Rightarrow> Ran (q\<lparr>ps_stream := c\<rparr>) | Blocked c \<Rightarrow> Blocked q | Panicked e \<Rightarrow> Panicked e)"
    by (cases "run_each close_one order ps") (auto simp: Close_def)
  then show ?thesis using close_each_same [of order ps q]
    by (auto simp: chan_close_def split: run.splits if_splits)
qed

text \<open>
  Stopping the gateway does not wait for its Redis listener: a notification for a topic with a
  subscriber that the listener takes after the stop has closed the hub makes it panic, by a send
  on the closed stream.
\<close>

theorem notification_after_stop_panics:
  assumes "GatewayInstance_Stop close sync_ends order p = Some (Ret p')" and "gi_pub_sub p"
    and "LambdaStreamSubscriber (gi_lambda p) = Some hub"
    and "listed_under hub i (rm_channel m)" and "parse (rm_payload m) = Inr n"
  shows "\<exists>hub'. LambdaStreamSubscriber (gi_lambda p') = Some hub' \<and>
    Listen (LambdaNotificationRedisDeserializer parse) True (Received m # es) hub' = Panicked ''send on closed channel''"
proof -
  from assms(1-3) obtain hub' where c: "Close order hub = Ran hub'" and p': "LambdaStreamSubscriber (gi_lambda p') = Some hub'"
    by (auto simp: GatewayInstance_Stop_def Let_def return_iff split: if_splits run.splits)
  from assms(4) obtain ids where "ps_subscriptions hub (rm_channel m) = Some ids" by (auto simp: listed_under_def)
  with Close_closes [OF c] p' assms(5) show ?thesis
    by (auto simp: publish_message_def LambdaNotificationRedisDeserializer_def Publish_def chan_send_def)
qed

section \<open>Witnesses\<close>

definition only_store :: "unit root_flags" where
  "only_store = \<lparr>EnableStore = ValReader (AString ''true''), EnableEnvoyXds = EmptyReader,
     EnableGateway = EmptyReader, EnableWorker = EmptyReader\<rparr>"

lemma only_store_flags:
  "BoolVal (EnableStore only_store) = Ret True" "BoolVal (EnableEnvoyXds only_store) = Ret False"
  "BoolVal (EnableGateway only_store) = Ret False" "BoolVal (EnableWorker only_store) = Ret False"
  by (simp_all add: only_store_def BoolVal_def StringVal_def map_val_def to_lower_def lower_char_def)

theorem grpc_server_started_again_witness:
  "map call_of (main (\<lambda>tr c. False) only_store) =
      [AppNew, AwsInitialize, GrpcInitialize, StoreStart, GrpcStart, HttpStart, Hostname, WaitInterruption,
       HttpStop, GrpcStart, StoreStop, AppClose] \<and>
    count_list (map call_of (main (\<lambda>tr c. False) only_store)) GrpcStart = 2"
proof -
  have m: "map call_of (main (\<lambda>tr c. False) only_store) =
      [AppNew, AwsInitialize, GrpcInitialize, StoreStart, GrpcStart, HttpStart, Hostname, WaitInterruption,
       HttpStop, GrpcStart, StoreStop, AppClose]"
    by (simp add: main_def main_actions_def Let_def only_store_flags or_val_def unwind_def make_call_def)
  with grpc_server_started_again [of "\<lambda>tr c. False" only_store] show ?thesis by simp
qed

definition sample_store :: "string \<Rightarrow> (unit, unit) StoreInstance" where
  "sample_store provider = \<lparr>si_provider = ValReader (AString provider),
     si_sql_client = \<lparr>DB = None, DriverName = EmptyReader, ConnectionString = EmptyReader\<rparr>,
     si_postgres = \<lparr>MigrationFile = EmptyReader, WatchInterval = EmptyReader, queries = None\<rparr>\<rparr>"

definition sample_grpc_server :: "(unit, unit) GrpcServer" where
  "sample_grpc_server = \<lparr>gs_gateway = False, EnableReflection = None,
     gs_server = Some \<lparr>go_codec = None, go_unknown_handler = False\<rparr>, gs_services = [], gs_stopped = False\<rparr>"

theorem store_served_only_for_postgres_witness:
  "StoreInstance_Start (\<lambda>db file. Inr 0) (\<lambda>d c. Inr ()) sample_grpc_server (sample_store ''dynamodb'') =
      Ret (sample_grpc_server, sample_store ''dynamodb'') \<and>
    StoreInstance_Stop (sample_store ''dynamodb'') = Ret ()"
proof -
  have s: "StoreInstance_Start (\<lambda>db file. Inr 0) (\<lambda>d c. Inr ()) sample_grpc_server (sample_store ''dynamodb'') =
      Ret (sample_grpc_server, sample_store ''dynamodb'')"
    by (simp add: StoreInstance_Start_def sample_store_def StringVal_def to_lower_def lower_char_def
        postgresResourceStore_def)
  moreover have "StringVal (si_provider (sample_store ''dynamodb'')) = Ret ''dynamodb''"
    "DB (si_sql_client (sample_store ''dynamodb'')) = None" by (simp_all add: sample_store_def StringVal_def)
  ultimately show ?thesis using store_served_only_for_postgres [OF s] by blast
qed

definition sample_gateway_instance ::
    "unit config \<Rightarrow> LambdaNotification pubSub option \<Rightarrow> (unit, nat, unit, (string \<times> addr) list) GatewayInstance" where
  "sample_gateway_instance types hub = \<lparr>gi_resource_store = \<lparr>ClientConn = Some (),
       gc_tls_builder = sample_loader EmptyReader EmptyReader, EnableTls = EmptyReader,
       ServerNameOverride = EmptyReader, ServerAddress = EmptyReader\<rparr>, gi_store_client = Some (),
     gi_ctx = LiveContext, gi_handlers = types, gi_gateway = None, gi_syncing = True,
     gi_lambda = sample_gateway_handler\<lparr>LambdaStreamSubscriber := hub\<rparr>,
     gi_redis = \<lparr>Host = EmptyReader, UseSrvRecords = EmptyReader, rc_client = None\<rparr>,
     gi_pub_sub = (hub \<noteq> None), gi_driver = (hub \<noteq> None), gi_listening = []\<rparr>"

definition sample_handlers_env :: "((string \<times> addr) list, handler_ref) gateway_env" where
  "sample_handlers_env = \<lparr>ge_radix = alist_radix, ge_unmarshal = (\<lambda>x. None),
     ge_handler_type = (\<lambda>h. HandlerTypeAwsLambda), ge_process = (\<lambda>h u d. None)\<rparr>"

theorem gateway_needs_known_handlers_witness:
  "GatewayInstance_Initialize (\<lambda>t. t) (\<lambda>n. Inr []) sample_handlers_env (sample_gateway_instance EmptyReader None) =
      Panics ''Unknown gateway handler'' \<and>
    (\<exists>p'. GatewayInstance_Initialize (\<lambda>t. t) (\<lambda>n. Inr []) sample_handlers_env
      (sample_gateway_instance (ValReader (AString ''aws_lambda'')) None) = Ret p')"
proof -
  have r: "RedisClient_Initialize (\<lambda>n. Inr []) (gi_redis (sample_gateway_instance t None)) =
      Ret (gi_redis (sample_gateway_instance t None))" for t
    by (simp add: sample_gateway_instance_def RedisClient_Initialize_def StringVal_def)
  have l: "lambda_readable (sample_gateway_instance t None)" for t
    by (simp add: sample_gateway_instance_def lambda_readable_def sample_gateway_handler_def StringVal_def)
  have t: "StringVal (gi_handlers (sample_gateway_instance EmptyReader None)) = Ret []"
    "StringVal (gi_handlers (sample_gateway_instance (ValReader (AString ''aws_lambda'')) None)) = Ret ''aws_lambda''"
    by (simp_all add: sample_gateway_instance_def StringVal_def)
  from gateway_needs_known_handlers [OF r t(1) l, of "\<lambda>t. t" sample_handlers_env]
    gateway_needs_known_handlers [OF r t(2) l, of "\<lambda>t. t" sample_handlers_env]
  show ?thesis by (simp add: HandlerTypeAwsLambda_def) blast
qed

theorem notification_after_stop_panics_witness:
  "\<exists>p' hub'. GatewayInstance_Stop (\<lambda>c. None) True [1]
      (sample_gateway_instance EmptyReader (Some (Subscribe (NewPubSub 0 0) 1 [''p:x'']))) = Some (Ret p') \<and>
    LambdaStreamSubscriber (gi_lambda p') = Some hub' \<and>
    Listen (LambdaNotificationRedisDeserializer (\<lambda>b. Inr \<lparr>Service = [], Method = b\<rparr>)) True
      [Received \<lparr>rm_channel = ''p:x'', rm_payload = ''m''\<rparr>] hub' = Panicked ''send on closed channel''"
proof -
  let ?hub = "Subscribe (NewPubSub 0 0) 1 [''p:x''] :: LambdaNotification pubSub"
  let ?p = "sample_gateway_instance EmptyReader (Some ?hub)"
  have "\<exists>p'. GatewayInstance_Stop (\<lambda>c. None) True [1] ?p = Some (Ret p')"
    by (simp add: GatewayInstance_Stop_def sample_gateway_instance_def GrpcClient_Stop_def Close_def close_one_def
        Subscribe_def subscribe_topic_def NewPubSub_def new_channel_def subscribe_def newSubscriber_def
        Close_subscriber_def chan_close_def Let_def)
  then obtain p' where s: "GatewayInstance_Stop (\<lambda>c. None) True [1] ?p = Some (Ret p')" by blast
  have h: "gi_pub_sub ?p" "LambdaStreamSubscriber (gi_lambda ?p) = Some ?hub" by (simp_all add: sample_gateway_instance_def)
  have "ps_ok ?hub" "lists_topic ?hub 1 ''p:x''" by (simp_all add: Subscribe_spec [OF ps_ok_new])
  then have "listed_under ?hub 1 ''p:x''" by (simp add: ps_ok_def)
  with notification_after_stop_panics [OF s h, of 1 "\<lparr>rm_channel = ''p:x'', rm_payload = ''m''\<rparr>"
      "\<lambda>b. Inr \<lparr>Service = [], Method = b\<rparr>"] s show ?thesis by auto
qed

end
