(* ===== verification/ProcessProps.thy ===== *)
theory ProcessProps
  imports Process CommandsProps
begin

text \<open>
  What the process does as a whole: every run of \<^verbatim>\<open>main\<close> on the parts is a run of the calls of
  \<open>Commands\<close>, so it stops what it started, but for the gRPC server; a process that follows the store never comes to the end
  of \<^verbatim>\<open>main\<close>; and a process that serves the store does.
\<close>

section \<open>Runs on the parts are runs of the calls\<close>

text \<open>The panics of a run, read off its trace.\<close>

definition panics_of :: "call_event list \<Rightarrow> call_event list \<Rightarrow> call \<Rightarrow> bool" where
  "panics_of tr tr' c \<longleftrightarrow> prefix (tr' @ [PanickedIn c]) tr"

lemma perform_Some:
  "perform H c s = Some (ok, s') \<Longrightarrow> snd s' = snd s @ [if ok then Returned c else PanickedIn c]"
  by (auto simp: perform_def split: option.splits val.splits)

lemma prefix_next: "prefix (xs @ [a]) zs \<Longrightarrow> prefix (xs @ [b]) zs \<Longrightarrow> a = b"
  by (auto simp: prefix_def)

lemma perform_make_call:
  assumes "perform H c s = Some (ok, s')" and "prefix (snd s') tr"
  shows "panics_of tr (snd s) c \<longleftrightarrow> \<not> ok" and "make_call (panics_of tr) (snd s) c = snd s'"
proof -
  note e = perform_Some [OF assms(1)]
  show p: "panics_of tr (snd s) c \<longleftrightarrow> \<not> ok"
    using assms(2) prefix_next [of "snd s" "Returned c" tr "PanickedIn c"]
    by (auto simp: panics_of_def e split: if_splits)
  show "make_call (panics_of tr) (snd s) c = snd s'" by (simp add: make_call_def p e)
qed

lemma run_deferred_prefix: "run_deferred H ds s = Some s' \<Longrightarrow> prefix (snd s) (snd s')"
proof (induction ds arbitrary: s)
  case (Cons c cs)
  then obtain ok s1 where p: "perform H c s = Some (ok, s1)" "run_deferred H cs s1 = Some s'"
    by (auto split: option.splits prod.splits)
  from Cons.IH [OF p(2)] have "prefix (snd s1) (snd s')" .
  with perform_Some [OF p(1)] show ?case by (auto simp: prefix_def)
qed simp

lemma run_deferred_unwind:
  "run_deferred H ds s = Some s' \<Longrightarrow> prefix (snd s') tr \<Longrightarrow> unwind (panics_of tr) ds (snd s) = snd s'"
proof (induction ds arbitrary: s)
  case Nil
  then show ?case by (simp add: unwind_def)
next
  case (Cons c cs)
  then obtain ok s1 where p: "perform H c s = Some (ok, s1)" "run_deferred H cs s1 = Some s'"
    by (auto split: option.splits prod.splits)
  have "prefix (snd s1) tr" using run_deferred_prefix [OF p(2)] Cons.prems(2) by (rule prefix_order.trans)
  from perform_make_call(2) [OF p(1) this] Cons.IH [OF p(2) Cons.prems(2)] show ?case
    by (simp add: unwind_def)
qed

lemma run_actions_prefix: "run_actions H as ds s = Some s' \<Longrightarrow> prefix (snd s) (snd s')"
proof (induction as arbitrary: ds s)
  case Nil
  then show ?case by (simp add: run_deferred_prefix)
next
  case (Cons x as)
  obtain condition a where x: "x = (condition, a)" by force
  show ?case
  proof (cases "\<exists>c. condition = Ret True \<and> a = Run c")
    case False
    with Cons show ?thesis
      by (cases a; cases condition) (auto simp: x run_deferred_prefix split: if_splits)
  next
    case True
    then obtain c where a: "condition = Ret True" "a = Run c" by blast
    with Cons.prems obtain ok s1 where p: "perform H c s = Some (ok, s1)"
      by (cases "perform H c s") (auto simp: x)
    with Cons.prems a have "(if ok then run_actions H as ds s1 else run_deferred H ds s1) = Some s'"
      by (simp add: x)
    with Cons.IH [of ds s1] have "prefix (snd s1) (snd s')"
      by (cases ok) (simp_all add: run_deferred_prefix)
    with perform_Some [OF p] show ?thesis by (auto simp: prefix_def)
  qed
qed

lemma run_actions_exec:
  "run_actions H as ds s = Some s' \<Longrightarrow> exec_actions (panics_of (snd s')) as ds (snd s) = snd s'"
proof (induction as arbitrary: ds s)
  case Nil
  then show ?case by (simp add: run_deferred_unwind)
next
  case (Cons x as)
  obtain condition a where x: "x = (condition, a)" by force
  show ?case
  proof (cases condition)
    case (Panics e)
    with Cons.prems show ?thesis by (simp add: x run_deferred_unwind)
  next
    case (Ret enabled)
    show ?thesis
    proof (cases "enabled \<and> (\<exists>c. a = Run c)")
      case False
      with Cons Ret show ?thesis by (cases a) (auto simp: x split: if_splits)
    next
      case True
      then obtain c where a: "a = Run c" and en: enabled by blast
      with Cons.prems Ret obtain ok s1 where p: "perform H c s = Some (ok, s1)"
        by (cases "perform H c s") (auto simp: x)
      with Cons.prems Ret a en have r: "(if ok then run_actions H as ds s1 else run_deferred H ds s1) = Some s'"
        by (simp add: x)
      then have "prefix (snd s1) (snd s')"
        by (cases ok) (simp_all add: run_actions_prefix run_deferred_prefix)
      note m = perform_make_call [OF p this]
      from r Cons.IH [of ds s1] show ?thesis
        by (cases ok) (simp_all add: x Ret a en m run_deferred_unwind)
    qed
  qed
qed

lemma run_main_root:
  "run_main H cfg = run_actions H (main_actions (injected_flags cfg)) [] (newRoot cfg, [])"
  by (simp add: run_main_def Let_def newRoot_def)

lemma run_main_calls:
  assumes "run_main H cfg = Some (r, tr)"
  shows "tr = main (panics_of tr) (injected_flags cfg)"
  using run_actions_exec [OF assms [unfolded run_main_root]] by (simp add: main_def)

section \<open>A process that follows the store\<close>

text \<open>The parts with a synchronization, by their stop: one that has a context.\<close>

definition live :: "call \<Rightarrow> ('f, 'k, 'c, 'd, 'l, 'm, 't, 'a, 'g, 'w) root \<Rightarrow> bool" where
  "live c r \<longleftrightarrow> c = GatewayStop \<and> gi_ctx (rt_gateway r) \<noteq> NoContext \<or>
     c = XdsStop \<and> xi_ctx (rt_xds r) \<noteq> NoContext \<or> c = WorkerStop \<and> wi_ctx (rt_worker r) \<noteq> NoContext"

lemma map_run_Ret [return_iff]: "map_run f r = Some (Ret b) \<longleftrightarrow> (\<exists>a. r = Some (Ret a) \<and> b = f a)"
  by (auto simp: map_run_def return_iff)

lemma init_lambda_ctx: "init_lambda p = Ret q \<Longrightarrow> gi_ctx q = gi_ctx p"
  by (auto simp: init_lambda_def return_iff)

lemma init_handlers_ctx: "init_handlers to_snake types p = Ret (hs, q) \<Longrightarrow> gi_ctx q = gi_ctx p"
proof (induction types arbitrary: p hs)
  case (Cons t types)
  then obtain p1 hs1 where "init_lambda p = Ret p1" "init_handlers to_snake types p1 = Ret (hs1, q)"
    by (auto simp: return_iff split: if_splits)
  with Cons.IH [of p1 hs1] init_lambda_ctx [of p p1] show ?case by simp
qed simp

lemma GatewayInstance_Initialize_ctx:
  "GatewayInstance_Initialize to_snake lookup E p = Ret q \<Longrightarrow> gi_ctx q = gi_ctx p"
  by (auto simp: GatewayInstance_Initialize_def return_iff dest!: init_handlers_ctx)

lemma started_live:
  "GatewayInstance_Start T dial receive p = Some (Ret q) \<Longrightarrow> gi_ctx q = LiveContext"
  "EnvoyXdsInstance_Start T dial g e = Some (Ret (g', e')) \<Longrightarrow> xi_ctx e' = LiveContext"
  "WorkerInstance_Start T dial begin w = Some (Ret w') \<Longrightarrow> wi_ctx w' = LiveContext"
  by (auto simp: GatewayInstance_Start_def EnvoyXdsInstance_Start_def WorkerInstance_Start_def
      Worker_Initialize_def Worker_Start_def Let_def return_iff split: if_splits option.splits)

lemma stopped_ctx:
  "GatewayInstance_Stop close ends order p = Some (Ret q) \<Longrightarrow> gi_ctx q = CancelledContext"
  "EnvoyXdsInstance_Stop close ends e = Some (Ret e') \<Longrightarrow> xi_ctx e' = CancelledContext"
  "WorkerInstance_Stop close ends w = Some (Ret w') \<Longrightarrow> wi_ctx w' = CancelledContext"
  by (auto simp: GatewayInstance_Stop_def EnvoyXdsInstance_Stop_def WorkerInstance_Stop_def
      Worker_Stop_def Let_def return_iff split: if_splits option.splits run.splits)

lemma do_call_keeps_live: "do_call H c r = Some (Ret r') \<Longrightarrow> live d r \<Longrightarrow> live d r'"
  by (cases c) (auto simp: live_def return_iff dest: GatewayInstance_Initialize_ctx started_live stopped_ctx
      split: if_splits)

lemma perform_keeps_live: "perform H c s = Some (ok, s') \<Longrightarrow> live d (fst s) \<Longrightarrow> live d (fst s')"
  by (auto simp: perform_def do_call_keeps_live split: option.splits val.splits)

lemma perform_live_stop: "\<not> ho_sync_ends H \<Longrightarrow> live c (fst s) \<Longrightarrow> perform H c s = None"
  by (auto simp: live_def perform_def map_run_def GatewayInstance_Stop_def EnvoyXdsInstance_Stop_def
      WorkerInstance_Stop_def)

text \<open>A stop of such a part among the deferred calls is never got past.\<close>

lemma run_deferred_live:
  assumes "\<not> ho_sync_ends H" and "c \<in> set ds" and "live c (fst s)"
  shows "run_deferred H ds s = None"
  using assms(2,3)
proof (induction ds arbitrary: s)
  case (Cons d ds)
  show ?case
  proof (cases "d = c")
    case True
    with perform_live_stop [OF assms(1) Cons.prems(2)] show ?thesis by simp
  next
    case False
    with Cons.prems have "c \<in> set ds" by simp
    with Cons.IH Cons.prems perform_keeps_live [of H d s] show ?thesis
      by (cases "perform H d s") auto
  qed
qed simp

lemma run_actions_live:
  assumes "\<not> ho_sync_ends H" and "c \<in> set ds" and "live c (fst s)"
  shows "run_actions H as ds s = None"
  using assms(2,3)
proof (induction as arbitrary: ds s)
  case Nil
  then show ?case by (simp add: run_deferred_live [OF assms(1)])
next
  case (Cons x as)
  obtain condition a where x: "x = (condition, a)" by force
  note D = run_deferred_live [OF assms(1) Cons.prems]
  show ?case
  proof (cases "\<exists>d. condition = Ret True \<and> a = Run d")
    case False
    with Cons D show ?thesis by (cases a; cases condition) (auto simp: x)
  next
    case True
    then obtain d where a: "condition = Ret True" "a = Run d" by blast
    show ?thesis
    proof (cases "perform H d s")
      case None
      with a show ?thesis by (simp add: x)
    next
      case (Some p)
      then have "live c (fst (snd p))"
        using perform_keeps_live [of H d s "fst p" "snd p"] Cons.prems(2) by simp
      then have "run_deferred H ds (snd p) = None" "run_actions H as ds (snd p) = None"
        using run_deferred_live [OF assms(1) Cons.prems(1)] Cons.IH [OF Cons.prems(1)] by blast+
      with Some a show ?thesis by (cases p) (simp add: x)
    qed
  qed
qed

text \<open>The start of such a part, once it has returned, leaves one that is live.\<close>

definition follower_start :: "call \<Rightarrow> bool" where
  "follower_start c \<longleftrightarrow> c \<in> {GatewayStart, XdsStart, WorkerStart}"

lemma perform_started_live:
  "perform H c s = Some (True, s') \<Longrightarrow> follower_start c \<Longrightarrow> stop_of c = Some d \<Longrightarrow> live d (fst s')"
  by (auto simp: follower_start_def perform_def live_def return_iff dest!: started_live
      split: option.splits val.splits)

lemma run_deferred_events:
  "run_deferred H ds s = Some s' \<Longrightarrow> Returned c \<in> set (snd s') \<Longrightarrow> c \<in> set ds \<or> Returned c \<in> set (snd s)"
proof (induction ds arbitrary: s)
  case (Cons d ds)
  then obtain ok s1 where "perform H d s = Some (ok, s1)" "run_deferred H ds s1 = Some s'"
    by (auto split: option.splits prod.splits)
  with Cons.IH [of s1] Cons.prems(2) perform_Some [of H d s ok s1] show ?case by (auto split: if_splits)
qed simp

fun guarded :: "(bool val \<times> action) list \<Rightarrow> bool" where
  "guarded [] \<longleftrightarrow> True"
| "guarded ((g, Defer c) # as) \<longleftrightarrow> guarded as"
| "guarded ((g, Run c) # as) \<longleftrightarrow> (follower_start c \<longrightarrow>
     (case as of (g', Defer d) # as' \<Rightarrow> g' = g \<and> stop_of c = Some d | _ \<Rightarrow> False)) \<and> guarded as"

lemma guarded_stop:
  "guarded ((g, Run c) # as) \<Longrightarrow> follower_start c \<Longrightarrow> \<exists>d as'. as = (g, Defer d) # as' \<and> stop_of c = Some d"
  by (auto split: list.splits action.splits)

lemma guarded_tl: "guarded (x # as) \<Longrightarrow> guarded as"
  by (cases x; cases "snd x") simp_all

lemma run_actions_never_started:
  assumes ends: "\<not> ho_sync_ends H" and c: "follower_start c"
  shows "guarded as \<Longrightarrow> run_actions H as ds s = Some s' \<Longrightarrow> Returned c \<notin> set (snd s) \<Longrightarrow>
    c \<notin> set ds \<Longrightarrow> \<forall>a \<in> set as. snd a \<noteq> Defer c \<Longrightarrow> Returned c \<notin> set (snd s')"
proof (induction as arbitrary: ds s)
  case Nil
  then show ?case using run_deferred_events by fastforce
next
  case (Cons x as)
  obtain g a where x: "x = (g, a)" by force
  note g = guarded_tl [OF Cons.prems(1)]
  show ?case
  proof (cases "\<exists>d. g = Ret True \<and> a = Run d")
    case False
    have D: "Returned c \<notin> set (snd s')" if "run_deferred H ds s = Some s'"
      using run_deferred_events [OF that] Cons.prems(3,4) by blast
    from False Cons.IH [OF g] Cons.prems(2-5) D show ?thesis
      by (cases a; cases g) (auto simp: x split: if_splits)
  next
    case True
    then obtain d where a: "g = Ret True" "a = Run d" by blast
    with Cons.prems(2) obtain ok s1 where p: "perform H d s = Some (ok, s1)"
      and r: "(if ok then run_actions H as ds s1 else run_deferred H ds s1) = Some s'"
      by (cases "perform H d s") (auto simp: x)
    note e = perform_Some [OF p]
    show ?thesis
    proof (cases ok)
      case False
      with r run_deferred_events [of H ds s1 s' c] Cons.prems(3,4) e show ?thesis by auto
    next
      case ok: True
      have "d \<noteq> c"
      proof
        assume d: "d = c"
        from guarded_stop [of g c as] Cons.prems(1) c d a obtain f as' where
          as: "as = (g, Defer f) # as'" and f: "stop_of c = Some f" by (auto simp: x)
        from p ok d have "live f (fst s1)" using perform_started_live [of H c s s1 f] c f by simp
        from run_actions_live [OF ends _ this, of "f # ds"] r ok as a show False by simp
      qed
      with Cons.IH [OF g, of ds s1] r ok e Cons.prems(3-5) show ?thesis by simp
    qed
  qed
qed

lemma main_guarded: "guarded (main_actions r)"
  by (simp add: main_actions_def Let_def follower_start_def)

lemma main_defers_no_start: "follower_start c \<Longrightarrow> \<forall>a \<in> set (main_actions r). snd a \<noteq> Defer c"
  by (auto simp: main_actions_def Let_def follower_start_def)

lemma run_main_never_started:
  assumes "\<not> ho_sync_ends H" and "run_main H cfg = Some (r, tr)" and "follower_start c"
  shows "Returned c \<notin> set tr"
  using run_actions_never_started [OF assms(1,3) main_guarded assms(2) [unfolded run_main_root] _ _
      main_defers_no_start [OF assms(3)]] by simp

section \<open>A process that serves the store\<close>

text \<open>What the store process is configured with and finds outside.\<close>

definition store_only :: "'f injected \<Rightarrow> bool" where
  "store_only cfg \<longleftrightarrow> BoolVal (cfg ''enable.store'') = Ret True \<and> BoolVal (cfg ''enable.envoy.xds'') = Ret False \<and>
     BoolVal (cfg ''enable.gateway'') = Ret False \<and> BoolVal (cfg ''enable.worker'') = Ret False"

definition store_opens ::
    "('k, 'p, 'c, 'd, 'l, 'm, 't, 'g, 'w) host \<Rightarrow> 'f injected \<Rightarrow> 'd \<Rightarrow> bool" where
  "store_opens H cfg db \<longleftrightarrow> (\<exists>p driver conn file. StringVal (cfg ''store.provider'') = Ret p \<and>
     to_lower p = postgresResourceStore \<and>
     StringVal (cfg ''store.sql.driver.name'') = Ret driver \<and> driver \<noteq> [] \<and>
     StringVal (cfg ''store.sql.connection.string'') = Ret conn \<and> conn \<noteq> [] \<and>
     ho_sql_open H driver conn = Inr db \<and>
     StringVal (cfg ''store.postgres.migration.file'') = Ret file \<and>
     (file \<noteq> [] \<longrightarrow> (\<exists>n. ho_migrate H (Some db) file = Inr n)))"

text \<open>With or without TLS, the HTTP server gets a listener.\<close>

definition serves ::
    "('k, 'p, 'c, 'd, 'l, 'm, 't, 'g, 'w) host \<Rightarrow> 'f injected \<Rightarrow> 'l \<Rightarrow> bool" where
  "serves H cfg lis \<longleftrightarrow>
     BoolVal (cfg ''http.server.tls.disable'') = Ret True \<and>
       (\<exists>proto addr. StringVal (cfg ''http.server.tls.protocol'') = Ret proto \<and>
        StringVal (cfg ''http.server.tls.listener.address'') = Ret addr \<and> ho_raw_listen H proto addr = Inr lis) \<or>
     BoolVal (cfg ''http.server.tls.disable'') = Ret False \<and>
       (\<exists>t. BuildListener (ho_tls H) (ho_listen H) (injected_tls cfg) = Some (Ret (lis, t)))"

definition host_ready :: "('k, 'p, 'c, 'd, 'l, 'm, 't, 'g, 'w) host \<Rightarrow> 'f injected \<Rightarrow> bool" where
  "host_ready H cfg \<longleftrightarrow> ho_new_app H \<and> ho_hostname H \<and>
     (\<exists>url g. StringVal (cfg ''aws.dynamodb.endpoint.url'') = Ret url \<and>
        ho_load_aws H (if url = [] then None else Some (customResolver (ho_dynamodb H) url)) = Inr g)"

definition store_calls :: "call list" where
  "store_calls = [AppNew, AwsInitialize, GrpcInitialize, StoreStart, GrpcStart, HttpStart, Hostname,
     WaitInterruption]"

text \<open>The calls of this process, one by one.\<close>

lemma perform_Ret: "do_call H c r = Some (Ret r') \<Longrightarrow> perform H c (r, tr) = Some (True, r', tr @ [Returned c])"
  by (simp add: perform_def)

fun do_calls ::
    "('k, 'p, 'c, 'd, 'l, 'm, 't, 'g, 'w) host \<Rightarrow> call list \<Rightarrow>
     ('f, 'k, 'c, 'd, 'l, 'm, 't, 'a, 'g, 'w) root \<Rightarrow>
     ('f, 'k, 'c, 'd, 'l, 'm, 't, 'a, 'g, 'w) root run_val" where
  "do_calls H [] r = Some (Ret r)"
| "do_calls H (c # cs) r = run_then_val (do_call H c r) (do_calls H cs)"

lemma run_deferred_do_calls:
  "do_calls H ds r = Some (Ret r') \<Longrightarrow> run_deferred H ds (r, tr) = Some (r', tr @ map Returned ds)"
proof (induction ds arbitrary: r tr)
  case (Cons c ds)
  then obtain r1 where r1: "do_call H c r = Some (Ret r1)" "do_calls H ds r1 = Some (Ret r')"
    by (auto simp: return_iff)
  from Cons.IH [OF r1(2)] perform_Ret [OF r1(1), of tr] show ?case by simp
qed simp

text \<open>When every condition returns and every call made returns, what is deferred comes next.\<close>

lemma run_actions_do_calls:
  assumes "\<forall>a \<in> set as. fst a = Ret True \<or> fst a = Ret False" and "do_calls H (runs as) r = Some (Ret r')"
  shows "run_actions H as ds (r, tr) = run_deferred H (rev (defers as) @ ds) (r', tr @ map Returned (runs as))"
  using assms
proof (induction as arbitrary: ds r tr)
  case Nil
  then show ?case by simp
next
  case (Cons x as)
  obtain g a where x: "x = (g, a)" by force
  from Cons.prems(1) have g: "g = Ret True \<or> g = Ret False" and as: "\<forall>a \<in> set as. fst a = Ret True \<or> fst a = Ret False"
    by (simp_all add: x)
  show ?case
  proof (cases "g = Ret True")
    case True
    show ?thesis
    proof (cases a)
      case (Defer c)
      with Cons.prems(2) Cons.IH [OF as, of r "c # ds" tr] True show ?thesis by (simp add: x)
    next
      case (Run c)
      with Cons.prems(2) True obtain r1 where r1: "do_call H c r = Some (Ret r1)"
          "do_calls H (runs as) r1 = Some (Ret r')"
        by (auto simp: x return_iff)
      from Cons.IH [OF as r1(2)] perform_Ret [OF r1(1), of tr] Run True show ?thesis by (simp add: x)
    qed
  next
    case False
    with g have "g = Ret False" by simp
    with Cons.prems(2) Cons.IH [OF as, of r ds tr] show ?thesis by (cases a) (simp_all add: x)
  qed
qed

lemma store_only_calls:
  assumes "store_only cfg"
  shows "runs (main_actions (injected_flags cfg)) = store_calls"
    and "rev (defers (main_actions (injected_flags cfg))) = [HttpStop, GrpcStart, StoreStop, AppClose]"
    and "\<forall>a \<in> set (main_actions (injected_flags cfg)). fst a = Ret True \<or> fst a = Ret False"
  using assms
  by (simp_all add: store_only_def injected_flags_def main_actions_def Let_def or_val_def store_calls_def)

text \<open>The listener of the HTTP server, and the state the process waits in.\<close>

lemma serves_start:
  assumes "serves H cfg lis"
  obtains h where "HttpServer_Start (ho_tls H) (ho_raw_listen H) (ho_listen H) (ho_addr_of H)
      (rt_http (newRoot cfg :: ('f, 'k, 'c, 'd, 'l, 'm, 't, 'a, 'g, 'w) root)) = Some (Ret h)"
    and "hs_server h = Some lis" and "hs_running h = [lis]" and "hs_close_ch h" and "ShutdownTimeout h \<noteq> None"
  using assms
  by (auto simp: serves_def newRoot_def HttpServer_Start_def AssertBeforeStart_def injected_tls_def config_string_def
      or_panic_def Let_def)

definition store_waits ::
    "'f injected \<Rightarrow> string list \<Rightarrow> 'd \<Rightarrow> 'l \<Rightarrow> ('f, 'k, 'c, 'd, 'l, 'm, 't, 'a, 'g, 'w) root \<Rightarrow> bool" where
  "store_waits cfg ss db lis r \<longleftrightarrow> EnableReflection (rt_grpc r) = Some (cfg ''grpc.server.enable.reflection'') \<and>
     gs_server (rt_grpc r) \<noteq> None \<and> gs_services (rt_grpc r) = ss \<and> \<not> gs_stopped (rt_grpc r) \<and>
     root_GetGrpcServer r \<noteq> None \<and> GetSqlDatabase (rt_store r) = Some db \<and> hs_server (rt_http r) = Some lis \<and>
     hs_running (rt_http r) = [lis] \<and> hs_close_ch (rt_http r) \<and> ShutdownTimeout (rt_http r) \<noteq> None"

text \<open>
  What reflection makes of the services: the first registration gives \<open>ss\<close>, and \<open>registered_again\<close>
  is what the second one comes to.
\<close>

definition first_registered ::
    "('k, 'p, 'c, 'd, 'l, 'm, 't, 'g, 'w) host \<Rightarrow> 'f injected \<Rightarrow> string list \<Rightarrow> bool" where
  "first_registered H cfg ss \<longleftrightarrow>
     BoolVal (cfg ''grpc.server.enable.reflection'') = Ret False \<and> ss = [resource_store_service] \<or>
     BoolVal (cfg ''grpc.server.enable.reflection'') = Ret True \<and> ho_register H [resource_store_service] = Some (Ret ss)"

definition registered_again ::
    "('k, 'p, 'c, 'd, 'l, 'm, 't, 'g, 'w) host \<Rightarrow> 'f injected \<Rightarrow> string list \<Rightarrow> string list run_val" where
  "registered_again H cfg ss = (if BoolVal (cfg ''grpc.server.enable.reflection'') = Ret True
     then ho_register H ss else Some (Ret ss))"

lemma do_calls_append: "do_calls H (cs @ cs') r = run_then_val (do_calls H cs r) (do_calls H cs')"
proof (induction cs arbitrary: r)
  case (Cons c cs)
  then show ?case by (cases "do_call H c r"; cases "the (do_call H c r)") simp_all
qed simp

lemma store_calls_run:
  fixes H :: "('k, 'p, 'c, 'd, 'l, 'm, 't, 'g, 'w) host"
  assumes "store_opens H cfg db" and "serves H cfg lis" and "host_ready H cfg" and "first_registered H cfg ss"
  shows "\<exists>r :: ('f, 'k, 'c, 'd, 'l, 'm, 't, 'a, 'g, 'w) root. do_calls H store_calls (newRoot cfg) = Some (Ret r) \<and>
    store_waits cfg ss db lis r"
proof -
  from assms(1) obtain p driver conn dir where s: "StringVal (cfg ''store.provider'') = Ret p"
      "to_lower p = postgresResourceStore" "StringVal (cfg ''store.sql.driver.name'') = Ret driver" "driver \<noteq> []"
      "StringVal (cfg ''store.sql.connection.string'') = Ret conn" "conn \<noteq> []" "ho_sql_open H driver conn = Inr db"
      "StringVal (cfg ''store.postgres.migration.file'') = Ret dir"
      "dir \<noteq> [] \<Longrightarrow> \<exists>n. ho_migrate H (Some db) dir = Inr n"
    by (auto simp: store_opens_def)
  have m: "\<exists>n. (if dir = [] then Ret 0 else or_panic ''Error applying migrations to postgres database''
      (ho_migrate H (Some db) dir)) = Ret n"
    using s(9) by (cases "dir = []") (auto simp: or_panic_def)
  from assms(3) obtain url g where a: "ho_new_app H" "ho_hostname H"
      "StringVal (cfg ''aws.dynamodb.endpoint.url'') = Ret url"
      "ho_load_aws H (if url = [] then None else Some (customResolver (ho_dynamodb H) url)) = Inr g"
    by (auto simp: host_ready_def)
  obtain h where h: "HttpServer_Start (ho_tls H) (ho_raw_listen H) (ho_listen H) (ho_addr_of H)
      (rt_http (newRoot cfg :: ('f, 'k, 'c, 'd, 'l, 'm, 't, 'a, 'g, 'w) root)) = Some (Ret h)"
      "hs_server h = Some lis" "hs_running h = [lis]" "hs_close_ch h" "ShutdownTimeout h \<noteq> None"
    by (rule serves_start [OF assms(2)])
  have "\<exists>r1 :: ('f, 'k, 'c, 'd, 'l, 'm, 't, 'a, 'g, 'w) root.
      do_calls H [AppNew, AwsInitialize, GrpcInitialize, StoreStart, GrpcStart] (newRoot cfg) = Some (Ret r1) \<and>
      rt_http r1 = rt_http (newRoot cfg :: ('f, 'k, 'c, 'd, 'l, 'm, 't, 'a, 'g, 'w) root) \<and>
      store_waits cfg ss db lis (r1\<lparr>rt_http := h\<rparr>)"
    using m assms(4) h(2-)
    by (auto simp: newRoot_def NewStoreInstance_def map_run_def AwsBuilder_Initialize_def a
        GrpcServer_Initialize_def StoreInstance_Start_def SqlClient_Start_def ResourceStore_Initialize_def
        register_service_def or_panic_def s(1-8) GrpcServer_Start_def first_registered_def store_waits_def
        root_GetGrpcServer_def GetSqlDatabase_def Let_def)
  then obtain r1 :: "('f, 'k, 'c, 'd, 'l, 'm, 't, 'a, 'g, 'w) root" where
    r1: "do_calls H [AppNew, AwsInitialize, GrpcInitialize, StoreStart, GrpcStart] (newRoot cfg) = Some (Ret r1)"
    and w: "rt_http r1 = rt_http (newRoot cfg :: ('f, 'k, 'c, 'd, 'l, 'm, 't, 'a, 'g, 'w) root)"
      "store_waits cfg ss db lis (r1\<lparr>rt_http := h\<rparr>)" by blast
  have all: "store_calls = [AppNew, AwsInitialize, GrpcInitialize, StoreStart, GrpcStart] @ [HttpStart, Hostname, WaitInterruption]"
    by (simp add: store_calls_def)
  have "do_calls H store_calls (newRoot cfg) = Some (Ret (r1\<lparr>rt_http := h\<rparr>))"
    unfolding all do_calls_append r1 using h(1) by (simp add: map_run_def w(1) a)
  with w(2) show ?thesis by blast
qed

text \<open>What is deferred, from this state on.\<close>

lemma store_stops:
  assumes "store_waits cfg ss db lis r" and "BoolVal (cfg ''grpc.server.enable.reflection'') = Ret on"
  shows "case registered_again H cfg ss of
      None \<Rightarrow> run_deferred H [HttpStop, GrpcStart, StoreStop, AppClose] (r, tr) = None
    | Some v \<Rightarrow> \<exists>r'. run_deferred H [HttpStop, GrpcStart, StoreStop, AppClose] (r, tr) =
          Some (r', tr @ [Returned HttpStop, case v of Ret ss' \<Rightarrow> Returned GrpcStart | Panics e \<Rightarrow> PanickedIn GrpcStart,
            Returned StoreStop, Returned AppClose]) \<and>
        gs_services (rt_grpc r') = (case v of Ret ss' \<Rightarrow> ss' | Panics e \<Rightarrow> ss) \<and> root_GetGrpcServer r' \<noteq> None \<and>
        \<not> gs_stopped (rt_grpc r') \<and> GetSqlDatabase (rt_store r') = Some db \<and>
        hs_running (rt_http r') = [] \<and> hs_server (rt_http r') = Some lis"
  using assms
  by (cases on; cases "ho_register H ss"; cases "the (ho_register H ss)")
    (auto simp: store_waits_def registered_again_def perform_def map_run_def HttpServer_Stop_def GrpcServer_Start_def
      StoreInstance_Stop_def SqlClient_Stop_def root_GetGrpcServer_def GetSqlDatabase_def)

section \<open>Properties\<close>

text \<open>
  C17. The process is the program \<^verbatim>\<open>main\<close> and cleans up after itself, but for the gRPC server:
  every run of \<^verbatim>\<open>main\<close> on the actual parts that comes to an end, whichever are enabled and whichever
  calls panic, makes the calls of \<^verbatim>\<open>main\<close> in its order, no stop among them, and then exactly one
  call for each start that returned, the last start's first: its stop, except that the gRPC server is
  not stopped but started once more.
\<close>

theorem process_stops_what_it_started:
  assumes "run_main H cfg = Some (r, tr)"
  shows "\<exists>panics made last. tr = main panics (injected_flags cfg) \<and> tr = made @ last \<and> stops made = [] \<and>
    map call_of last = rev (map (\<lambda>s. if s = GrpcStop then GrpcStart else s) (due made))"
proof -
  note m = run_main_calls [OF assms]
  have "cleaned_up (main (panics_of tr) (injected_flags cfg))"
    using well_paired_balanced [OF main_paired, of "[]" "[]" "panics_of tr" "injected_flags cfg"]
    by (simp add: main_def balanced_def)
  then have "cleaned_up tr" by (simp flip: m)
  with m show ?thesis unfolding cleaned_up_def deferred_for_def [abs_def] by blast
qed

text \<open>
  C18. A process that follows the store never gets through its shutdown: if a synchronization could
  only end by the result of its goroutine, then in every run of \<^verbatim>\<open>main\<close> that comes to an end
  neither the gateway nor the xDS server nor the worker had been started. Their stop waits for a
  result that the goroutine, which panics first, never sends.
\<close>

theorem followers_never_shut_down:
  fixes E :: "'s event_handler"
  assumes "ho_sync_ends H \<Longrightarrow> \<exists>opened rss e. routine_reachable E True opened rss (Ended e)"
    and "run_main H cfg = Some (r, tr)"
  shows "Returned GatewayStart \<notin> set tr \<and> Returned XdsStart \<notin> set tr \<and> Returned WorkerStart \<notin> set tr"
proof -
  have "\<not> ho_sync_ends H" using assms(1) never_ended by blast
  from run_main_never_started [OF this assms(2)] show ?thesis by (simp add: follower_start_def)
qed

text \<open>
  C19. A process that only serves the store: with a database that opens, a listener with TLS or
  without, and the AWS configuration, \<^verbatim>\<open>main\<close> makes exactly the calls of the store and the two
  servers and waits for the interruption; then it stops the HTTP server and starts the gRPC server a
  second time. Without reflection that start does nothing, and the store and the application are
  stopped. With reflection it registers reflection again: where the library ends the process at that,
  \<^verbatim>\<open>main\<close> does not come to its end; where it panics, the store and the application are still
  stopped. In no case is the gRPC server stopped; the services on it are the store's and those of
  reflection, and the HTTP server's listener is closed.
\<close>

theorem store_process_serves:
  fixes H :: "('k, 'p, 'c, 'd, 'l, 'm, 't, 'g, 'w) host"
  assumes "store_only cfg" and "store_opens H cfg db" and "serves H cfg lis" and "host_ready H cfg"
    and "first_registered H cfg ss"
  shows "case registered_again H cfg ss of
      None \<Rightarrow> run_main H cfg = (None :: ('f, 'k, 'c, 'd, 'l, 'm, 't, 'a, 'g, 'w) root run_state option)
    | Some v \<Rightarrow> \<exists>r :: ('f, 'k, 'c, 'd, 'l, 'm, 't, 'a, 'g, 'w) root.
        run_main H cfg = Some (r, map Returned store_calls @
          [Returned HttpStop, case v of Ret ss' \<Rightarrow> Returned GrpcStart | Panics e \<Rightarrow> PanickedIn GrpcStart,
           Returned StoreStop, Returned AppClose]) \<and>
        gs_services (rt_grpc r) = (case v of Ret ss' \<Rightarrow> ss' | Panics e \<Rightarrow> ss) \<and> root_GetGrpcServer r \<noteq> None \<and>
        \<not> gs_stopped (rt_grpc r) \<and> GetSqlDatabase (rt_store r) = Some db \<and>
        hs_running (rt_http r) = [] \<and> hs_server (rt_http r) = Some lis"
proof -
  from store_calls_run [OF assms(2-5)] obtain r :: "('f, 'k, 'c, 'd, 'l, 'm, 't, 'a, 'g, 'w) root" where
    r: "do_calls H store_calls (newRoot cfg) = Some (Ret r)" and w: "store_waits cfg ss db lis r" by blast
  note calls = store_only_calls [OF assms(1)]
  have m: "run_main H cfg = run_deferred H [HttpStop, GrpcStart, StoreStop, AppClose] (r, map Returned store_calls)"
    using run_actions_do_calls [OF calls(3), of H "newRoot cfg" r "[]" "[]"] r by (simp add: run_main_root calls(1,2))
  obtain on where "BoolVal (cfg ''grpc.server.enable.reflection'') = Ret on"
    using assms(5) by (auto simp: first_registered_def)
  from store_stops [OF w this] show ?thesis unfolding m .
qed

section \<open>Witnesses\<close>

definition sample_host :: "(nat, nat, unit, unit, unit, unit, (string \<times> addr) list, unit, unit) host" where
  "sample_host = \<lparr>ho_new_app = True, ho_dynamodb = ''DynamoDB'', ho_load_aws = (\<lambda>x. Inr ()), ho_to_snake = (\<lambda>t. t),
     ho_lookup = (\<lambda>n. Inr []), ho_gateway_env = sample_handlers_env, ho_proto = \<lparr>pl_marshal = (\<lambda>m. Inr []), pl_unmarshal = (\<lambda>b m. (None, m))\<rparr>,
     ho_temporal_dial = (\<lambda>x. Inr ()), ho_migrate = (\<lambda>db dir. Inr 0), ho_sql_open = (\<lambda>d c. Inr ()),
     ho_tls = sample_tls_env, ho_dial = (\<lambda>a x. Inl (ErrOther ''no address'')), ho_receive = (\<lambda>ts. None),
     ho_worker_start = (\<lambda>w. None), ho_register = (\<lambda>ss. Some (Ret ss)), ho_raw_listen = (\<lambda>p a. Inr ()),
     ho_listen = (\<lambda>p a c. Inr ()), ho_addr_of = (\<lambda>l. ''localhost:80''), ho_close = (\<lambda>c. None),
     ho_sync_ends = False, ho_hub_order = [], ho_hostname = True\<rparr>"

definition sample_cfg :: "string \<Rightarrow> unit config" where
  "sample_cfg = (\<lambda>k. EmptyReader)(''enable.store'' := ValReader (AString ''true''),
     ''store.provider'' := ValReader (AString ''postgres''),
     ''store.sql.driver.name'' := ValReader (AString ''postgres''),
     ''store.sql.connection.string'' := ValReader (AString ''db''),
     ''http.server.tls.disable'' := ValReader (AString ''true''))"

lemma sample_cfg_ok:
  "store_only sample_cfg" "store_opens sample_host sample_cfg ()" "serves sample_host sample_cfg ()"
  "host_ready sample_host sample_cfg"
  by (simp_all add: store_only_def store_opens_def serves_def host_ready_def sample_cfg_def sample_host_def
      BoolVal_def StringVal_def map_val_def to_lower_def lower_char_def postgresResourceStore_def)

text \<open>The same with reflection, which the library refuses to register twice by ending the process.\<close>

definition reflecting_host :: "(nat, nat, unit, unit, unit, unit, (string \<times> addr) list, unit, unit) host" where
  "reflecting_host = sample_host\<lparr>ho_register :=
     (\<lambda>ss. if ''reflection'' \<in> set ss then None else Some (Ret (ss @ [''reflection''])))\<rparr>"

definition reflecting_cfg :: "string \<Rightarrow> unit config" where
  "reflecting_cfg = sample_cfg(''grpc.server.enable.reflection'' := ValReader (AString ''true''))"

lemma reflecting_ok:
  "store_only reflecting_cfg" "store_opens reflecting_host reflecting_cfg ()" "serves reflecting_host reflecting_cfg ()"
  "host_ready reflecting_host reflecting_cfg"
  by (simp_all add: store_only_def store_opens_def serves_def host_ready_def reflecting_cfg_def reflecting_host_def
      sample_cfg_def sample_host_def BoolVal_def StringVal_def map_val_def to_lower_def lower_char_def
      postgresResourceStore_def)

lemma registered_samples:
  "first_registered sample_host sample_cfg [resource_store_service]"
  "registered_again sample_host sample_cfg [resource_store_service] = Some (Ret [resource_store_service])"
  "first_registered reflecting_host reflecting_cfg [resource_store_service, ''reflection'']"
  "registered_again reflecting_host reflecting_cfg [resource_store_service, ''reflection''] = None"
  by (simp_all add: first_registered_def registered_again_def reflecting_host_def reflecting_cfg_def sample_cfg_def
      sample_host_def resource_store_service_def BoolVal_def map_val_def to_lower_def lower_char_def)

theorem store_process_serves_witness:
  "(\<exists>r :: (unit, nat, unit, unit, unit, unit, (string \<times> addr) list, unit, unit, unit) root.
    run_main sample_host sample_cfg = Some (r, map Returned (store_calls @ [HttpStop, GrpcStart, StoreStop, AppClose])) \<and>
    gs_services (rt_grpc r) = [resource_store_service]) \<and>
   run_main reflecting_host reflecting_cfg =
     (None :: (unit, nat, unit, unit, unit, unit, (string \<times> addr) list, unit, unit, unit) root run_state option)"
  using store_process_serves [OF sample_cfg_ok registered_samples(1)]
    store_process_serves [OF reflecting_ok registered_samples(3)]
  unfolding registered_samples(2,4) by auto

lemma sample_run:
  "\<exists>r :: (unit, nat, unit, unit, unit, unit, (string \<times> addr) list, unit, unit, unit) root.
    run_main sample_host ((\<lambda>k. EmptyReader)(''enable.worker'' := ValReader (AString ''true''))) =
      Some (r, [Returned AppNew, Returned AwsInitialize, Returned TemporalDial, PanickedIn WorkerStart,
        Returned TemporalClose, Returned AppClose])"
  by (simp add: run_main_root main_actions_def injected_flags_def or_val_def perform_def map_run_def Let_def
      BoolVal_def StringVal_def map_val_def to_lower_def lower_char_def sample_host_def newRoot_def
      AwsBuilder_Initialize_def or_panic_def GetTemporalClient_def WorkerInstance_Start_def NewWorkerInstance_def
      injected_client_def GrpcClient_Start_def)

theorem process_stops_what_it_started_witness:
  "\<exists>made last. [Returned AppNew, Returned AwsInitialize, Returned TemporalDial, PanickedIn WorkerStart,
      Returned TemporalClose, Returned AppClose] = made @ last \<and> stops made = [] \<and>
    map call_of last = rev (map (\<lambda>s. if s = GrpcStop then GrpcStart else s) (due made))"
proof -
  obtain r :: "(unit, nat, unit, unit, unit, unit, (string \<times> addr) list, unit, unit, unit) root" where
    "run_main sample_host ((\<lambda>k. EmptyReader)(''enable.worker'' := ValReader (AString ''true''))) =
      Some (r, [Returned AppNew, Returned AwsInitialize, Returned TemporalDial, PanickedIn WorkerStart,
        Returned TemporalClose, Returned AppClose])" using sample_run by blast
  from process_stops_what_it_started [OF this] show ?thesis by blast
qed

theorem followers_never_shut_down_witness:
  "\<exists>r :: (unit, nat, unit, unit, unit, unit, (string \<times> addr) list, unit, unit, unit) root. \<exists>tr.
    run_main sample_host ((\<lambda>k. EmptyReader)(''enable.worker'' := ValReader (AString ''true''))) = Some (r, tr) \<and>
    Returned WorkerStart \<notin> set tr"
proof -
  obtain r :: "(unit, nat, unit, unit, unit, unit, (string \<times> addr) list, unit, unit, unit) root" and tr where
    m: "run_main sample_host ((\<lambda>k. EmptyReader)(''enable.worker'' := ValReader (AString ''true''))) = Some (r, tr)"
    using sample_run by blast
  have "ho_sync_ends sample_host \<Longrightarrow> \<exists>opened rss e. routine_reachable trivial_handler True opened rss (Ended e)"
    by (simp add: sample_host_def)
  from followers_never_shut_down [OF this m] m show ?thesis by blast
qed

end
