(* ===== verification/SyncLive.thy ===== *)
theory SyncLive
  imports Synchronizer
begin

text \<open>
  A session of \<open>Synchronizer\<close> that is not cancelled, seen to its end: what it comes to is a function
  of the stream, whatever the interleaving of its two goroutines, after a bounded number of steps;
  and what is left of the receiving goroutine when the handling one has returned.
\<close>

section \<open>The steps of the two goroutines\<close>

text \<open>Every step but a cancellation, which is the environment's.\<close>

definition own_step :: "'s event_handler \<Rightarrow> 's session \<Rightarrow> 's session \<Rightarrow> bool" where
  "own_step H c c' \<longleftrightarrow> sync_step H c c' \<and> c' \<noteq> c \<and> ss_cancelled c' = ss_cancelled c"

inductive own_run :: "'s event_handler \<Rightarrow> nat \<Rightarrow> 's session \<Rightarrow> 's session \<Rightarrow> bool" for H where
  no_step: "own_run H 0 c c"
| one_more: "own_run H n c c' \<Longrightarrow> own_step H c' c'' \<Longrightarrow> own_run H (Suc n) c c''"

definition resting :: "'s event_handler \<Rightarrow> 's session \<Rightarrow> bool" where
  "resting H c \<longleftrightarrow> (\<forall>c'. \<not> own_step H c c')"

text \<open>What a session comes to: its handling goroutine and its synchronizer.\<close>

fun session_end :: "'s event_handler \<Rightarrow> recv_result list \<Rightarrow> 's synchronizer \<Rightarrow> main_pc \<times> 's synchronizer" where
  "session_end H [] r = (M_Select, r)"
| "session_end H (RecvMsg m # xs) r = (case handle_response H r m of
     Done r' \<Rightarrow> session_end H xs r' | Fail e r' \<Rightarrow> (M_Return (Some e), r') | Crash p \<Rightarrow> (M_Panic p, r))"
| "session_end H (RecvEOF # xs) r = (M_Return None, r)"
| "session_end H (RecvError e # xs) r = (M_Return (Some e), r)"

lemma session_end_done: "handle_all H ms r = Done r' \<Longrightarrow> session_end H (map RecvMsg ms @ xs) r = session_end H xs r'"
  unfolding handle_all_def
proof (induction ms arbitrary: r)
  case (Cons m ms)
  then show ?case by (cases "handle_response H r m") simp_all
qed simp

lemma session_end_fail:
  "handle_all H ms r = Fail e r' \<Longrightarrow> session_end H (map RecvMsg ms @ xs) r = (M_Return (Some e), r')"
  unfolding handle_all_def
proof (induction ms arbitrary: r)
  case (Cons m ms)
  then show ?case by (cases "handle_response H r m") simp_all
qed simp

lemma offered_err: "offered (R_OfferErr e) = [case e of None \<Rightarrow> RecvEOF | Some x \<Rightarrow> RecvError x]"
  by (simp add: offered_def split: option.split)

section \<open>An uncancelled session\<close>

text \<open>
  While the handling goroutine selects, the end is that of what is still to come, and the receiver
  has not left its loop; then it is reached.
\<close>

definition live_inv :: "'s event_handler \<Rightarrow> recv_result list \<Rightarrow> 's synchronizer \<Rightarrow> 's session \<Rightarrow> bool" where
  "live_inv H script r c \<longleftrightarrow> \<not> ss_cancelled c \<and>
     (if ss_main c = M_Select
      then ss_recv c \<notin> {R_Break, R_ErrClosed, R_BothClosed} \<and>
        session_end H (offered (ss_recv c) @ ss_script c) (ss_sync c) = session_end H script r
      else (ss_main c, ss_sync c) = session_end H script r)"

text \<open>The steps that are left to the receiver when its sends are received.\<close>

fun steps_of :: "recv_pc \<Rightarrow> nat" where
  "steps_of R_Check = 2"
| "steps_of R_Recv = 1"
| "steps_of (R_OfferList m) = 3"
| "steps_of (R_OfferErr e) = 3"
| "steps_of R_Break = 2"
| "steps_of R_ErrClosed = 1"
| "steps_of R_BothClosed = 0"

definition steps_to_come :: "'s session \<Rightarrow> nat" where
  "steps_to_come c = 3 * length (ss_script c) + steps_of (ss_recv c)"

lemma live_inv_start: "live_inv H script r (start_session script r)"
  by (simp add: live_inv_def start_session_def)

lemma live_inv_step:
  assumes "own_step H c c'" and "live_inv H script r c"
  shows "live_inv H script r c' \<and> steps_to_come c = Suc (steps_to_come c')"
proof -
  from assms(1) have s: "sync_step H c c'" "c' \<noteq> c" "ss_cancelled c' = ss_cancelled c" by (simp_all add: own_step_def)
  from s(1) show ?thesis
  proof cases
    case cancel
    with s(2,3) show ?thesis by simp
  next
    case (recv x xs)
    with assms(2) show ?thesis by (cases x) (simp_all add: live_inv_def steps_to_come_def offered_err split: if_splits)
  next
    case (take_list m)
    with assms(2) show ?thesis
      by (cases "handle_response H (ss_sync c) m") (simp_all add: live_inv_def steps_to_come_def)
  next
    case (take_err e)
    with assms(2) show ?thesis by (cases e) (simp_all add: live_inv_def steps_to_come_def offered_err)
  qed (use assms(2) in \<open>auto simp: live_inv_def steps_to_come_def split: if_splits\<close>)
qed

lemma own_run_live:
  "own_run H n c c' \<Longrightarrow> live_inv H script r c \<Longrightarrow> live_inv H script r c' \<and> steps_to_come c = n + steps_to_come c'"
proof (induction rule: own_run.induct)
  case no_step
  then show ?case by simp
next
  case (one_more n c' c'')
  with live_inv_step [OF one_more.hyps(2)] show ?case by fastforce
qed

text \<open>A step of the receiver or of the handler is there as long as one of them waits for the other.\<close>

lemma resting_iff:
  assumes "\<not> ss_cancelled c"
  shows "resting H c \<Longrightarrow> ss_recv c \<notin> {R_Check, R_Break, R_ErrClosed} \<and> (ss_recv c = R_Recv \<longrightarrow> ss_script c = []) \<and>
    (ss_main c = M_Select \<longrightarrow> offered (ss_recv c) = [])"
proof -
  assume rest: "resting H c"
  have no: False if "sync_step H c c'" "ss_recv c' \<noteq> ss_recv c" "ss_cancelled c' = ss_cancelled c" for c'
    using rest that by (auto simp: resting_def own_step_def)
  have after: "ss_cancelled (after_handle x c) = ss_cancelled c" "ss_recv (after_handle x c) = ss_recv c" for x c
    by (cases x; simp)+
  have "ss_recv c \<noteq> R_Check" using no [OF check] assms by auto
  moreover have "ss_recv c \<noteq> R_Break" using no [OF close_err] by auto
  moreover have "ss_recv c \<noteq> R_ErrClosed" using no [OF close_list] by auto
  moreover have "ss_script c = []" if "ss_recv c = R_Recv"
  proof (rule ccontr)
    assume "ss_script c \<noteq> []"
    then obtain x xs where "ss_script c = x # xs" by (cases "ss_script c") auto
    from no [OF recv [OF that this]] that show False by (cases x) simp_all
  qed
  moreover have "ss_recv c \<noteq> R_OfferList m" if "ss_main c = M_Select" for m
    using no [OF take_list [OF that]] by (auto simp: after)
  moreover have "ss_recv c \<noteq> R_OfferErr e" if "ss_main c = M_Select" for e
    using no [OF take_err [OF that]] by auto
  ultimately show ?thesis by (cases "ss_recv c") auto
qed

lemma live_resting:
  assumes "live_inv H script r c" and "resting H c"
  shows "(ss_main c, ss_sync c) = session_end H script r"
proof -
  have "\<not> ss_cancelled c" using assms(1) by (simp add: live_inv_def)
  from resting_iff [OF this assms(2)] assms(1) show ?thesis
    by (cases "ss_recv c") (auto simp: live_inv_def offered_err split: if_splits)
qed

lemma own_run_first: "own_run H n c1 c' \<Longrightarrow> own_step H c c1 \<Longrightarrow> own_run H (Suc n) c c'"
  by (induction rule: own_run.induct) (blast intro: own_run.intros)+

lemma run_to_rest: "live_inv H script r c \<Longrightarrow> \<exists>n c'. own_run H n c c' \<and> resting H c'"
proof (induction "steps_to_come c" arbitrary: c rule: less_induct)
  case less
  show ?case
  proof (cases "resting H c")
    case True
    then show ?thesis using no_step by blast
  next
    case False
    then obtain c1 where 1: "own_step H c c1" by (auto simp: resting_def)
    from live_inv_step [OF this less.prems] less.hyps [of c1] obtain n c' where
      "own_run H n c1 c'" "resting H c'" by auto
    with own_run_first [OF _ 1] show ?thesis by blast
  qed
qed

text \<open>
  \<open>settles\<close>: every uncancelled run over a stream is bounded, goes on to a rest, and is there as told.
\<close>

definition settles ::
    "'s event_handler \<Rightarrow> recv_result list \<Rightarrow> 's synchronizer \<Rightarrow> main_pc \<Rightarrow> 's synchronizer \<Rightarrow> bool" where
  "settles H script r m r' \<longleftrightarrow> (\<forall>n c. own_run H n (start_session script r) c \<longrightarrow>
     n \<le> 3 * length script + 2 \<and> (\<exists>n' c'. own_run H n' c c' \<and> resting H c') \<and>
     (resting H c \<longrightarrow> ss_main c = m \<and> ss_sync c = r'))"

lemma session_settles:
  assumes "session_end H script r = (m, r')"
  shows "settles H script r m r'"
  unfolding settles_def
proof (intro allI impI)
  fix n c assume "own_run H n (start_session script r) c"
  from own_run_live [OF this live_inv_start] have l: "live_inv H script r c"
    and n: "steps_to_come (start_session script r) = n + steps_to_come c" by simp_all
  have "n \<le> 3 * length script + 2" using n by (simp add: steps_to_come_def start_session_def)
  moreover from live_resting [OF l] assms have "resting H c \<longrightarrow> ss_main c = m \<and> ss_sync c = r'" by auto
  ultimately show "n \<le> 3 * length script + 2 \<and> (\<exists>n' c'. own_run H n' c c' \<and> resting H c') \<and>
     (resting H c \<longrightarrow> ss_main c = m \<and> ss_sync c = r')" using run_to_rest [OF l] by blast
qed

text \<open>A stream that stays open after responses the handler takes.\<close>

lemma settles_done: "handle_all H ms r = Done r' \<Longrightarrow> settles H (map RecvMsg ms) r M_Select r'"
  using session_end_done [of H ms r r' "[]"] by (intro session_settles) simp

section \<open>What is left of the receiver\<close>

text \<open>Once the handling goroutine has returned, a send of the receiver is never received.\<close>

lemma offering_step:
  assumes "sync_step H c c'" and "ss_main c \<noteq> M_Select" and "offered (ss_recv c) \<noteq> []"
  shows "ss_main c' = ss_main c \<and> ss_recv c' = ss_recv c"
  using assms by cases (auto simp: offered_def)

lemma offering_forever:
  "(sync_step H)\<^sup>*\<^sup>* c c' \<Longrightarrow> ss_main c \<noteq> M_Select \<Longrightarrow> offered (ss_recv c) \<noteq> [] \<Longrightarrow> ss_recv c' = ss_recv c"
proof -
  assume s: "(sync_step H)\<^sup>*\<^sup>* c c'" and c: "ss_main c \<noteq> M_Select" "offered (ss_recv c) \<noteq> []"
  from s have "ss_main c' = ss_main c \<and> ss_recv c' = ss_recv c"
  proof (induction rule: rtranclp_induct)
    case (step y z)
    with offering_step [OF step.hyps(2)] c show ?case by simp
  qed simp
  then show ?thesis by simp
qed

text \<open>A stream whose response \<open>m\<close> fails, with \<open>x\<close> to follow.\<close>

definition failing_inv ::
    "'s event_handler \<Rightarrow> watch_response \<Rightarrow> recv_result \<Rightarrow> recv_result list \<Rightarrow> goerr \<Rightarrow> 's synchronizer \<Rightarrow>
     's synchronizer \<Rightarrow> 's session \<Rightarrow> bool" where
  "failing_inv H m x xs e r0 r' c \<longleftrightarrow> \<not> ss_cancelled c \<and> ss_recv c \<notin> {R_Break, R_ErrClosed, R_BothClosed} \<and>
     (if ss_main c = M_Select
      then \<exists>ms. offered (ss_recv c) @ ss_script c = map RecvMsg ms @ RecvMsg m # x # xs \<and>
        handle_all H ms (ss_sync c) = Done r0
      else ss_main c = M_Return (Some e) \<and> ss_sync c = r' \<and> offered (ss_recv c) @ ss_script c = x # xs)"

lemma failing_inv_step:
  assumes "own_step H c c'" and "failing_inv H m x xs e r0 r' c" and "handle_response H r0 m = Fail e r'"
  shows "failing_inv H m x xs e r0 r' c'"
proof -
  from assms(1) have s: "sync_step H c c'" "c' \<noteq> c" "ss_cancelled c' = ss_cancelled c" by (simp_all add: own_step_def)
  from s(1) show ?thesis
  proof cases
    case cancel
    with s(2,3) show ?thesis by simp
  next
    case (recv y ys)
    with assms(2) show ?thesis by (cases y) (simp_all add: failing_inv_def offered_err split: if_splits)
  next
    case (take_list m')
    with assms(2) obtain ms where ms: "RecvMsg m' # ss_script c = map RecvMsg ms @ RecvMsg m # x # xs"
      "handle_all H ms (ss_sync c) = Done r0" "\<not> ss_cancelled c" by (auto simp: failing_inv_def)
    show ?thesis
    proof (cases ms)
      case Nil
      with ms take_list assms(3) show ?thesis by (simp add: failing_inv_def handle_all_def)
    next
      case (Cons y ys)
      with ms take_list show ?thesis
        by (cases "handle_response H (ss_sync c) m'") (auto simp: failing_inv_def handle_all_def)
    qed
  next
    case (take_err e')
    with assms(2) obtain ms where "(case e' of None \<Rightarrow> RecvEOF | Some y \<Rightarrow> RecvError y) # ss_script c =
        map RecvMsg ms @ RecvMsg m # x # xs" by (auto simp: failing_inv_def offered_err)
    then show ?thesis by (cases ms) (simp_all split: option.splits)
  qed (use assms(2) in \<open>auto simp: failing_inv_def split: if_splits\<close>)
qed

lemma own_run_failing:
  "own_run H n c c' \<Longrightarrow> failing_inv H m x xs e r0 r' c \<Longrightarrow> handle_response H r0 m = Fail e r' \<Longrightarrow>
    failing_inv H m x xs e r0 r' c'"
  by (induction rule: own_run.induct) (auto intro: failing_inv_step)

section \<open>Properties\<close>

text \<open>
  C12. Without a cancellation, what a session comes to is a function of the stream, whatever the
  interleaving of its goroutines: it handles the responses in order until one fails or panics or the
  stream ends, and comes to rest there, with the state, the result or the panic that this makes. It
  takes at most three steps for each result of the stream and two more, and every run goes on to
  the rest.
\<close>

theorem session_comes_to_its_end:
  assumes "own_run H n (start_session script r) c"
  shows "n \<le> 3 * length script + 2 \<and> (\<exists>n' c'. own_run H n' c c' \<and> resting H c') \<and>
    (resting H c \<longrightarrow> (ss_main c, ss_sync c) = session_end H script r)"
proof -
  obtain m r' where e: "session_end H script r = (m, r')" by force
  from session_settles [OF this] assms have "n \<le> 3 * length script + 2 \<and> (\<exists>n' c'. own_run H n' c c' \<and> resting H c') \<and>
    (resting H c \<longrightarrow> ss_main c = m \<and> ss_sync c = r')" unfolding settles_def by blast
  then show ?thesis by (simp add: e)
qed

text \<open>
  C36. A handler that fails leaves the receiving goroutine behind: when the stream gives anything
  after the response that failed, the receiver comes to send it on a channel no one reads any more, and
  stays there for ever, whether the context is cancelled or not.
\<close>

theorem failed_handler_leaks_receiver:
  assumes "handle_all H ms r = Done r0" and "handle_response H r0 m = Fail e r'"
    and "own_run H n (start_session (map RecvMsg ms @ RecvMsg m # x # xs) r) c" and "resting H c"
  shows "ss_main c = M_Return (Some e) \<and> ss_sync c = r' \<and>
    (\<forall>c'. (sync_step H)\<^sup>*\<^sup>* c c' \<longrightarrow> ss_recv c' = after_recv x)"
proof -
  let ?s = "start_session (map RecvMsg ms @ RecvMsg m # x # xs) r"
  have "failing_inv H m x xs e r0 r' ?s" using assms(1) by (auto simp: failing_inv_def start_session_def)
  from own_run_failing [OF assms(3) this assms(2)] have f: "failing_inv H m x xs e r0 r' c" .
  have nc: "\<not> ss_cancelled c" using f by (simp add: failing_inv_def)
  note rest = resting_iff [OF nc assms(4)]
  have main: "ss_main c \<noteq> M_Select"
  proof
    assume "ss_main c = M_Select"
    with f rest show False by (cases "ss_recv c") (auto simp: failing_inv_def offered_err)
  qed
  with f have c: "ss_main c = M_Return (Some e)" "ss_sync c = r'" "offered (ss_recv c) @ ss_script c = x # xs"
    "ss_recv c \<noteq> R_BothClosed" by (simp_all add: failing_inv_def)
  have "ss_recv c = after_recv x \<and> offered (ss_recv c) \<noteq> []"
    using c(3,4) rest by (cases "ss_recv c") (auto simp: offered_err split: option.splits)
  with offering_forever [of H c] main c(1,2) show ?thesis by auto
qed

section \<open>Witnesses\<close>

text \<open>A handler whose end of a page goes by and whose batches fail.\<close>

definition failing_handler :: "unit event_handler" where
  "failing_handler = trivial_handler\<lparr>eh_before_batch := Fail ErrCanceled\<rparr>"

theorem session_comes_to_its_end_witness:
  "\<exists>n c. own_run trivial_handler n (start_session [RecvMsg \<lparr>wr_updated = [], wr_dropped = [], wr_end_of_list = True\<rparr>, RecvEOF]
      start_sync) c \<and> ss_main c = M_Return None \<and> ss_sync c = start_sync"
proof -
  let ?s = "start_session [RecvMsg \<lparr>wr_updated = [], wr_dropped = [], wr_end_of_list = True\<rparr>, RecvEOF] start_sync"
  from session_comes_to_its_end [OF no_step [of trivial_handler ?s]] obtain n c where
    c: "own_run trivial_handler n ?s c" "resting trivial_handler c" by blast
  from session_comes_to_its_end [OF c(1)] c show ?thesis
    by (intro exI [of _ n] exI [of _ c]) (simp add: handle_response_def trivial_handler_def lift_eff_def)
qed

theorem failed_handler_leaks_receiver_witness:
  "\<exists>n c. own_run failing_handler n (start_session [RecvMsg \<lparr>wr_updated = [], wr_dropped = [], wr_end_of_list = False\<rparr>, RecvEOF]
      start_sync) c \<and> ss_main c = M_Return (Some ErrCanceled) \<and> ss_recv (c\<lparr>ss_cancelled := True\<rparr>) = R_OfferErr None"
proof -
  let ?m = "\<lparr>wr_updated = [], wr_dropped = [], wr_end_of_list = False\<rparr>"
  let ?s = "start_session (map RecvMsg [] @ RecvMsg ?m # RecvEOF # []) start_sync"
  from run_to_rest [OF live_inv_start] obtain n c where
    c: "own_run failing_handler n ?s c" "resting failing_handler c" by blast
  have "handle_all failing_handler [] start_sync = Done start_sync" "handle_response failing_handler start_sync ?m =
      Fail ErrCanceled start_sync"
    by (simp_all add: handle_all_def handle_response_def failing_handler_def lift_eff_def start_sync_def)
  from failed_handler_leaks_receiver [OF this c] have "ss_main c = M_Return (Some ErrCanceled)" "ss_recv c = after_recv RecvEOF"
    by auto
  with c(1) show ?thesis by (intro exI [of _ n] exI [of _ c]) simp
qed

end
