(* ===== verification/Store.thy ===== *)
theory Store
  imports Messages "HOL-Library.Product_Lexorder"
begin

text \<open>
  The resource store on PostgreSQL, \<^verbatim>\<open>provider/postgres/resource_store.go\<close>, over the queries
  of \<^verbatim>\<open>provider/postgres/gen\<close> with the meaning of their SQL on the two tables of
  \<^verbatim>\<open>provider/postgres/schema\<close>: the cache (primary key namespace, id) and the events (primary
  key namespace, version index, id). A transaction whose statement fails at the server is aborted,
  as in PostgreSQL: later statements fail and it cannot be committed. A statement whose context has
  ended is refused by \<^verbatim>\<open>database/sql\<close> before it is sent, and does not abort the transaction, which
  \<^verbatim>\<open>Begin\<close> opened without that context. A call's transaction is one step of the database; the
  statements of a watch, which are in no transaction, each find the database as it then is.
\<close>

section \<open>Tables\<close>

type_synonym uuid = "128 word"

text \<open>\<^verbatim>\<open>ResourceCache\<close> and \<^verbatim>\<open>ResourceEvent\<close> of \<^verbatim>\<open>gen/models.go\<close>.\<close>

record ResourceCache =
  rc_namespace :: string
  rc_id :: uuid
  rc_version_index :: int64
  rc_name :: string
  rc_spec_type_url :: string
  rc_spec_value :: bytes
  rc_sha256_hash :: string

record ResourceEvent = ResourceCache +
  re_status :: string

definition activeResource :: string where "activeResource = ''ACTIVE''"
definition droppedResource :: string where "droppedResource = ''DROPPED''"

record db =
  db_cache :: "ResourceCache list"
  db_events :: "ResourceEvent list"

text \<open>
  The store and a transaction. \<open>faults\<close>: what happens at the coming statements (past the end
  nothing): the server fails the statement, or before it the context of the request ends, by a
  cancellation or its deadline. \<open>tx_ctx_done\<close>: that context has ended.
\<close>

datatype outcome = Fails string | CtxEnds

record store =
  st_db :: db
  st_faults :: "outcome option list"

record tx =
  tx_db :: db
  tx_faults :: "outcome option list"
  tx_aborted :: bool
  tx_ctx_done :: bool

fun next_fault :: "outcome option list \<Rightarrow> outcome option" where
  "next_fault [] = None"
| "next_fault (x # xs) = x"

type_synonym 'a statement = "db \<Rightarrow> goerr + 'a \<times> db"

definition exec_tx :: "'a statement \<Rightarrow> tx \<Rightarrow> (goerr + 'a) \<times> tx" where
  "exec_tx f t =
     (let t' = t\<lparr>tx_faults := tl (tx_faults t)\<rparr>
      in if tx_ctx_done t then (Inl ErrCanceled, t)
         else if next_fault (tx_faults t) = Some CtxEnds then (Inl ErrCanceled, t'\<lparr>tx_ctx_done := True\<rparr>)
         else if tx_aborted t then (Inl (ErrOther ''current transaction is aborted''), t)
         else case next_fault (tx_faults t) of
           Some (Fails e) \<Rightarrow> (Inl (ErrOther e), t'\<lparr>tx_aborted := True\<rparr>)
         | _ \<Rightarrow> (case f (tx_db t) of
               Inl e \<Rightarrow> (Inl e, t'\<lparr>tx_aborted := True\<rparr>)
             | Inr (a, d) \<Rightarrow> (Inr a, t'\<lparr>tx_db := d\<rparr>)))"

text \<open>A statement outside a transaction.\<close>

definition exec_db :: "'a statement \<Rightarrow> store \<Rightarrow> (goerr + 'a) \<times> store" where
  "exec_db f st =
     (let st' = st\<lparr>st_faults := tl (st_faults st)\<rparr>
      in case next_fault (st_faults st) of
           Some (Fails e) \<Rightarrow> (Inl (ErrOther e), st')
         | Some CtxEnds \<Rightarrow> (Inl ErrCanceled, st')
         | None \<Rightarrow> (case f (st_db st) of
               Inl e \<Rightarrow> (Inl e, st') | Inr (a, d) \<Rightarrow> (Inr a, st'\<lparr>st_db := d\<rparr>)))"

text \<open>
  \<^verbatim>\<open>Begin\<close>, \<^verbatim>\<open>Rollback\<close> and \<^verbatim>\<open>Commit\<close> take no context: only the server can fail them.
\<close>

definition begin_tx :: "store \<Rightarrow> (goerr + tx) \<times> store" where
  "begin_tx st =
     (let st' = st\<lparr>st_faults := tl (st_faults st)\<rparr>
      in case next_fault (st_faults st) of
           Some (Fails e) \<Rightarrow> (Inl (ErrOther e), st')
         | x \<Rightarrow> (Inr \<lparr>tx_db = st_db st, tx_faults = st_faults st', tx_aborted = False,
                   tx_ctx_done = (x = Some CtxEnds)\<rparr>, st'))"

definition rollback :: "tx \<Rightarrow> store \<Rightarrow> store" where
  "rollback t st = st\<lparr>st_faults := tx_faults t\<rparr>"

definition commit :: "tx \<Rightarrow> store \<Rightarrow> goerr option \<times> store" where
  "commit t st =
     (if tx_aborted t
      then (Some (ErrOther ''pq: Could not complete operation in a failed transaction''), rollback t st)
      else let st' = st\<lparr>st_faults := tl (tx_faults t)\<rparr>
      in case next_fault (tx_faults t) of
           Some (Fails e) \<Rightarrow> (Some (ErrOther e), st')
         | _ \<Rightarrow> (None, st'\<lparr>st_db := tx_db t\<rparr>))"

section \<open>The queries of \<^verbatim>\<open>gen/query.sql.go\<close>\<close>

definition at_key :: "string \<Rightarrow> uuid \<Rightarrow> ResourceCache \<Rightarrow> bool" where
  "at_key ns i r \<longleftrightarrow> rc_namespace r = ns \<and> rc_id r = i"

definition cache_row :: "db \<Rightarrow> string \<Rightarrow> uuid \<Rightarrow> ResourceCache option" where
  "cache_row d ns i = find (at_key ns i) (db_cache d)"

definition sql_one :: "'a option \<Rightarrow> db \<Rightarrow> goerr + 'a \<times> db" where
  "sql_one r d = (case r of None \<Rightarrow> Inl ErrNoRows | Some a \<Rightarrow> Inr (a, d))"

text \<open>A row a query does not find is no failure of the statement: it does not abort.\<close>

definition scan_row :: "(goerr + 'a option) \<times> 's \<Rightarrow> (goerr + 'a) \<times> 's" where
  "scan_row r = (case r of
     (Inl e, s) \<Rightarrow> (Inl e, s) | (Inr None, s) \<Rightarrow> (Inl ErrNoRows, s) | (Inr (Some a), s) \<Rightarrow> (Inr a, s))"

definition CountResourceCacheBefore :: "string \<Rightarrow> int64 \<Rightarrow> nat statement" where
  "CountResourceCacheBefore ns before d = Inr (length (filter
     (\<lambda>r. rc_namespace r = ns \<and> sint (rc_version_index r) < sint before) (db_cache d)), d)"

definition DropResourceCache :: "string \<Rightarrow> uuid \<Rightarrow> unit statement" where
  "DropResourceCache ns i d = Inr ((), d\<lparr>db_cache := filter (\<lambda>r. \<not> at_key ns i r) (db_cache d)\<rparr>)"

definition DropResourceCacheBefore :: "string \<Rightarrow> int64 \<Rightarrow> unit statement" where
  "DropResourceCacheBefore ns before d = Inr ((), d\<lparr>db_cache := filter
     (\<lambda>r. \<not> (rc_namespace r = ns \<and> sint (rc_version_index r) < sint before)) (db_cache d)\<rparr>)"

definition GetResourceCache :: "string \<Rightarrow> uuid \<Rightarrow> ResourceCache option statement" where
  "GetResourceCache ns i d = Inr (cache_row d ns i, d)"

definition GetResourceCacheSummary :: "string \<Rightarrow> uuid \<Rightarrow> (int64 \<times> string) option statement" where
  "GetResourceCacheSummary ns i d =
     Inr (map_option (\<lambda>r. (rc_version_index r, rc_sha256_hash r)) (cache_row d ns i), d)"

definition event_pk :: "ResourceEvent \<Rightarrow> string \<times> int64 \<times> uuid" where
  "event_pk e = (rc_namespace e, rc_version_index e, rc_id e)"

text \<open>Inserting events one after the other; a duplicate primary key fails the statement.\<close>

fun insert_events :: "ResourceEvent list \<Rightarrow> unit statement" where
  "insert_events [] d = Inr ((), d)"
| "insert_events (e # es) d =
     (if event_pk e \<in> event_pk ` set (db_events d)
      then Inl (ErrOther ''duplicate key value violates unique constraint'')
      else insert_events es (d\<lparr>db_events := db_events d @ [e]\<rparr>))"

definition event_of :: "string \<Rightarrow> ResourceCache \<Rightarrow> ResourceEvent" where
  "event_of status r = ResourceCache.extend r \<lparr>re_status = status\<rparr>"

definition InsertActiveResourceEvent :: "string \<Rightarrow> uuid \<Rightarrow> unit statement" where
  "InsertActiveResourceEvent ns i d =
     insert_events (map (event_of activeResource) (filter (at_key ns i) (db_cache d))) d"

definition InsertDroppedResourceBeforeEvent :: "int64 \<Rightarrow> string \<Rightarrow> int64 \<Rightarrow> unit statement" where
  "InsertDroppedResourceBeforeEvent version ns before d =
     insert_events (map (\<lambda>r. event_of droppedResource (r\<lparr>rc_version_index := version\<rparr>))
       (filter (\<lambda>r. rc_namespace r = ns \<and> sint (rc_version_index r) < sint before) (db_cache d))) d"

definition InsertDroppedResourceEvent :: "int64 \<Rightarrow> string \<Rightarrow> uuid \<Rightarrow> unit statement" where
  "InsertDroppedResourceEvent version ns i d =
     insert_events (map (\<lambda>r. event_of droppedResource (r\<lparr>rc_version_index := version\<rparr>))
       (filter (at_key ns i) (db_cache d))) d"

text \<open>
  \<open>ties\<close>: the rows in the order of \<^verbatim>\<open>ORDER BY version_index\<close>, which leaves open how rows of
  one version index follow each other.
\<close>

definition ListResourcesCachedFromNamespace ::
    "(ResourceCache list \<Rightarrow> ResourceCache list) \<Rightarrow> string \<Rightarrow> int32 \<Rightarrow> int32 \<Rightarrow> ResourceCache list statement"
  where "ListResourcesCachedFromNamespace ties ns maxRows rowsOffset d =
     (if sint rowsOffset < 0 then Inl (ErrOther ''OFFSET must not be negative'')
      else if sint maxRows < 0 then Inl (ErrOther ''LIMIT must not be negative'')
      else Inr (take (nat (sint maxRows)) (drop (nat (sint rowsOffset))
        (ties (filter (\<lambda>r. rc_namespace r = ns) (db_cache d)))), d))"

text \<open>The order of the events of a namespace: version index (signed), then id (by bytes).\<close>

definition event_key :: "ResourceEvent \<Rightarrow> int \<times> int" where
  "event_key e = (sint (rc_version_index e), uint (rc_id e))"

definition events_of :: "string \<Rightarrow> db \<Rightarrow> ResourceEvent list" where
  "events_of ns d = sort_key event_key (filter (\<lambda>e. rc_namespace e = ns) (db_events d))"

record ListResourcesEventsFromNamespaceParams =
  ep_namespace :: string
  ep_from_version_index :: int64
  ep_from_id :: uuid
  ep_max_rows :: int32

definition cursor_key :: "ListResourcesEventsFromNamespaceParams \<Rightarrow> int \<times> int" where
  "cursor_key p = (sint (ep_from_version_index p), uint (ep_from_id p))"

definition ListResourcesEventsFromNamespace ::
    "ListResourcesEventsFromNamespaceParams \<Rightarrow> ResourceEvent list statement" where
  "ListResourcesEventsFromNamespace p d =
     (if sint (ep_max_rows p) < 0 then Inl (ErrOther ''LIMIT must not be negative'')
      else Inr (take (nat (sint (ep_max_rows p)))
        (filter (\<lambda>e. cursor_key p < event_key e) (events_of (ep_namespace p) d)), d))"

definition MaxVersionIndexForNamespace :: "string \<Rightarrow> (uuid \<times> int64) option statement" where
  "MaxVersionIndexForNamespace ns d = Inr (case rev (events_of ns d) of [] \<Rightarrow> None
     | e # _ \<Rightarrow> Some (rc_id e, rc_version_index e), d)"

definition UpsertResourceCache :: "ResourceCache \<Rightarrow> unit statement" where
  "UpsertResourceCache r d = Inr ((), d\<lparr>db_cache :=
     (if list_ex (at_key (rc_namespace r) (rc_id r)) (db_cache d)
      then map (\<lambda>x. if at_key (rc_namespace r) (rc_id r) x then r else x) (db_cache d)
      else db_cache d @ [r])\<rparr>)"

section \<open>The service\<close>

text \<open>
  What the service takes from outside the repository: parsing and printing a UUID, the protobuf
  encoding (\<open>None\<close>: an error), SHA-256 and base64, the order of ties, and the outcome of the
  n-th \<^verbatim>\<open>Send\<close> on the watch stream.
\<close>

record store_env =
  se_parse :: "string \<Rightarrow> uuid option"
  se_show :: "uuid \<Rightarrow> string"
  se_marshal :: "resource \<Rightarrow> bytes option"
  se_sha256 :: "bytes \<Rightarrow> bytes"
  se_base64 :: "bytes \<Rightarrow> string"
  se_ties :: "ResourceCache list \<Rightarrow> ResourceCache list"
  se_send :: "nat \<Rightarrow> goerr option"

definition hashResource :: "store_env \<Rightarrow> resource \<Rightarrow> string val" where
  "hashResource E res = (case se_marshal E res of
     None \<Rightarrow> Panics ''marshal error'' | Some raw \<Rightarrow> Ret (se_base64 E (se_sha256 E raw)))"

definition time_Unix :: "int64 \<Rightarrow> go_time" where
  "time_Unix s = \<lparr>t_unix = s, t_nsec = 0\<rparr>"

type_synonym 'a reply = "((goerr + 'a) \<times> store) val"

text \<open>The end of \<^verbatim>\<open>Put\<close>: the commit and the response.\<close>

definition put_commit :: "tx \<Rightarrow> version \<Rightarrow> store \<Rightarrow> put_response reply" where
  "put_commit t v st = (case commit t st of
     (Some e, st') \<Rightarrow> Ret (Inl e, st')
   | (None, st') \<Rightarrow> Ret (Inr \<lparr>pr_version = v\<rparr>, st'))"

definition put_in_tx :: "store_env \<Rightarrow> go_time \<Rightarrow> resource \<Rightarrow> uuid \<Rightarrow> tx \<Rightarrow> store \<Rightarrow> put_response reply"
  where "put_in_tx E now res i t st =
     (let versionIndex = t_unix now;
          (cache, t1) = scan_row (exec_tx (GetResourceCacheSummary (r_namespace res) i) t)
      in case hashResource E (res\<lparr>r_version := None\<rparr>) of
           Panics e \<Rightarrow> Panics e
         | Ret sha256Hash \<Rightarrow>
             (let changed = (case cache of Inl e \<Rightarrow> e = ErrNoRows | Inr (_, h) \<Rightarrow> h \<noteq> sha256Hash)
              in if changed then
                (case r_spec res of
                   None \<Rightarrow> Panics ''nil pointer dereference''
                 | Some spec \<Rightarrow>
                    (let (_, t2) = exec_tx (UpsertResourceCache
                           \<lparr>rc_namespace = r_namespace res, rc_id = i,
                            rc_version_index = versionIndex, rc_name = r_name res,
                            rc_spec_type_url = any_type_url spec, rc_spec_value = any_value spec,
                            rc_sha256_hash = sha256Hash\<rparr>) t1;
                         (_, t3) = exec_tx (InsertActiveResourceEvent (r_namespace res) i) t2
                     in put_commit t3 \<lparr>v_sha256_hash = sha256Hash, v_timestamp = now,
                          v_index = versionIndex\<rparr> st))
                else (case cache of
                    Inr (v, _) \<Rightarrow> put_commit t1 \<lparr>v_sha256_hash = sha256Hash,
                       v_timestamp = time_Unix v, v_index = v\<rparr> st
                  | Inl e \<Rightarrow> Ret (Inl e, rollback t1 st))))"

definition Put :: "store_env \<Rightarrow> go_time \<Rightarrow> put_request \<Rightarrow> store \<Rightarrow> put_response reply" where
  "Put E now req st = (case pr_resource req of
     None \<Rightarrow> Panics ''nil pointer dereference''
   | Some res \<Rightarrow> (case se_parse E (r_id res) of
       None \<Rightarrow> Ret (Inl (ErrStatus InvalidArgument
         ''Invalid resource ID, must be in UUID format''), st)
     | Some i \<Rightarrow> (case begin_tx st of
         (Inl e, st') \<Rightarrow> Ret (Inl e, st')
       | (Inr t, st') \<Rightarrow> put_in_tx E now res i t st')))"

definition cached_resource :: "string \<Rightarrow> string \<Rightarrow> 'a ResourceCache_scheme \<Rightarrow> resource" where
  "cached_resource ns ident row =
     \<lparr>r_namespace = ns, r_id = ident, r_name = rc_name row,
      r_spec = Some \<lparr>any_type_url = rc_spec_type_url row, any_value = rc_spec_value row\<rparr>,
      r_version = Some \<lparr>v_sha256_hash = rc_sha256_hash row,
        v_timestamp = time_Unix (rc_version_index row), v_index = rc_version_index row\<rparr>\<rparr>"

definition Get :: "store_env \<Rightarrow> get_request \<Rightarrow> store \<Rightarrow> get_response reply" where
  "Get E req st = (case se_parse E (gr_resource_id req) of
     None \<Rightarrow> Ret (Inl (ErrStatus InvalidArgument
       (''Invalid resource ID, must be in UUID format (value '' @ gr_resource_id req @ '')'')), st)
   | Some i \<Rightarrow> (case scan_row (exec_db (GetResourceCache (gr_namespace req) i) st) of
       (Inl e, st') \<Rightarrow> Ret (Inl e, st')
     | (Inr row, st') \<Rightarrow>
         Ret (Inr \<lparr>gr_resource = cached_resource (gr_namespace req) (gr_resource_id req) row\<rparr>, st')))"

text \<open>The loop of \<^verbatim>\<open>Drop\<close>; \<open>n\<close> is the index printed in the error.\<close>

fun drop_ids :: "store_env \<Rightarrow> string \<Rightarrow> int64 \<Rightarrow> nat \<Rightarrow> string list \<Rightarrow> tx \<Rightarrow> goerr option \<times> tx" where
  "drop_ids E ns v n [] t = (None, t)"
| "drop_ids E ns v n (idStr # ids) t = (case se_parse E idStr of
     None \<Rightarrow> (Some (ErrStatus InvalidArgument
       (''Invalid resource ID, must be in UUID format (index '' @ dec n @ '' value '' @ idStr @ '')'')), t)
   | Some i \<Rightarrow> (case exec_tx (InsertDroppedResourceEvent v ns i) t of
       (Inl e, t1) \<Rightarrow> (Some e, t1)
     | (Inr _, t1) \<Rightarrow> (case exec_tx (DropResourceCache ns i) t1 of
         (Inl e, t2) \<Rightarrow> (Some e, t2)
       | (Inr _, t2) \<Rightarrow> drop_ids E ns v (Suc n) ids t2)))"

definition Drop :: "store_env \<Rightarrow> go_time \<Rightarrow> drop_request \<Rightarrow> store \<Rightarrow> (goerr + unit) \<times> store" where
  "Drop E now req st = (case begin_tx st of
     (Inl e, st') \<Rightarrow> (Inl e, st')
   | (Inr t, st') \<Rightarrow>
       (case drop_ids E (dr_namespace req) (t_unix now) 0 (dr_resource_ids req) t of
          (Some e, t') \<Rightarrow> (Inl e, rollback t' st')
        | (None, t') \<Rightarrow> (case commit t' st' of
            (Some e, st'') \<Rightarrow> (Inl e, st'') | (None, st'') \<Rightarrow> (Inr (), st''))))"

section \<open>Watching\<close>

text \<open>
  A watch. \<open>wt_found\<close>: what other calls leave of the database before each of the coming statements
  of the scan (past the end nothing changes).
\<close>

record watching =
  wt_store :: store
  wt_found :: "db list"
  wt_params :: "ListResourcesEventsFromNamespaceParams option"
  wt_sent :: "watch_response list"

definition query :: "'a statement \<Rightarrow> watching \<Rightarrow> (goerr + 'a) \<times> watching" where
  "query f w = (case exec_db f (case wt_found w of [] \<Rightarrow> wt_store w | d # ds \<Rightarrow> (wt_store w)\<lparr>st_db := d\<rparr>) of
     (r, s) \<Rightarrow> (r, w\<lparr>wt_store := s, wt_found := tl (wt_found w)\<rparr>))"

definition send_response :: "store_env \<Rightarrow> watch_response \<Rightarrow> watching \<Rightarrow> watching eff" where
  "send_response E m w = (case se_send E (length (wt_sent w)) of
     None \<Rightarrow> Done (w\<lparr>wt_sent := wt_sent w @ [m]\<rparr>) | Some e \<Rightarrow> Fail e w)"

definition pageSize :: int32 where "pageSize = 50"

definition end_of_list :: watch_response where
  "end_of_list = \<lparr>wr_updated = [], wr_dropped = [], wr_end_of_list = True\<rparr>"

definition list_response :: "store_env \<Rightarrow> string \<Rightarrow> ResourceCache list \<Rightarrow> watch_response" where
  "list_response E ns rows = \<lparr>wr_updated = map (\<lambda>r. cached_resource ns (se_show E (rc_id r)) r) rows,
     wr_dropped = [], wr_end_of_list = False\<rparr>"

definition offset_left :: "int32 \<Rightarrow> nat" where
  "offset_left i = (if sint (pageSize * i) < 0 then 0 else nat (2 ^ 31 - sint (pageSize * i)))"

lemma and_then_cong [fundef_cong]:
  "r = r' \<Longrightarrow> (\<And>s. r' = Done s \<Longrightarrow> f s = g s) \<Longrightarrow> and_then r f = and_then r' g"
  by (cases r) auto

lemma exec_db_Inr: "exec_db f st = (Inr a, st') \<Longrightarrow> \<exists>d. f (st_db st) = Inr (a, d)"
  by (auto simp: exec_db_def Let_def split: option.splits outcome.splits sum.splits prod.splits)

lemma query_Inr: "query f w = (Inr a, w') \<Longrightarrow> \<exists>d d'. f d = Inr (a, d')"
  by (auto simp: query_def dest!: exec_db_Inr split: prod.splits)

lemma full_page_offset:
  assumes "query (ListResourcesCachedFromNamespace ties ns pageSize off) w = (Inr rows, w')"
  shows "0 \<le> sint off"
  using query_Inr [OF assms] by (auto simp: ListResourcesCachedFromNamespace_def split: if_splits)

lemma offset_left_decreases:
  assumes "0 \<le> sint (pageSize * i)"
  shows "offset_left (i + 1) < offset_left i"
proof -
  let ?o = "pageSize * i"
  have u: "sint ?o < 2 ^ 31" using sint_lt [of ?o] by simp
  have n: "pageSize * (i + 1) = ?o + 50" by (simp add: pageSize_def algebra_simps)
  show ?thesis
  proof (cases "sint (?o + 50) < 0")
    case True
    with assms u n show ?thesis by (simp add: offset_left_def)
  next
    case False
    have o: "uint ?o = sint ?o" using assms by (rule uint_eq_sint)
    have "uint (?o + 50) = (uint ?o + 50) mod 2 ^ 32" by (simp add: uint_word_ariths)
    with o assms u have "uint (?o + 50) = sint ?o + 50" by simp
    moreover have "uint (?o + 50) = sint (?o + 50)" using False by (intro uint_eq_sint) simp
    ultimately have "sint (?o + 50) = sint ?o + 50" by simp
    with False assms u n show ?thesis by (simp add: offset_left_def)
  qed
qed

text \<open>The pages of the first list; the offset wraps around at 32 bits, as in the source.\<close>

function list_pages :: "store_env \<Rightarrow> string \<Rightarrow> int32 \<Rightarrow> watching \<Rightarrow> watching eff" where
  "list_pages E ns i w =
     (case query (ListResourcesCachedFromNamespace (se_ties E) ns pageSize (pageSize * i)) w of
        (Inl e, w) \<Rightarrow> (if e = ErrNoRows then Done w else Fail e w)
      | (Inr rows, w) \<Rightarrow>
          and_then (if rows \<noteq> [] then send_response E (list_response E ns rows) w else Done w)
            (\<lambda>w. if int (length rows) < sint pageSize then Done w else list_pages E ns (i + 1) w))"
  by pat_completeness auto
termination
  by (relation "measure (\<lambda>(E, ns, i, w). offset_left i)")
    (auto intro!: offset_left_decreases dest!: full_page_offset [OF sym])

declare list_pages.simps [simp del]

text \<open>The cursor after the first list: the last event, or none when there is no event yet.\<close>

definition list_finish :: "store_env \<Rightarrow> string \<Rightarrow> watching \<Rightarrow> watching eff" where
  "list_finish E ns w = (case scan_row (query (MaxVersionIndexForNamespace ns) w) of
     (Inl e, w) \<Rightarrow> (if e = ErrNoRows then send_response E end_of_list (w\<lparr>wt_params := None\<rparr>)
                  else Fail e w)
   | (Inr (i, v), w) \<Rightarrow> send_response E end_of_list (w\<lparr>
       wt_params := Some \<lparr>ep_namespace = ns, ep_from_version_index = v, ep_from_id = i,
         ep_max_rows = pageSize\<rparr>\<rparr>))"

definition event_resource :: "store_env \<Rightarrow> string \<Rightarrow> ResourceEvent \<Rightarrow> resource" where
  "event_resource E ns row = cached_resource ns (se_show E (rc_id row)) row"

definition events_response :: "store_env \<Rightarrow> string \<Rightarrow> ResourceEvent list \<Rightarrow> watch_response" where
  "events_response E ns rows =
     \<lparr>wr_updated = map (event_resource E ns) (filter (\<lambda>r. re_status r = activeResource) rows),
      wr_dropped = map (event_resource E ns) (filter (\<lambda>r. re_status r = droppedResource) rows),
      wr_end_of_list = False\<rparr>"

text \<open>The loop over the rows leaves the cursor at the last one.\<close>

definition advance ::
    "ResourceEvent list \<Rightarrow> ListResourcesEventsFromNamespaceParams \<Rightarrow> ListResourcesEventsFromNamespaceParams"
  where "advance rows p = fold (\<lambda>row p. p\<lparr>ep_from_version_index := rc_version_index row,
     ep_from_id := rc_id row\<rparr>) rows p"

text \<open>
  The inner loop of a later scan. It ends with a page that is not full; fuel bounds the number of
  pages, and one more than the number of events the log comes to have is enough (\<open>poll_growing\<close>).
\<close>

fun poll_events :: "nat \<Rightarrow> store_env \<Rightarrow> string \<Rightarrow> watching \<Rightarrow> watching eff option" where
  "poll_events 0 E ns w = None"
| "poll_events (Suc n) E ns w = (case wt_params w of
     None \<Rightarrow> Some (Crash ''nil pointer dereference'')
   | Some p \<Rightarrow>
      (case query (ListResourcesEventsFromNamespace p) w of
         (Inl e, w) \<Rightarrow> Some (Fail e w)
       | (Inr rows, w) \<Rightarrow>
          (let w' = w\<lparr>wt_params := Some (advance rows p)\<rparr>
           in case (if rows \<noteq> [] then send_response E (events_response E ns rows) w' else Done w') of
                Fail e w \<Rightarrow> Some (Fail e w)
              | Crash e \<Rightarrow> Some (Crash e)
              | Done w \<Rightarrow> if int (length rows) < sint (ep_max_rows p) then Some (Done w)
                  else poll_events n E ns w)))"

text \<open>One turn of the outer loop of \<^verbatim>\<open>Watch\<close>, after its timer.\<close>

definition watch_round :: "nat \<Rightarrow> store_env \<Rightarrow> string \<Rightarrow> watching \<Rightarrow> watching eff option" where
  "watch_round fuel E ns w =
     (if wt_params w = None then Some (and_then (list_pages E ns 0 w) (list_finish E ns))
      else map_option (\<lambda>r. and_then r (send_response E end_of_list)) (poll_events fuel E ns w))"

text \<open>
  What the outer loop waits for: its timer, at which it finds the store in some state, or the
  end of its context. A scan that starts at a database finds the listed ones at its statements;
  a \<open>Tick\<close> is a scan during which nothing changes.
\<close>

datatype wakeup = Scan db "db list" | CtxDone

abbreviation Tick :: "db \<Rightarrow> wakeup" where "Tick d \<equiv> Scan d []"

fun watch_wakeups :: "nat \<Rightarrow> store_env \<Rightarrow> string \<Rightarrow> wakeup list \<Rightarrow> watching \<Rightarrow> watching eff option" where
  "watch_wakeups fuel E ns [] w = Some (Done w)"
| "watch_wakeups fuel E ns (CtxDone # xs) w = Some (Fail ErrCanceled w)"
| "watch_wakeups fuel E ns (Scan d ds # xs) w =
     (case watch_round fuel E ns (w\<lparr>wt_store := (wt_store w)\<lparr>st_db := d\<rparr>, wt_found := ds\<rparr>) of
        None \<Rightarrow> None
      | Some (Done w') \<Rightarrow> watch_wakeups fuel E ns xs w'
      | Some (Fail e w') \<Rightarrow> Some (Fail e w')
      | Some (Crash e) \<Rightarrow> Some (Crash e))"

text \<open>The first turn waits for no timer; \<open>found\<close> is what its statements find.\<close>

definition Watch ::
    "nat \<Rightarrow> store_env \<Rightarrow> string \<Rightarrow> store \<Rightarrow> db list \<Rightarrow> wakeup list \<Rightarrow> watching eff option" where
  "Watch fuel E ns st found xs = watch_wakeups fuel E ns (Scan (st_db st) found # xs)
     \<lparr>wt_store = st, wt_found = [], wt_params = None, wt_sent = []\<rparr>"

end
