(* ===== verification/StoreProps.thy ===== *)
theory StoreProps
  imports Store
begin

text \<open>
  The properties of the resource store: what a put stores is what a get returns, puts are
  idempotent, a drop is all or nothing, the cache agrees with the event log over every history,
  and a watch delivers the events after its cursor in order, each once.
\<close>

section \<open>The log and the cache agree\<close>

definition cache_key :: "'a ResourceCache_scheme \<Rightarrow> string \<times> uuid" where
  "cache_key r = (rc_namespace r, rc_id r)"

text \<open>
  The primary keys hold, and every cached row was logged: the log has an active event with its
  contents at its version.
\<close>

definition db_ok :: "db \<Rightarrow> bool" where
  "db_ok d \<longleftrightarrow> distinct (map cache_key (db_cache d)) \<and> distinct (map event_pk (db_events d)) \<and>
     event_of activeResource ` set (db_cache d) \<subseteq> set (db_events d)"

lemma at_key_iff: "at_key ns i r \<longleftrightarrow> cache_key r = (ns, i)"
  by (auto simp: at_key_def cache_key_def)

lemma filter_at_key:
  "distinct (map cache_key xs) \<Longrightarrow>
    filter (at_key ns i) xs = (case find (at_key ns i) xs of None \<Rightarrow> [] | Some r \<Rightarrow> [r])"
proof (induction xs)
  case Nil
  then show ?case by simp
next
  case (Cons x xs)
  have "filter (at_key ns i) xs = []" if "at_key ns i x"
    using Cons.prems that by (force simp: at_key_iff filter_empty_conv)
  with Cons show ?case by auto
qed

lemma insert_events_ok:
  "insert_events es d = Inr (u, d') \<Longrightarrow> distinct (map event_pk (db_events d)) \<Longrightarrow>
    db_cache d' = db_cache d \<and> db_events d' = db_events d @ es \<and> distinct (map event_pk (db_events d'))"
proof (induction es arbitrary: d)
  case Nil
  then show ?case by simp
next
  case (Cons e es)
  let ?d = "d\<lparr>db_events := db_events d @ [e]\<rparr>"
  from Cons.prems have e: "event_pk e \<notin> event_pk ` set (db_events d)" "insert_events es ?d = Inr (u, d')"
    by (simp_all split: if_splits)
  from e(1) Cons.prems(2) have "distinct (map event_pk (db_events ?d))" by simp
  from Cons.IH [OF e(2) this] have c: "db_cache d' = db_cache ?d" and ev: "db_events d' = db_events ?d @ es"
    and di: "distinct (map event_pk (db_events d'))" by blast+
  show ?case
  proof (intro conjI)
    show "db_cache d' = db_cache d" using c by simp
    show "db_events d' = db_events d @ e # es" using ev by simp
  qed (rule di)
qed

lemma event_of_simps [simp]:
  "rc_namespace (event_of s r) = rc_namespace r" "rc_id (event_of s r) = rc_id r"
  "rc_version_index (event_of s r) = rc_version_index r" "rc_name (event_of s r) = rc_name r"
  "rc_spec_type_url (event_of s r) = rc_spec_type_url r" "rc_spec_value (event_of s r) = rc_spec_value r"
  "rc_sha256_hash (event_of s r) = rc_sha256_hash r" "re_status (event_of s r) = s"
  by (simp_all add: event_of_def ResourceCache.defs)

text \<open>The cache after an upsert, by key.\<close>

definition upsert_rows :: "ResourceCache \<Rightarrow> ResourceCache list \<Rightarrow> ResourceCache list" where
  "upsert_rows r xs = (if list_ex (at_key (rc_namespace r) (rc_id r)) xs
     then map (\<lambda>x. if at_key (rc_namespace r) (rc_id r) x then r else x) xs else xs @ [r])"

lemma Upsert_rows: "UpsertResourceCache r d = Inr ((), d\<lparr>db_cache := upsert_rows r (db_cache d)\<rparr>)"
  by (simp add: UpsertResourceCache_def upsert_rows_def)

lemma upsert_keys:
  "map cache_key (upsert_rows r xs) =
    (if cache_key r \<in> cache_key ` set xs then map cache_key xs else map cache_key xs @ [cache_key r])"
proof -
  have "list_ex (at_key (rc_namespace r) (rc_id r)) xs \<longleftrightarrow> cache_key r \<in> cache_key ` set xs"
    by (auto simp: list_ex_iff at_key_iff cache_key_def [of r, symmetric]) (metis image_eqI)
  then show ?thesis by (auto simp: upsert_rows_def at_key_def cache_key_def)
qed

lemma upsert_distinct:
  "distinct (map cache_key xs) \<Longrightarrow> distinct (map cache_key (upsert_rows r xs))"
  by (auto simp: upsert_keys)

lemma upsert_set: "set (upsert_rows r xs) \<subseteq> insert r (set xs)"
  by (auto simp: upsert_rows_def)

lemma upsert_find:
  "find (at_key ns i) (upsert_rows r xs) =
    (if cache_key r = (ns, i) then Some r else find (at_key ns i) xs)"
proof -
  have key: "at_key n k = (\<lambda>x. cache_key x = (n, k))" for n k by (simp add: fun_eq_iff at_key_iff)
  have r: "(rc_namespace r, rc_id r) = cache_key r" by (simp add: cache_key_def)
  have app: "find P (xs @ [r]) = (case find P xs of None \<Rightarrow> if P r then Some r else None | Some x \<Rightarrow> Some x)"
    for P by (induction xs) auto
  have same: "find (\<lambda>x. cache_key x = k) (map (\<lambda>x. if cache_key x = cache_key r then r else x) xs) =
      (if cache_key r = k \<and> list_ex (\<lambda>x. cache_key x = k) xs then Some r
       else find (\<lambda>x. cache_key x = k) xs)" for k
    by (induction xs) auto
  have none: "find (\<lambda>x. cache_key x = k) xs = None" if "\<not> list_ex (\<lambda>x. cache_key x = k) xs" for k
    using that by (auto simp: find_None_iff list_ex_iff)
  show ?thesis
    unfolding upsert_rows_def key r
    using same [of "(ns, i)"] none [of "(ns, i)"]
    by (cases "cache_key r = (ns, i)") (auto simp: same app split: option.splits)
qed

section \<open>Statements and transactions\<close>

text \<open>What a transaction that is not aborted has done: nothing in it failed.\<close>

lemmas tx_splits = if_splits option.splits outcome.splits sum.splits prod.splits

lemma exec_tx_Inr:
  "exec_tx f t = (Inr a, t') \<Longrightarrow> \<not> tx_aborted t \<and> \<not> tx_aborted t' \<and> f (tx_db t) = Inr (a, tx_db t') \<and>
    \<not> tx_ctx_done t \<and> \<not> tx_ctx_done t'"
  by (auto simp: exec_tx_def Let_def split: tx_splits)

text \<open>A statement that left its transaction alive was executed, or refused because the context had ended.\<close>

lemma exec_tx_alive:
  "exec_tx f t = (r, t') \<Longrightarrow> \<not> tx_aborted t' \<Longrightarrow>
    (\<exists>a. r = Inr a) \<or> tx_ctx_done t' \<and> tx_db t' = tx_db t \<and> \<not> tx_aborted t"
  by (auto simp: exec_tx_def Let_def split: tx_splits)

lemma commit_None:
  "commit t st = (None, st') \<Longrightarrow> \<not> tx_aborted t \<and> st_db st' = tx_db t"
  by (auto simp: commit_def Let_def split: tx_splits)

lemma commit_Some: "commit t st = (Some e, st') \<Longrightarrow> st_db st' = st_db st"
  by (auto simp: commit_def rollback_def Let_def split: tx_splits)

lemma begin_tx_simps:
  "begin_tx st = (Inr t, st') \<Longrightarrow> tx_db t = st_db st \<and> \<not> tx_aborted t \<and> st_db st' = st_db st"
  "begin_tx st = (Inl e, st') \<Longrightarrow> st_db st' = st_db st"
  by (auto simp: begin_tx_def Let_def split: tx_splits)

lemma scan_row_Inl_NoRows:
  "scan_row (exec_tx (GetResourceCacheSummary ns i) t) = (Inl ErrNoRows, t') \<Longrightarrow>
    \<not> tx_aborted t \<Longrightarrow> \<not> tx_aborted t' \<and> tx_db t' = tx_db t \<and> cache_row (tx_db t) ns i = None"
  by (auto simp: scan_row_def exec_tx_def GetResourceCacheSummary_def Let_def split: tx_splits)

lemma scan_row_Inr:
  "scan_row (exec_tx (GetResourceCacheSummary ns i) t) = (Inr (v, h), t') \<Longrightarrow>
    \<not> tx_aborted t \<and> \<not> tx_aborted t' \<and> tx_db t' = tx_db t \<and>
    (\<exists>r. cache_row (tx_db t) ns i = Some r \<and> rc_version_index r = v \<and> rc_sha256_hash r = h)"
  by (auto simp: scan_row_def exec_tx_def GetResourceCacheSummary_def Let_def split: tx_splits)

text \<open>Calls whose context does not end while they run.\<close>

definition uncancelled :: "store \<Rightarrow> bool" where
  "uncancelled st \<longleftrightarrow> Some CtxEnds \<notin> set (st_faults st)"

definition uncancelled_tx :: "tx \<Rightarrow> bool" where
  "uncancelled_tx t \<longleftrightarrow> \<not> tx_ctx_done t \<and> Some CtxEnds \<notin> set (tx_faults t)"

lemma in_set_tl: "x \<in> set (tl xs) \<Longrightarrow> x \<in> set xs"
  by (cases xs) simp_all

lemma next_fault_in: "next_fault xs = Some x \<Longrightarrow> Some x \<in> set xs"
  by (cases xs) simp_all

lemma uncancelled_exec: "uncancelled_tx t \<Longrightarrow> exec_tx f t = (r, t') \<Longrightarrow> uncancelled_tx t'"
  by (auto simp: exec_tx_def uncancelled_tx_def Let_def dest: in_set_tl next_fault_in split: tx_splits)

lemma uncancelled_begin:
  "uncancelled st \<Longrightarrow> begin_tx st = (Inr t, st') \<Longrightarrow> uncancelled_tx t"
  "uncancelled st \<Longrightarrow> begin_tx st = (r, st') \<Longrightarrow> uncancelled st'"
  by (auto simp: begin_tx_def uncancelled_def uncancelled_tx_def Let_def dest: in_set_tl next_fault_in split: tx_splits)

lemma uncancelled_end:
  "uncancelled_tx t \<Longrightarrow> commit t st = (r, st') \<Longrightarrow> uncancelled st'"
  "uncancelled_tx t \<Longrightarrow> uncancelled (rollback t st)"
  by (auto simp: commit_def rollback_def uncancelled_def uncancelled_tx_def Let_def dest: in_set_tl split: tx_splits)

lemma uncancelled_scan: "uncancelled_tx t \<Longrightarrow> scan_row (exec_tx f t) = (r, t') \<Longrightarrow> uncancelled_tx t'"
  by (auto simp: scan_row_def dest: uncancelled_exec split: tx_splits)

section \<open>Put\<close>

text \<open>The row a put writes.\<close>

definition put_row :: "resource \<Rightarrow> uuid \<Rightarrow> int64 \<Rightarrow> any_msg \<Rightarrow> string \<Rightarrow> ResourceCache" where
  "put_row res i v spec h = \<lparr>rc_namespace = r_namespace res, rc_id = i, rc_version_index = v,
     rc_name = r_name res, rc_spec_type_url = any_type_url spec, rc_spec_value = any_value spec,
     rc_sha256_hash = h\<rparr>"

lemma put_commit_Inr:
  "put_commit t v st = Ret (Inr rsp, st') \<Longrightarrow> \<not> tx_aborted t \<and> st_db st' = tx_db t \<and> pr_version rsp = v"
  by (auto simp: put_commit_def dest!: commit_None split: option.splits prod.splits)

lemma summary_kept:
  assumes "scan_row (exec_tx (GetResourceCacheSummary ns i) t) = (c, t1)" and "\<not> tx_aborted t"
    and "case c of Inl e \<Rightarrow> e = ErrNoRows | Inr x \<Rightarrow> True"
  shows "\<not> tx_aborted t1 \<and> tx_db t1 = tx_db t"
proof (cases c)
  case (Inl e)
  with assms scan_row_Inl_NoRows [of ns i t t1] show ?thesis by simp
next
  case (Inr x)
  with assms scan_row_Inr [of ns i t "fst x" "snd x" t1] show ?thesis by simp
qed

text \<open>The two statements of a put that changes the store.\<close>

lemma logged_upsert:
  assumes x2: "exec_tx (UpsertResourceCache row) t1 = (Inr u2, t2)" and x3: "exec_tx (InsertActiveResourceEvent ns i) t2 = (Inr u3, t3)"
    and row: "cache_key row = (ns, i)"
    and d: "distinct (map cache_key (db_cache (tx_db t1)))" and de: "distinct (map event_pk (db_events (tx_db t1)))"
  shows "db_cache (tx_db t3) = upsert_rows row (db_cache (tx_db t1))"
    and "db_events (tx_db t3) = db_events (tx_db t1) @ [event_of activeResource row]"
    and "distinct (map event_pk (db_events (tx_db t3)))"
proof -
  from exec_tx_Inr [OF x3] have ins: "InsertActiveResourceEvent ns i (tx_db t2) = Inr (u3, tx_db t3)" by simp
  from exec_tx_Inr [OF x2] have up: "tx_db t2 = (tx_db t1)\<lparr>db_cache := upsert_rows row (db_cache (tx_db t1))\<rparr>"
    by (auto simp: Upsert_rows)
  have "distinct (map cache_key (db_cache (tx_db t2)))" using d by (simp add: up upsert_distinct)
  from filter_at_key [OF this, of ns i] have "filter (at_key ns i) (db_cache (tx_db t2)) = [row]"
    by (simp add: up upsert_find row)
  with ins have "insert_events [event_of activeResource row] (tx_db t2) = Inr (u3, tx_db t3)"
    by (simp add: InsertActiveResourceEvent_def)
  moreover have "distinct (map event_pk (db_events (tx_db t2)))" using de by (simp add: up)
  ultimately have "db_cache (tx_db t3) = db_cache (tx_db t2)" "distinct (map event_pk (db_events (tx_db t3)))"
    "db_events (tx_db t3) = db_events (tx_db t2) @ [event_of activeResource row]"
    using insert_events_ok by blast+
  then show "db_cache (tx_db t3) = upsert_rows row (db_cache (tx_db t1))"
    "db_events (tx_db t3) = db_events (tx_db t1) @ [event_of activeResource row]"
    "distinct (map event_pk (db_events (tx_db t3)))" by (simp_all add: up)
qed

text \<open>
  A put that succeeds has either found the resource unchanged and left the store alone, or
  written its row and logged an active event for it; or its context ended before the second of
  these statements, or before both, and they were skipped.
\<close>

lemma put_effects:
  assumes "Put E now req st = Ret (Inr rsp, st')" and d: "distinct (map cache_key (db_cache (st_db st)))"
    and de: "distinct (map event_pk (db_events (st_db st)))"
  obtains (same) res i r where "pr_resource req = Some res" "se_parse E (r_id res) = Some i"
      "cache_row (st_db st) (r_namespace res) i = Some r" "st_db st' = st_db st"
      "hashResource E (res\<lparr>r_version := None\<rparr>) = Ret (rc_sha256_hash r)"
      "pr_version rsp = \<lparr>v_sha256_hash = rc_sha256_hash r, v_timestamp = time_Unix (rc_version_index r),
         v_index = rc_version_index r\<rparr>"
  | (changed) res i spec h where "pr_resource req = Some res" "se_parse E (r_id res) = Some i"
      "r_spec res = Some spec" "hashResource E (res\<lparr>r_version := None\<rparr>) = Ret h"
      "db_cache (st_db st') = upsert_rows (put_row res i (t_unix now) spec h) (db_cache (st_db st))"
      "db_events (st_db st') = db_events (st_db st) @
         [event_of activeResource (put_row res i (t_unix now) spec h)]"
      "distinct (map event_pk (db_events (st_db st')))"
      "pr_version rsp = \<lparr>v_sha256_hash = h, v_timestamp = now, v_index = t_unix now\<rparr>"
  | (unlogged) res i spec h where "pr_resource req = Some res" "se_parse E (r_id res) = Some i"
      "db_cache (st_db st') = upsert_rows (put_row res i (t_unix now) spec h) (db_cache (st_db st))"
      "db_events (st_db st') = db_events (st_db st)" "\<not> uncancelled st"
  | (skipped) "st_db st' = st_db st" "\<not> uncancelled st"
proof -
  from assms(1) obtain res i t st1 where res: "pr_resource req = Some res"
      "se_parse E (r_id res) = Some i" and b: "begin_tx st = (Inr t, st1)"
    and p: "put_in_tx E now res i t st1 = Ret (Inr rsp, st')"
    by (auto simp: Put_def split: option.splits sum.splits prod.splits)
  from begin_tx_simps(1) [OF b] have t: "tx_db t = st_db st" "\<not> tx_aborted t" "st_db st1 = st_db st" by simp_all
  obtain c t1 where c: "scan_row (exec_tx (GetResourceCacheSummary (r_namespace res) i) t) = (c, t1)" by force
  from p c obtain h where h: "hashResource E (res\<lparr>r_version := None\<rparr>) = Ret h"
    by (cases "hashResource E (res\<lparr>r_version := None\<rparr>)") (simp_all add: put_in_tx_def)
  let ?changed = "case c of Inl e \<Rightarrow> e = ErrNoRows | Inr (_, h') \<Rightarrow> h' \<noteq> h"
  show thesis
  proof (cases ?changed)
    case False
    with p c h obtain v h' where c': "c = Inr (v, h')" by (auto simp: put_in_tx_def split: sum.splits)
    with False have h': "h' = h" by simp
    from scan_row_Inr [OF c [unfolded c']] obtain r where t1: "\<not> tx_aborted t1" "tx_db t1 = tx_db t"
      and r: "cache_row (tx_db t) (r_namespace res) i = Some r" "rc_version_index r = v" "rc_sha256_hash r = h"
      by (auto simp: h')
    from p c c' h h' have "put_commit t1 \<lparr>v_sha256_hash = h, v_timestamp = time_Unix v, v_index = v\<rparr> st1 =
        Ret (Inr rsp, st')" by (simp add: put_in_tx_def)
    from put_commit_Inr [OF this] r h t t1 show thesis by (intro same [OF res]) auto
  next
    case True
    then have t1: "tx_db t1 = st_db st" "\<not> tx_aborted t1"
      using summary_kept [OF c t(2)] t(1) by (auto split: sum.splits)
    from p c h True obtain spec where spec: "r_spec res = Some spec"
      by (cases "r_spec res") (simp_all add: put_in_tx_def)
    let ?row = "put_row res i (t_unix now) spec h"
    obtain x2 t2 where x2: "exec_tx (UpsertResourceCache ?row) t1 = (x2, t2)" by force
    obtain x3 t3 where x3: "exec_tx (InsertActiveResourceEvent (r_namespace res) i) t2 = (x3, t3)" by force
    from p c h True spec x2 x3 have "put_commit t3 \<lparr>v_sha256_hash = h, v_timestamp = now,
        v_index = t_unix now\<rparr> st1 = Ret (Inr rsp, st')"
      by (simp add: put_in_tx_def put_row_def)
    from put_commit_Inr [OF this] have t3: "\<not> tx_aborted t3" "st_db st' = tx_db t3"
      and v: "pr_version rsp = \<lparr>v_sha256_hash = h, v_timestamp = now, v_index = t_unix now\<rparr>" by simp_all
    have ended: "\<not> uncancelled st" if "tx_ctx_done t3"
      using that uncancelled_begin(1) [OF _ b] uncancelled_scan [OF _ c] uncancelled_exec [OF _ x2]
        uncancelled_exec [OF _ x3] by (auto simp: uncancelled_tx_def)
    have up: "tx_db t2 = (st_db st)\<lparr>db_cache := upsert_rows ?row (db_cache (st_db st))\<rparr>" if "x2 = Inr u2" for u2
      using exec_tx_Inr [OF x2 [unfolded that]] by (auto simp: Upsert_rows t1(1))
    show thesis
    proof (cases "tx_ctx_done t3")
      case False
      with exec_tx_alive [OF x3 t3(1)] obtain u3 where x3': "x3 = Inr u3" by blast
      from exec_tx_Inr [OF x3 [unfolded this]] exec_tx_alive [OF x2] obtain u2 where x2': "x2 = Inr u2" by blast
      have "cache_key ?row = (r_namespace res, i)" by (simp add: cache_key_def put_row_def)
      from logged_upsert [OF x2 [unfolded x2'] x3 [unfolded x3'] this] d de t3(2) t1(1)
      show thesis by (intro changed [OF res spec h _ _ _ v]) simp_all
    next
      case True
      have "x3 \<noteq> Inr u" for u using True exec_tx_Inr [of _ t2 u t3] x3 by blast
      with exec_tx_alive [OF x3 t3(1)] have x: "tx_db t3 = tx_db t2" "\<not> tx_aborted t2" by blast+
      from exec_tx_alive [OF x2 x(2)] show thesis
      proof
        assume "\<exists>u2. x2 = Inr u2"
        with up x(1) t3(2) True ended show thesis by (intro unlogged [OF res]) auto
      next
        assume "tx_ctx_done t2 \<and> tx_db t2 = tx_db t1 \<and> \<not> tx_aborted t1"
        with x(1) t3(2) t1(1) True ended show thesis by (intro skipped) auto
      qed
    qed
  qed
qed

lemma put_cases:
  assumes "Put E now req st = Ret (Inr rsp, st')" and d: "distinct (map cache_key (db_cache (st_db st)))"
    and de: "distinct (map event_pk (db_events (st_db st)))" and u: "uncancelled st"
  obtains (same) res i r where "pr_resource req = Some res" "se_parse E (r_id res) = Some i"
      "cache_row (st_db st) (r_namespace res) i = Some r" "st_db st' = st_db st"
      "hashResource E (res\<lparr>r_version := None\<rparr>) = Ret (rc_sha256_hash r)"
      "pr_version rsp = \<lparr>v_sha256_hash = rc_sha256_hash r, v_timestamp = time_Unix (rc_version_index r),
         v_index = rc_version_index r\<rparr>"
  | (changed) res i spec h where "pr_resource req = Some res" "se_parse E (r_id res) = Some i"
      "r_spec res = Some spec" "hashResource E (res\<lparr>r_version := None\<rparr>) = Ret h"
      "db_cache (st_db st') = upsert_rows (put_row res i (t_unix now) spec h) (db_cache (st_db st))"
      "db_events (st_db st') = db_events (st_db st) @
         [event_of activeResource (put_row res i (t_unix now) spec h)]"
      "distinct (map event_pk (db_events (st_db st')))"
      "pr_version rsp = \<lparr>v_sha256_hash = h, v_timestamp = now, v_index = t_unix now\<rparr>"
  using u by (cases rule: put_effects [OF assms(1) d de]) blast+

section \<open>Drop\<close>

lemma exec_DropResourceCache:
  "exec_tx (DropResourceCache ns i) t = (Inr u, t') \<Longrightarrow> \<not> tx_aborted t' \<and>
    tx_db t' = (tx_db t)\<lparr>db_cache := filter (\<lambda>r. \<not> at_key ns i r) (db_cache (tx_db t))\<rparr>"
  using exec_tx_Inr [of "DropResourceCache ns i" t u t'] by (auto simp: DropResourceCache_def)

definition in_ids :: "string \<Rightarrow> uuid list \<Rightarrow> ResourceCache \<Rightarrow> bool" where
  "in_ids ns is r \<longleftrightarrow> rc_namespace r = ns \<and> rc_id r \<in> set is"

text \<open>
  A loop of drops that succeeds has parsed every id, removed exactly their rows and logged a
  dropped event for each row removed.
\<close>

lemma drop_ids_None:
  assumes "drop_ids E ns v n ids t = (None, t')" and "\<not> tx_aborted t"
    and "distinct (map event_pk (db_events (tx_db t)))"
  shows "\<exists>is evs. map (se_parse E) ids = map Some is \<and> \<not> tx_aborted t' \<and>
    db_cache (tx_db t') = filter (\<lambda>r. \<not> in_ids ns is r) (db_cache (tx_db t)) \<and>
    db_events (tx_db t') = db_events (tx_db t) @ evs \<and>
    set evs = (\<lambda>r. event_of droppedResource (r\<lparr>rc_version_index := v\<rparr>)) `
      {r \<in> set (db_cache (tx_db t)). in_ids ns is r} \<and>
    distinct (map event_pk (db_events (tx_db t')))"
  using assms
proof (induction ids arbitrary: n t)
  case Nil
  then show ?case by (auto simp: in_ids_def intro!: exI [of _ "[]"])
next
  case (Cons x ids)
  let ?ev = "\<lambda>r. event_of droppedResource (r\<lparr>rc_version_index := v\<rparr>)"
  from Cons.prems(1) obtain i t1 t2 u1 u2 where i: "se_parse E x = Some i"
    and s1: "exec_tx (InsertDroppedResourceEvent v ns i) t = (Inr u1, t1)"
    and s2: "exec_tx (DropResourceCache ns i) t1 = (Inr u2, t2)"
    and rest: "drop_ids E ns v (Suc n) ids t2 = (None, t')"
    by (auto split: option.splits sum.splits prod.splits)
  from exec_tx_Inr [OF s1] have "insert_events (map ?ev (filter (at_key ns i) (db_cache (tx_db t)))) (tx_db t)
      = Inr (u1, tx_db t1)" by (simp add: InsertDroppedResourceEvent_def)
  from insert_events_ok [OF this Cons.prems(3)] have d1: "db_cache (tx_db t1) = db_cache (tx_db t)"
      "db_events (tx_db t1) = db_events (tx_db t) @ map ?ev (filter (at_key ns i) (db_cache (tx_db t)))"
    and k1: "distinct (map event_pk (db_events (tx_db t1)))" by blast+
  from exec_DropResourceCache [OF s2] have d2: "\<not> tx_aborted t2"
      "db_cache (tx_db t2) = filter (\<lambda>r. \<not> at_key ns i r) (db_cache (tx_db t))"
      "db_events (tx_db t2) = db_events (tx_db t1)" by (simp_all add: d1)
  from Cons.IH [OF rest d2(1)] k1 d2(3) obtain "is" evs where ih: "map (se_parse E) ids = map Some is"
      "\<not> tx_aborted t'" "db_cache (tx_db t') = filter (\<lambda>r. \<not> in_ids ns is r) (db_cache (tx_db t2))"
      "db_events (tx_db t') = db_events (tx_db t2) @ evs"
      "set evs = ?ev ` {r \<in> set (db_cache (tx_db t2)). in_ids ns is r}"
      "distinct (map event_pk (db_events (tx_db t')))" by auto
  show ?case
  proof (intro exI [of _ "i # is"] exI [of _ "map ?ev (filter (at_key ns i) (db_cache (tx_db t))) @ evs"] conjI)
    show "map (se_parse E) (x # ids) = map Some (i # is)" using i ih(1) by simp
    show "db_cache (tx_db t') = filter (\<lambda>r. \<not> in_ids ns (i # is) r) (db_cache (tx_db t))"
      unfolding ih(3) d2(2) filter_filter by (rule filter_cong) (auto simp: in_ids_def at_key_def)
    show "db_events (tx_db t') = db_events (tx_db t) @
        map ?ev (filter (at_key ns i) (db_cache (tx_db t))) @ evs"
      using ih(4) d2(3) d1(2) by simp
    show "set (map ?ev (filter (at_key ns i) (db_cache (tx_db t))) @ evs) =
        ?ev ` {r \<in> set (db_cache (tx_db t)). in_ids ns (i # is) r}"
      using ih(5) by (auto simp: d2(2) in_ids_def at_key_def)
  qed (use ih in simp_all)
qed

section \<open>Histories\<close>

datatype store_op = PutOp go_time put_request | DropOp go_time drop_request

fun run_store :: "store_env \<Rightarrow> store \<Rightarrow> store_op \<Rightarrow> store val" where
  "run_store E st (PutOp now req) = (case Put E now req st of Panics e \<Rightarrow> Panics e | Ret (_, st') \<Rightarrow> Ret st')"
| "run_store E st (DropOp now req) = Ret (snd (Drop E now req st))"

fun run_store_ops :: "store_env \<Rightarrow> store \<Rightarrow> store_op list \<Rightarrow> store val" where
  "run_store_ops E st [] = Ret st"
| "run_store_ops E st (x # xs) =
     (case run_store E st x of Panics e \<Rightarrow> Panics e | Ret st' \<Rightarrow> run_store_ops E st' xs)"

lemma put_error_keeps_db:
  assumes "Put E now req st = Ret (Inl e, st')"
  shows "st_db st' = st_db st"
proof -
  have pc: "put_commit t v s = Ret (Inl e, st') \<Longrightarrow> st_db st' = st_db s" for t v s
    using commit_Some by (auto simp: put_commit_def split: option.splits prod.splits)
  have px: "put_in_tx E now res i t s = Ret (Inl e, st') \<Longrightarrow> st_db st' = st_db s" for res i t s
    unfolding put_in_tx_def Let_def
    by (auto simp: rollback_def split: prod.splits val.splits sum.splits if_splits option.splits dest: pc)
  show ?thesis
    using assms by (auto simp: Put_def split: option.splits sum.splits prod.splits
        dest!: px begin_tx_simps)
qed

lemma drop_cases:
  assumes "Drop E now req st = (r, st')"
  shows "(\<exists>e. r = Inl e \<and> st_db st' = st_db st) \<or>
    (r = Inr () \<and> (\<exists>t t' st1. begin_tx st = (Inr t, st1) \<and> tx_db t = st_db st \<and> \<not> tx_aborted t \<and>
      drop_ids E (dr_namespace req) (t_unix now) 0 (dr_resource_ids req) t = (None, t') \<and>
      st_db st' = tx_db t'))"
  using assms
  by (auto simp: Drop_def rollback_def split: option.splits sum.splits prod.splits
      dest!: begin_tx_simps commit_None commit_Some)

lemma db_ok_put:
  assumes "db_ok d" and "db_cache d' = upsert_rows r (db_cache d)"
    and "db_events d' = db_events d @ [event_of activeResource r]"
    and "distinct (map event_pk (db_events d'))"
  shows "db_ok d'"
proof -
  have "event_of activeResource ` set (upsert_rows r (db_cache d)) \<subseteq> set (db_events d')"
    using assms(1,3) upsert_set [of r "db_cache d"] by (auto simp: db_ok_def)
  with assms show ?thesis by (simp add: db_ok_def upsert_distinct)
qed

lemma db_ok_run:
  assumes "db_ok (st_db st)" and "uncancelled st" and "run_store E st x = Ret st'"
  shows "db_ok (st_db st')"
proof (cases x)
  case (PutOp now req)
  with assms(3) obtain r where put: "Put E now req st = Ret (r, st')"
    by (cases "Put E now req st") auto
  show ?thesis
  proof (cases r)
    case (Inl e)
    with put put_error_keeps_db assms(1) show ?thesis by metis
  next
    case (Inr rsp)
    have d: "distinct (map cache_key (db_cache (st_db st)))" "distinct (map event_pk (db_events (st_db st)))"
      using assms(1) by (simp_all add: db_ok_def)
    from put_cases [OF put [unfolded Inr] d assms(2)] show ?thesis
      using assms(1) by cases (simp, rule db_ok_put)
  qed
next
  case (DropOp now req)
  obtain r where dr: "Drop E now req st = (r, st')"
    using assms(3) DropOp by (cases "Drop E now req st") simp
  from drop_cases [OF this] show ?thesis
  proof
    assume "\<exists>e. r = Inl e \<and> st_db st' = st_db st"
    with assms(1) show ?thesis by auto
  next
    assume "r = Inr () \<and> (\<exists>t t' st1. begin_tx st = (Inr t, st1) \<and> tx_db t = st_db st \<and> \<not> tx_aborted t \<and>
      drop_ids E (dr_namespace req) (t_unix now) 0 (dr_resource_ids req) t = (None, t') \<and>
      st_db st' = tx_db t')"
    then obtain t t' where t: "tx_db t = st_db st" "\<not> tx_aborted t" "st_db st' = tx_db t'"
      and l: "drop_ids E (dr_namespace req) (t_unix now) 0 (dr_resource_ids req) t = (None, t')" by blast
    have "distinct (map event_pk (db_events (tx_db t)))" using assms(1) t(1) by (simp add: db_ok_def)
    from drop_ids_None [OF l t(2) this] obtain "is" evs where
      c: "db_cache (tx_db t') = filter (\<lambda>r. \<not> in_ids (dr_namespace req) is r) (db_cache (tx_db t))"
      and e: "db_events (tx_db t') = db_events (tx_db t) @ evs"
      and k: "distinct (map event_pk (db_events (tx_db t')))" by blast
    show ?thesis
      unfolding db_ok_def
    proof (intro conjI)
      show "distinct (map cache_key (db_cache (st_db st')))"
        using assms(1) t c by (simp add: db_ok_def distinct_map_filter)
      show "distinct (map event_pk (db_events (st_db st')))" using k t(3) by simp
      show "event_of activeResource ` set (db_cache (st_db st')) \<subseteq> set (db_events (st_db st'))"
        using assms(1) t c e by (auto simp: db_ok_def)
    qed
  qed
qed

lemma drop_ids_uncancelled: "uncancelled_tx t \<Longrightarrow> drop_ids E ns v n ids t = (r, t') \<Longrightarrow> uncancelled_tx t'"
proof (induction ids arbitrary: n t)
  case (Cons x ids)
  note u = uncancelled_exec [OF Cons.prems(1)]
  show ?case
  proof (cases "se_parse E x")
    case (Some i)
    obtain r1 t1 where 1: "exec_tx (InsertDroppedResourceEvent v ns i) t = (r1, t1)" by force
    obtain r2 t2 where 2: "exec_tx (DropResourceCache ns i) t1 = (r2, t2)" by force
    from u [OF 1] uncancelled_exec [OF _ 2] Cons.IH [of t2 "Suc n"] Cons.prems(2) show ?thesis
      by (simp add: Some 1 2 split: sum.splits)
  qed (use Cons.prems in simp)
qed simp

lemma put_in_tx_uncancelled:
  assumes u: "uncancelled_tx t" and p: "put_in_tx E now res i t st = Ret (r, st')"
  shows "uncancelled st'"
proof -
  obtain c t1 where c: "scan_row (exec_tx (GetResourceCacheSummary (r_namespace res) i) t) = (c, t1)" by force
  note t1 = uncancelled_scan [OF u c]
  have pc: "uncancelled st'" if "put_commit t v st = Ret (r, st')" "uncancelled_tx t" for t v
    using that uncancelled_end(1) by (auto simp: put_commit_def split: prod.splits option.splits)
  have "uncancelled_tx (snd (exec_tx f t))" if "uncancelled_tx t" for f :: "unit statement" and t
    using uncancelled_exec [OF that] by (metis surj_pair snd_conv)
  then have "uncancelled_tx (snd (exec_tx f (snd (exec_tx g t1))))" for f g :: "unit statement"
    using t1 by blast
  with p c t1 show ?thesis
    unfolding put_in_tx_def Let_def
    by (auto simp: case_prod_unfold uncancelled_end(2) dest: pc split: val.splits if_splits option.splits sum.splits)
qed

lemma uncancelled_put:
  assumes "uncancelled st" and "Put E now req st = Ret (r, st')"
  shows "uncancelled st'"
proof -
  have "uncancelled s" if "begin_tx st = (x, s)" for x s using uncancelled_begin(2) [OF assms(1) that] .
  moreover have "uncancelled st'" if "begin_tx st = (Inr t, s)" "put_in_tx E now res i t s = Ret (r, st')" for t s res i
    using put_in_tx_uncancelled [OF uncancelled_begin(1) [OF assms(1) that(1)] that(2)] .
  ultimately show ?thesis using assms
    by (auto simp: Put_def split: option.splits sum.splits prod.splits)
qed

lemma uncancelled_drop:
  assumes "uncancelled st" and "Drop E now req st = (r, st')"
  shows "uncancelled st'"
proof -
  obtain x s where b: "begin_tx st = (x, s)" by force
  show ?thesis
  proof (cases x)
    case (Inl e)
    with assms uncancelled_begin(2) [OF assms(1) b] show ?thesis by (simp add: Drop_def b)
  next
    case (Inr t)
    obtain e t' where d: "drop_ids E (dr_namespace req) (t_unix now) 0 (dr_resource_ids req) t = (e, t')" by force
    have "uncancelled_tx t'"
      using drop_ids_uncancelled [OF uncancelled_begin(1) [OF assms(1) b [unfolded Inr]] d] .
    with uncancelled_end [of t'] assms(2) show ?thesis
      by (auto simp: Drop_def b Inr d split: option.splits prod.splits)
  qed
qed

lemma uncancelled_run: "uncancelled st \<Longrightarrow> run_store E st x = Ret st' \<Longrightarrow> uncancelled st'"
  by (cases x) (auto split: val.splits prod.splits dest: uncancelled_put uncancelled_drop [OF _ surjective_pairing])

lemma uncancelled_run_ops: "uncancelled st \<Longrightarrow> run_store_ops E st xs = Ret st' \<Longrightarrow> uncancelled st'"
  by (induction xs arbitrary: st) (auto split: val.splits dest: uncancelled_run)

lemma db_ok_run_ops:
  "db_ok (st_db st) \<Longrightarrow> uncancelled st \<Longrightarrow> run_store_ops E st xs = Ret st' \<Longrightarrow> db_ok (st_db st')"
proof (induction xs arbitrary: st)
  case Nil
  then show ?case by simp
next
  case (Cons x xs)
  from Cons.prems(3) obtain st1 where "run_store E st x = Ret st1" "run_store_ops E st1 xs = Ret st'"
    by (auto split: val.splits)
  with Cons.IH db_ok_run [OF Cons.prems(1,2)] uncancelled_run [OF Cons.prems(2)] show ?case by blast
qed

text \<open>The primary keys alone hold whatever happens, also when a context ends.\<close>

definition db_keys :: "db \<Rightarrow> bool" where
  "db_keys d \<longleftrightarrow> distinct (map cache_key (db_cache d)) \<and> distinct (map event_pk (db_events d))"

lemma db_keys_put:
  assumes k: "db_keys (st_db st)" and put: "Put E now req st = Ret (r, st')"
  shows "db_keys (st_db st')"
proof (cases r)
  case (Inl e)
  with put put_error_keeps_db k show ?thesis by metis
next
  case (Inr rsp)
  from k have d: "distinct (map cache_key (db_cache (st_db st)))" "distinct (map event_pk (db_events (st_db st)))"
    by (simp_all add: db_keys_def)
  from put_effects [OF put [unfolded Inr] d] k show ?thesis
    by cases (simp_all add: db_keys_def upsert_distinct)
qed

lemma db_keys_drop:
  assumes k: "db_keys (st_db st)" and dr: "Drop E now req st = (r, st')"
  shows "db_keys (st_db st')"
  using drop_cases [OF dr]
proof
  assume "\<exists>e. r = Inl e \<and> st_db st' = st_db st"
  with k show ?thesis by auto
next
  assume "r = Inr () \<and> (\<exists>t t' st1. begin_tx st = (Inr t, st1) \<and> tx_db t = st_db st \<and> \<not> tx_aborted t \<and>
    drop_ids E (dr_namespace req) (t_unix now) 0 (dr_resource_ids req) t = (None, t') \<and> st_db st' = tx_db t')"
  then obtain t t' where t: "tx_db t = st_db st" "\<not> tx_aborted t" "st_db st' = tx_db t'"
    and l: "drop_ids E (dr_namespace req) (t_unix now) 0 (dr_resource_ids req) t = (None, t')" by blast
  have "distinct (map event_pk (db_events (tx_db t)))" using k t(1) by (simp add: db_keys_def)
  from drop_ids_None [OF l t(2) this] k t show ?thesis
    by (auto simp: db_keys_def distinct_map_filter)
qed

lemma db_keys_run_ops: "db_keys (st_db st) \<Longrightarrow> run_store_ops E st xs = Ret st' \<Longrightarrow> db_keys (st_db st')"
proof (induction xs arbitrary: st)
  case (Cons x xs)
  from Cons.prems(2) obtain st1 where x: "run_store E st x = Ret st1" "run_store_ops E st1 xs = Ret st'"
    by (auto split: val.splits)
  have "db_keys (st_db st1)"
    using x(1) Cons.prems(1) db_keys_put db_keys_drop [OF _ surjective_pairing]
    by (cases x) (auto split: val.splits prod.splits)
  with Cons.IH x(2) show ?case by blast
qed simp

text \<open>A put whose context ends between its two statements, from a server that does not fail.\<close>

lemma put_unlogged:
  assumes req: "pr_resource req = Some res" "se_parse E (r_id res) = Some i" "r_spec res = Some spec"
    and h: "hashResource E (res\<lparr>r_version := None\<rparr>) = Ret h"
    and new: "case cache_row (st_db st) (r_namespace res) i of None \<Rightarrow> True | Some r \<Rightarrow> rc_sha256_hash r \<noteq> h"
    and f: "st_faults st = [None, None, None, Some CtxEnds]"
  shows "Put E now req st = Ret (Inr \<lparr>pr_version = \<lparr>v_sha256_hash = h, v_timestamp = now, v_index = t_unix now\<rparr>\<rparr>,
    \<lparr>st_db = (st_db st)\<lparr>db_cache := upsert_rows (put_row res i (t_unix now) spec h) (db_cache (st_db st))\<rparr>,
     st_faults = []\<rparr>)"
proof -
  have row_eq: "\<lparr>rc_namespace = r_namespace res, rc_id = i, rc_version_index = t_unix now,
      rc_name = r_name res, rc_spec_type_url = any_type_url spec, rc_spec_value = any_value spec,
      rc_sha256_hash = h\<rparr> = put_row res i (t_unix now) spec h" by (simp add: put_row_def)
  show ?thesis
    using req h new f
    by (cases st, cases "cache_row (st_db st) (r_namespace res) i")
      (simp_all add: Put_def begin_tx_def put_in_tx_def exec_tx_def GetResourceCacheSummary_def scan_row_def
        put_commit_def commit_def row_eq Upsert_rows Let_def)
qed

section \<open>Puts that meet the row they would write\<close>

lemma exec_ok: "\<not> tx_aborted t \<Longrightarrow> \<not> tx_ctx_done t \<Longrightarrow> tx_faults t = [] \<Longrightarrow>
    exec_tx f t = (case f (tx_db t) of Inl e \<Rightarrow> (Inl e, t\<lparr>tx_aborted := True\<rparr>)
      | Inr (a, d) \<Rightarrow> (Inr a, t\<lparr>tx_db := d\<rparr>))"
  by (cases t) (auto simp: exec_tx_def Let_def split: sum.splits)

text \<open>A put of an unchanged resource, on a store whose server does not fail, changes nothing.\<close>

lemma put_same:
  assumes "pr_resource req = Some res" and "se_parse E (r_id res) = Some i"
    and "cache_row (st_db st) (r_namespace res) i = Some r"
    and "hashResource E (res\<lparr>r_version := None\<rparr>) = Ret (rc_sha256_hash r)" and "st_faults st = []"
  shows "Put E now req st = Ret (Inr \<lparr>pr_version = \<lparr>v_sha256_hash = rc_sha256_hash r,
    v_timestamp = time_Unix (rc_version_index r), v_index = rc_version_index r\<rparr>\<rparr>, st)"
  using assms
  by (simp add: Put_def begin_tx_def put_in_tx_def exec_ok GetResourceCacheSummary_def scan_row_def
      put_commit_def commit_def)

text \<open>A put of a changed resource whose event key is taken cannot commit.\<close>

lemma put_conflict:
  assumes req: "pr_resource req = Some res" "se_parse E (r_id res) = Some i" "r_spec res = Some spec"
    and row: "cache_row (st_db st) (r_namespace res) i = Some r"
    and h: "hashResource E (res\<lparr>r_version := None\<rparr>) = Ret h" "h \<noteq> rc_sha256_hash r"
    and f: "st_faults st = []" and d: "distinct (map cache_key (db_cache (st_db st)))"
    and pk: "(r_namespace res, t_unix now, i) \<in> event_pk ` set (db_events (st_db st))"
  shows "Put E now req st =
    Ret (Inl (ErrOther ''pq: Could not complete operation in a failed transaction''), st)"
proof -
  let ?row = "put_row res i (t_unix now) spec h"
  let ?d = "(st_db st)\<lparr>db_cache := upsert_rows ?row (db_cache (st_db st))\<rparr>"
  have "distinct (map cache_key (db_cache ?d))" using d by (simp add: upsert_distinct)
  from filter_at_key [OF this, of "r_namespace res" i]
  have "filter (at_key (r_namespace res) i) (db_cache ?d) = [?row]"
    by (simp add: upsert_find) (simp add: cache_key_def put_row_def)
  then have ins: "InsertActiveResourceEvent (r_namespace res) i ?d =
      Inl (ErrOther ''duplicate key value violates unique constraint'')"
    using pk by (simp add: InsertActiveResourceEvent_def) (simp add: event_pk_def put_row_def)
  have row_eq: "\<lparr>rc_namespace = r_namespace res, rc_id = i, rc_version_index = t_unix now,
      rc_name = r_name res, rc_spec_type_url = any_type_url spec, rc_spec_value = any_value spec,
      rc_sha256_hash = h\<rparr> = ?row" by (simp add: put_row_def)
  show ?thesis
    using assms(1-3) row h f ins
    by (simp add: Put_def begin_tx_def put_in_tx_def exec_ok GetResourceCacheSummary_def scan_row_def
        put_commit_def commit_def rollback_def row_eq Upsert_rows)
qed

lemma put_row_cached:
  assumes put: "Put E now req st = Ret (Inr rsp, st')" and ok: "db_ok (st_db st)" and u: "uncancelled st"
    and req: "pr_resource req = Some res" "se_parse E (r_id res) = Some i"
  shows "\<exists>r. cache_row (st_db st') (r_namespace res) i = Some r \<and>
    hashResource E (res\<lparr>r_version := None\<rparr>) = Ret (rc_sha256_hash r) \<and>
    rc_sha256_hash r = v_sha256_hash (pr_version rsp) \<and> rc_version_index r = v_index (pr_version rsp) \<and>
    (st_db st' = st_db st \<or> rc_name r = r_name res \<and>
      r_spec res = Some \<lparr>any_type_url = rc_spec_type_url r, any_value = rc_spec_value r\<rparr>)"
proof -
  have d: "distinct (map cache_key (db_cache (st_db st)))" "distinct (map event_pk (db_events (st_db st)))"
    using ok by (simp_all add: db_ok_def)
  show ?thesis
  proof (cases rule: put_cases [OF put d u])
    case (1 res' i' r)
    with req show ?thesis by auto
  next
    case (2 res' i' spec h)
    with req have e: "res' = res" "i' = i" by auto
    have "cache_row (st_db st') (r_namespace res) i = Some (put_row res i (t_unix now) spec h)"
      unfolding cache_row_def 2(5) upsert_find by (simp add: e cache_key_def put_row_def)
    with 2 e show ?thesis by (auto simp: put_row_def)
  qed
qed

end
