(* ===== verification/WatchProps.thy ===== *)
theory WatchProps
  imports StoreProps "HOL-Library.Multiset"
begin

text \<open>
  The watch of the resource store: the first list sends every cached row of the namespace once,
  a later scan sends every event after its cursor once and in order, over any number of scans of
  a log that grows at its end, also between the statements of a scan; the ways an event escapes it;
  and what a put and a drop do.
\<close>

section \<open>Pages\<close>

function pages :: "'a list \<Rightarrow> 'a list list" where
  "pages xs = (if xs = [] then [] else take 50 xs # pages (drop 50 xs))"
  by pat_completeness auto
termination by (relation "measure length") auto

declare pages.simps [simp del]

lemma pages_Nil [simp]: "pages [] = []"
  by (simp add: pages.simps)

lemma pages_short: "xs \<noteq> [] \<Longrightarrow> length xs < 50 \<Longrightarrow> pages xs = [xs]"
  by (subst pages.simps) simp

lemma concat_pages [simp]: "concat (pages xs) = xs"
proof (induction xs rule: pages.induct)
  case (1 xs)
  then show ?case by (cases "xs = []") (simp_all add: pages.simps [of xs])
qed

lemma pages_bounds: "p \<in> set (pages xs) \<Longrightarrow> p \<noteq> [] \<and> length p \<le> 50"
proof (induction xs rule: pages.induct)
  case (1 xs)
  then show ?case by (cases "xs = []") (auto simp: pages.simps [of xs])
qed

section \<open>The events after a cursor\<close>

definition strictly_sorted :: "ResourceEvent list \<Rightarrow> bool" where
  "strictly_sorted xs \<longleftrightarrow> sorted_wrt (\<lambda>a b. event_key a < event_key b) xs"

definition after_key :: "int \<times> int \<Rightarrow> ResourceEvent list \<Rightarrow> ResourceEvent list" where
  "after_key k xs = filter (\<lambda>e. k < event_key e) xs"

lemma events_of_strict:
  assumes "db_ok d"
  shows "strictly_sorted (events_of ns d)"
proof -
  let ?es = "filter (\<lambda>e. rc_namespace e = ns) (db_events d)"
  have inj: "inj_on event_pk (set ?es)" and dist: "distinct ?es"
    using assms by (auto simp: db_ok_def distinct_map inj_on_def)
  have "inj_on event_key (set ?es)"
  proof (rule inj_onI)
    fix a b assume "a \<in> set ?es" "b \<in> set ?es" "event_key a = event_key b"
    moreover from this have "event_pk a = event_pk b"
      by (auto simp: event_key_def event_pk_def intro: signed_word_eqI unsigned_word_eqI)
    ultimately show "a = b" using inj by (simp add: inj_on_eq_iff)
  qed
  with dist have "distinct (map event_key (sort_key event_key ?es))" by (simp add: distinct_map)
  then have "sorted_wrt (<) (map event_key (sort_key event_key ?es))"
    by (simp add: strict_sorted_iff)
  then show ?thesis by (simp add: strictly_sorted_def events_of_def sorted_wrt_map)
qed

lemma strict_filter: "strictly_sorted xs \<Longrightarrow> strictly_sorted (filter P xs)"
  by (simp add: strictly_sorted_def sorted_wrt_filter)

text \<open>Taking a page and moving the cursor to its last event leaves the rest.\<close>

lemma after_last:
  assumes s: "strictly_sorted xs" and ne: "after_key k xs = ys @ zs" "ys \<noteq> []"
  shows "after_key (event_key (last ys)) xs = zs"
proof -
  have l: "k < event_key (last ys)"
  proof -
    have "last ys \<in> set (after_key k xs)" using ne by simp
    then show ?thesis by (simp add: after_key_def)
  qed
  have "after_key (event_key (last ys)) xs = after_key (event_key (last ys)) (after_key k xs)"
    using l unfolding after_key_def filter_filter by (intro filter_cong) auto
  also have "\<dots> = zs"
  proof -
    have st: "strictly_sorted (ys @ zs)" using strict_filter [OF s] ne(1) by (metis after_key_def)
    have "\<forall>y \<in> set ys. \<not> event_key (last ys) < event_key y"
    proof
      fix y assume y: "y \<in> set ys"
      have "ys = butlast ys @ [last ys]" using ne(2) by simp
      with st have "sorted_wrt (\<lambda>a b. event_key a < event_key b) (butlast ys @ [last ys])"
        by (metis strictly_sorted_def sorted_wrt_append)
      then have "\<forall>x \<in> set (butlast ys). event_key x < event_key (last ys)"
        by (simp add: sorted_wrt_append)
      with y ne(2) show "\<not> event_key (last ys) < event_key y"
        by (metis append_butlast_last_id in_set_conv_decomp in_set_butlastD less_asym less_irrefl
            rotate1.simps(2) set_ConsD set_rotate1)
    qed
    moreover have "\<forall>z \<in> set zs. event_key (last ys) < event_key z"
      using st ne(2) by (simp add: strictly_sorted_def sorted_wrt_append)
    ultimately show ?thesis unfolding ne(1)
      by (simp add: after_key_def filter_empty_conv filter_id_conv)
  qed
  finally show ?thesis .
qed

lemma advance_simps:
  "ep_namespace (advance rows p) = ep_namespace p" "ep_max_rows (advance rows p) = ep_max_rows p"
  by (induction rows arbitrary: p) (simp_all add: advance_def)

lemma cursor_advance:
  "cursor_key (advance rows p) = (if rows = [] then cursor_key p else event_key (last rows))"
proof (cases rows rule: rev_cases)
  case Nil
  then show ?thesis by (simp add: advance_def)
next
  case (snoc rs r)
  then show ?thesis by (simp add: advance_def cursor_key_def event_key_def)
qed

lemma advance_append: "advance ys (advance xs p) = advance (xs @ ys) p"
  by (simp add: advance_def)

text \<open>
  A server and a stream that do not fail, and a scan during which the database stays as it is. The
  databases that the coming statements find are \<open>views\<close>, of which the last one stays.
\<close>

definition works :: "store_env \<Rightarrow> watching \<Rightarrow> bool" where
  "works E w \<longleftrightarrow> st_faults (wt_store w) = [] \<and> se_send E = (\<lambda>_. None)"

definition quiet :: "store_env \<Rightarrow> watching \<Rightarrow> bool" where
  "quiet E w \<longleftrightarrow> works E w \<and> wt_found w = []"

definition views :: "watching \<Rightarrow> db list" where
  "views w = (if wt_found w = [] then [st_db (wt_store w)] else wt_found w)"

lemma told_simps [simp]:
  "works E (w\<lparr>wt_sent := m\<rparr>) = works E w" "works E (w\<lparr>wt_params := p\<rparr>) = works E w"
  "quiet E (w\<lparr>wt_sent := m\<rparr>) = quiet E w" "quiet E (w\<lparr>wt_params := p\<rparr>) = quiet E w"
  "views (w\<lparr>wt_sent := m\<rparr>) = views w" "views (w\<lparr>wt_params := p\<rparr>) = views w"
  by (simp_all add: works_def quiet_def views_def)

lemma query_quiet: "quiet E w \<Longrightarrow>
    query f w = (case f (st_db (wt_store w)) of Inl e \<Rightarrow> (Inl e, w) | Inr (a, d) \<Rightarrow> (Inr a, w\<lparr>wt_store := (wt_store w)\<lparr>st_db := d\<rparr>\<rparr>))"
  by (cases w, cases "wt_store w") (auto simp: query_def quiet_def works_def exec_db_def Let_def split: sum.splits)

text \<open>A statement that only reads.\<close>

lemma query_works:
  assumes "works E w" and "views w = v # vs" and "f v = Inr (a, v)"
  shows "\<exists>w1. query f w = (Inr a, w1) \<and> works E w1 \<and> views w1 = (if vs = [] then [v] else vs) \<and>
    st_db (wt_store w1) = v \<and> wt_params w1 = wt_params w \<and> wt_sent w1 = wt_sent w \<and>
    (wt_found w = [] \<longrightarrow> wt_found w1 = [])"
  using assms by (cases "wt_found w") (auto simp: query_def works_def views_def exec_db_def Let_def)

lemma send_quiet: "se_send E = (\<lambda>_. None) \<Longrightarrow> send_response E m w = Done (w\<lparr>wt_sent := wt_sent w @ [m]\<rparr>)"
  by (simp add: send_response_def)

lemma pageSize_simps [simp]: "sint pageSize = 50" "nat (sint pageSize) = 50"
  by (simp_all add: pageSize_def)

text \<open>The log of a namespace grows at its end from one database to the next.\<close>

fun growing :: "string \<Rightarrow> db \<Rightarrow> db list \<Rightarrow> bool" where
  "growing ns d [] \<longleftrightarrow> True"
| "growing ns d (d' # ds) \<longleftrightarrow> db_ok d' \<and> prefix (events_of ns d) (events_of ns d') \<and> growing ns d' ds"

lemma growing_append: "growing ns d (xs @ ys) \<longleftrightarrow> growing ns d xs \<and> growing ns (last (d # xs)) ys"
  by (induction xs arbitrary: d) auto

lemma growing_from: "growing ns d ds \<Longrightarrow> prefix (events_of ns d') (events_of ns d) \<Longrightarrow> growing ns d' ds"
  by (cases ds) (auto intro: prefix_order.trans)

lemma growing_in: "growing ns d ds \<Longrightarrow> x \<in> set ds \<Longrightarrow> db_ok x \<and> prefix (events_of ns d) (events_of ns x)"
  by (induction ds arbitrary: d) (auto intro: prefix_order.trans)

lemma growing_last: "growing ns d ds \<Longrightarrow> x \<in> set (d # ds) \<Longrightarrow> prefix (events_of ns x) (events_of ns (last (d # ds)))"
proof (induction ds arbitrary: d x)
  case Nil
  then show ?case by simp
next
  case (Cons a ds)
  from Cons.prems have g: "growing ns a ds" "prefix (events_of ns d) (events_of ns a)" by simp_all
  have "prefix (events_of ns a) (events_of ns (last (a # ds)))" using Cons.IH [OF g(1), of a] by simp
  with g(2) have "prefix (events_of ns d) (events_of ns (last (a # ds)))" by (rule prefix_order.trans)
  with Cons.prems(2) Cons.IH [OF g(1), of x] show ?case by auto
qed

lemma growing_ok: "growing ns d ds \<Longrightarrow> db_ok d \<Longrightarrow> db_ok (last (d # ds))"
  by (induction ds arbitrary: d) auto

text \<open>A full page of a log is one of any log it has grown into.\<close>

lemma full_page_grown:
  assumes "prefix xs ys" and s: "strictly_sorted ys" and full: "50 \<le> length (after_key c xs)"
  shows "take 50 (after_key c ys) = take 50 (after_key c xs)"
    and "after_key (event_key (last (take 50 (after_key c xs)))) ys = drop 50 (after_key c ys)"
proof -
  from assms(1) obtain new where "ys = xs @ new" by (auto simp: prefix_def)
  then have "after_key c ys = after_key c xs @ after_key c new" by (simp add: after_key_def)
  with full show t: "take 50 (after_key c ys) = take 50 (after_key c xs)" by simp
  have "after_key c ys = take 50 (after_key c xs) @ drop 50 (after_key c ys)" by (metis append_take_drop_id t)
  moreover have "take 50 (after_key c xs) \<noteq> []" using full by auto
  ultimately show "after_key (event_key (last (take 50 (after_key c xs)))) ys = drop 50 (after_key c ys)"
    by (rule after_last [OF s])
qed

lemma poll_growing:
  assumes "works E w" and "wt_params w = Some p" and "ep_namespace p = ns" and "ep_max_rows p = pageSize"
    and "views w = v # vs" and "growing ns v vs" and "db_ok v"
    and "length (after_key (cursor_key p) (events_of ns (last (v # vs)))) < fuel"
  shows "\<exists>w' d. poll_events fuel E ns w = Some (Done w') \<and> d \<in> set (v # vs) \<and> st_db (wt_store w') = d \<and>
    prefix (events_of ns v) (events_of ns d) \<and> works E w' \<and> (wt_found w = [] \<longrightarrow> wt_found w' = []) \<and>
    wt_params w' = Some (advance (after_key (cursor_key p) (events_of ns d)) p) \<and>
    wt_sent w' = wt_sent w @ map (events_response E ns) (pages (after_key (cursor_key p) (events_of ns d)))"
  using assms
proof (induction fuel arbitrary: w p v vs)
  case 0
  then show ?case by simp
next
  case (Suc fuel)
  let ?evs = "after_key (cursor_key p) (events_of ns v)"
  let ?rows = "take 50 ?evs" and ?L = "events_of ns (last (v # vs))"
  have "ListResourcesEventsFromNamespace p v = Inr (?rows, v)"
    using Suc.prems(3,4) by (simp add: ListResourcesEventsFromNamespace_def after_key_def)
  from query_works [where f = "ListResourcesEventsFromNamespace p", OF Suc.prems(1,5) this] obtain w1 where q: "query (ListResourcesEventsFromNamespace p) w = (Inr ?rows, w1)"
    and w1: "works E w1" "views w1 = (if vs = [] then [v] else vs)" "st_db (wt_store w1) = v" "wt_sent w1 = wt_sent w"
      "wt_found w = [] \<longrightarrow> wt_found w1 = []" by blast
  have snd: "se_send E = (\<lambda>_. None)" using Suc.prems(1) by (simp add: works_def)
  let ?w = "w1\<lparr>wt_params := Some (advance ?rows p)\<rparr>"
  let ?w' = "?w\<lparr>wt_sent := wt_sent w @ [events_response E ns ?rows]\<rparr>"
  have step: "poll_events (Suc fuel) E ns w =
      (if ?evs = [] then Some (Done ?w) else if length ?evs < 50 then Some (Done ?w')
       else poll_events fuel E ns ?w')"
    using Suc.prems(2,4) q w1(4) by (auto simp: send_quiet [OF snd] Let_def min_def)
  show ?case
  proof (cases "length ?evs < 50")
    case True
    with w1 show ?thesis unfolding step
      by (cases "?evs = []") (auto simp: pages_short works_def intro!: exI [of _ v])
  next
    case False
    obtain v1 vs1 where v1: "views w1 = v1 # vs1" and g1: "growing ns v1 vs1" "db_ok v1"
      and p1: "prefix (events_of ns v) (events_of ns v1)" "last (v1 # vs1) = last (v # vs)" "set (v1 # vs1) \<subseteq> set (v # vs)"
      using w1(2) Suc.prems(6,7) by (cases vs) auto
    let ?p = "advance ?rows p"
    have c: "cursor_key ?p = event_key (last ?rows)" using False by (auto simp: cursor_advance)
    note full = full_page_grown [OF _ events_of_strict, of "events_of ns v" ns _ "cursor_key p"]
    have "after_key (cursor_key ?p) ?L = drop 50 (after_key (cursor_key p) ?L)"
      unfolding c using growing_last [OF Suc.prems(6), of v] growing_ok [OF Suc.prems(6,7)] False by (intro full(2)) auto
    moreover have "50 \<le> length (after_key (cursor_key p) ?L)"
      using growing_last [OF Suc.prems(6), of v] False by (auto simp: prefix_def after_key_def)
    ultimately have fuel: "length (after_key (cursor_key ?p) (events_of ns (last (v1 # vs1)))) < fuel"
      using Suc.prems(8) p1(2) by (simp split del: if_split)
    have "works E ?w'" "views ?w' = v1 # vs1" using w1(1) v1 by simp_all
    from Suc.IH [OF this(1) _ _ _ this(2) g1 fuel] Suc.prems(3,4) obtain w2 d where
      2: "poll_events fuel E ns ?w' = Some (Done w2)" "d \<in> set (v1 # vs1)" "st_db (wt_store w2) = d"
        "prefix (events_of ns v1) (events_of ns d)" "works E w2" "wt_found ?w' = [] \<longrightarrow> wt_found w2 = []"
        "wt_params w2 = Some (advance (after_key (cursor_key ?p) (events_of ns d)) ?p)"
        "wt_sent w2 = wt_sent ?w' @ map (events_response E ns) (pages (after_key (cursor_key ?p) (events_of ns d)))"
      by (auto simp: advance_simps)
    have pre: "prefix (events_of ns v) (events_of ns d)" using p1(1) 2(4) by (rule prefix_order.trans)
    have "db_ok d" using 2(2) g1 growing_in [OF g1(1)] by auto
    from full [OF pre this] False have t: "take 50 (after_key (cursor_key p) (events_of ns d)) = ?rows"
      and r: "after_key (cursor_key ?p) (events_of ns d) = drop 50 (after_key (cursor_key p) (events_of ns d))"
      unfolding c by simp_all
    have ne: "after_key (cursor_key p) (events_of ns d) \<noteq> []" using t False by auto
    have "advance (after_key (cursor_key p) (events_of ns d)) p = advance (drop 50 (after_key (cursor_key p) (events_of ns d))) ?p"
      by (simp add: advance_append flip: t)
    moreover have "pages (after_key (cursor_key p) (events_of ns d)) =
        ?rows # pages (drop 50 (after_key (cursor_key p) (events_of ns d)))"
      using ne t by (simp add: pages.simps [of "after_key (cursor_key p) (events_of ns d)"])
    ultimately show ?thesis unfolding step using False 2 r pre p1(3) w1(5)
      by (intro exI [of _ w2] exI [of _ d]) auto
  qed
qed

text \<open>One scan: from a cursor \<open>c\<close> to the last event of the log.\<close>

definition next_cursor :: "int \<times> int \<Rightarrow> ResourceEvent list \<Rightarrow> int \<times> int" where
  "next_cursor c evs = (if evs = [] then c else event_key (last evs))"

definition watch_at :: "store_env \<Rightarrow> string \<Rightarrow> int \<times> int \<Rightarrow> watching \<Rightarrow> bool" where
  "watch_at E ns c w \<longleftrightarrow> works E w \<and> (\<exists>p. wt_params w = Some p \<and> ep_namespace p = ns \<and>
     ep_max_rows p = pageSize \<and> cursor_key p = c)"

definition scan_messages :: "store_env \<Rightarrow> string \<Rightarrow> ResourceEvent list list \<Rightarrow> watch_response list" where
  "scan_messages E ns ps = map (events_response E ns) ps @ [end_of_list]"

lemma watch_round_growing:
  assumes w: "watch_at E ns c w" and v: "views w = v # vs" "growing ns v vs" "db_ok v"
    and fuel: "length (events_of ns (last (v # vs))) < fuel"
  shows "\<exists>w' d. watch_round fuel E ns w = Some (Done w') \<and> d \<in> set (v # vs) \<and> st_db (wt_store w') = d \<and>
    prefix (events_of ns v) (events_of ns d) \<and> (wt_found w = [] \<longrightarrow> wt_found w' = []) \<and>
    watch_at E ns (next_cursor c (after_key c (events_of ns d))) w' \<and>
    wt_sent w' = wt_sent w @ scan_messages E ns (pages (after_key c (events_of ns d)))"
proof -
  from w obtain p where p: "wt_params w = Some p" "ep_namespace p = ns" "ep_max_rows p = pageSize"
      "cursor_key p = c" and q: "works E w" by (auto simp: watch_at_def)
  have "length (after_key (cursor_key p) (events_of ns (last (v # vs)))) < fuel"
    unfolding after_key_def by (rule le_less_trans [OF length_filter_le fuel])
  from poll_growing [OF q p(1-3) v this] obtain w1 d where
    1: "poll_events fuel E ns w = Some (Done w1)" "d \<in> set (v # vs)" "st_db (wt_store w1) = d"
      "prefix (events_of ns v) (events_of ns d)" "works E w1" "wt_found w = [] \<longrightarrow> wt_found w1 = []"
      "wt_params w1 = Some (advance (after_key c (events_of ns d)) p)"
      "wt_sent w1 = wt_sent w @ map (events_response E ns) (pages (after_key c (events_of ns d)))"
    unfolding p(4) by blast
  have snd: "se_send E = (\<lambda>_. None)" using q by (simp add: works_def)
  let ?w' = "w1\<lparr>wt_sent := wt_sent w1 @ [end_of_list]\<rparr>"
  have "watch_round fuel E ns w = Some (Done ?w')" using p(1) 1(1) by (simp add: watch_round_def send_quiet [OF snd])
  moreover have "watch_at E ns (next_cursor c (after_key c (events_of ns d))) ?w'"
    using 1(5,7) p by (simp add: watch_at_def works_def advance_simps cursor_advance next_cursor_def)
  ultimately show ?thesis using 1 by (intro exI [of _ ?w'] exI [of _ d]) (simp add: scan_messages_def)
qed

lemma watch_round_scan:
  assumes w: "watch_at E ns c w" "wt_found w = []" and d: "db_ok (st_db (wt_store w))"
    and evs: "evs = after_key c (events_of ns (st_db (wt_store w)))"
    and fuel: "length (events_of ns (st_db (wt_store w))) < fuel"
  shows "\<exists>w'. watch_round fuel E ns w = Some (Done w') \<and> watch_at E ns (next_cursor c evs) w' \<and> wt_found w' = [] \<and>
    wt_sent w' = wt_sent w @ scan_messages E ns (pages evs) \<and> st_db (wt_store w') = st_db (wt_store w)"
proof -
  have "views w = [st_db (wt_store w)]" using w(2) by (simp add: views_def)
  from watch_round_growing [OF w(1) this _ d, of fuel] fuel w(2) show ?thesis unfolding evs by auto
qed

lemma after_key_grown:
  assumes "strictly_sorted (xs @ ys)"
  shows "after_key c (xs @ ys) = after_key c xs @ after_key (next_cursor c (after_key c xs)) (xs @ ys)"
proof (cases "after_key c xs = []")
  case True
  then show ?thesis by (simp add: after_key_def next_cursor_def)
next
  case False
  have "after_key c (xs @ ys) = after_key c xs @ after_key c ys" by (simp add: after_key_def)
  moreover from after_last [OF assms this False]
  have "after_key (event_key (last (after_key c xs))) (xs @ ys) = after_key c ys" .
  ultimately show ?thesis using False by (simp add: next_cursor_def)
qed

text \<open>Any number of scans; each finds its first database, or others at its statements.\<close>

abbreviation scans_of :: "(db \<times> db list) list \<Rightarrow> wakeup list" where
  "scans_of scans \<equiv> map (\<lambda>(d, ds). Scan d ds) scans"

abbreviation found_by :: "(db \<times> db list) list \<Rightarrow> db list" where
  "found_by scans \<equiv> concat (map (\<lambda>(d, ds). d # ds) scans)"

lemma watch_scans:
  assumes "watch_at E ns c w" and "growing ns d (found_by scans)" and "db_ok d"
    and "\<forall>d' \<in> set (found_by scans). length (events_of ns d') < fuel"
    and "after_key c (events_of ns d) = []"
  shows "\<exists>w' pss dl. watch_wakeups fuel E ns (scans_of scans) w = Some (Done w') \<and> length pss = length scans \<and>
    wt_sent w' = wt_sent w @ concat (map (scan_messages E ns) pss) \<and>
    dl = st_db (wt_store w') \<and> (scans \<noteq> [] \<longrightarrow> dl \<in> set (fst (last scans) # snd (last scans))) \<and>
    concat (concat pss) = (if scans = [] then [] else after_key c (events_of ns dl)) \<and>
    (\<forall>ps \<in> set pss. \<forall>p \<in> set ps. p \<noteq> [] \<and> length p \<le> 50)"
  using assms
proof (induction scans arbitrary: w c d)
  case Nil
  then show ?case by (intro exI [of _ w] exI [of _ "[]"]) simp
next
  case (Cons x scans)
  obtain d1 ds where x: "x = (d1, ds)" by force
  let ?w = "w\<lparr>wt_store := (wt_store w)\<lparr>st_db := d1\<rparr>, wt_found := ds\<rparr>"
  have g: "growing ns d (d1 # ds)" "growing ns (last (d1 # ds)) (found_by scans)"
    using Cons.prems(2) growing_append [of ns d "d1 # ds"] by (simp_all add: x)
  obtain v vs where v: "views ?w = v # vs" by (cases ds) (auto simp: views_def)
  then have v': "v # vs = (if ds = [] then [d1] else ds)" unfolding views_def by (simp split: if_splits)
  then have gv: "growing ns v vs" "db_ok v" "prefix (events_of ns d) (events_of ns v)" "last (v # vs) = last (d1 # ds)"
    using g(1) by (auto intro: prefix_order.trans split: if_splits)
  have in_ds: "e \<in> set (d1 # ds)" if "e \<in> set (v # vs)" for e using that v' by (auto split: if_splits)
  have f: "length (events_of ns (last (v # vs))) < fuel" using Cons.prems(4) gv(4) by (simp add: x)
  have "watch_at E ns c ?w" using Cons.prems(1) by (simp add: watch_at_def works_def)
  from watch_round_growing [OF this v gv(1,2) f] obtain w1 e where
    r: "watch_round fuel E ns ?w = Some (Done w1)" "e \<in> set (v # vs)" "st_db (wt_store w1) = e"
      "watch_at E ns (next_cursor c (after_key c (events_of ns e))) w1"
      "wt_sent w1 = wt_sent w @ scan_messages E ns (pages (after_key c (events_of ns e)))" by auto
  have e: "db_ok e" using growing_in [OF g(1)] in_ds [OF r(2)] by blast
  have grows: "growing ns e (found_by scans)"
    using growing_last [OF g(1), of e] in_ds [OF r(2)] by (intro growing_from [OF g(2)]) auto
  have none: "after_key (next_cursor c (after_key c (events_of ns e))) (events_of ns e) = []"
    using after_key_grown [of "events_of ns e" "[]" c] events_of_strict [OF e] by simp
  from Cons.IH [OF r(4) grows e _ none] Cons.prems(4) obtain w2 pss where
    i: "watch_wakeups fuel E ns (scans_of scans) w1 = Some (Done w2)" "length pss = length scans"
      "wt_sent w2 = wt_sent w1 @ concat (map (scan_messages E ns) pss)"
      "scans \<noteq> [] \<longrightarrow> st_db (wt_store w2) \<in> set (fst (last scans) # snd (last scans))"
      "concat (concat pss) = (if scans = [] then []
        else after_key (next_cursor c (after_key c (events_of ns e))) (events_of ns (st_db (wt_store w2))))"
      "\<forall>ps \<in> set pss. \<forall>p \<in> set ps. p \<noteq> [] \<and> length p \<le> 50" by (auto simp: x)
  have more: "after_key c (events_of ns (st_db (wt_store w2))) = after_key c (events_of ns e) @ concat (concat pss)"
    if ne: "scans \<noteq> []"
  proof -
    have "st_db (wt_store w2) \<in> set (found_by scans)" using i(4) ne last_in_set [OF ne] by (cases "last scans") force
    from growing_in [OF grows this] obtain new where new: "events_of ns (st_db (wt_store w2)) = events_of ns e @ new"
      and ok: "db_ok (st_db (wt_store w2))" by (auto simp: prefix_def)
    from after_key_grown [of "events_of ns e" new c] events_of_strict [OF ok, of ns] i(5) ne show ?thesis by (simp add: new)
  qed
  show ?case
  proof (cases "scans = []")
    case True
    with r i(1-3) in_ds [OF r(2)] pages_bounds show ?thesis
      by (intro exI [of _ w2] exI [of _ "pages (after_key c (events_of ns e)) # pss"]) (auto simp: x)
  next
    case False
    with r i more [OF False] pages_bounds show ?thesis
      by (intro exI [of _ w2] exI [of _ "pages (after_key c (events_of ns e)) # pss"]) (auto simp: x)
  qed
qed

section \<open>The first list\<close>

lemma sint_offset:
  assumes "50 * k < 2 ^ 31"
  shows "sint (pageSize * of_nat k) = int (50 * k)"
proof -
  have "pageSize * of_nat k = (word_of_int (int (50 * k)) :: int32)" by (simp add: pageSize_def)
  moreover have "sint (word_of_int (int (50 * k)) :: int32) = int (50 * k)"
    unfolding sint_sbintrunc' using assms by (intro signed_take_bit_int_eq_self) simp_all
  ultimately show ?thesis by simp
qed

definition listed :: "store_env \<Rightarrow> string \<Rightarrow> db \<Rightarrow> ResourceCache list" where
  "listed E ns d = se_ties E (filter (\<lambda>r. rc_namespace r = ns) (db_cache d))"

lemma list_pages_quiet:
  assumes q: "quiet E w" and rows: "rows = listed E ns (st_db (wt_store w))"
    and k: "50 * k \<le> length rows" and bound: "length rows + 50 < 2 ^ 31"
  shows "list_pages E ns (of_nat k) w =
    Done (w\<lparr>wt_sent := wt_sent w @ map (list_response E ns) (pages (drop (50 * k) rows))\<rparr>)"
  using q rows k
proof (induction "length rows - 50 * k" arbitrary: k w rule: less_induct)
  case less
  let ?page = "take 50 (drop (50 * k) rows)"
  have snd: "se_send E = (\<lambda>_. None)" using less.prems(1) by (simp add: quiet_def works_def)
  have off: "sint (pageSize * of_nat k) = int (50 * k)" using less.prems(3) bound by (intro sint_offset) simp
  have qr: "query (ListResourcesCachedFromNamespace (se_ties E) ns pageSize (pageSize * of_nat k)) w = (Inr ?page, w)"
    using off by (simp add: query_quiet [OF less.prems(1)] ListResourcesCachedFromNamespace_def less.prems(2) listed_def
        nat_mult_distrib)
  let ?w = "w\<lparr>wt_sent := wt_sent w @ [list_response E ns ?page]\<rparr>"
  have step: "list_pages E ns (of_nat k) w = (if ?page = [] then Done w
      else if length (drop (50 * k) rows) < 50 then Done ?w else list_pages E ns (of_nat k + 1) ?w)"
    by (subst list_pages.simps) (auto simp: qr send_quiet [OF snd] min_def)
  show ?case
  proof (cases "length (drop (50 * k) rows) < 50")
    case True
    then show ?thesis unfolding step by (cases "drop (50 * k) rows = []") (simp_all add: pages_short)
  next
    case False
    then have ne: "?page \<noteq> []" "drop (50 * k) rows \<noteq> []" by auto
    have k1: "50 * Suc k \<le> length rows" "length rows - 50 * Suc k < length rows - 50 * k"
      using False by auto
    have "quiet E ?w" using less.prems(1) by (simp add: quiet_def works_def)
    from less.hyps [OF k1(2) this _ k1(1)] less.prems(2)
    have "list_pages E ns (of_nat (Suc k)) ?w = Done (?w\<lparr>wt_sent := wt_sent ?w @
        map (list_response E ns) (pages (drop (50 * Suc k) rows))\<rparr>)" by simp
    moreover have "drop (50 * Suc k) rows = drop 50 (drop (50 * k) rows)" by simp
    ultimately show ?thesis unfolding step
      using False ne by (simp add: pages.simps [of "drop (50 * k) rows"] add.commute)
  qed
qed

lemma list_finish_quiet:
  assumes "quiet E w" and "events_of ns (st_db (wt_store w)) \<noteq> []"
  shows "\<exists>w'. list_finish E ns w = Done w' \<and> wt_sent w' = wt_sent w @ [end_of_list] \<and>
    wt_store w' = wt_store w \<and> wt_found w' = [] \<and>
    watch_at E ns (event_key (last (events_of ns (st_db (wt_store w))))) w'"
proof -
  obtain es e where es: "events_of ns (st_db (wt_store w)) = es @ [e]" using assms(2) by (metis rev_exhaust)
  have snd: "se_send E = (\<lambda>_. None)" using assms(1) by (simp add: quiet_def works_def)
  have "query (MaxVersionIndexForNamespace ns) w = (Inr (Some (rc_id e, rc_version_index e)), w)"
    by (simp add: query_quiet [OF assms(1)] MaxVersionIndexForNamespace_def es)
  then show ?thesis using assms(1) es
    by (simp add: list_finish_def scan_row_def send_quiet [OF snd] quiet_def works_def watch_at_def
        cursor_key_def event_key_def)
qed

lemma after_key_last: "strictly_sorted xs \<Longrightarrow> after_key (event_key (last xs)) xs = []"
  using after_key_grown [of xs "[]" "event_key (last xs)"]
proof -
  assume s: "strictly_sorted xs"
  show ?thesis
  proof (cases xs rule: rev_cases)
    case Nil
    then show ?thesis by (simp add: after_key_def)
  next
    case (snoc ys y)
    with s show ?thesis by (auto simp: after_key_def strictly_sorted_def sorted_wrt_append filter_empty_conv)
  qed
qed

section \<open>Properties\<close>

text \<open>
  C10. Whatever the sequence of puts and drops, whatever statements the server fails and whenever the
  contexts of the calls end, the primary keys of both tables hold; and if no context ends while its
  call runs, every cached resource is in the event log as an active event with the same contents at
  the same version.
\<close>

theorem store_log_consistent:
  "case run_store_ops E \<lparr>st_db = \<lparr>db_cache = [], db_events = []\<rparr>, st_faults = fs\<rparr> ops of
     Ret st \<Rightarrow> db_keys (st_db st) \<and> (Some CtxEnds \<notin> set fs \<longrightarrow> db_ok (st_db st)) | Panics _ \<Rightarrow> True"
proof -
  let ?st = "\<lparr>st_db = \<lparr>db_cache = [], db_events = []\<rparr>, st_faults = fs\<rparr>"
  have "db_ok (st_db ?st)" "db_keys (st_db ?st)" by (simp_all add: db_ok_def db_keys_def)
  then show ?thesis
    using db_ok_run_ops [of ?st E ops] db_keys_run_ops [of ?st E ops]
    by (simp add: uncancelled_def split: val.splits)
qed

text \<open>
  C24. A put whose context ends between its two statements, which is when its client gives up or its
  deadline passes, is committed without its event, because the errors of the statements are
  ignored: the row is cached, the log, which is all that the scans of a watch read after its first
  list, is as before, and the response is that of a success.
\<close>

theorem cancelled_put_not_logged:
  assumes req: "pr_resource req = Some res" "se_parse E (r_id res) = Some i" "r_spec res = Some spec"
    and h: "hashResource E (res\<lparr>r_version := None\<rparr>) = Ret h"
    and new: "\<forall>r. cache_row (st_db st) (r_namespace res) i = Some r \<longrightarrow> rc_sha256_hash r \<noteq> h"
    and ended: "st_faults st = [None, None, None, Some CtxEnds]"
  shows "\<exists>st'. Put E now req st =
      Ret (Inr \<lparr>pr_version = \<lparr>v_sha256_hash = h, v_timestamp = now, v_index = t_unix now\<rparr>\<rparr>, st') \<and>
    cache_row (st_db st') (r_namespace res) i = Some (put_row res i (t_unix now) spec h) \<and>
    db_events (st_db st') = db_events (st_db st)"
proof -
  have "case cache_row (st_db st) (r_namespace res) i of None \<Rightarrow> True | Some r \<Rightarrow> rc_sha256_hash r \<noteq> h"
    using new by (simp split: option.splits)
  from put_unlogged [OF req h this ended, of now] show ?thesis
    by (simp add: cache_row_def upsert_find) (simp add: cache_key_def put_row_def)
qed

text \<open>
  C14. After a put that succeeded before its context ended, a get of the same id returns the version of
  the put's response; if the put changed the store, it returns the resource that was put.
\<close>

theorem put_then_get:
  assumes put: "Put E now \<lparr>pr_resource = Some res\<rparr> st = Ret (Inr rsp, st')" and ok: "db_ok (st_db st)"
    and live: "uncancelled st"
  shows "\<exists>g. Get E \<lparr>gr_namespace = r_namespace res, gr_resource_id = r_id res\<rparr> (st'\<lparr>st_faults := []\<rparr>) =
      Ret (Inr \<lparr>gr_resource = g\<rparr>, st'\<lparr>st_faults := []\<rparr>) \<and>
    r_version g = Some \<lparr>v_sha256_hash = v_sha256_hash (pr_version rsp),
      v_timestamp = time_Unix (v_index (pr_version rsp)), v_index = v_index (pr_version rsp)\<rparr> \<and>
    (st_db st' \<noteq> st_db st \<longrightarrow> g\<lparr>r_version := r_version res\<rparr> = res)"
proof -
  from put obtain i where i: "se_parse E (r_id res) = Some i"
    by (auto simp: Put_def split: option.splits)
  from put_row_cached [OF put ok live _ i] obtain r where
    r: "cache_row (st_db st') (r_namespace res) i = Some r"
      "rc_sha256_hash r = v_sha256_hash (pr_version rsp)" "rc_version_index r = v_index (pr_version rsp)"
    and c: "st_db st' = st_db st \<or> rc_name r = r_name res \<and>
      r_spec res = Some \<lparr>any_type_url = rc_spec_type_url r, any_value = rc_spec_value r\<rparr>" by auto
  let ?g = "cached_resource (r_namespace res) (r_id res) r"
  have "Get E \<lparr>gr_namespace = r_namespace res, gr_resource_id = r_id res\<rparr> (st'\<lparr>st_faults := []\<rparr>) =
      Ret (Inr \<lparr>gr_resource = ?g\<rparr>, st'\<lparr>st_faults := []\<rparr>)"
    using i r(1) by (cases st') (simp add: Get_def scan_row_def exec_db_def GetResourceCache_def)
  moreover have "?g\<lparr>r_version := r_version res\<rparr> = res" if "st_db st' \<noteq> st_db st"
    using c that by (cases res) (simp add: cached_resource_def)
  ultimately show ?thesis using r by (intro exI [of _ ?g]) (simp add: cached_resource_def)
qed

text \<open>
  C20. Putting the same resource again, at any time, changes nothing and answers with the hash and
  the index of the first put, if the first put succeeded before its context ended and the server
  does not fail the second.
\<close>

theorem put_idempotent:
  assumes put: "Put E now \<lparr>pr_resource = Some res\<rparr> st = Ret (Inr rsp, st')" and ok: "db_ok (st_db st)"
    and live: "uncancelled st" and quiet_server: "st_faults st' = []"
  shows "Put E now' \<lparr>pr_resource = Some res\<rparr> st' =
    Ret (Inr \<lparr>pr_version = (pr_version rsp)\<lparr>v_timestamp := time_Unix (v_index (pr_version rsp))\<rparr>\<rparr>, st')"
proof -
  from put obtain i where i: "se_parse E (r_id res) = Some i"
    by (auto simp: Put_def split: option.splits)
  from put_row_cached [OF put ok live _ i] obtain r where
    r: "cache_row (st_db st') (r_namespace res) i = Some r"
      "hashResource E (res\<lparr>r_version := None\<rparr>) = Ret (rc_sha256_hash r)"
      "rc_sha256_hash r = v_sha256_hash (pr_version rsp)" "rc_version_index r = v_index (pr_version rsp)"
    by auto
  from put_same [OF _ i r(1,2) quiet_server, of "\<lparr>pr_resource = Some res\<rparr>" now'] r(3,4)
  show ?thesis by (cases "pr_version rsp") simp
qed

text \<open>
  C15. A drop is all or nothing: with an error the store is as before; otherwise every id was a
  UUID, exactly their rows are gone from the cache, and the log has a dropped event at the
  drop's second for each of them.
\<close>

theorem drop_all_or_nothing:
  assumes "db_ok (st_db st)"
  shows "case Drop E now req st of
      (Inl e, st') \<Rightarrow> st_db st' = st_db st
    | (Inr _, st') \<Rightarrow> \<exists>is evs. map (se_parse E) (dr_resource_ids req) = map Some is \<and>
        db_cache (st_db st') = filter (\<lambda>r. \<not> in_ids (dr_namespace req) is r) (db_cache (st_db st)) \<and>
        db_events (st_db st') = db_events (st_db st) @ evs \<and>
        set evs = (\<lambda>r. event_of droppedResource (r\<lparr>rc_version_index := t_unix now\<rparr>)) `
          {r \<in> set (db_cache (st_db st)). in_ids (dr_namespace req) is r}"
proof -
  obtain r st' where d: "Drop E now req st = (r, st')" by force
  from drop_cases [OF d] show ?thesis
  proof
    assume "\<exists>e. r = Inl e \<and> st_db st' = st_db st"
    then show ?thesis using d by auto
  next
    assume "r = Inr () \<and> (\<exists>t t' st1. begin_tx st = (Inr t, st1) \<and> tx_db t = st_db st \<and> \<not> tx_aborted t \<and>
      drop_ids E (dr_namespace req) (t_unix now) 0 (dr_resource_ids req) t = (None, t') \<and>
      st_db st' = tx_db t')"
    then obtain t t' where r: "r = Inr ()" and t: "tx_db t = st_db st" "\<not> tx_aborted t" "st_db st' = tx_db t'"
      and l: "drop_ids E (dr_namespace req) (t_unix now) 0 (dr_resource_ids req) t = (None, t')" by blast
    have "distinct (map event_pk (db_events (tx_db t)))" using assms t(1) by (simp add: db_ok_def)
    from drop_ids_None [OF l t(2) this] show ?thesis unfolding d r prod.case sum.case t(3) t(1) [symmetric] by blast
  qed
qed

text \<open>
  C37. Two changes of one resource in the same second: the second put is refused, because its
  event has the primary key of the first one's; the store keeps the first.
\<close>

theorem second_put_in_a_second_fails:
  assumes put: "Put E now \<lparr>pr_resource = Some res\<rparr> st = Ret (Inr rsp, st')" and ok: "db_ok (st_db st)"
    and live: "uncancelled st" and wrote: "st_db st' \<noteq> st_db st" and quiet_server: "st_faults st' = []"
    and res2: "r_namespace res2 = r_namespace res" "r_id res2 = r_id res" "r_spec res2 = Some spec2"
    and h2: "hashResource E (res2\<lparr>r_version := None\<rparr>) = Ret h2" "h2 \<noteq> v_sha256_hash (pr_version rsp)"
    and second: "t_unix now2 = t_unix now"
  shows "Put E now2 \<lparr>pr_resource = Some res2\<rparr> st' =
    Ret (Inl (ErrOther ''pq: Could not complete operation in a failed transaction''), st')"
proof -
  from put obtain i where i: "se_parse E (r_id res) = Some i"
    by (auto simp: Put_def split: option.splits)
  from put_row_cached [OF put ok live _ i] obtain r where
    r: "cache_row (st_db st') (r_namespace res) i = Some r" "rc_sha256_hash r = v_sha256_hash (pr_version rsp)"
    by auto
  have d: "distinct (map cache_key (db_cache (st_db st)))" "distinct (map event_pk (db_events (st_db st)))"
    using ok by (simp_all add: db_ok_def)
  have pk: "(r_namespace res, t_unix now, i) \<in> event_pk ` set (db_events (st_db st'))"
    and d': "distinct (map cache_key (db_cache (st_db st')))"
  proof -
    have "(r_namespace res, t_unix now, i) \<in> event_pk ` set (db_events (st_db st')) \<and>
      distinct (map cache_key (db_cache (st_db st')))"
    proof (cases rule: put_cases [OF put d live])
      case 1
      with wrote show ?thesis by simp
    next
      case (2 res' i' spec h)
      with i have "res' = res" "i' = i" by auto
      with 2 d(1) show ?thesis by (simp add: upsert_distinct) (simp add: event_pk_def put_row_def)
    qed
    then show "(r_namespace res, t_unix now, i) \<in> event_pk ` set (db_events (st_db st'))"
      "distinct (map cache_key (db_cache (st_db st')))" by blast+
  qed
  show ?thesis
    by (rule put_conflict [of _ res2 E i spec2 st' r h2])
      (use i res2 r h2 quiet_server d' pk second in simp_all)
qed

text \<open>
  The first list of a watch sends every cached row of the namespace exactly once, in pages of
  at most 50, then the end of the list, and starts from the last event of the log.
\<close>

theorem first_list_sends_every_row:
  assumes "quiet E w" and "wt_params w = None"
    and ties: "mset (listed E ns (st_db (wt_store w))) =
      mset (filter (\<lambda>r. rc_namespace r = ns) (db_cache (st_db (wt_store w))))"
    and bound: "length (db_cache (st_db (wt_store w))) + 50 < 2 ^ 31"
    and some_event: "events_of ns (st_db (wt_store w)) \<noteq> []"
  shows "\<exists>w' ps. watch_round fuel E ns w = Some (Done w') \<and>
    wt_sent w' = wt_sent w @ map (list_response E ns) ps @ [end_of_list] \<and>
    mset (concat ps) = mset (filter (\<lambda>r. rc_namespace r = ns) (db_cache (st_db (wt_store w)))) \<and>
    (\<forall>p \<in> set ps. p \<noteq> [] \<and> length p \<le> 50) \<and>
    watch_at E ns (event_key (last (events_of ns (st_db (wt_store w))))) w'"
proof -
  let ?rows = "listed E ns (st_db (wt_store w))"
  have "length ?rows = length (filter (\<lambda>r. rc_namespace r = ns) (db_cache (st_db (wt_store w))))"
    using ties by (metis size_mset)
  then have len: "length ?rows + 50 < 2 ^ 31"
    using bound length_filter_le [of "\<lambda>r. rc_namespace r = ns" "db_cache (st_db (wt_store w))"] by linarith
  let ?w = "w\<lparr>wt_sent := wt_sent w @ map (list_response E ns) (pages ?rows)\<rparr>"
  from list_pages_quiet [OF assms(1) refl _ len, of 0] have l: "list_pages E ns 0 w = Done ?w" by simp
  have q: "quiet E ?w" using assms(1) by simp
  from list_finish_quiet [OF q, of ns] some_event obtain w' where f: "list_finish E ns ?w = Done w'"
      "wt_sent w' = wt_sent ?w @ [end_of_list]"
      "watch_at E ns (event_key (last (events_of ns (st_db (wt_store w))))) w'" by auto
  show ?thesis
    using assms(2) l f ties pages_bounds
    by (intro exI [of _ w'] exI [of _ "pages ?rows"]) (auto simp: watch_round_def)
qed

text \<open>
  C7. A watch that stands at the last event of a log that grows only at its end, in the order of
  version and id, delivers what is appended once and in this order, in pages of at most 50, over any
  number of scans, if the server and the stream do not fail; puts and drops may come between any two
  statements. Every scan ends, and what has been delivered is the log as the last scan found it.
\<close>

theorem watch_delivers_each_event_once:
  assumes "watch_at E ns (event_key (last (events_of ns d))) w" and "db_ok d" and "growing ns d (found_by scans)"
    and "events_of ns d \<noteq> []" and "\<forall>d' \<in> set (found_by scans). length (events_of ns d') < fuel"
    and "scans \<noteq> []"
  shows "\<exists>w' pss dl. watch_wakeups fuel E ns (scans_of scans) w = Some (Done w') \<and> length pss = length scans \<and>
    wt_sent w' = wt_sent w @ concat (map (scan_messages E ns) pss) \<and>
    events_of ns dl = events_of ns d @ concat (concat pss) \<and>
    dl \<in> set (fst (last scans) # snd (last scans)) \<and> prefix (events_of ns (fst (last scans))) (events_of ns dl) \<and>
    (\<forall>ps \<in> set pss. \<forall>p \<in> set ps. p \<noteq> [] \<and> length p \<le> 50)"
proof -
  let ?c = "event_key (last (events_of ns d))"
  from watch_scans [OF assms(1,3,2,5) after_key_last [OF events_of_strict [OF assms(2)]]] assms(6)
  obtain w' pss dl where w: "watch_wakeups fuel E ns (scans_of scans) w = Some (Done w')" "length pss = length scans"
      "wt_sent w' = wt_sent w @ concat (map (scan_messages E ns) pss)"
    and dl: "dl \<in> set (fst (last scans) # snd (last scans))" "concat (concat pss) = after_key ?c (events_of ns dl)"
    and ps: "\<forall>ps \<in> set pss. \<forall>p \<in> set ps. p \<noteq> [] \<and> length p \<le> 50" by auto
  have "dl \<in> set (found_by scans)" using dl(1) last_in_set [OF assms(6)] by (cases "last scans") force
  from growing_in [OF assms(3) this] obtain new where new: "events_of ns dl = events_of ns d @ new" and ok: "db_ok dl"
    by (auto simp: prefix_def)
  have s: "strictly_sorted (events_of ns d @ new)" using events_of_strict [OF ok, of ns] new by simp
  have "last (events_of ns d) \<in> set (events_of ns d)" using assms(4) by simp
  with s have "after_key ?c new = new"
    by (auto simp: after_key_def strictly_sorted_def sorted_wrt_append filter_id_conv)
  then have "after_key ?c (events_of ns dl) = new"
    using after_key_last [OF events_of_strict [OF assms(2), of ns]] new by (simp add: after_key_def)
  moreover have "prefix (events_of ns (fst (last scans))) (events_of ns dl)"
  proof -
    obtain d1 ds where l: "last scans = (d1, ds)" by force
    then obtain xs where "scans = xs @ [(d1, ds)]" using assms(6) by (cases scans rule: rev_cases) auto
    with assms(3) growing_append [of ns d "found_by xs" "d1 # ds"] have "growing ns d1 ds" by simp
    with growing_in [OF this, of dl] dl(1) l show ?thesis by auto
  qed
  ultimately show ?thesis using w dl ps new by (intro exI [of _ w'] exI [of _ pss] exI [of _ dl]) simp
qed

text \<open>
  An event logged at or before the cursor (a put in the second of the last event seen, with a
  smaller id) is never delivered: the scan sends what it would send without it.
\<close>

theorem same_second_event_missed:
  assumes w: "watch_at E ns c w" "wt_found w = []" and d: "db_ok (st_db (wt_store w))"
    and e: "db_ok d'" "db_events d' = db_events (st_db (wt_store w)) @ [e]" "rc_namespace e = ns"
    and late: "event_key e \<le> c" and fuel: "length (events_of ns d') < fuel"
  shows "\<exists>w' w''. watch_round fuel E ns w = Some (Done w') \<and>
    watch_round fuel E ns (w\<lparr>wt_store := (wt_store w)\<lparr>st_db := d'\<rparr>\<rparr>) = Some (Done w'') \<and>
    wt_sent w'' = wt_sent w' \<and> (\<exists>c'. watch_at E ns c' w'' \<and> event_key e \<le> c')"
proof -
  let ?d = "st_db (wt_store w)" and ?w = "w\<lparr>wt_store := (wt_store w)\<lparr>st_db := d'\<rparr>\<rparr>"
  have len: "length (events_of ns ?d) < fuel" using fuel e by (simp add: events_of_def)
  have same: "after_key c (events_of ns d') = after_key c (events_of ns ?d)"
  proof -
    have key: "after_key c (events_of ns x) = sort_key event_key
        (filter (\<lambda>e. c < event_key e) (filter (\<lambda>e. rc_namespace e = ns) (db_events x)))" for x
      by (simp add: after_key_def events_of_def filter_sort)
    show ?thesis unfolding key e(2) using late by (simp add: not_less)
  qed
  have w': "watch_at E ns c ?w" "wt_found ?w = []" using w by (simp_all add: watch_at_def works_def)
  let ?evs = "after_key c (events_of ns ?d)"
  from watch_round_scan [OF w d refl len] obtain w1 where
    1: "watch_round fuel E ns w = Some (Done w1)" "wt_sent w1 = wt_sent w @ scan_messages E ns (pages ?evs)"
    by blast
  from watch_round_scan [OF w' _ refl, of fuel] e(1) fuel same obtain w2 where
    2: "watch_round fuel E ns ?w = Some (Done w2)" "watch_at E ns (next_cursor c ?evs) w2"
      "wt_sent w2 = wt_sent ?w @ scan_messages E ns (pages ?evs)" by auto
  have "c \<le> next_cursor c ?evs"
  proof (cases "?evs = []")
    case True
    then show ?thesis by (simp add: next_cursor_def)
  next
    case False
    then have "last ?evs \<in> set ?evs" by simp
    then have "c < event_key (last ?evs)" by (simp add: after_key_def)
    with False show ?thesis by (simp add: next_cursor_def)
  qed
  with late have "event_key e \<le> next_cursor c ?evs" by (rule order_trans)
  moreover have "wt_sent w2 = wt_sent w1" using 1(2) 2(3) by simp
  ultimately show ?thesis using 1(1) 2(1,2) by blast
qed

text \<open>
  The cursor of a watch is read after its list: what is put in between is in neither the list
  nor any later scan of that log. Here the list fits on one page, so the second statement of the
  round is the one that reads the cursor.
\<close>

theorem put_between_list_and_cursor_missed:
  assumes w: "works E w" "wt_params w = None" "wt_found w = [d, d']"
    and one_page: "length (listed E ns d) < 50"
    and d': "db_ok d'" "events_of ns d' \<noteq> []" and fuel: "length (events_of ns d') < fuel"
  shows "\<exists>w2 w3. watch_round fuel E ns w = Some (Done w2) \<and>
    wt_sent w2 = wt_sent w @ map (list_response E ns) (pages (listed E ns d)) @ [end_of_list] \<and>
    watch_round fuel E ns w2 = Some (Done w3) \<and> wt_sent w3 = wt_sent w2 @ [end_of_list]"
proof -
  let ?rows = "listed E ns d"
  have snd: "se_send E = (\<lambda>_. None)" using w(1) by (simp add: works_def)
  have "ListResourcesCachedFromNamespace (se_ties E) ns pageSize (pageSize * 0) d = Inr (?rows, d)"
    using one_page by (simp add: ListResourcesCachedFromNamespace_def listed_def)
  moreover have "views w = d # [d']" using w(3) by (simp add: views_def)
  ultimately obtain w1 where q: "query (ListResourcesCachedFromNamespace (se_ties E) ns pageSize (pageSize * 0)) w = (Inr ?rows, w1)"
    and w1: "works E w1" "views w1 = [d']" "wt_params w1 = None" "wt_sent w1 = wt_sent w"
    using query_works [OF w(1), of d "[d']" "ListResourcesCachedFromNamespace (se_ties E) ns pageSize (pageSize * 0)" ?rows] w(2)
    by auto
  let ?w1 = "w1\<lparr>wt_sent := wt_sent w1 @ map (list_response E ns) (pages ?rows)\<rparr>"
  have l: "list_pages E ns 0 w = Done ?w1"
    using one_page q by (cases "?rows = []") (subst list_pages.simps, simp add: send_quiet [OF snd] pages_short)+
  obtain es e where es: "events_of ns d' = es @ [e]" using d'(2) by (metis rev_exhaust)
  have "MaxVersionIndexForNamespace ns d' = Inr (Some (rc_id e, rc_version_index e), d')"
    by (simp add: MaxVersionIndexForNamespace_def es)
  moreover have "works E ?w1" "views ?w1 = d' # []" using w1 by simp_all
  ultimately obtain w2 where q2: "query (MaxVersionIndexForNamespace ns) ?w1 = (Inr (Some (rc_id e, rc_version_index e)), w2)"
    and w2: "works E w2" "views w2 = [d']" "wt_sent w2 = wt_sent ?w1"
    using query_works [of E ?w1 d' "[]" "MaxVersionIndexForNamespace ns" "Some (rc_id e, rc_version_index e)"] by auto
  let ?w2 = "w2\<lparr>wt_params := Some \<lparr>ep_namespace = ns, ep_from_version_index = rc_version_index e, ep_from_id = rc_id e,
      ep_max_rows = pageSize\<rparr>, wt_sent := wt_sent w2 @ [end_of_list]\<rparr>"
  have 2: "watch_round fuel E ns w = Some (Done ?w2)"
    using w(2) l q2 by (simp add: watch_round_def list_finish_def scan_row_def send_quiet [OF snd])
  have at: "watch_at E ns (event_key (last (events_of ns d'))) ?w2" "views ?w2 = d' # []"
    using w2 es by (simp_all add: watch_at_def cursor_key_def event_key_def)
  have "after_key (event_key (last (events_of ns d'))) (events_of ns d') = []"
    by (rule after_key_last [OF events_of_strict [OF d'(1)]])
  with watch_round_growing [OF at _ d'(1), of fuel] fuel obtain w3 where
    "watch_round fuel E ns ?w2 = Some (Done w3)" "wt_sent w3 = wt_sent ?w2 @ [end_of_list]" by (auto simp: scan_messages_def)
  with 2 w2(3) w1(4) show ?thesis by (intro exI [of _ ?w2] exI [of _ w3]) simp
qed

section \<open>Witnesses\<close>

definition sample_store_env :: store_env where
  "sample_store_env = \<lparr>se_parse = (\<lambda>s. if s = ''1'' then Some 1 else if s = ''2'' then Some 2 else None),
     se_show = (\<lambda>i. if i = 1 then ''1'' else ''2''), se_marshal = (\<lambda>r. Some (r_name r)),
     se_sha256 = (\<lambda>b. b), se_base64 = (\<lambda>b. b), se_ties = (\<lambda>rs. rs), se_send = (\<lambda>_. None)\<rparr>"

definition sample_res :: "string \<Rightarrow> string \<Rightarrow> resource" where
  "sample_res ident nm = \<lparr>r_namespace = ''default'', r_id = ident, r_name = nm,
     r_spec = Some \<lparr>any_type_url = ''type'', any_value = []\<rparr>, r_version = None\<rparr>"

definition empty_store :: store where
  "empty_store = \<lparr>st_db = \<lparr>db_cache = [], db_events = []\<rparr>, st_faults = []\<rparr>"

definition sample_row :: "uuid \<Rightarrow> string \<Rightarrow> ResourceCache" where
  "sample_row i nm = \<lparr>rc_namespace = ''default'', rc_id = i, rc_version_index = 5, rc_name = nm,
     rc_spec_type_url = ''type'', rc_spec_value = [], rc_sha256_hash = nm\<rparr>"

definition sample_db :: "ResourceCache list \<Rightarrow> db" where
  "sample_db rs = \<lparr>db_cache = rs, db_events = map (event_of activeResource) rs\<rparr>"

definition sample_store :: "ResourceCache list \<Rightarrow> store" where
  "sample_store rs = \<lparr>st_db = sample_db rs, st_faults = []\<rparr>"

abbreviation at_five :: go_time where "at_five \<equiv> \<lparr>t_unix = 5, t_nsec = 0\<rparr>"

lemmas store_eval = sample_store_env_def sample_res_def empty_store_def sample_row_def sample_db_def
  sample_store_def Put_def begin_tx_def put_in_tx_def exec_tx_def scan_row_def put_commit_def commit_def
  GetResourceCacheSummary_def cache_row_def hashResource_def Upsert_rows upsert_rows_def
  UpsertResourceCache_def InsertActiveResourceEvent_def at_key_def event_of_def ResourceCache.defs
  activeResource_def

lemma empty_store_ok: "db_ok (st_db empty_store)" and empty_store_live: "uncancelled empty_store"
  by (simp_all add: db_ok_def empty_store_def uncancelled_def)

lemma sample_put:
  "Put sample_store_env at_five \<lparr>pr_resource = Some (sample_res ''1'' ''a'')\<rparr> empty_store =
    Ret (Inr \<lparr>pr_version = \<lparr>v_sha256_hash = ''a'', v_timestamp = at_five, v_index = 5\<rparr>\<rparr>,
      sample_store [sample_row 1 ''a''])"
  by (simp add: store_eval)

theorem put_then_get_witness:
  "\<exists>g. Get sample_store_env \<lparr>gr_namespace = ''default'', gr_resource_id = ''1''\<rparr>
      (sample_store [sample_row 1 ''a'']) =
      Ret (Inr \<lparr>gr_resource = g\<rparr>, sample_store [sample_row 1 ''a'']) \<and> r_name g = ''a''"
proof -
  have ne: "st_db (sample_store [sample_row 1 ''a'']) \<noteq> st_db empty_store"
    by (simp add: sample_store_def sample_db_def empty_store_def)
  have f: "(sample_store [sample_row 1 ''a''])\<lparr>st_faults := []\<rparr> = sample_store [sample_row 1 ''a'']"
    by (simp add: sample_store_def)
  from put_then_get [OF sample_put empty_store_ok empty_store_live] obtain g where
    "Get sample_store_env \<lparr>gr_namespace = ''default'', gr_resource_id = ''1''\<rparr>
      (sample_store [sample_row 1 ''a'']) =
      Ret (Inr \<lparr>gr_resource = g\<rparr>, sample_store [sample_row 1 ''a''])"
    and g: "g\<lparr>r_version := None\<rparr> = sample_res ''1'' ''a''"
    using ne f by (auto simp: sample_res_def)
  moreover have "r_name g = ''a''" using arg_cong [OF g, of r_name] by (simp add: sample_res_def)
  ultimately show ?thesis by blast
qed

theorem put_idempotent_witness:
  "Put sample_store_env \<lparr>t_unix = 9, t_nsec = 1\<rparr> \<lparr>pr_resource = Some (sample_res ''1'' ''a'')\<rparr>
      (sample_store [sample_row 1 ''a'']) =
    Ret (Inr \<lparr>pr_version = \<lparr>v_sha256_hash = ''a'', v_timestamp = at_five, v_index = 5\<rparr>\<rparr>,
      sample_store [sample_row 1 ''a''])"
  using put_idempotent [OF sample_put empty_store_ok empty_store_live, of "\<lparr>t_unix = 9, t_nsec = 1\<rparr>"]
  by (simp add: sample_store_def time_Unix_def)

lemma sample_db_ok:
  "db_ok (sample_db [sample_row 1 ''a''])" "db_ok (sample_db [sample_row 2 ''a''])"
  "db_ok (sample_db [sample_row 2 ''a'', sample_row 1 ''b''])"
  "db_ok (sample_db [sample_row 1 ''a'', sample_row 2 ''b''])"
  by (simp_all add: db_ok_def sample_db_def cache_key_def sample_row_def event_pk_def)

theorem drop_all_or_nothing_witness:
  "case Drop sample_store_env at_five \<lparr>dr_resource_ids = [''1'', ''no uuid''], dr_namespace = ''default''\<rparr>
      (sample_store [sample_row 1 ''a'']) of
    (Inl e, st') \<Rightarrow> st_db st' = sample_db [sample_row 1 ''a''] | (Inr _, st') \<Rightarrow> False"
proof -
  let ?req = "\<lparr>dr_resource_ids = [''1'', ''no uuid''], dr_namespace = ''default''\<rparr>"
  have "db_ok (st_db (sample_store [sample_row 1 ''a'']))" by (simp add: sample_store_def sample_db_ok)
  from drop_all_or_nothing [OF this, where E = sample_store_env and now = at_five and req = ?req]
  show ?thesis
    by (auto simp: sample_store_env_def sample_store_def split: prod.splits sum.splits)
qed

theorem second_put_in_a_second_fails_witness:
  "Put sample_store_env \<lparr>t_unix = 5, t_nsec = 7\<rparr> \<lparr>pr_resource = Some (sample_res ''1'' ''b'')\<rparr>
      (sample_store [sample_row 1 ''a'']) =
    Ret (Inl (ErrOther ''pq: Could not complete operation in a failed transaction''),
      sample_store [sample_row 1 ''a''])"
  by (rule second_put_in_a_second_fails [OF sample_put empty_store_ok empty_store_live, where ?h2.0 = "''b''"])
    (simp_all add: sample_store_def sample_db_def empty_store_def sample_res_def hashResource_def
      sample_store_env_def)

definition sample_watching :: "ResourceCache list \<Rightarrow> watching" where
  "sample_watching rs = \<lparr>wt_store = sample_store rs, wt_found = [], wt_params = None, wt_sent = []\<rparr>"

lemma sample_quiet: "quiet sample_store_env (sample_watching rs)"
  by (simp add: quiet_def works_def sample_watching_def sample_store_def sample_store_env_def)

lemma sample_events:
  "events_of ''default'' (sample_db [sample_row 1 ''a'']) = [event_of activeResource (sample_row 1 ''a'')]"
  "events_of ''default'' (sample_db [sample_row 2 ''a'']) = [event_of activeResource (sample_row 2 ''a'')]"
  "events_of ''default'' (sample_db [sample_row 1 ''a'', sample_row 2 ''b'']) =
     [event_of activeResource (sample_row 1 ''a''), event_of activeResource (sample_row 2 ''b'')]"
  "events_of ''default'' (sample_db [sample_row 2 ''a'', sample_row 1 ''b'']) =
     [event_of activeResource (sample_row 1 ''b''), event_of activeResource (sample_row 2 ''a'')]"
  by (simp_all add: events_of_def sample_db_def sample_row_def event_key_def)

lemma sample_key: "event_key (event_of s (sample_row i n)) = (5, uint i)"
  by (simp add: event_key_def sample_row_def)

theorem first_list_sends_every_row_witness:
  "\<exists>w' ps. watch_round 1 sample_store_env ''default'' (sample_watching [sample_row 1 ''a'']) = Some (Done w') \<and>
    concat ps = [sample_row 1 ''a''] \<and>
    wt_sent w' = map (list_response sample_store_env ''default'') ps @ [end_of_list]"
proof -
  have l: "mset (listed sample_store_env ''default'' (sample_db [sample_row 1 ''a''])) = {#sample_row 1 ''a''#}"
    by (simp add: listed_def sample_store_env_def sample_db_def sample_row_def)
  have c: "filter (\<lambda>r. rc_namespace r = ''default'') (db_cache (sample_db [sample_row 1 ''a''])) = [sample_row 1 ''a'']"
    by (simp add: sample_db_def sample_row_def)
  from first_list_sends_every_row [OF sample_quiet, of "[sample_row 1 ''a'']" "''default''" 1] l c
  show ?thesis
    by (auto simp: sample_watching_def sample_store_def sample_events) (auto simp: sample_db_def mset_single_iff_right)
qed

text \<open>A watch at the cursor of the last event of a sample log.\<close>

definition sample_watch :: "ResourceCache list \<Rightarrow> uuid \<Rightarrow> watching" where
  "sample_watch rs i = (sample_watching rs)\<lparr>wt_params := Some \<lparr>ep_namespace = ''default'',
     ep_from_version_index = 5, ep_from_id = i, ep_max_rows = pageSize\<rparr>\<rparr>"

lemma sample_watch_at: "watch_at sample_store_env ''default'' (5, uint i) (sample_watch rs i)"
  by (simp add: watch_at_def works_def sample_watch_def sample_watching_def sample_store_def
      sample_store_env_def cursor_key_def)

text \<open>The event comes between the start of the scan and its query.\<close>

theorem watch_delivers_each_event_once_witness:
  "\<exists>w' pss. watch_wakeups 3 sample_store_env ''default''
      [Scan (sample_db [sample_row 1 ''a'']) [sample_db [sample_row 1 ''a'', sample_row 2 ''b'']]]
      (sample_watch [sample_row 1 ''a''] 1) = Some (Done w') \<and>
    wt_sent w' = concat (map (scan_messages sample_store_env ''default'') pss) \<and> length pss = 1"
proof -
  have "watch_at sample_store_env ''default''
      (event_key (last (events_of ''default'' (sample_db [sample_row 1 ''a''])))) (sample_watch [sample_row 1 ''a''] 1)"
    using sample_watch_at [of 1] by (simp add: sample_events sample_key)
  from watch_delivers_each_event_once [OF this, of "[(sample_db [sample_row 1 ''a''], [sample_db [sample_row 1 ''a'', sample_row 2 ''b'']])]" 3]
  show ?thesis by (auto simp: sample_db_ok sample_events sample_watch_def sample_watching_def)
qed

theorem store_log_consistent_witness:
  "db_ok (sample_db [sample_row 1 ''a''])"
proof -
  have "run_store_ops sample_store_env empty_store [PutOp at_five \<lparr>pr_resource = Some (sample_res ''1'' ''a'')\<rparr>] =
      Ret (sample_store [sample_row 1 ''a''])" by (simp add: sample_put)
  with store_log_consistent [of "[]" sample_store_env "[PutOp at_five \<lparr>pr_resource = Some (sample_res ''1'' ''a'')\<rparr>]"]
  show ?thesis by (simp add: empty_store_def [symmetric] sample_store_def)
qed

theorem cancelled_put_not_logged_witness:
  "\<exists>rsp st'. Put sample_store_env at_five \<lparr>pr_resource = Some (sample_res ''1'' ''a'')\<rparr>
      (empty_store\<lparr>st_faults := [None, None, None, Some CtxEnds]\<rparr>) = Ret (Inr rsp, st') \<and>
    cache_row (st_db st') ''default'' 1 \<noteq> None \<and> db_events (st_db st') = []"
proof -
  let ?st = "empty_store\<lparr>st_faults := [None, None, None, Some CtxEnds]\<rparr>"
  have h: "hashResource sample_store_env ((sample_res ''1'' ''a'')\<lparr>r_version := None\<rparr>) = Ret ''a''"
    by (simp add: hashResource_def sample_store_env_def sample_res_def)
  have new: "\<forall>r. cache_row (st_db ?st) (r_namespace (sample_res ''1'' ''a'')) 1 = Some r \<longrightarrow> rc_sha256_hash r \<noteq> ''a''"
    by (simp add: cache_row_def empty_store_def)
  have req: "pr_resource \<lparr>pr_resource = Some (sample_res ''1'' ''a'')\<rparr> = Some (sample_res ''1'' ''a'')"
    "se_parse sample_store_env (r_id (sample_res ''1'' ''a'')) = Some 1"
    "r_spec (sample_res ''1'' ''a'') = Some \<lparr>any_type_url = ''type'', any_value = []\<rparr>"
    by (simp_all add: sample_store_env_def sample_res_def)
  have f: "st_faults ?st = [None, None, None, Some CtxEnds]" by simp
  from cancelled_put_not_logged [OF req h new f, of at_five] show ?thesis
    by (auto simp: empty_store_def sample_res_def)
qed

theorem same_second_event_missed_witness:
  "\<exists>w' w''. watch_round 3 sample_store_env ''default'' (sample_watch [sample_row 2 ''a''] 2) = Some (Done w') \<and>
    watch_round 3 sample_store_env ''default'' ((sample_watch [sample_row 2 ''a''] 2)\<lparr>wt_store :=
      (wt_store (sample_watch [sample_row 2 ''a''] 2))\<lparr>st_db := sample_db [sample_row 2 ''a'', sample_row 1 ''b'']\<rparr>\<rparr>)
      = Some (Done w'') \<and> wt_sent w'' = wt_sent w'"
  using same_second_event_missed [OF sample_watch_at, of "[sample_row 2 ''a'']" 2
      "sample_db [sample_row 2 ''a'', sample_row 1 ''b'']" "event_of activeResource (sample_row 1 ''b'')" 3]
  by (simp add: sample_watch_def sample_watching_def sample_store_def sample_db_ok sample_events)
    (simp add: sample_db_def sample_row_def event_key_def, blast)

theorem put_between_list_and_cursor_missed_witness:
  "\<exists>w2 w3. watch_round 2 sample_store_env ''default''
      ((sample_watching [])\<lparr>wt_found := [sample_db [], sample_db [sample_row 1 ''a'']]\<rparr>) = Some (Done w2) \<and>
    wt_sent w2 = [end_of_list] \<and>
    watch_round 2 sample_store_env ''default'' w2 = Some (Done w3) \<and> wt_sent w3 = [end_of_list, end_of_list]"
proof -
  let ?w = "(sample_watching [])\<lparr>wt_found := [sample_db [], sample_db [sample_row 1 ''a'']]\<rparr>"
  have "works sample_store_env ?w" using sample_quiet [of "[]"] by (simp add: quiet_def works_def)
  moreover have "listed sample_store_env ''default'' (sample_db []) = []"
    by (simp add: listed_def sample_store_env_def sample_db_def)
  ultimately show ?thesis
    using put_between_list_and_cursor_missed [of sample_store_env ?w "sample_db []" "sample_db [sample_row 1 ''a'']" "''default''" 2]
    by (auto simp: sample_db_ok sample_events sample_watching_def)
qed

end
