(* ===== verification/Replay.thy ===== *)
theory Replay
  imports WatchProps
begin

text \<open>
  The cache of the resource store as a replay of its event log: while the clock does not go back,
  the row cached under an id is the one of the last event logged for it, and none when that event
  is a drop. The states a watch meets over a history of puts and drops are \<open>store_states\<close>.
\<close>

section \<open>Replaying a log\<close>

definition replayed :: "ResourceEvent list \<Rightarrow> uuid \<Rightarrow> ResourceCache option" where
  "replayed evs i = (case rev (filter (\<lambda>e. rc_id e = i) evs) of [] \<Rightarrow> None
     | e # _ \<Rightarrow> if re_status e = activeResource then Some (ResourceCache.truncate e) else None)"

lemma replayed_Nil [simp]: "replayed [] i = None"
  by (simp add: replayed_def)

lemma replayed_snoc: "replayed (evs @ [e]) i = (if rc_id e = i then
    if re_status e = activeResource then Some (ResourceCache.truncate e) else None else replayed evs i)"
  by (simp add: replayed_def)

lemma replayed_event:
  "replayed evs i = Some r \<Longrightarrow> \<exists>e \<in> set evs. rc_id e = i \<and> re_status e = activeResource \<and>
    r = ResourceCache.truncate e"
  by (induction evs rule: rev_induct) (auto simp: replayed_snoc split: if_splits)

lemma truncate_event_of [simp]: "ResourceCache.truncate (event_of s r) = r"
  by (simp add: event_of_def ResourceCache.defs)

lemma sort_key_append:
  assumes "\<And>x y. x \<in> set xs \<Longrightarrow> y \<in> set ys \<Longrightarrow> f x \<le> f y"
  shows "sort_key f (xs @ ys) = sort_key f xs @ sort_key f ys"
proof (rule properties_for_sort_key)
  show "sorted (map f (sort_key f xs @ sort_key f ys))"
    using assms by (simp add: sorted_append)
  have "(\<lambda>x. f k = f x) = (\<lambda>x. f x = f k)" for k by auto
  then show "filter (\<lambda>x. f k = f x) (sort_key f xs @ sort_key f ys) = filter (\<lambda>x. f k = f x) (xs @ ys)" for k
    by (simp add: sort_key_stable)
qed simp

section \<open>The cache is the replay of the log\<close>

text \<open>
  \<open>db_inv t d\<close>: besides \<open>db_ok\<close>, no event is later than \<open>t\<close>, every event is a put or a drop,
  and the cache is what the log replays to.
\<close>

definition db_inv :: "int \<Rightarrow> db \<Rightarrow> bool" where
  "db_inv t d \<longleftrightarrow> db_ok d \<and>
     (\<forall>e \<in> set (db_events d). sint (rc_version_index e) \<le> t \<and> re_status e \<in> {activeResource, droppedResource}) \<and>
     (\<forall>ns i. cache_row d ns i = replayed (events_of ns d) i)"

lemma db_inv_mono: "db_inv t d \<Longrightarrow> t \<le> t' \<Longrightarrow> db_inv t' d"
  unfolding db_inv_def by (meson order_trans)

lemma db_inv_empty: "db_inv t \<lparr>db_cache = [], db_events = []\<rparr>"
  by (simp add: db_inv_def db_ok_def cache_row_def events_of_def)

text \<open>The events of one id, in the order of their versions.\<close>

definition events_at :: "string \<Rightarrow> uuid \<Rightarrow> ResourceEvent list \<Rightarrow> ResourceEvent list" where
  "events_at ns i es = filter (\<lambda>e. rc_namespace e = ns \<and> rc_id e = i) es"

lemma replayed_at: "replayed (events_of ns d) i =
    replayed (sort_key event_key (events_at ns i (db_events d))) i"
proof -
  have "filter (\<lambda>e. rc_id e = i) (events_of ns d) = sort_key event_key (events_at ns i (db_events d))"
    by (simp add: events_of_def filter_sort events_at_def conj_commute)
  moreover have "filter (\<lambda>e. rc_id e = i) (sort_key event_key (events_at ns i (db_events d))) =
      sort_key event_key (events_at ns i (db_events d))"
    by (rule filter_True) (simp add: events_at_def)
  ultimately show ?thesis by (simp add: replayed_def)
qed

text \<open>
  Logging events of one second, not before those in the log: the replay changes at the ids of the
  new events, of which the primary key admits one each.
\<close>

lemma replay_append:
  assumes d: "db_events d' = db_events d @ evs" and pk: "distinct (map event_pk (db_events d'))"
    and old: "\<forall>e \<in> set (db_events d). sint (rc_version_index e) \<le> sint v"
    and new: "\<forall>e \<in> set evs. rc_version_index e = v"
  shows "replayed (events_of ns d') i = (case find (\<lambda>e. rc_namespace e = ns \<and> rc_id e = i) evs of
    None \<Rightarrow> replayed (events_of ns d) i
  | Some e \<Rightarrow> if re_status e = activeResource then Some (ResourceCache.truncate e) else None)"
proof (cases "find (\<lambda>e. rc_namespace e = ns \<and> rc_id e = i) evs")
  case None
  then have "events_at ns i evs = []" by (simp add: events_at_def find_None_iff filter_empty_conv)
  with None show ?thesis by (simp add: replayed_at events_at_def d)
next
  case (Some e)
  have e: "rc_namespace e = ns" "rc_id e = i" and "e \<in> set evs" using find_SomeD [OF Some] by simp_all
  then obtain xs ys where evs: "evs = xs @ e # ys" by (auto dest: split_list)
  have ev: "rc_version_index e = v" using new evs by simp
  have other: "event_pk x \<noteq> (ns, v, i)" if "x \<in> set (db_events d) \<union> set xs \<union> set ys" for x
  proof -
    have "distinct (map event_pk (db_events d @ xs @ e # ys))" using pk by (simp add: d evs)
    then have "event_pk e \<notin> event_pk ` (set (db_events d) \<union> set xs \<union> set ys)" by auto
    with that show ?thesis using e ev by (metis event_pk_def imageI)
  qed
  have "events_at ns i (xs @ ys) = []"
    unfolding events_at_def filter_empty_conv
  proof (intro ballI notI)
    fix x assume x: "x \<in> set (xs @ ys)" and k: "rc_namespace x = ns \<and> rc_id x = i"
    from x new evs have "rc_version_index x = v" by auto
    with k other [of x] x show False by (auto simp: event_pk_def)
  qed
  with e have at: "events_at ns i (db_events d') = events_at ns i (db_events d) @ [e]"
    by (simp add: d evs events_at_def)
  have "event_key x \<le> event_key e" if "x \<in> set (events_at ns i (db_events d))" for x
  proof -
    from that have x: "x \<in> set (db_events d)" "rc_namespace x = ns" "rc_id x = i" by (simp_all add: events_at_def)
    with other [of x] have "rc_version_index x \<noteq> v" by (auto simp: event_pk_def)
    with old x(1) have "sint (rc_version_index x) < sint v"
      by (metis order_le_imp_less_or_eq signed_word_eqI)
    then show ?thesis by (simp add: event_key_def ev)
  qed
  then have "sort_key event_key (events_at ns i (db_events d) @ [e]) =
      sort_key event_key (events_at ns i (db_events d)) @ sort_key event_key [e]"
    by (intro sort_key_append) simp
  with at e Some show ?thesis by (simp add: replayed_at replayed_snoc)
qed

section \<open>Puts and drops keep the invariant\<close>

fun op_time :: "store_op \<Rightarrow> int" where
  "op_time (PutOp now req) = sint (t_unix now)"
| "op_time (DropOp now req) = sint (t_unix now)"

text \<open>What a put or a drop adds to the log: events of its second.\<close>

definition logs :: "int \<Rightarrow> db \<Rightarrow> db \<Rightarrow> bool" where
  "logs t d d' \<longleftrightarrow> (\<exists>evs. db_events d' = db_events d @ evs \<and> (\<forall>e \<in> set evs. sint (rc_version_index e) = t))"

lemma logs_same [simp]: "logs t d d"
  by (simp add: logs_def)

lemma db_inv_log:
  assumes inv: "db_inv t d" and t: "t \<le> sint v" and ok: "db_ok d'"
    and d': "db_events d' = db_events d @ evs"
    and new: "\<forall>e \<in> set evs. rc_version_index e = v \<and> re_status e \<in> {activeResource, droppedResource}"
    and row: "\<And>ns i. cache_row d' ns i = (case find (\<lambda>e. rc_namespace e = ns \<and> rc_id e = i) evs of
      None \<Rightarrow> cache_row d ns i
    | Some e \<Rightarrow> if re_status e = activeResource then Some (ResourceCache.truncate e) else None)"
  shows "db_inv (sint v) d' \<and> logs (sint v) d d'"
proof -
  have old: "\<forall>e \<in> set (db_events d). sint (rc_version_index e) \<le> sint v"
    using inv t by (auto simp: db_inv_def)
  have "cache_row d' ns i = replayed (events_of ns d') i" for ns i
  proof -
    have "distinct (map event_pk (db_events d'))" "\<forall>e \<in> set evs. rc_version_index e = v"
      using ok new by (simp_all add: db_ok_def)
    moreover have "cache_row d ns i = replayed (events_of ns d) i" using inv by (simp add: db_inv_def)
    ultimately show ?thesis using replay_append [OF d' _ old, of ns i] row [of ns i]
      by (simp split: option.splits)
  qed
  with inv ok old new d' show ?thesis by (auto simp: db_inv_def logs_def)
qed

lemma put_keeps_inv:
  assumes inv: "db_inv t (st_db st)" and put: "Put E now req st = Ret (r, st')" and t: "t \<le> sint (t_unix now)"
    and live: "uncancelled st"
  shows "db_inv (sint (t_unix now)) (st_db st') \<and> logs (sint (t_unix now)) (st_db st) (st_db st')"
proof (cases r)
  case (Inl e)
  with put put_error_keeps_db have "st_db st' = st_db st" by metis
  with inv t show ?thesis by (auto intro: db_inv_mono)
next
  case (Inr rsp)
  have ok: "db_ok (st_db st)" using inv by (simp add: db_inv_def)
  then have d: "distinct (map cache_key (db_cache (st_db st)))" "distinct (map event_pk (db_events (st_db st)))"
    by (simp_all add: db_ok_def)
  show ?thesis
  proof (cases rule: put_cases [OF put [unfolded Inr] d live])
    case (1 res i r)
    with inv t show ?thesis by (auto intro: db_inv_mono)
  next
    case (2 res i spec h)
    let ?row = "put_row res i (t_unix now) spec h"
    have ok': "db_ok (st_db st')" by (rule db_ok_put [OF ok 2(5-7)])
    show ?thesis
    proof (rule db_inv_log [OF inv t ok' 2(6)])
      show "\<forall>e \<in> set [event_of activeResource ?row]. rc_version_index e = t_unix now \<and>
          re_status e \<in> {activeResource, droppedResource}" by (simp add: put_row_def)
      show "cache_row (st_db st') ns i = (case find (\<lambda>e. rc_namespace e = ns \<and> rc_id e = i)
          [event_of activeResource ?row] of None \<Rightarrow> cache_row (st_db st) ns i
        | Some e \<Rightarrow> if re_status e = activeResource then Some (ResourceCache.truncate e) else None)" for ns i
        by (simp add: cache_row_def 2(5) upsert_find cache_key_def)
    qed
  qed
qed

lemma drop_keeps_inv:
  assumes inv: "db_inv t (st_db st)" and dr: "Drop E now req st = (r, st')" and t: "t \<le> sint (t_unix now)"
    and live: "uncancelled st"
  shows "db_inv (sint (t_unix now)) (st_db st') \<and> logs (sint (t_unix now)) (st_db st) (st_db st')"
  using drop_cases [OF dr]
proof
  assume "\<exists>e. r = Inl e \<and> st_db st' = st_db st"
  with inv t show ?thesis by (auto intro: db_inv_mono)
next
  assume "r = Inr () \<and> (\<exists>t t' st1. begin_tx st = (Inr t, st1) \<and> tx_db t = st_db st \<and> \<not> tx_aborted t \<and>
    drop_ids E (dr_namespace req) (t_unix now) 0 (dr_resource_ids req) t = (None, t') \<and> st_db st' = tx_db t')"
  then obtain x x' where x: "tx_db x = st_db st" "\<not> tx_aborted x" "st_db st' = tx_db x'"
    and l: "drop_ids E (dr_namespace req) (t_unix now) 0 (dr_resource_ids req) x = (None, x')" by blast
  let ?ev = "\<lambda>r. event_of droppedResource (r\<lparr>rc_version_index := t_unix now\<rparr>)"
  have ok: "db_ok (st_db st)" using inv by (simp add: db_inv_def)
  then have d: "distinct (map cache_key (db_cache (st_db st)))" "distinct (map event_pk (db_events (tx_db x)))"
    by (simp_all add: db_ok_def x(1))
  from drop_ids_None [OF l x(2) d(2)] obtain "is" evs where
    c: "db_cache (st_db st') = filter (\<lambda>r. \<not> in_ids (dr_namespace req) is r) (db_cache (st_db st))"
    and e: "db_events (st_db st') = db_events (st_db st) @ evs"
    and evs: "set evs = ?ev ` {r \<in> set (db_cache (st_db st)). in_ids (dr_namespace req) is r}"
    by (auto simp: x)
  have "run_store E st (DropOp now req) = Ret st'" by (simp add: dr)
  then have ok': "db_ok (st_db st')" by (rule db_ok_run [OF ok live])
  show ?thesis
  proof (rule db_inv_log [OF inv t ok' e])
    show "\<forall>e \<in> set evs. rc_version_index e = t_unix now \<and> re_status e \<in> {activeResource, droppedResource}"
      by (auto simp: evs)
    fix ns i
    let ?P = "\<lambda>e. rc_namespace e = ns \<and> rc_id e = i"
    show "cache_row (st_db st') ns i = (case find ?P evs of None \<Rightarrow> cache_row (st_db st) ns i
      | Some e \<Rightarrow> if re_status e = activeResource then Some (ResourceCache.truncate e) else None)"
    proof (cases "find ?P evs")
      case None
      have keep: "find (at_key ns i) (filter Q rs) = find (at_key ns i) rs"
        if "\<forall>r \<in> set rs. at_key ns i r \<longrightarrow> Q r" for Q rs
        using that by (induction rs) auto
      have "\<forall>r \<in> set (db_cache (st_db st)). at_key ns i r \<longrightarrow> \<not> in_ids (dr_namespace req) is r"
        using None evs by (fastforce simp: find_None_iff at_key_def)
      with None keep show ?thesis by (simp add: cache_row_def c)
    next
      case (Some e)
      from find_SomeD [OF Some] obtain r where r: "in_ids (dr_namespace req) is r" "at_key ns i r"
          "re_status e = droppedResource"
        unfolding evs by (auto simp: at_key_def)
      have "find (at_key ns i) (filter (\<lambda>r. \<not> in_ids (dr_namespace req) is r) (db_cache (st_db st))) = None"
        using r by (auto simp: find_None_iff at_key_def in_ids_def)
      with Some r(3) show ?thesis by (simp add: cache_row_def c activeResource_def droppedResource_def)
    qed
  qed
qed

lemma run_keeps_inv:
  assumes "db_inv t (st_db st)" and "run_store E st x = Ret st'" and "t \<le> op_time x" and "uncancelled st"
  shows "db_inv (op_time x) (st_db st') \<and> logs (op_time x) (st_db st) (st_db st')"
proof (cases x)
  case (PutOp now req)
  with assms(2) obtain r where "Put E now req st = Ret (r, st')" by (auto split: val.splits prod.splits)
  with assms(1,3,4) PutOp show ?thesis by (simp add: put_keeps_inv)
next
  case (DropOp now req)
  with assms(2) obtain r where "Drop E now req st = (r, st')" by (cases "Drop E now req st") simp
  with assms(1,3,4) DropOp show ?thesis by (simp add: drop_keeps_inv)
qed

section \<open>Histories with a clock\<close>

text \<open>
  A history in segments: between two of them the timer of a watch fires. \<open>timely t\<close>: the clock
  does not go back, and moves on by a second at least from one segment to the next; \<open>t\<close> is the
  last second before.
\<close>

fun timely :: "int \<Rightarrow> store_op list list \<Rightarrow> bool" where
  "timely t [] \<longleftrightarrow> True"
| "timely t (ops # segs) \<longleftrightarrow> sorted (map op_time ops) \<and> list_all (\<lambda>x. t < op_time x) ops \<and>
     timely (last (t # map op_time ops)) segs"

text \<open>The databases at the ends of the segments.\<close>

fun store_states :: "store_env \<Rightarrow> store \<Rightarrow> store_op list list \<Rightarrow> db list val" where
  "store_states E st [] = Ret []"
| "store_states E st (ops # segs) = val_then (run_store_ops E st ops) (\<lambda>st'.
     val_then (store_states E st' segs) (\<lambda>ds. Ret (st_db st' # ds)))"

text \<open>From \<open>d\<close> to \<open>d'\<close> the log has only grown, by events later than \<open>t\<close>.\<close>

definition grown :: "int \<Rightarrow> db \<Rightarrow> db \<Rightarrow> bool" where
  "grown t d d' \<longleftrightarrow> (\<exists>evs. db_events d' = db_events d @ evs \<and> (\<forall>e \<in> set evs. t < sint (rc_version_index e)))"

lemma run_ops_keep_inv:
  assumes "run_store_ops E st ops = Ret st'" and "db_inv t (st_db st)" and "sorted (map op_time ops)"
    and "\<forall>x \<in> set ops. t \<le> op_time x" and "\<forall>x \<in> set ops. t0 < op_time x" and "uncancelled st"
  shows "db_inv (last (t # map op_time ops)) (st_db st') \<and> grown t0 (st_db st) (st_db st')"
  using assms
proof (induction ops arbitrary: st t)
  case Nil
  then show ?case by (simp add: grown_def)
next
  case (Cons x xs)
  from Cons.prems(1) obtain st1 where x: "run_store E st x = Ret st1" and xs: "run_store_ops E st1 xs = Ret st'"
    by (auto split: val.splits)
  from run_keeps_inv [OF Cons.prems(2) x] Cons.prems(4,6) have
    inv: "db_inv (op_time x) (st_db st1)" and lg: "logs (op_time x) (st_db st) (st_db st1)" by simp_all
  from Cons.IH [OF xs inv] Cons.prems(3,5) uncancelled_run [OF Cons.prems(6) x] have
    i: "db_inv (last (op_time x # map op_time xs)) (st_db st')" and g: "grown t0 (st_db st1) (st_db st')" by simp_all
  from lg Cons.prems(5) have "grown t0 (st_db st) (st_db st1)" by (auto simp: logs_def grown_def)
  with g have "grown t0 (st_db st) (st_db st')" by (fastforce simp: grown_def)
  with i show ?case by simp
qed

text \<open>What grew is at the end of each namespace's log.\<close>

lemma grown_events:
  assumes "db_inv t d" and "grown t d d'"
  shows "prefix (events_of ns d) (events_of ns d')"
proof -
  from assms(2) obtain evs where e: "db_events d' = db_events d @ evs"
      "\<forall>e \<in> set evs. t < sint (rc_version_index e)" by (auto simp: grown_def)
  let ?in = "filter (\<lambda>e. rc_namespace e = ns)"
  have "sort_key event_key (?in (db_events d) @ ?in evs) =
      sort_key event_key (?in (db_events d)) @ sort_key event_key (?in evs)"
  proof (rule sort_key_append)
    show "event_key x \<le> event_key y" if "x \<in> set (?in (db_events d))" "y \<in> set (?in evs)" for x y
      using that assms(1) e(2) by (force simp: db_inv_def event_key_def)
  qed
  then have "events_of ns d' = events_of ns d @ sort_key event_key (?in evs)"
    by (simp add: events_of_def e(1))
  then show ?thesis by simp
qed

text \<open>A sequence of databases, each grown out of the one before and each its log's replay.\<close>

fun replaying :: "string \<Rightarrow> db \<Rightarrow> db list \<Rightarrow> bool" where
  "replaying ns d [] \<longleftrightarrow> True"
| "replaying ns d (d' # ds) \<longleftrightarrow> (\<exists>t. db_inv t d') \<and> prefix (events_of ns d) (events_of ns d') \<and> replaying ns d' ds"

lemma store_states_replaying:
  assumes "store_states E st segs = Ret ds" and "timely t segs" and "db_inv t (st_db st)" and "uncancelled st"
  shows "replaying ns (st_db st) ds"
  using assms
proof (induction segs arbitrary: st t ds)
  case Nil
  then show ?case by simp
next
  case (Cons ops segs)
  from Cons.prems(1) obtain st' ds' where st': "run_store_ops E st ops = Ret st'"
    and ds': "store_states E st' segs = Ret ds'" "ds = st_db st' # ds'"
    by (auto simp: return_iff)
  let ?t = "last (t # map op_time ops)"
  from Cons.prems(2) have o: "sorted (map op_time ops)" "\<forall>x \<in> set ops. t < op_time x" "timely ?t segs"
    by (auto simp: list_all_iff)
  from o(2) have "\<forall>x \<in> set ops. t \<le> op_time x" by (simp add: less_imp_le)
  from run_ops_keep_inv [OF st' Cons.prems(3) o(1) this o(2) Cons.prems(4)] have
    i: "db_inv ?t (st_db st')" and g: "grown t (st_db st) (st_db st')" by simp_all
  from grown_events [OF Cons.prems(3) g] i Cons.IH [OF ds'(1) o(3) i uncancelled_run_ops [OF Cons.prems(4) st']] show ?case
    by (simp only: ds'(2) replaying.simps) blast
qed

end
