(* ===== verification/Agreement.thy ===== *)
theory Agreement
  imports Replay Specs
begin

text \<open>
  A client that follows the store: when its table of messages, read with \<open>um\<close> from the specs of the
  resources it was sent, agrees with the store's cache, and what a list of resources and an event
  of the log make of that. The gateway, the xDS server and the worker are such clients (\<open>Followers\<close>).
\<close>

section \<open>The first list of a watch\<close>

definition row_resource :: "store_env \<Rightarrow> string \<Rightarrow> ResourceCache \<Rightarrow> resource" where
  "row_resource S ns row = cached_resource ns (se_show S (rc_id row)) row"

lemma list_response_simps:
  "wr_updated (list_response S ns rows) = map (row_resource S ns) rows"
  "wr_dropped (list_response S ns rows) = []" "wr_end_of_list (list_response S ns rows) = False"
  by (simp_all add: list_response_def row_resource_def)

lemma row_resource_simps:
  "r_id (row_resource S ns row) = se_show S (rc_id row)"
  "\<exists>v. r_version (row_resource S ns row) = Some v"
  by (simp_all add: row_resource_def cached_resource_def)

text \<open>
  Where a watch stands that has sent what the log of \<open>d\<close> holds: at its last event, or still
  before the first list when there is none.
\<close>

definition synced :: "store_env \<Rightarrow> string \<Rightarrow> db \<Rightarrow> watching \<Rightarrow> bool" where
  "synced S ns d w \<longleftrightarrow> works S w \<and> (if events_of ns d = [] then wt_params w = None
     else watch_at S ns (event_key (last (events_of ns d))) w)"

text \<open>The first round of a watch, with or without events.\<close>

lemma first_round:
  assumes "quiet S w" and "wt_params w = None"
    and "length (listed S ns (st_db (wt_store w))) + 50 < 2 ^ 31"
  shows "\<exists>w'. watch_round fuel S ns w = Some (Done w') \<and> synced S ns (st_db (wt_store w)) w' \<and>
    wt_sent w' = wt_sent w @ map (list_response S ns) (pages (listed S ns (st_db (wt_store w)))) @ [end_of_list] \<and>
    st_db (wt_store w') = st_db (wt_store w)"
proof -
  let ?w = "w\<lparr>wt_sent := wt_sent w @ map (list_response S ns) (pages (listed S ns (st_db (wt_store w))))\<rparr>"
  have l: "list_pages S ns 0 w = Done ?w"
    using list_pages_quiet [OF assms(1) refl _ assms(3), of 0] by simp
  have q: "quiet S ?w" using assms(1) by simp
  have "\<exists>w'. list_finish S ns ?w = Done w' \<and> synced S ns (st_db (wt_store w)) w' \<and>
      wt_sent w' = wt_sent ?w @ [end_of_list] \<and> st_db (wt_store w') = st_db (wt_store w)"
  proof (cases "events_of ns (st_db (wt_store ?w)) = []")
    case True
    then show ?thesis using q
      by (simp add: list_finish_def scan_row_def query_quiet [OF q] MaxVersionIndexForNamespace_def)
        (simp add: send_quiet synced_def quiet_def works_def)
  next
    case False
    from list_finish_quiet [OF q this] False show ?thesis by (auto simp: synced_def watch_at_def quiet_def)
  qed
  with l assms(2) show ?thesis by (auto simp: watch_round_def)
qed

lemma listed_ids:
  assumes "db_ok d" and "mset (listed S ns d) = mset (filter (\<lambda>r. rc_namespace r = ns) (db_cache d))"
    and "inj (se_show S)"
  shows "distinct (map r_id (map (row_resource S ns) (listed S ns d)))"
    and "set (listed S ns d) = {r \<in> set (db_cache d). rc_namespace r = ns}"
proof -
  let ?c = "filter (\<lambda>r. rc_namespace r = ns) (db_cache d)"
  show s: "set (listed S ns d) = {r \<in> set (db_cache d). rc_namespace r = ns}"
    using mset_eq_setD [OF assms(2)] by auto
  have "distinct (map cache_key ?c)" using assms(1) by (simp add: db_ok_def distinct_map_filter)
  then have "inj_on cache_key (set ?c)" "distinct ?c" by (simp_all add: distinct_map)
  moreover from this(2) have "distinct (listed S ns d)" using assms(2) by (metis mset_eq_imp_distinct_iff)
  ultimately show "distinct (map r_id (map (row_resource S ns) (listed S ns d)))"
    using s assms(3) by (auto simp: distinct_map inj_on_def row_resource_simps cache_key_def)
qed

lemma cache_row_iff:
  assumes "db_ok d"
  shows "cache_row d ns i = Some r \<longleftrightarrow> r \<in> set (db_cache d) \<and> rc_namespace r = ns \<and> rc_id r = i"
proof
  assume "cache_row d ns i = Some r"
  then show "r \<in> set (db_cache d) \<and> rc_namespace r = ns \<and> rc_id r = i"
    using find_SomeD [of "at_key ns i" "db_cache d" r] by (simp add: cache_row_def at_key_def)
next
  assume r: "r \<in> set (db_cache d) \<and> rc_namespace r = ns \<and> rc_id r = i"
  then have "cache_row d ns i \<noteq> None" by (auto simp: cache_row_def find_None_iff at_key_def)
  then obtain r' where r': "cache_row d ns i = Some r'" by blast
  then have "r' \<in> set (db_cache d)" "cache_key r' = cache_key r"
    using find_SomeD [of "at_key ns i" "db_cache d" r'] r by (auto simp: cache_row_def at_key_def cache_key_def)
  with r assms have "r' = r" by (auto simp: db_ok_def distinct_map inj_on_def)
  with r' show "cache_row d ns i = Some r" by simp
qed

text \<open>The message a cached row carries.\<close>

definition row_policy :: "(any_msg option \<Rightarrow> 'p option) \<Rightarrow> store_env \<Rightarrow> string \<Rightarrow> ResourceCache \<Rightarrow> 'p option" where
  "row_policy um S ns row = um (r_spec (row_resource S ns row))"

text \<open>
  \<open>agrees\<close>: the table \<open>A\<close> holds the messages of a table of rows, under the printed UUIDs, and no
  others.
\<close>

definition agrees ::
    "(any_msg option \<Rightarrow> 'p option) \<Rightarrow> store_env \<Rightarrow> string \<Rightarrow> (string \<rightharpoonup> 'p) \<Rightarrow>
     (uuid \<rightharpoonup> ResourceCache) \<Rightarrow> bool" where
  "agrees um S ns A rows \<longleftrightarrow> dom A \<subseteq> range (se_show S) \<and>
     (\<forall>i. A (se_show S i) = (case rows i of None \<Rightarrow> None | Some row \<Rightarrow> row_policy um S ns row))"

lemma agrees_empty: "agrees um S ns Map.empty Map.empty"
  by (simp add: agrees_def)

lemma agrees_none:
  assumes "agrees um S ns A Map.empty"
  shows "A = Map.empty"
proof
  fix k show "A k = None"
  proof (rule ccontr)
    assume "A k \<noteq> None"
    then have "k \<in> range (se_show S)" using assms by (auto simp: agrees_def)
    with assms \<open>A k \<noteq> None\<close> show False by (auto simp: agrees_def)
  qed
qed

lemma list_agrees:
  assumes d: "db_ok d" and uuids: "inj (se_show S)"
    and ties: "mset (listed S ns d) = mset (filter (\<lambda>r. rc_namespace r = ns) (db_cache d))"
  shows "agrees um S ns (policies_of um (map (row_resource S ns) (listed S ns d))) (cache_row d ns)"
  unfolding agrees_def
proof (intro conjI allI subsetI)
  let ?rows = "listed S ns d"
  note ids = listed_ids [OF d ties uuids]
  fix k assume "k \<in> dom (policies_of um (map (row_resource S ns) ?rows))"
  then have "policies_of um (map (row_resource S ns) ?rows) k \<noteq> None" by auto
  then have "k \<in> r_id ` set (map (row_resource S ns) ?rows)" using policies_of_other by metis
  then show "k \<in> range (se_show S)" by (auto simp: row_resource_simps)
next
  let ?rows = "listed S ns d"
  note ids = listed_ids [OF d ties uuids]
  fix i
  show "policies_of um (map (row_resource S ns) ?rows) (se_show S i) =
      (case cache_row d ns i of None \<Rightarrow> None | Some row \<Rightarrow> row_policy um S ns row)"
  proof (cases "cache_row d ns i")
    case None
    then have "\<forall>r \<in> set ?rows. rc_id r \<noteq> i"
      using cache_row_iff [OF d, of ns i] ids(2) by auto
    then have "se_show S i \<notin> r_id ` set (map (row_resource S ns) ?rows)"
      using uuids by (auto simp: row_resource_simps inj_eq)
    with None show ?thesis by (simp add: policies_of_other)
  next
    case (Some row)
    then have "row_resource S ns row \<in> set (map (row_resource S ns) ?rows)" "rc_id row = i"
      using cache_row_iff [OF d] ids(2) by auto
    with policies_of_distinct [OF ids(1) this(1), of um] Some show ?thesis
      by (simp add: row_resource_simps row_policy_def)
  qed
qed

section \<open>What an event makes of the agreement\<close>

definition event_policy :: "(any_msg option \<Rightarrow> 'p option) \<Rightarrow> store_env \<Rightarrow> string \<Rightarrow> ResourceEvent \<Rightarrow> 'p option" where
  "event_policy um S ns e = um (r_spec (event_resource S ns e))"

definition statuses_ok :: "ResourceEvent list \<Rightarrow> bool" where
  "statuses_ok evs \<longleftrightarrow> (\<forall>e \<in> set evs. re_status e \<in> {activeResource, droppedResource})"

lemma statuses_differ [simp]: "activeResource \<noteq> droppedResource" "droppedResource \<noteq> activeResource"
  by (simp_all add: activeResource_def droppedResource_def)

lemma event_resource_id: "r_id (event_resource S ns e) = se_show S (rc_id e)"
  by (simp add: event_resource_def cached_resource_def)

text \<open>
  The events one after the other: an active one stores its message, a dropped one removes it. A
  client may ignore the drop of a resource whose spec is no message for it (\<open>event_step\<close>) or
  remove whatever it has under the id (\<open>removing_step\<close>).
\<close>

definition event_step ::
    "(any_msg option \<Rightarrow> 'p option) \<Rightarrow> store_env \<Rightarrow> string \<Rightarrow> ResourceEvent \<Rightarrow> (string \<rightharpoonup> 'p) \<Rightarrow> string \<rightharpoonup> 'p" where
  "event_step um S ns e A = (case event_policy um S ns e of None \<Rightarrow> A
     | Some p \<Rightarrow> A(se_show S (rc_id e) := if re_status e = activeResource then Some p else None))"

definition removing_step ::
    "(any_msg option \<Rightarrow> 'p option) \<Rightarrow> store_env \<Rightarrow> string \<Rightarrow> ResourceEvent \<Rightarrow> (string \<rightharpoonup> 'p) \<Rightarrow> string \<rightharpoonup> 'p" where
  "removing_step um S ns e A = (if re_status e = activeResource
     then note_spec um (event_resource S ns e) A else A(se_show S (rc_id e) := None))"

text \<open>
  \<open>kinds\<close>: an id always, or never, carries a message. Then the events keep the agreement with
  the replay of the log.
\<close>

definition kinds :: "(any_msg option \<Rightarrow> 'p option) \<Rightarrow> store_env \<Rightarrow> string \<Rightarrow> ResourceEvent list \<Rightarrow> bool" where
  "kinds um S ns evs \<longleftrightarrow> (\<forall>a \<in> set evs. \<forall>b \<in> set evs. rc_id a = rc_id b \<longrightarrow>
     (event_policy um S ns a = None \<longleftrightarrow> event_policy um S ns b = None))"

lemma kinds_subset: "kinds um S ns ys \<Longrightarrow> set xs \<subseteq> set ys \<Longrightarrow> kinds um S ns xs"
  unfolding kinds_def by blast

lemma row_policy_truncate: "row_policy um S ns (ResourceCache.truncate e) = event_policy um S ns e"
  by (simp add: row_policy_def event_policy_def row_resource_def event_resource_def cached_resource_def
      ResourceCache.defs)

lemma agrees_other_kind:
  assumes "agrees um S ns A (replayed evs)" and "kinds um S ns (evs @ [e])" and none: "event_policy um S ns e = None"
  shows "A (se_show S (rc_id e)) = None"
proof (cases "replayed evs (rc_id e)")
  case None
  with assms(1) show ?thesis by (simp add: agrees_def)
next
  case (Some row)
  from replayed_event [OF this] obtain e' where
    "e' \<in> set evs" "rc_id e' = rc_id e" "row = ResourceCache.truncate e'" by blast
  moreover from this assms(2) none have "event_policy um S ns e' = None" by (auto simp: kinds_def)
  ultimately show ?thesis using assms(1) Some by (simp add: agrees_def row_policy_truncate)
qed

lemma agrees_snoc:
  assumes "inj (se_show S)" and "agrees um S ns A (replayed evs)" and "kinds um S ns (evs @ [e])"
  shows "agrees um S ns (event_step um S ns e A) (replayed (evs @ [e]))"
proof (cases "event_policy um S ns e")
  case (Some p)
  with assms(1,2) show ?thesis
    by (auto simp: agrees_def event_step_def replayed_snoc row_policy_truncate inj_eq split: if_splits)
next
  case None
  with agrees_other_kind [OF assms(2,3)] assms(2) show ?thesis
    by (auto simp: agrees_def event_step_def replayed_snoc row_policy_truncate)
qed

lemma agrees_removing:
  assumes "inj (se_show S)" and "agrees um S ns A (replayed evs)" and "kinds um S ns (evs @ [e])"
  shows "agrees um S ns (removing_step um S ns e A) (replayed (evs @ [e]))"
proof -
  have "removing_step um S ns e A = event_step um S ns e A"
    using agrees_other_kind [OF assms(2,3)]
    by (cases "event_policy um S ns e")
      (auto simp: removing_step_def event_step_def note_spec_def event_policy_def event_resource_id)
  with agrees_snoc [OF assms] show ?thesis by simp
qed

lemma agrees_log:
  assumes f: "\<And>evs e A. agrees um S ns A (replayed evs) \<Longrightarrow> kinds um S ns (evs @ [e]) \<Longrightarrow>
      agrees um S ns (f e A) (replayed (evs @ [e]))"
    and "agrees um S ns A (replayed evs)" and "kinds um S ns (evs @ new)"
  shows "agrees um S ns (fold f new A) (replayed (evs @ new))"
  using assms(3)
proof (induction new rule: rev_induct)
  case Nil
  with assms(2) show ?case by simp
next
  case (snoc e new)
  have "kinds um S ns (evs @ new)" by (rule kinds_subset [OF snoc.prems]) auto
  note IH = snoc.IH [OF this]
  have "kinds um S ns ((evs @ new) @ [e])" using snoc.prems by (simp only: append_assoc)
  from f [OF IH this] show ?case by (simp only: append_assoc fold_append fold_simps o_def)
qed

end
