(* ===== verification/Convergence.thy ===== *)
theory Convergence
  imports Agreement Synchronizer
begin

text \<open>
  A client of the store over a history: the locale \<open>store_follower\<close> says what a response must make
  of a client's table; then after each round of the watch the table agrees with the rows the store
  has cached.
\<close>

section \<open>What is asked of a history\<close>

lemma event_resource_event_of: "event_resource S ns (event_of s row) = row_resource S ns row"
  by (simp add: event_resource_def row_resource_def cached_resource_def)

lemma event_version: "\<exists>v. r_version (event_resource S ns e) = Some v"
  by (simp add: event_resource_def cached_resource_def)

text \<open>Every event carries what the client admits, and an id is always or never of its kind.\<close>

definition log_admitted ::
    "(any_msg option \<Rightarrow> 'p option) \<Rightarrow> (resource \<Rightarrow> bool) \<Rightarrow> store_env \<Rightarrow> string \<Rightarrow> db \<Rightarrow> bool" where
  "log_admitted um admits S ns d \<longleftrightarrow> list_all (\<lambda>e. admits (event_resource S ns e)) (events_of ns d) \<and>
     kinds um S ns (events_of ns d)"

lemma log_admitted_rows:
  assumes "db_ok d" and "log_admitted um admits S ns d" and "row \<in> set (db_cache d)" "rc_namespace row = ns"
  shows "admits (row_resource S ns row)"
proof -
  have "event_of activeResource row \<in> set (events_of ns d)"
    using assms(1,3,4) by (auto simp: db_ok_def events_of_def)
  with assms(2) have "admits (event_resource S ns (event_of activeResource row))"
    by (simp add: log_admitted_def list_all_iff)
  then show ?thesis by (simp add: event_resource_event_of)
qed

lemma log_admitted_prefix:
  assumes "log_admitted um admits S ns d'" and "prefix (events_of ns d) (events_of ns d')"
  shows "log_admitted um admits S ns d"
proof -
  from set_mono_prefix [OF assms(2)] have "set (events_of ns d) \<subseteq> set (events_of ns d')" .
  with assms(1) kinds_subset [of um S ns "events_of ns d'" "events_of ns d"] show ?thesis
    unfolding log_admitted_def list_all_iff by blast
qed

text \<open>The events after the last one of an older log.\<close>

lemma after_key_new:
  assumes "strictly_sorted (old @ new)" and "old \<noteq> []"
  shows "after_key (event_key (last old)) (old @ new) = new"
proof -
  have s: "strictly_sorted old" "\<forall>x \<in> set old. \<forall>y \<in> set new. event_key x < event_key y"
    using assms(1) by (simp_all add: strictly_sorted_def sorted_wrt_append)
  have "after_key (event_key (last old)) old = []" by (rule after_key_last [OF s(1)])
  moreover have "after_key (event_key (last old)) new = new"
    using s(2) assms(2) by (simp add: after_key_def filter_id_conv)
  ultimately show ?thesis by (simp add: after_key_def)
qed

lemma listed_short:
  assumes "\<forall>rs. mset (se_ties S rs) = mset rs" and "length (db_cache d) + 50 < 2 ^ 31"
  shows "length (listed S ns d) + 50 < 2 ^ 31"
proof -
  have "length (listed S ns d) = length (filter (\<lambda>r. rc_namespace r = ns) (db_cache d))"
    using assms(1) by (metis listed_def size_mset)
  also have "\<dots> \<le> length (db_cache d)" by (rule length_filter_le)
  finally show ?thesis using assms(2) by simp
qed

text \<open>
  What a watch needs of the databases that the statements of a scan find, which are \<open>d\<close> or, where
  puts and drops come between the statements, \<open>ds\<close>; the scan before it began at \<open>p\<close> and ended at \<open>q\<close>:
  bounds of the list's offset and of the fuel, that nothing changes during the scan that makes the first
  list, and that the events since the last scan began are \<open>calm\<close>, in an order the client keeps.
\<close>

definition scan_ok :: "(ResourceEvent list \<Rightarrow> bool) \<Rightarrow> nat \<Rightarrow> string \<Rightarrow> db \<Rightarrow> db \<Rightarrow> db \<Rightarrow> db list \<Rightarrow> bool" where
  "scan_ok calm fuel ns p q d ds \<longleftrightarrow> length (db_cache d) + 50 < 2 ^ 31 \<and> length (events_of ns (last (d # ds))) < fuel \<and>
     (if events_of ns q = [] then ds = [] else calm (drop (length (events_of ns p)) (events_of ns (last (d # ds)))))"

fun scans_ok :: "(ResourceEvent list \<Rightarrow> bool) \<Rightarrow> nat \<Rightarrow> string \<Rightarrow> db \<Rightarrow> db \<Rightarrow> (db \<times> db list) list \<Rightarrow> bool" where
  "scans_ok calm fuel ns p q [] \<longleftrightarrow> True"
| "scans_ok calm fuel ns p q ((d, ds) # scans) \<longleftrightarrow>
     scan_ok calm fuel ns p q d ds \<and> scans_ok calm fuel ns d (last (d # ds)) scans"

text \<open>The databases that the statements of a scan find.\<close>

fun found_in :: "db \<times> db list \<Rightarrow> db set" where
  "found_in (d, ds) = (if ds = [] then {d} else set ds)"

lemma replaying_append: "replaying ns d (xs @ ys) \<longleftrightarrow> replaying ns d xs \<and> replaying ns (last (d # xs)) ys"
  by (induction xs arbitrary: d) auto

lemma replaying_in: "replaying ns d ds \<Longrightarrow> x \<in> set ds \<Longrightarrow> (\<exists>t. db_inv t x) \<and> prefix (events_of ns d) (events_of ns x)"
  by (induction ds arbitrary: d) (auto intro: prefix_order.trans)

lemma replaying_growing: "replaying ns d ds \<Longrightarrow> growing ns d ds"
  by (induction ds arbitrary: d) (auto simp: db_inv_def)

lemma replaying_last:
  "replaying ns d ds \<Longrightarrow> prefix (events_of ns d) (events_of ns (last (d # ds)))"
  by (induction ds arbitrary: d) (auto intro: prefix_order.trans)

lemma synced_start:
  assumes "se_send S = (\<lambda>_. None)"
  shows "synced S ns \<lparr>db_cache = [], db_events = []\<rparr>
    \<lparr>wt_store = \<lparr>st_db = d, st_faults = []\<rparr>, wt_found = [], wt_params = None, wt_sent = []\<rparr>"
  using assms by (simp add: synced_def quiet_def works_def events_of_def)

lemma history_replays:
  assumes "store_states S \<lparr>st_db = \<lparr>db_cache = [], db_events = []\<rparr>, st_faults = fs\<rparr> segs = Ret ds" "timely t segs"
    "Some CtxEnds \<notin> set fs"
  shows "replaying ns \<lparr>db_cache = [], db_events = []\<rparr> ds"
  using store_states_replaying [OF assms(1,2)] db_inv_empty assms(3) by (simp add: uncancelled_def)

lemma end_of_list_ok: "response_ok P end_of_list"
  by (simp add: end_of_list_def response_ok_def)

section \<open>A client that follows the store\<close>

text \<open>
  \<open>step\<close> is what a response makes of the client's table: a list adds what it carries, and a calm
  page of events keeps the agreement with the log.
\<close>

locale store_follower =
  fixes um :: "any_msg option \<Rightarrow> 'p option"
    and step :: "watch_response \<Rightarrow> (string \<rightharpoonup> 'p) \<Rightarrow> string \<rightharpoonup> 'p"
    and admits :: "resource \<Rightarrow> bool"
    and calm :: "ResourceEvent list \<Rightarrow> bool"
  assumes step_end: "wr_end_of_list m \<Longrightarrow> step m A = A"
    and step_list: "\<not> wr_end_of_list m \<Longrightarrow> wr_dropped m = [] \<Longrightarrow> step m A = A ++ policies_of um (wr_updated m)"
    and calm_append: "calm (xs @ ys) \<Longrightarrow> calm xs \<and> calm ys"
    and step_page: "inj (se_show S) \<Longrightarrow> calm evs \<Longrightarrow> statuses_ok evs \<Longrightarrow> kinds um S ns (old @ evs) \<Longrightarrow>
      agrees um S ns A (replayed old) \<Longrightarrow> agrees um S ns (step (events_response S ns evs) A) (replayed (old @ evs))"
begin

lemma step_end_of_list: "step end_of_list A = A"
  by (rule step_end) (simp add: end_of_list_def)

lemma active_of_pages:
  "fold step (map (list_response S ns) ps) A = A ++ policies_of um (map (row_resource S ns) (concat ps))"
  by (induction ps arbitrary: A) (simp_all add: step_list list_response_simps policies_of_Nil policies_of_append)

lemma pages_step:
  assumes "inj (se_show S)" and "calm (concat ps)" and "statuses_ok (concat ps)" and "kinds um S ns (old @ concat ps)"
    and "agrees um S ns A (replayed old)"
  shows "agrees um S ns (fold step (map (events_response S ns) ps) A) (replayed (old @ concat ps))"
  using assms(2-)
proof (induction ps arbitrary: A old)
  case Nil
  then show ?case by simp
next
  case (Cons p ps)
  have c: "calm p" "calm (concat ps)" "statuses_ok p" "statuses_ok (concat ps)"
    using Cons.prems(1,2) calm_append [of p "concat ps"] by (simp_all add: statuses_ok_def)
  have "kinds um S ns (old @ p)" by (rule kinds_subset [OF Cons.prems(3)]) auto
  from step_page [OF assms(1) c(1,3) this Cons.prems(4)]
  have "agrees um S ns (step (events_response S ns p) A) (replayed (old @ p))" .
  from Cons.IH [OF c(2,4) _ this] Cons.prems(3) show ?case by simp
qed

definition follows :: "store_env \<Rightarrow> string \<Rightarrow> watch_response list \<Rightarrow> db \<Rightarrow> db \<Rightarrow> bool" where
  "follows S ns ms d d' \<longleftrightarrow> list_all (response_ok admits) ms \<and>
     (\<forall>A. agrees um S ns A (replayed (events_of ns d)) \<longrightarrow>
        agrees um S ns (fold step ms A) (replayed (events_of ns d')))"

text \<open>What a round sends ends with a mark.\<close>

definition marked :: "watch_response list \<Rightarrow> bool" where
  "marked ms \<longleftrightarrow> (\<exists>ms'. ms = ms' @ [end_of_list])"

lemma marked_append: "marked (ms @ [end_of_list])" "marked ms' \<Longrightarrow> marked (ms @ ms')"
  by (auto simp: marked_def)

lemma follows_trans: "follows S ns ms d d' \<Longrightarrow> follows S ns ms' d' d'' \<Longrightarrow> follows S ns (ms @ ms') d d''"
  by (simp add: follows_def)

lemma list_follows:
  assumes uuids: "inj (se_show S)" and ties: "\<forall>rs. mset (se_ties S rs) = mset rs"
    and d': "db_inv t d'" and adm: "log_admitted um admits S ns d'" and none: "events_of ns d = []"
  shows "follows S ns (map (list_response S ns) (pages (listed S ns d')) @ [end_of_list]) d d'"
proof -
  let ?rows = "listed S ns d'"
  have ok: "db_ok d'" and rep: "cache_row d' ns = replayed (events_of ns d')"
    using d' by (simp_all add: db_inv_def fun_eq_iff)
  have tie: "mset ?rows = mset (filter (\<lambda>r. rc_namespace r = ns) (db_cache d'))"
    using ties by (simp add: listed_def)
  note ids = listed_ids [OF ok tie uuids]
  have sub: "row \<in> set ?rows" if "p \<in> set (pages ?rows)" "row \<in> set p" for p row
    using that concat_pages [of ?rows] by (metis UN_I set_concat)
  have "response_ok admits (list_response S ns p)" if "p \<in> set (pages ?rows)" for p
    using sub [OF that] log_admitted_rows [OF ok adm] ids(2)
    by (auto simp: response_ok_def list_response_simps list_all_iff row_resource_simps)
  then have m: "list_all (response_ok admits)
      (map (list_response S ns) (pages ?rows) @ [end_of_list])"
    by (simp add: list_all_iff step_end_of_list end_of_list_ok)
  have "agrees um S ns (fold step (map (list_response S ns) (pages ?rows) @ [end_of_list]) A)
      (replayed (events_of ns d'))" if a: "agrees um S ns A (replayed (events_of ns d))" for A
  proof -
    have "replayed (events_of ns d) = Map.empty" using none by (simp add: fun_eq_iff)
    with a have "A = Map.empty" using agrees_none by metis
    then show ?thesis
      using list_agrees [OF ok uuids tie, of um] by (simp add: active_of_pages step_end_of_list end_of_list_ok rep)
  qed
  with m show ?thesis by (simp only: follows_def) blast
qed

lemma scan_follows:
  assumes uuids: "inj (se_show S)" and d': "db_inv t d'" and adm: "log_admitted um admits S ns d'"
    and new: "events_of ns d' = events_of ns d @ new" and calm: "calm new"
  shows "follows S ns (scan_messages S ns (pages new)) d d'"
proof -
  have st: "statuses_ok new"
  proof -
    have "set new \<subseteq> set (db_events d')" using arg_cong [OF new, of set] by (auto simp: events_of_def)
    with d' show ?thesis by (auto simp: db_inv_def statuses_ok_def)
  qed
  have "response_ok admits (events_response S ns p)" if "p \<in> set (pages new)" for p
  proof -
    have "set p \<subseteq> set new" using that concat_pages [of new] by (metis UN_upper set_concat)
    with adm show ?thesis
      by (auto simp: log_admitted_def new list_all_iff response_ok_def events_response_def event_version)
  qed
  then have m: "list_all (response_ok admits) (scan_messages S ns (pages new))"
    by (simp add: scan_messages_def list_all_iff step_end_of_list end_of_list_ok)
  have "kinds um S ns (events_of ns d @ concat (pages new))" using adm by (simp add: log_admitted_def new concat_pages)
  from pages_step [OF uuids _ _ this] calm st
  have "agrees um S ns (fold step (scan_messages S ns (pages new)) A) (replayed (events_of ns d'))"
    if "agrees um S ns A (replayed (events_of ns d))" for A
    using that by (simp add: scan_messages_def step_end_of_list concat_pages new)
  with m show ?thesis unfolding follows_def by blast
qed

text \<open>A round of the watch, from a database it has sent to one grown out of it.\<close>

lemma round_follows:
  assumes S: "inj (se_show S)" "\<forall>rs. mset (se_ties S rs) = mset rs"
    and w: "synced S ns e w" and pre: "prefix (events_of ns p) (events_of ns e)" "prefix (events_of ns e) (events_of ns q)"
    and none: "events_of ns p = [] \<longleftrightarrow> events_of ns q = []"
    and r: "replaying ns q (d # ds)" and ok: "scan_ok calm fuel ns p q d ds"
    and adm: "log_admitted um admits S ns (last (d # ds))"
  shows "\<exists>w' ms e'. watch_round fuel S ns (w\<lparr>wt_store := (wt_store w)\<lparr>st_db := d\<rparr>, wt_found := ds\<rparr>) = Some (Done w') \<and>
    synced S ns e' w' \<and> wt_sent w' = wt_sent w @ ms \<and> marked ms \<and> follows S ns ms e e' \<and> e' \<in> found_in (d, ds)"
proof (cases "events_of ns q = []")
  case True
  let ?w = "w\<lparr>wt_store := (wt_store w)\<lparr>st_db := d\<rparr>, wt_found := []\<rparr>"
  from True ok have ds: "ds = []" by (simp add: scan_ok_def)
  from True pre(2) have e: "events_of ns e = []" by simp
  from r obtain t where t: "db_inv t d" by auto
  have q: "quiet S ?w" and "wt_params ?w = None" using w e by (simp_all add: synced_def quiet_def works_def)
  moreover have "length (listed S ns (st_db (wt_store ?w))) + 50 < 2 ^ 31"
    using listed_short [OF S(2)] ok by (simp add: scan_ok_def)
  ultimately obtain w' where "watch_round fuel S ns ?w = Some (Done w')" "synced S ns d w'"
      "wt_sent w' = wt_sent w @ map (list_response S ns) (pages (listed S ns d)) @ [end_of_list]"
    using first_round [OF q, of ns fuel] by auto
  moreover have "log_admitted um admits S ns d" using adm by (simp add: ds)
  ultimately show ?thesis using list_follows [OF S t _ e]
      marked_append(1) [of "map (list_response S ns) (pages (listed S ns d))"] unfolding ds found_in.simps
    by (metis insertI1)
next
  case False
  let ?w = "w\<lparr>wt_store := (wt_store w)\<lparr>st_db := d\<rparr>, wt_found := ds\<rparr>"
  have e: "events_of ns e \<noteq> []" using False none pre(1) by auto
  let ?c = "event_key (last (events_of ns e))"
  from w e have at: "watch_at S ns ?c ?w" by (simp add: synced_def watch_at_def works_def)
  obtain v vs where v: "views ?w = v # vs" by (cases ds) (auto simp: views_def)
  then have v': "v # vs = (if ds = [] then [d] else ds)" unfolding views_def by (simp split: if_splits)
  have g: "growing ns q (d # ds)" by (rule replaying_growing [OF r])
  have gv: "growing ns v vs" "db_ok v" "last (v # vs) = last (d # ds)" using g v' by (auto split: if_splits)
  have "length (events_of ns (last (v # vs))) < fuel" using ok gv(3) by (simp add: scan_ok_def)
  from watch_round_growing [OF at v gv(1,2) this] obtain w' e' where
    1: "watch_round fuel S ns ?w = Some (Done w')" "e' \<in> set (v # vs)"
      "watch_at S ns (next_cursor ?c (after_key ?c (events_of ns e'))) w'"
      "wt_sent w' = wt_sent w @ scan_messages S ns (pages (after_key ?c (events_of ns e')))" by auto
  have e': "e' \<in> set (d # ds)" "e' \<in> found_in (d, ds)" using 1(2) v' by (auto split: if_splits)
  from replaying_in [OF r e'(1)] obtain t where t: "db_inv t e'" "prefix (events_of ns q) (events_of ns e')" by blast
  from prefix_order.trans [OF pre(2) t(2)] obtain new where new: "events_of ns e' = events_of ns e @ new"
    by (auto simp: prefix_def)
  from t(1) have "db_ok e'" by (simp add: db_inv_def)
  from events_of_strict [OF this, of ns] have k: "after_key ?c (events_of ns e') = new"
    unfolding new by (rule after_key_new [OF _ e])
  have last: "prefix (events_of ns e') (events_of ns (last (d # ds)))"
    using growing_last [of ns d ds e'] g e'(1) by simp
  have "calm new"
  proof -
    from pre(1) obtain a where a: "events_of ns e = events_of ns p @ a" by (auto simp: prefix_def)
    from last obtain z where "events_of ns (last (d # ds)) = events_of ns e' @ z" by (auto simp: prefix_def)
    then have "drop (length (events_of ns p)) (events_of ns (last (d # ds))) = a @ new @ z" by (simp add: new a)
    with ok False have "calm (a @ new @ z)" by (simp add: scan_ok_def)
    then show ?thesis using calm_append by blast
  qed
  with scan_follows [OF S(1) t(1) log_admitted_prefix [OF adm last] new]
  have f: "follows S ns (scan_messages S ns (pages new)) e e'" .
  have "next_cursor ?c new = event_key (last (events_of ns e'))" by (simp add: next_cursor_def new)
  with 1(3) k e have "synced S ns e' w'" by (simp add: synced_def watch_at_def new)
  with 1(1,4) k f e'(2) marked_append(1) [of "map (events_response S ns) (pages new)", folded scan_messages_def]
  show ?thesis by metis
qed

lemma scans_follow:
  assumes "inj (se_show S)" "\<forall>rs. mset (se_ties S rs) = mset rs"
    and "synced S ns e w" and "prefix (events_of ns p) (events_of ns e)" "prefix (events_of ns e) (events_of ns q)"
    and "events_of ns p = [] \<longleftrightarrow> events_of ns q = []" and "replaying ns q (found_by scans)"
    and "scans_ok calm fuel ns p q scans" and "log_admitted um admits S ns (last (q # found_by scans))"
  shows "\<exists>w' ms e'. watch_wakeups fuel S ns (scans_of scans) w = Some (Done w') \<and>
    wt_sent w' = wt_sent w @ ms \<and> (if scans = [] then ms = [] \<and> e' = e else marked ms \<and> e' \<in> found_in (last scans)) \<and>
    follows S ns ms e e'"
  using assms(3-)
proof (induction scans arbitrary: p q e w)
  case Nil
  then show ?case by (intro exI [of _ w] exI [of _ "[]"] exI [of _ e]) (simp add: follows_def)
next
  case (Cons x scans)
  obtain d ds where x: "x = (d, ds)" by force
  from Cons.prems(5) have r: "replaying ns q (d # ds)" "replaying ns (last (d # ds)) (found_by scans)"
    using replaying_append [of ns q "d # ds"] by (simp_all add: x)
  have l: "last (q # found_by (x # scans)) = last (last (d # ds) # found_by scans)" by (simp add: x)
  have ok: "scan_ok calm fuel ns p q d ds" "scans_ok calm fuel ns d (last (d # ds)) scans"
    using Cons.prems(6) by (simp_all add: x)
  have all: "log_admitted um admits S ns (last (last (d # ds) # found_by scans))" using Cons.prems(7) l by simp
  have "prefix (events_of ns (last (d # ds))) (events_of ns (last (last (d # ds) # found_by scans)))"
    by (rule replaying_last [OF r(2)])
  from round_follows [OF assms(1,2) Cons.prems(1-4) r(1) ok(1) log_admitted_prefix [OF all this]]
  obtain w1 ms1 e1 where 1: "watch_round fuel S ns (w\<lparr>wt_store := (wt_store w)\<lparr>st_db := d\<rparr>, wt_found := ds\<rparr>) = Some (Done w1)"
      "synced S ns e1 w1" "wt_sent w1 = wt_sent w @ ms1" "marked ms1" "follows S ns ms1 e e1" "e1 \<in> found_in (d, ds)"
    by blast
  have in1: "e1 \<in> set (d # ds)" using 1(6) by (auto split: if_splits)
  have g: "growing ns q (d # ds)" by (rule replaying_growing [OF r(1)])
  have p1: "prefix (events_of ns d) (events_of ns e1)"
    using g in1 growing_in [of ns d ds e1] by auto
  have p2: "prefix (events_of ns e1) (events_of ns (last (d # ds)))" using growing_last [of ns d ds e1] g in1 by simp
  have "ds = []" if "events_of ns d = []"
    using that ok(1) g by (auto simp: scan_ok_def split: if_splits)
  then have n: "events_of ns d = [] \<longleftrightarrow> events_of ns (last (d # ds)) = []"
    using prefix_order.trans [OF p1 p2] by auto
  from Cons.IH [OF 1(2) p1 p2 n r(2) ok(2) all] obtain w2 ms2 e2 where
    2: "watch_wakeups fuel S ns (scans_of scans) w1 = Some (Done w2)" "wt_sent w2 = wt_sent w1 @ ms2"
      "if scans = [] then ms2 = [] \<and> e2 = e1 else marked ms2 \<and> e2 \<in> found_in (last scans)" "follows S ns ms2 e1 e2"
    by blast
  have "marked (ms1 @ ms2)" "e2 \<in> found_in (last (x # scans))"
    using 1(4,6) 2(3) marked_append(2) [of ms2 ms1] by (auto simp: x split: if_splits)
  with follows_trans [OF 1(5) 2(4)] 1(1,3) 2(1,2) show ?case
    by (intro exI [of _ w2] exI [of _ "ms1 @ ms2"] exI [of _ e2]) (simp add: x)
qed

text \<open>
  What a watch sends over a history, from the state \<open>d\<close> its first list finds on. The databases of the
  history are those its scans find, in their order.
\<close>

lemma watch_follows:
  assumes S: "inj (se_show S)" "\<forall>rs. mset (se_ties S rs) = mset rs" "se_send S = (\<lambda>_. None)"
    and h: "store_states S \<lparr>st_db = \<lparr>db_cache = [], db_events = []\<rparr>, st_faults = fs\<rparr> segs = Ret (d # found_by scans)"
      "timely t segs" "Some CtxEnds \<notin> set fs"
    and ok: "scans_ok calm fuel ns \<lparr>db_cache = [], db_events = []\<rparr> \<lparr>db_cache = [], db_events = []\<rparr> ((d, []) # scans)"
    and adm: "log_admitted um admits S ns (last (d # found_by scans))"
  shows "\<exists>w' e. Watch fuel S ns \<lparr>st_db = d, st_faults = []\<rparr> [] (scans_of scans) = Some (Done w') \<and>
    list_all (response_ok admits) (wt_sent w') \<and> (\<exists>ms. wt_sent w' = ms @ [end_of_list]) \<and>
    e \<in> found_in (last ((d, []) # scans)) \<and>
    agrees um S ns (fold step (wt_sent w') Map.empty) (cache_row e ns)"
proof -
  let ?d0 = "\<lparr>db_cache = [], db_events = []\<rparr> :: db"
  have all: "found_by ((d, []) # scans) = d # found_by scans" by simp
  note r = history_replays [OF h, of ns, folded all]
  have adm': "log_admitted um admits S ns (last (?d0 # found_by ((d, []) # scans)))" using adm by simp
  from scans_follow [OF S(1,2) synced_start [OF S(3)] _ _ _ r ok adm', of d]
  obtain w' ms e where w': "watch_wakeups fuel S ns (scans_of ((d, []) # scans))
        \<lparr>wt_store = \<lparr>st_db = d, st_faults = []\<rparr>, wt_found = [], wt_params = None, wt_sent = []\<rparr> = Some (Done w')"
      "wt_sent w' = ms" "marked ms" "e \<in> found_in (last ((d, []) # scans))" "follows S ns ms ?d0 e" by auto
  have "e \<in> set (found_by ((d, []) # scans))"
  proof -
    have "found_in x \<subseteq> set (found_by [x])" for x by (cases x) auto
    moreover have "set (found_by [last ((d, []) # scans)]) \<subseteq> set (found_by ((d, []) # scans))"
      using last_in_set [of "(d, []) # scans"] by fastforce
    ultimately show ?thesis using w'(4) by blast
  qed
  from replaying_in [OF r this] have rep: "cache_row e ns = replayed (events_of ns e)"
    by (auto simp: db_inv_def fun_eq_iff)
  have "agrees um S ns Map.empty (replayed (events_of ns ?d0))"
    using agrees_empty [of E S ns] by (simp add: events_of_def agrees_def)
  with w' rep show ?thesis by (intro exI [of _ w'] exI [of _ e]) (simp add: Watch_def follows_def marked_def)
qed

end

end
