(* ===== verification/XdsProps.thy ===== *)
theory XdsProps
  imports Xds
begin

text \<open>
  The properties of the xDS server: the published virtual hosts are those of the current
  routing policies, the endpoints of a cluster are its instances by locality, the server never
  panics, and what a drop removes depends on the order of a map.
\<close>

section \<open>The difference of virtual hosts\<close>

lemma diff_old_fold:
  "rg_virtual_hosts (foldl (diff_old old new) r olds) = rg_virtual_hosts r \<and>
   rg_resources (foldl (diff_old old new) r olds) = rg_resources r \<and>
   (\<forall>n. rg_updated (foldl (diff_old old new) r olds) n =
     (case (old n, new n) of
        (Some vh, Some vhx) \<Rightarrow> if n \<in> set olds \<and> \<not> isEqual vhx vh then Some (vx_host vhx) else rg_updated r n
      | _ \<Rightarrow> rg_updated r n)) \<and>
   set (rg_dropped (foldl (diff_old old new) r olds)) =
     set (rg_dropped r) \<union> {n \<in> set olds. old n \<noteq> None \<and> new n = None}"
proof (induction olds arbitrary: r)
  case Nil
  then show ?case by (auto split: option.splits)
next
  case (Cons k olds)
  have s: "rg_virtual_hosts (diff_old old new r k) = rg_virtual_hosts r"
    "rg_resources (diff_old old new r k) = rg_resources r"
    "rg_updated (diff_old old new r k) n = (case (old n, new n) of
        (Some vh, Some vhx) \<Rightarrow> if n = k \<and> \<not> isEqual vhx vh then Some (vx_host vhx) else rg_updated r n
      | _ \<Rightarrow> rg_updated r n)"
    "set (rg_dropped (diff_old old new r k)) = set (rg_dropped r) \<union> {n. n = k \<and> old n \<noteq> None \<and> new n = None}"
    for n by (auto simp: diff_old_def split: option.splits)
  show ?case
  proof (intro conjI allI)
    fix n
    show "rg_updated (foldl (diff_old old new) r (k # olds)) n =
     (case (old n, new n) of
        (Some vh, Some vhx) \<Rightarrow> if n \<in> set (k # olds) \<and> \<not> isEqual vhx vh then Some (vx_host vhx) else rg_updated r n
      | _ \<Rightarrow> rg_updated r n)"
      using Cons.IH [of "diff_old old new r k"] s(3) [of n]
      by (cases "old n"; cases "new n") auto
  qed (use Cons.IH [of "diff_old old new r k"] s in auto)
qed

lemma diff_new_fold:
  "rg_virtual_hosts (foldl (diff_new old new) r news) = rg_virtual_hosts r \<and>
   rg_resources (foldl (diff_new old new) r news) = rg_resources r \<and>
   rg_dropped (foldl (diff_new old new) r news) = rg_dropped r \<and>
   (\<forall>n. rg_updated (foldl (diff_new old new) r news) n =
     (if n \<in> set news \<and> old n = None \<and> new n \<noteq> None then map_option vx_host (new n) else rg_updated r n))"
proof (induction news arbitrary: r)
  case Nil
  then show ?case by simp
next
  case (Cons k news)
  have s: "rg_virtual_hosts (diff_new old new r k) = rg_virtual_hosts r"
    "rg_resources (diff_new old new r k) = rg_resources r"
    "rg_dropped (diff_new old new r k) = rg_dropped r"
    "rg_updated (diff_new old new r k) n =
      (if n = k \<and> old n = None \<and> new n \<noteq> None then map_option vx_host (new n) else rg_updated r n)"
    for n by (auto simp: diff_new_def split: option.splits)
  show ?case using Cons.IH [of "diff_new old new r k"] s by auto
qed

definition hosts :: "(string \<rightharpoonup> virtualHostExt) \<Rightarrow> string \<rightharpoonup> virtual_host" where
  "hosts m n = map_option vx_host (m n)"

text \<open>No two virtual hosts of these tables with the same name share a hash but not their contents.\<close>

definition no_collision :: "(string \<rightharpoonup> virtualHostExt) \<Rightarrow> (string \<rightharpoonup> virtualHostExt) \<Rightarrow> bool" where
  "no_collision old new \<longleftrightarrow> (\<forall>n vh vhx. old n = Some vh \<longrightarrow> new n = Some vhx \<longrightarrow> isEqual vhx vh \<longrightarrow>
     vx_host vhx = vx_host vh)"

lemma processChanges_publishes:
  assumes "enumerates olds (rg_virtual_hosts r)" and "enumerates news (build_vhosts E (rg_resources r))"
    and "rg_updated r = Map.empty" and "rg_dropped r = []"
    and "no_collision (rg_virtual_hosts r) (build_vhosts E (rg_resources r))"
    and "r' = processChanges E olds news r"
  shows "(hosts (rg_virtual_hosts r) ++ rg_updated r') |` (- set (rg_dropped r')) =
      hosts (build_vhosts E (rg_resources r)) \<and>
    rg_virtual_hosts r' = build_vhosts E (rg_resources r) \<and> rg_resources r' = rg_resources r"
proof -
  let ?old = "rg_virtual_hosts r" and ?new = "build_vhosts E (rg_resources r)"
  let ?r1 = "foldl (diff_old ?old ?new) r olds"
  let ?r2 = "foldl (diff_new ?old ?new) ?r1 news"
  have r': "r' = ?r2\<lparr>rg_virtual_hosts := ?new\<rparr>" using assms(6) by (simp add: processChanges_def Let_def)
  note d1 = diff_old_fold [of ?old ?new r olds]
  note d2 = diff_new_fold [of ?old ?new ?r1 news]
  have olds: "n \<in> set olds \<longleftrightarrow> ?old n \<noteq> None" and news: "n \<in> set news \<longleftrightarrow> ?new n \<noteq> None" for n
    using assms(1,2) by (simp_all add: enumerates_dom)
  have dr: "set (rg_dropped r') = {n. ?old n \<noteq> None \<and> ?new n = None}"
    using d1 d2 assms(4) olds by (auto simp: r')
  have up: "rg_updated r' n = (case (?old n, ?new n) of
      (Some vh, Some vhx) \<Rightarrow> if \<not> isEqual vhx vh then Some (vx_host vhx) else None
    | (None, Some vhx) \<Rightarrow> Some (vx_host vhx) | _ \<Rightarrow> None)" for n
    using d1 d2 olds [of n] news [of n] assms(3)
    by (cases "?old n"; cases "?new n") (simp_all add: r')
  have "((hosts ?old ++ rg_updated r') |` (- set (rg_dropped r'))) n = hosts ?new n" for n
  proof (cases "?new n")
    case None
    then show ?thesis by (cases "?old n") (simp_all add: restrict_map_def dr map_add_def up hosts_def)
  next
    case (Some vhx)
    show ?thesis
    proof (cases "?old n")
      case None
      with Some show ?thesis by (simp add: restrict_map_def dr map_add_def up hosts_def)
    next
      case old: (Some vh)
      have "isEqual vhx vh \<Longrightarrow> vx_host vhx = vx_host vh"
        using assms(5) old Some unfolding no_collision_def by blast
      with old Some show ?thesis by (simp add: restrict_map_def dr map_add_def up hosts_def)
    qed
  qed
  then have "(hosts ?old ++ rg_updated r') |` (- set (rg_dropped r')) = hosts ?new" by (rule ext)
  with d1 d2 show ?thesis by (simp add: r')
qed

section \<open>The published virtual hosts\<close>

text \<open>
  Between batches the cache of virtual hosts holds the hosts of the routing state and no change
  is pending.
\<close>

definition vhosts_published :: "xds \<Rightarrow> bool" where
  "vhosts_published x \<longleftrightarrow>
     cache_contents VirtualHostType x = map_option XVirtualHost \<circ> hosts (rg_virtual_hosts (xd_routing x)) \<and>
     rg_updated (xd_routing x) = Map.empty \<and> rg_dropped (xd_routing x) = []"

lemma vhosts_published_cong:
  "vhosts_published x \<Longrightarrow> xd_calls x' = xd_calls x \<Longrightarrow>
    rg_virtual_hosts (xd_routing x') = rg_virtual_hosts (xd_routing x) \<Longrightarrow>
    rg_updated (xd_routing x') = rg_updated (xd_routing x) \<Longrightarrow>
    rg_dropped (xd_routing x') = rg_dropped (xd_routing x) \<Longrightarrow> vhosts_published x'"
  by (simp add: vhosts_published_def cache_contents_def)

lemma restrict_map_UNIV: "m |` UNIV = m"
  by (rule ext) simp

lemma update_cache_Done:
  assumes "update_cache E t x ty = Done x'"
  shows "xd_routing x' = xd_routing x \<and> (\<forall>ty'. cache_contents ty' x' =
    (if ty' = ty then (cache_contents ty x ++ op_update (tn_operations t ty)) |`
       (- set (op_delete (tn_operations t ty))) else cache_contents ty' x))"
proof (cases "op_update (tn_operations t ty) \<noteq> Map.empty \<or> op_delete (tn_operations t ty) \<noteq> []")
  case True
  with assms have "x' = x\<lparr>xd_calls := xd_calls x @
      [(ty, op_update (tn_operations t ty), op_delete (tn_operations t ty))]\<rparr>"
    by (simp add: update_cache_def Let_def split: option.splits)
  then show ?thesis by (simp add: cache_contents_def)
next
  case False
  then have u: "op_update (tn_operations t ty) = Map.empty" and d: "op_delete (tn_operations t ty) = []"
    by blast+
  with assms have "x' = x" by (simp add: update_cache_def Let_def)
  then show ?thesis by (simp add: u d restrict_map_UNIV)
qed

lemma update_caches_Done:
  "for_each (update_cache E t) tys x = Done x' \<Longrightarrow> distinct tys \<Longrightarrow>
    xd_routing x' = xd_routing x \<and> (\<forall>ty. cache_contents ty x' =
    (if ty \<in> set tys then (cache_contents ty x ++ op_update (tn_operations t ty)) |`
       (- set (op_delete (tn_operations t ty))) else cache_contents ty x))"
proof (induction tys arbitrary: x)
  case Nil
  then show ?case by simp
next
  case (Cons ty tys)
  then obtain x1 where "update_cache E t x ty = Done x1" "for_each (update_cache E t) tys x1 = Done x'"
    by (auto simp: and_then_Done_iff)
  with Cons.IH [of x1] Cons.prems(2) update_cache_Done [of E t x ty x1] show ?case by auto
qed

lemma update_caches_quiet:
  "(\<And>calls. xe_update E calls = None) \<Longrightarrow> \<exists>x'. for_each (update_cache E t) tys x = Done x'"
proof (induction tys arbitrary: x)
  case Nil
  then show ?case by simp
next
  case (Cons ty tys)
  from Cons.prems have "\<exists>x1. update_cache E t x ty = Done x1" by (simp add: update_cache_def Let_def)
  with Cons show ?case by auto
qed

lemma map_option_add:
  "((map_option f \<circ> m) ++ (map_option f \<circ> u)) |` A = map_option f \<circ> ((m ++ u) |` A)"
  by (auto simp: fun_eq_iff map_add_def restrict_map_def split: option.splits)

lemma published_after_batch:
  assumes pub: "vhosts_published x" and run: "xds_AfterBatch E x = Done x'"
    and types: "distinct (xe_types E x)" "VirtualHostType \<in> set (xe_types E x)"
    and olds: "enumerates (xe_olds E x) (rg_virtual_hosts (xd_routing x))"
    and news: "enumerates (xe_news E x) (build_vhosts (xe_routing E) (rg_resources (xd_routing x)))"
    and nc: "no_collision (rg_virtual_hosts (xd_routing x))
      (build_vhosts (xe_routing E) (rg_resources (xd_routing x)))"
  shows "cache_contents VirtualHostType x' =
      map_option XVirtualHost \<circ> hosts (build_vhosts (xe_routing E) (rg_resources (xd_routing x))) \<and>
    vhosts_published x' \<and> rg_resources (xd_routing x') = rg_resources (xd_routing x) \<and>
    rg_virtual_hosts (xd_routing x') = build_vhosts (xe_routing E) (rg_resources (xd_routing x))"
proof -
  let ?new = "build_vhosts (xe_routing E) (rg_resources (xd_routing x))"
  let ?r = "processChanges (xe_routing E) (xe_olds E x) (xe_news E x) (xd_routing x)"
  let ?r' = "?r\<lparr>rg_updated := Map.empty, rg_dropped := []\<rparr>"
  from run obtain t where t: "xd_tx x = Some t" by (auto simp: xds_AfterBatch_def with_tx_def split: option.splits)
  let ?t = "t\<lparr>tn_operations := (tn_operations t)(VirtualHostType :=
      \<lparr>op_update = map_option XVirtualHost \<circ> rg_updated ?r, op_delete = rg_dropped ?r\<rparr>)\<rparr>"
  let ?x = "x\<lparr>xd_routing := ?r', xd_tx := Some ?t\<rparr>"
  have loop: "for_each (update_cache E ?t) (xe_types E x) ?x = Done x'"
    using run t by (simp add: xds_AfterBatch_def with_tx_def routing_take_def Let_def)
  have pend: "rg_updated (xd_routing x) = Map.empty" "rg_dropped (xd_routing x) = []"
    using pub by (simp_all add: vhosts_published_def)
  note pc = processChanges_publishes [OF olds news pend nc refl]
  have x': "xd_routing x' = ?r'" and c: "cache_contents VirtualHostType x' =
      (cache_contents VirtualHostType ?x ++ (map_option XVirtualHost \<circ> rg_updated ?r)) |` (- set (rg_dropped ?r))"
    using update_caches_Done [OF loop types(1)] types(2) by simp_all
  have "cache_contents VirtualHostType ?x = map_option XVirtualHost \<circ> hosts (rg_virtual_hosts (xd_routing x))"
    using pub by (simp add: vhosts_published_def cache_contents_def)
  with c pc have cc: "cache_contents VirtualHostType x' = map_option XVirtualHost \<circ> hosts ?new"
    by (simp add: map_option_add)
  with pc x' show ?thesis by (simp add: vhosts_published_def)
qed

section \<open>Endpoints\<close>

definition endpoints_at :: "localities \<Rightarrow> string \<Rightarrow> string \<Rightarrow> lb_endpoint list" where
  "endpoints_at c region zone = (case c region of None \<Rightarrow> []
     | Some z \<Rightarrow> (case z zone of None \<Rightarrow> [] | Some l \<Rightarrow> l))"

lemma add_instance_at:
  "endpoints_at (add_instance c inst) region zone = endpoints_at c region zone @
    (if in_region inst = region \<and> in_zone inst = zone then [to_endpoint inst] else [])"
  by (auto simp: endpoints_at_def add_instance_def Let_def split: option.splits)

lemma add_instances_at:
  "endpoints_at (foldl add_instance c insts) region zone = endpoints_at c region zone @
    map to_endpoint (filter (\<lambda>i. in_region i = region \<and> in_zone i = zone) insts)"
  by (induction insts arbitrary: c) (simp_all add: add_instance_at)

lemma endpoints_at_empty: "endpoints_at Map.empty region zone = []"
  by (simp add: endpoints_at_def)

definition cluster_at :: "clustersEndpoints \<Rightarrow> string \<Rightarrow> string \<Rightarrow> string \<Rightarrow> lb_endpoint list" where
  "cluster_at m name region zone = (case m name of None \<Rightarrow> [] | Some c \<Rightarrow> endpoints_at c region zone)"

lemma endpoints_Add_at:
  "cluster_at (endpoints_Add n insts m) name region zone = cluster_at m name region zone @
    (if n = name then map to_endpoint (filter (\<lambda>i. in_region i = region \<and> in_zone i = zone) insts) else [])"
  by (cases "m name") (auto simp: cluster_at_def endpoints_Add_def add_instances_at endpoints_at_empty)

lemma new_xds_none: "xd_instance_sets (fst (new_xds, t)) k = None"
  by (simp add: new_xds_def)

section \<open>Properties\<close>

text \<open>
  A server that follows the store never panics, whatever it is sent, the order of its maps
  and the interleaving, unless the context is cancelled.
\<close>

theorem xds_session_never_panics:
  assumes "reachable (xds_handler E) script \<lparr>IndexCursor = 0, Handler = new_xds\<rparr> c"
    and "\<forall>m. RecvMsg m \<in> set script \<longrightarrow> response_ok (\<lambda>_. True) m"
    and "ss_main c = M_Panic msg"
  shows "ss_cancelled c"
  using xds_events.session_safe [OF assms(1)] assms(2,3) by simp

text \<open>
  After a batch whose cache updates succeed, the published virtual hosts are exactly those
  built from the current routing policies: each change is sent, each host that is gone is
  deleted, and nothing stays pending.
\<close>

theorem batch_publishes_routing_policies:
  assumes pub: "vhosts_published x" and run: "xds_AfterBatch E x = Done x'"
    and types: "distinct (xe_types E x)" "VirtualHostType \<in> set (xe_types E x)"
    and olds: "enumerates (xe_olds E x) (rg_virtual_hosts (xd_routing x))"
    and news: "enumerates (xe_news E x) (build_vhosts (xe_routing E) (rg_resources (xd_routing x)))"
    and nc: "no_collision (rg_virtual_hosts (xd_routing x))
      (build_vhosts (xe_routing E) (rg_resources (xd_routing x)))"
  shows "cache_contents VirtualHostType x' =
      map_option XVirtualHost \<circ> hosts (build_vhosts (xe_routing E) (rg_resources (xd_routing x))) \<and>
    vhosts_published x' \<and> rg_resources (xd_routing x') = rg_resources (xd_routing x)"
  using published_after_batch [OF assms] by blast

text \<open>
  After any sequence of instance sets of a batch, the endpoints of a cluster in a region and
  zone are the instances of that region and zone that name the cluster, in order, once per set.
\<close>

theorem endpoints_are_instances_by_locality:
  "cluster_at (foldl (\<lambda>m (n, insts). endpoints_Add n insts m) Map.empty sets) name region zone =
    map to_endpoint (filter (\<lambda>i. in_region i = region \<and> in_zone i = zone)
      (concat (map snd (filter (\<lambda>s. fst s = name) sets))))"
proof -
  have "cluster_at (foldl (\<lambda>m (n, insts). endpoints_Add n insts m) m sets) name region zone =
    cluster_at m name region zone @ map to_endpoint (filter (\<lambda>i. in_region i = region \<and> in_zone i = zone)
      (concat (map snd (filter (\<lambda>s. fst s = name) sets))))" for m
    by (induction sets arbitrary: m) (auto simp: endpoints_Add_at split: prod.splits)
  from this [of Map.empty] show ?thesis by (simp add: cluster_at_def)
qed

text \<open>
  What a drop removes depends on the order of a map: if the endpoint type comes first, the
  drop of a resource that is no instance set returns before any listener, route, cluster or
  policy is removed; if it comes last, they are.
\<close>

theorem drop_depends_on_map_order:
  assumes "xd_tx x = Some t" and "xd_instance_sets x (r_id res) = None"
    and "xd_names x ListenerType (r_id res) = Some name" and "name \<noteq> []"
  shows "(hd (xe_drop_types E x) = EndpointType \<longrightarrow> xe_drop_types E x \<noteq> [] \<longrightarrow> xds_OnDropped E x res = Done x) \<and>
    (xe_drop_types E x = [ListenerType, RouteType, ClusterType, VirtualHostType, EndpointType] \<longrightarrow>
      (\<exists>x' t'. xds_OnDropped E x res = Done x' \<and> xd_tx x' = Some t' \<and>
        name \<in> set (op_delete (tn_operations t' ListenerType)) \<and>
        rg_resources (xd_routing x') (r_id res) = None))"
proof (intro conjI impI)
  assume "hd (xe_drop_types E x) = EndpointType" "xe_drop_types E x \<noteq> []"
  then obtain tys where "xe_drop_types E x = EndpointType # tys" by (cases "xe_drop_types E x") auto
  with assms show "xds_OnDropped E x res = Done x" by (simp add: xds_OnDropped_def with_tx_def)
next
  assume "xe_drop_types E x = [ListenerType, RouteType, ClusterType, VirtualHostType, EndpointType]"
  with assms show "\<exists>x' t'. xds_OnDropped E x res = Done x' \<and> xd_tx x' = Some t' \<and>
      name \<in> set (op_delete (tn_operations t' ListenerType)) \<and>
      rg_resources (xd_routing x') (r_id res) = None"
    by (auto simp: xds_OnDropped_def with_tx_def idName_Delete_def to_delete_def routing_dropPolicy_def
        Let_def split: option.splits prod.splits)
qed

text \<open>
  An instance set is noted under its cluster names, not under its resource id: unless its id
  is also the name of one of its clusters, dropping it leaves the function at the endpoint type
  and deletes no endpoints.
\<close>

theorem instance_set_noted_under_cluster:
  "\<exists>x' t'. foldl (add_instances E ident insts) (new_xds, t) names = (x', t') \<and>
    (\<forall>k. xd_instance_sets x' k \<noteq> None \<longleftrightarrow> k \<in> set names) \<and>
    (ident \<in> set names \<or> drop_types ident (EndpointType # tys) (x', t') = (x', t'))"
proof -
  have "xd_instance_sets (fst (foldl (add_instances E ident insts) s names)) k \<noteq> None \<longleftrightarrow>
      xd_instance_sets (fst s) k \<noteq> None \<or> k \<in> set names" for k s
  proof (induction names arbitrary: s)
    case Nil
    then show ?case by simp
  next
    case (Cons n names)
    have "xd_instance_sets (fst (add_instances E ident insts s n)) k \<noteq> None \<longleftrightarrow>
        xd_instance_sets (fst s) k \<noteq> None \<or> k = n"
      by (cases s) (simp add: add_instances_def Let_def clusters_Add_def)
    with Cons.IH [of "add_instances E ident insts s n"] show ?case by auto
  qed
  moreover obtain x' t' where "foldl (add_instances E ident insts) (new_xds, t) names = (x', t')"
    by fastforce
  ultimately have n: "xd_instance_sets x' k \<noteq> None \<longleftrightarrow> k \<in> set names" for k
    by (metis fst_conv new_xds_none)
  have "xd_instance_sets x' ident = None" if "ident \<notin> set names" using n [of ident] that by blast
  then have "ident \<in> set names \<or> drop_types ident (EndpointType # tys) (x', t') = (x', t')"
    by (cases "ident \<in> set names") simp_all
  with n \<open>foldl _ _ names = _\<close> show ?thesis by blast
qed

section \<open>Witnesses\<close>

definition sample_routing_env :: routing_env where
  "sample_routing_env = \<lparr>rv_marshal = rt_match_prefix, rv_vh_marshal = vh_name, rv_sha256 = (\<lambda>b. b),
     rv_hex = (\<lambda>b. b), rv_kebab = to_lower, rv_seconds = dur_seconds\<rparr>"

definition sample_policy :: routing_policy where
  "sample_policy = \<lparr>rp_ingress_name = ''in'', rp_routes = [], rp_cors = None, rp_xds_cluster_name = ''xds'',
     rp_domain = ''a.b''\<rparr>"

definition sample_xds_env :: "xds_type list \<Rightarrow> xds_env" where
  "sample_xds_env tys = \<lparr>xe_routing = sample_routing_env, xe_unmarshal = (\<lambda>_. Inl ErrEOF),
     xe_update = (\<lambda>_. None), xe_zones = (\<lambda>_. []), xe_drop_types = (\<lambda>_. tys),
     xe_types = (\<lambda>_. all_types), xe_olds = (\<lambda>_. []), xe_news = (\<lambda>_. [''in/a.b''])\<rparr>"

definition sample_xds :: xds where
  "sample_xds = new_xds\<lparr>xd_tx := Some \<lparr>tn_operations = (\<lambda>_. newEnvoyXdsTxOperation), tn_endpoints = Map.empty\<rparr>,
     xd_routing := routing_putPolicy ''1'' sample_policy newRouting,
     xd_names := (\<lambda>_. [''1'' \<mapsto> ''in''])\<rparr>"

theorem xds_session_never_panics_witness:
  "\<exists>c. reachable (xds_handler (sample_xds_env [])) [] \<lparr>IndexCursor = 0, Handler = new_xds\<rparr> c \<and>
    ss_main c = M_Panic ''nil pointer dereference'' \<and> ss_cancelled c"
proof -
  obtain c where c: "reachable (xds_handler (sample_xds_env [])) [] \<lparr>IndexCursor = 0, Handler = new_xds\<rparr> c"
      "ss_main c = M_Panic ''nil pointer dereference''"
    using closed_channel_panic by blast
  from xds_session_never_panics [OF c(1) _ c(2)] c show ?thesis by auto
qed

lemma sample_build:
  "build_vhosts sample_routing_env (rg_resources (xd_routing sample_xds)) =
    [''in/a.b'' \<mapsto> \<lparr>vx_host = \<lparr>vh_name = ''in/a.b'', vh_domains = [''a.b''], vh_routes = [], vh_cors = None\<rparr>,
      vx_route_map = [], vx_sha256 = ''in/a.b''\<rparr>]"
  by (simp add: build_vhosts_def sortStringKeys_def sorted_keys_def sample_xds_def routing_putPolicy_def
      newRouting_def add_policy_def vhost_name_def sample_policy_def sample_routing_env_def new_vhost_def
      makeCors_def vhx_hash_def to_lower_def lower_char_def)

theorem batch_publishes_routing_policies_witness:
  "\<exists>x'. xds_AfterBatch (sample_xds_env []) sample_xds = Done x' \<and>
    cache_contents VirtualHostType x' ''in/a.b'' = Some (XVirtualHost
      \<lparr>vh_name = ''in/a.b'', vh_domains = [''a.b''], vh_routes = [], vh_cors = None\<rparr>)"
proof -
  let ?E = "sample_xds_env []"
  have rt: "xe_routing ?E = sample_routing_env" by (simp add: sample_xds_env_def)
  have pub: "vhosts_published sample_xds"
    by (simp add: vhosts_published_def sample_xds_def new_xds_def cache_contents_def routing_putPolicy_def
        newRouting_def hosts_def fun_eq_iff)
  have v: "rg_virtual_hosts (xd_routing sample_xds) = Map.empty"
    by (simp add: sample_xds_def routing_putPolicy_def newRouting_def)
  have ex: "\<exists>x'. xds_AfterBatch ?E sample_xds = Done x'"
    using update_caches_quiet [of ?E]
    by (simp add: xds_AfterBatch_def with_tx_def sample_xds_def Let_def routing_take_def sample_xds_env_def)
  then obtain x' where x': "xds_AfterBatch ?E sample_xds = Done x'" ..
  have "cache_contents VirtualHostType x' = map_option XVirtualHost \<circ>
      hosts (build_vhosts (xe_routing ?E) (rg_resources (xd_routing sample_xds)))"
    using batch_publishes_routing_policies [OF pub x']
    by (simp add: rt sample_build v no_collision_def) (simp add: sample_xds_env_def enumerates_def all_types_enumerates)
  with x' show ?thesis by (simp add: rt sample_build hosts_def)
qed

theorem drop_depends_on_map_order_witness:
  "xds_OnDropped (sample_xds_env [EndpointType, ListenerType, ClusterType, VirtualHostType, RouteType])
    sample_xds (\<lparr>r_namespace = [], r_id = ''1'',
     r_name = [], r_spec = None, r_version = None\<rparr>) = Done sample_xds"
proof -
  let ?res = "\<lparr>r_namespace = [], r_id = ''1'', r_name = [], r_spec = None, r_version = None\<rparr>"
  obtain t where t: "xd_tx sample_xds = Some t" by (simp add: sample_xds_def)
  have h: "xd_instance_sets sample_xds (r_id ?res) = None" "xd_names sample_xds ListenerType (r_id ?res) = Some ''in''"
    "''in'' \<noteq> []" by (simp_all add: sample_xds_def new_xds_def)
  show ?thesis
    using drop_depends_on_map_order [OF t h, of "sample_xds_env [EndpointType, ListenerType, ClusterType, VirtualHostType, RouteType]"]
    by (simp add: sample_xds_env_def)
qed

end
