(* ===== verification/XdsSession.thy ===== *)
theory XdsSession
  imports XdsProps Sessions
begin

text \<open>
  The xDS server over a whole session: its routing policies and published virtual hosts as a
  function of the stream.
\<close>

section \<open>What a response makes of the routing policies\<close>

definition read_routing :: "xds_env \<Rightarrow> any_msg option \<Rightarrow> routing_policy option" where
  "read_routing E a = (case xe_unmarshal E a of
      Inr (Spec_NetworkingNode (Some (NetworkingNode_RoutingPolicy p))) \<Rightarrow> Some p
    | _ \<Rightarrow> None)"

abbreviation routing_step ::
    "xds_env \<Rightarrow> watch_response \<Rightarrow> (string \<rightharpoonup> routing_policy) \<Rightarrow> string \<rightharpoonup> routing_policy" where
  "routing_step E \<equiv> updates_then_drops (read_routing E)"

definition xds_reads :: "xds_env \<Rightarrow> resource \<Rightarrow> bool" where
  "xds_reads E x \<longleftrightarrow> (case xe_unmarshal E (r_spec x) of Inl e \<Rightarrow> False | Inr m \<Rightarrow> True)"

text \<open>
  The caches take every update, the loops visit every key of their maps once, and the loop of
  \<^verbatim>\<open>OnDropped\<close>, which may return at the endpoint type, visits the virtual hosts before it.
\<close>

definition hosts_first :: "xds_type list \<Rightarrow> bool" where
  "hosts_first tys \<longleftrightarrow> VirtualHostType \<in> set (takeWhile (\<lambda>t. t \<noteq> EndpointType) tys)"

definition xds_env_ok :: "xds_env \<Rightarrow> bool" where
  "xds_env_ok E \<longleftrightarrow> (\<forall>calls. xe_update E calls = None) \<and>
     (\<forall>x. distinct (xe_types E x) \<and> VirtualHostType \<in> set (xe_types E x) \<and> hosts_first (xe_drop_types E x) \<and>
       enumerates (xe_news E x) (build_vhosts (xe_routing E) (rg_resources (xd_routing x))) \<and>
       (finite (dom (rg_virtual_hosts (xd_routing x))) \<longrightarrow>
          enumerates (xe_olds E x) (rg_virtual_hosts (xd_routing x))))"

text \<open>No change of the policies leaves a virtual host with the hash of another one before it.\<close>

fun no_collisions :: "xds_env \<Rightarrow> (string \<rightharpoonup> routing_policy) \<Rightarrow> watch_response list \<Rightarrow> bool" where
  "no_collisions E R [] \<longleftrightarrow> True"
| "no_collisions E R (m # ms) \<longleftrightarrow>
     no_collision (build_vhosts (xe_routing E) R) (build_vhosts (xe_routing E) (routing_step E m R)) \<and>
     no_collisions E (routing_step E m R) ms"

section \<open>Inside a batch\<close>

text \<open>What the updates and drops of a batch leave alone.\<close>

definition same_hosts :: "xds \<Rightarrow> xds \<Rightarrow> bool" where
  "same_hosts x x' \<longleftrightarrow> xd_calls x' = xd_calls x \<and> rg_virtual_hosts (xd_routing x') = rg_virtual_hosts (xd_routing x) \<and>
     rg_updated (xd_routing x') = rg_updated (xd_routing x) \<and> rg_dropped (xd_routing x') = rg_dropped (xd_routing x)"

lemma same_hosts_refl [simp]: "same_hosts x x"
  by (simp add: same_hosts_def)

lemma same_hosts_trans: "same_hosts x y \<Longrightarrow> same_hosts y z \<Longrightarrow> same_hosts x z"
  by (simp add: same_hosts_def)

lemma same_hosts_order: "reflp same_hosts" "transp same_hosts"
  by (auto intro: reflpI transpI same_hosts_trans)

lemma same_hosts_published: "same_hosts x x' \<Longrightarrow> vhosts_published x \<Longrightarrow> vhosts_published x'"
  by (simp add: same_hosts_def vhosts_published_cong)

lemma add_instances_routing:
  "xd_routing (fst (foldl (add_instances E i insts) s names)) = xd_routing (fst s) \<and>
    xd_calls (fst (foldl (add_instances E i insts) s names)) = xd_calls (fst s)"
  by (induction names arbitrary: s) (auto simp: add_instances_def Let_def split: prod.splits)

lemma OnUpdated_routing:
  assumes "xds_in_batch x" and "xds_reads E res"
  shows "\<exists>x'. xds_OnUpdated E x res = Done x' \<and> xds_in_batch x' \<and> same_hosts x x' \<and>
    rg_resources (xd_routing x') = note_spec (read_routing E) res (rg_resources (xd_routing x))"
proof -
  from assms(1) obtain t where t: "xd_tx x = Some t" by (auto simp: xds_in_batch_def)
  from assms(2) obtain m where m: "xe_unmarshal E (r_spec res) = Inr m"
    by (auto simp: xds_reads_def split: sum.splits)
  have inst: "\<exists>x'. (let (x, t) = foldl (add_instances E i insts) (x, t) names in Done (x\<lparr>xd_tx := Some t\<rparr>)) = Done x' \<and>
      xds_in_batch x' \<and> same_hosts x x' \<and> rg_resources (xd_routing x') = rg_resources (xd_routing x)" for i insts names
    using add_instances_routing [of E i insts "(x, t)" names]
    by (cases "foldl (add_instances E i insts) (x, t) names") (simp add: xds_in_batch_def same_hosts_def)
  show ?thesis
    using inst m t assms(1)
    by (auto simp: xds_OnUpdated_def note_spec_def read_routing_def with_tx_def xds_in_batch_def same_hosts_def
        set_name_def routing_putPolicy_def fromHttpIngress_def Let_def
        split: spec_message.splits option.splits networking_node.splits)
qed

lemma drop_types_routing:
  "same_hosts x (fst (drop_types i tys (x, t))) \<and>
    (hosts_first tys \<or> rg_resources (xd_routing x) i = None \<longrightarrow>
      rg_resources (xd_routing (fst (drop_types i tys (x, t)))) = (rg_resources (xd_routing x))(i := None))"
proof (induction tys arbitrary: x t)
  case Nil
  then show ?case by (auto simp: hosts_first_def)
next
  case (Cons ty tys)
  show ?case
  proof (cases ty)
    case EndpointType
    show ?thesis
    proof (cases "xd_instance_sets x i")
      case None
      with EndpointType show ?thesis by (auto simp: hosts_first_def)
    next
      case (Some l)
      with EndpointType Cons.IH [of x "to_delete EndpointType l t"] show ?thesis by (auto simp: hosts_first_def)
    qed
  next
    case VirtualHostType
    let ?x = "x\<lparr>xd_routing := routing_dropPolicy i (xd_routing x)\<rparr>"
    have "same_hosts x ?x" "rg_resources (xd_routing ?x) = (rg_resources (xd_routing x))(i := None)"
      by (simp_all add: same_hosts_def routing_dropPolicy_def)
    with Cons.IH [of ?x t] VirtualHostType show ?thesis by (auto intro: same_hosts_trans)
  qed (use Cons.IH in \<open>auto simp: hosts_first_def idName_Delete_def same_hosts_def Let_def split: prod.splits\<close>)
qed

lemma OnDropped_routing:
  assumes "xds_in_batch x" and "xds_env_ok E"
  shows "\<exists>x'. xds_OnDropped E x res = Done x' \<and> xds_in_batch x' \<and> same_hosts x x' \<and>
    rg_resources (xd_routing x') = (rg_resources (xd_routing x))(r_id res := None)"
proof -
  from assms(1) obtain t where t: "xd_tx x = Some t" by (auto simp: xds_in_batch_def)
  have "hosts_first (xe_drop_types E x)" using assms(2) by (simp add: xds_env_ok_def)
  with drop_types_routing [of x "r_id res" "xe_drop_types E x" t]
  show ?thesis
    by (cases "drop_types (r_id res) (xe_drop_types E x) (x, t)")
      (simp add: xds_OnDropped_def with_tx_def t xds_in_batch_def same_hosts_def)
qed

section \<open>A batch\<close>

text \<open>Between batches: the hosts are published and are those built from the policies.\<close>

definition xds_at_rest :: "xds_env \<Rightarrow> xds \<Rightarrow> bool" where
  "xds_at_rest E x \<longleftrightarrow> vhosts_published x \<and>
     rg_virtual_hosts (xd_routing x) = build_vhosts (xe_routing E) (rg_resources (xd_routing x))"

lemma finite_build_vhosts: "finite (dom (build_vhosts E R))"
proof -
  have "finite (dom m) \<Longrightarrow> finite (dom (foldl (\<lambda>m k. case R k of None \<Rightarrow> m | Some p \<Rightarrow> add_policy E m p) m ks))" for m ks
    by (induction ks arbitrary: m) (auto simp: add_policy_def Let_def split: option.splits)
  from this [of Map.empty] show ?thesis by (simp add: build_vhosts_def)
qed

lemma xds_response:
  assumes ok: "xds_env_ok E" and rest: "xds_at_rest E (Handler rss)" and m: "response_ok (xds_reads E) m"
    and nc: "no_collision (build_vhosts (xe_routing E) (rg_resources (xd_routing (Handler rss))))
      (build_vhosts (xe_routing E) (routing_step E m (rg_resources (xd_routing (Handler rss)))))"
  shows "\<exists>r. handle_response (xds_handler E) rss m = Done r \<and> xds_at_rest E (Handler r) \<and>
    rg_resources (xd_routing (Handler r)) = routing_step E m (rg_resources (xd_routing (Handler rss)))"
proof (cases "wr_end_of_list m")
  case True
  then show ?thesis using rest
    by (intro exI [of _ rss]) (simp add: handle_response_def xds_handler_def xds_OnEndOfPage_def lift_eff_def updates_then_drops_def)
next
  case False
  let ?R = "rg_resources (xd_routing (Handler rss))"
  have ups: "\<forall>x \<in> set (wr_updated m). r_version x \<noteq> None \<and> xds_reads E x"
    and drs: "\<forall>x \<in> set (wr_dropped m). r_version x \<noteq> None \<and> xds_reads E x"
    using m by (auto simp: response_ok_def list_all_iff)
  obtain x0 where x0: "xds_BeforeBatch (Handler rss) = Done x0" "xds_in_batch x0" "same_hosts (Handler rss) x0"
      "rg_resources (xd_routing x0) = ?R"
    by (simp add: xds_BeforeBatch_def xds_in_batch_def same_hosts_def)
  let ?r0 = "rss\<lparr>Handler := x0\<rparr>"
  from note_loop [where I = xds_in_batch and R = same_hosts and t = "\<lambda>x. rg_resources (xd_routing x)" and rss = ?r0
      and f = "xds_OnUpdated E" and g = "note_spec (read_routing E)", OF ups _ same_hosts_order OnUpdated_routing] x0(2)
  obtain c1 x1 where x1: "for_each (note_resource (xds_OnUpdated E)) (wr_updated m) ?r0 =
        Done (?r0\<lparr>IndexCursor := c1, Handler := x1\<rparr>)" "xds_in_batch x1" "same_hosts x0 x1"
      "rg_resources (xd_routing x1) = fold (note_spec (read_routing E)) (wr_updated m) ?R" using x0(4) by auto
  let ?r1 = "?r0\<lparr>IndexCursor := c1, Handler := x1\<rparr>"
  from note_loop [where I = xds_in_batch and R = same_hosts and t = "\<lambda>x. rg_resources (xd_routing x)" and rss = ?r1
      and f = "xds_OnDropped E" and g = "\<lambda>x m. m(r_id x := None)", OF drs _ same_hosts_order OnDropped_routing [OF _ ok]] x1(2)
  obtain c2 x2 where x2: "for_each (note_resource (xds_OnDropped E)) (wr_dropped m) ?r1 =
        Done (?r1\<lparr>IndexCursor := c2, Handler := x2\<rparr>)" "xds_in_batch x2" "same_hosts x1 x2"
      "rg_resources (xd_routing x2) = fold (\<lambda>x m. m(r_id x := None)) (wr_dropped m) (rg_resources (xd_routing x1))" by auto
  have R: "rg_resources (xd_routing x2) = routing_step E m ?R"
    using updates_then_drops_fold [OF False, of "read_routing E" ?R] by (simp add: x2(4) x1(4))
  have same: "same_hosts (Handler rss) x2" using x0(3) x1(3) x2(3) by (blast intro: same_hosts_trans)
  have pub: "vhosts_published x2" using same_hosts_published [OF same] rest by (simp add: xds_at_rest_def)
  have vh: "rg_virtual_hosts (xd_routing x2) = build_vhosts (xe_routing E) ?R"
    using same rest by (simp add: same_hosts_def xds_at_rest_def)
  from x2(2) obtain t where t: "xd_tx x2 = Some t" by (auto simp: xds_in_batch_def)
  have "xe_update E calls = None" for calls using ok by (simp add: xds_env_ok_def)
  from update_caches_quiet [OF this] have "\<exists>x3. xds_AfterBatch E x2 = Done x3"
    by (simp add: xds_AfterBatch_def with_tx_def t routing_take_def Let_def)
  then obtain x3 where x3: "xds_AfterBatch E x2 = Done x3" ..
  have "finite (dom (rg_virtual_hosts (xd_routing x2)))" by (simp add: vh finite_build_vhosts)
  with ok have env: "distinct (xe_types E x2)" "VirtualHostType \<in> set (xe_types E x2)"
      "enumerates (xe_olds E x2) (rg_virtual_hosts (xd_routing x2))"
      "enumerates (xe_news E x2) (build_vhosts (xe_routing E) (rg_resources (xd_routing x2)))"
    by (simp_all add: xds_env_ok_def)
  have "no_collision (rg_virtual_hosts (xd_routing x2)) (build_vhosts (xe_routing E) (rg_resources (xd_routing x2)))"
    using nc by (simp add: vh R)
  with published_after_batch [OF pub x3 env] have "xds_at_rest E x3" "rg_resources (xd_routing x3) = routing_step E m ?R"
    by (simp_all add: xds_at_rest_def R)
  moreover have "handle_response (xds_handler E) rss m = Done (?r1\<lparr>IndexCursor := c2, Handler := x3\<rparr>)"
    using False x0(1) x1(1) x2(1) x3 by (simp add: handle_response_def xds_handler_def lift_eff_def)
  ultimately show ?thesis by auto
qed

section \<open>A session\<close>

lemma xds_responses:
  assumes "xds_env_ok E"
  shows "xds_at_rest E (Handler rss) \<Longrightarrow> list_all (response_ok (xds_reads E)) ms \<Longrightarrow>
    no_collisions E (rg_resources (xd_routing (Handler rss))) ms \<Longrightarrow>
    \<exists>r. handle_all (xds_handler E) ms rss = Done r \<and> xds_at_rest E (Handler r) \<and>
      rg_resources (xd_routing (Handler r)) = fold (routing_step E) ms (rg_resources (xd_routing (Handler rss)))"
proof (induction ms arbitrary: rss)
  case Nil
  then show ?case by (simp add: handle_all_def)
next
  case (Cons m ms)
  from xds_response [OF assms Cons.prems(1), of m] Cons.prems(2,3) obtain r1 where
    1: "handle_response (xds_handler E) rss m = Done r1" "xds_at_rest E (Handler r1)"
      "rg_resources (xd_routing (Handler r1)) = routing_step E m (rg_resources (xd_routing (Handler rss)))" by auto
  from Cons.IH [OF 1(2)] Cons.prems(2,3) 1 show ?case by (auto simp: handle_all_def)
qed

lemma build_vhosts_empty: "build_vhosts E Map.empty = Map.empty"
proof -
  have "foldl (\<lambda>m k. m) m ks = m" for m :: "string \<rightharpoonup> virtualHostExt" and ks :: "string list"
    by (induction ks) simp_all
  then show ?thesis by (simp add: build_vhosts_def)
qed

lemma new_xds_at_rest: "xds_at_rest E new_xds" "rg_resources (xd_routing new_xds) = Map.empty"
  by (simp_all add: xds_at_rest_def vhosts_published_def new_xds_def newRouting_def cache_contents_def hosts_def
      build_vhosts_empty fun_eq_iff)

abbreviation start_xds :: "xds synchronizer" where
  "start_xds \<equiv> \<lparr>IndexCursor = 0, Handler = new_xds\<rparr>"

lemma xds_session:
  assumes "xds_env_ok E" and "list_all (response_ok (xds_reads E)) ms" and "no_collisions E Map.empty ms"
  shows "\<exists>r. handle_all (xds_handler E) ms start_xds = Done r \<and>
    rg_resources (xd_routing (Handler r)) = fold (routing_step E) ms Map.empty \<and>
    cache_contents VirtualHostType (Handler r) = map_option XVirtualHost \<circ>
      hosts (build_vhosts (xe_routing E) (fold (routing_step E) ms Map.empty))"
proof -
  from xds_responses [OF assms(1), of start_xds ms] assms(2,3) new_xds_at_rest obtain r where
    "handle_all (xds_handler E) ms start_xds = Done r" "xds_at_rest E (Handler r)"
    "rg_resources (xd_routing (Handler r)) = fold (routing_step E) ms Map.empty" by auto
  then show ?thesis by (auto simp: xds_at_rest_def vhosts_published_def)
qed

section \<open>Properties\<close>

text \<open>
  The virtual hosts published after any session are a function of the stream alone: those built
  from the routing policies that remain when each response stores what it updates and then
  removes what it drops. This needs caches that take the updates, specs that can be read, no two
  consecutive hosts of one name with one hash, and a loop in \<^verbatim>\<open>OnDropped\<close> that comes to the
  virtual hosts before it returns at the endpoints.
\<close>

theorem xds_publishes_stream:
  assumes "xds_env_ok E" and "list_all (response_ok (xds_reads E)) ms" and "no_collisions E Map.empty ms"
  shows "\<exists>r. handle_all (xds_handler E) ms start_xds = Done r \<and>
    rg_resources (xd_routing (Handler r)) = fold (routing_step E) ms Map.empty \<and>
    cache_contents VirtualHostType (Handler r) = map_option XVirtualHost \<circ>
      hosts (build_vhosts (xe_routing E) (fold (routing_step E) ms Map.empty))"
  by (rule xds_session [OF assms])

text \<open>
  A policy that is dropped and put again within one page of events is gone: the response
  carries updates and drops apart and the server handles the drops last.
\<close>

theorem dropped_and_put_again_is_gone:
  assumes "xds_env_ok E" and "list_all (response_ok (xds_reads E)) (ms @ [m])" and "no_collisions E Map.empty (ms @ [m])"
    and "\<not> wr_end_of_list m" and "x \<in> set (wr_dropped m)" and "y \<in> set (wr_updated m)" and "r_id y = r_id x"
  shows "\<exists>r. handle_all (xds_handler E) (ms @ [m]) start_xds = Done r \<and>
    rg_resources (xd_routing (Handler r)) (r_id y) = None"
proof -
  from xds_session [OF assms(1-3)] obtain r where "handle_all (xds_handler E) (ms @ [m]) start_xds = Done r"
    "rg_resources (xd_routing (Handler r)) = routing_step E m (fold (routing_step E) ms Map.empty)" by auto
  moreover have "routing_step E m R (r_id y) = None" for R
    using assms(4,5,7) by (auto simp: updates_then_drops_def restrict_map_def)
  ultimately show ?thesis by auto
qed

section \<open>Witnesses\<close>

text \<open>Every resource holds the sample policy; the loops go through their maps in order.\<close>

definition sample_follower :: xds_env where
  "sample_follower = (sample_xds_env [ListenerType, RouteType, ClusterType, VirtualHostType, EndpointType])
     \<lparr>xe_unmarshal := (\<lambda>a. Inr (Spec_NetworkingNode (Some (NetworkingNode_RoutingPolicy sample_policy)))),
      xe_olds := (\<lambda>x. sorted_keys (rg_virtual_hosts (xd_routing x))),
      xe_news := (\<lambda>x. sorted_keys (build_vhosts sample_routing_env (rg_resources (xd_routing x))))\<rparr>"

lemma sample_follower_ok: "xds_env_ok sample_follower" "xe_routing sample_follower = sample_routing_env"
  by (simp_all add: xds_env_ok_def sample_follower_def sample_xds_env_def all_types_enumerates hosts_first_def
      sorted_keys_enumerates finite_build_vhosts)

lemma sample_follower_reads: "xds_reads sample_follower x" "read_routing sample_follower a = Some sample_policy"
  by (simp_all add: xds_reads_def read_routing_def sample_follower_def)

definition sample_node :: resource where
  "sample_node = \<lparr>r_namespace = [], r_id = ''1'', r_name = [], r_spec = None,
     r_version = Some \<lparr>v_sha256_hash = [], v_timestamp = \<lparr>t_unix = 0, t_nsec = 0\<rparr>, v_index = 1\<rparr>\<rparr>"

theorem xds_publishes_stream_witness:
  "\<exists>r. handle_all (xds_handler sample_follower) [\<lparr>wr_updated = [sample_node], wr_dropped = [], wr_end_of_list = False\<rparr>]
      start_xds = Done r \<and>
    cache_contents VirtualHostType (Handler r) ''in/a.b'' = Some (XVirtualHost
      \<lparr>vh_name = ''in/a.b'', vh_domains = [''a.b''], vh_routes = [], vh_cors = None\<rparr>)"
proof -
  let ?m = "\<lparr>wr_updated = [sample_node], wr_dropped = [], wr_end_of_list = False\<rparr>"
  have R: "fold (routing_step sample_follower) [?m] Map.empty = rg_resources (xd_routing sample_xds)"
    by (simp add: updates_then_drops_def policies_of_def note_spec_def sample_follower_reads sample_node_def
        sample_xds_def routing_putPolicy_def newRouting_def restrict_map_UNIV)
  have "list_all (response_ok (xds_reads sample_follower)) [?m]" "no_collisions sample_follower Map.empty [?m]"
    by (simp_all add: response_ok_def sample_follower_reads sample_node_def no_collision_def build_vhosts_empty)
  from xds_publishes_stream [OF sample_follower_ok(1) this, unfolded R sample_follower_ok(2) sample_build]
  show ?thesis by (auto simp: hosts_def)
qed

theorem dropped_and_put_again_is_gone_witness:
  "\<exists>r. handle_all (xds_handler sample_follower) [\<lparr>wr_updated = [sample_node], wr_dropped = [sample_node],
      wr_end_of_list = False\<rparr>] start_xds = Done r \<and> rg_resources (xd_routing (Handler r)) ''1'' = None"
  using dropped_and_put_again_is_gone [OF sample_follower_ok(1), of "[]"
      "\<lparr>wr_updated = [sample_node], wr_dropped = [sample_node], wr_end_of_list = False\<rparr>" sample_node sample_node]
  by (simp add: response_ok_def sample_follower_reads sample_node_def no_collision_def build_vhosts_empty)

end
