(* ===== verification/WorkerSession.thy ===== *)
theory WorkerSession
  imports Worker Sessions
begin

text \<open>
  The worker over a whole session: its triggers as a function of the stream, and what it starts at
  the end of each page.
\<close>

section \<open>What a response makes of the triggers\<close>

definition read_trigger :: "'a worker_env \<Rightarrow> any_msg option \<Rightarrow> trigger option" where
  "read_trigger E a = (case we_unmarshal E a of Inr (Spec_Process proc) \<Rightarrow> GetTrigger (Some proc) | _ \<Rightarrow> None)"

text \<open>A trigger that can be dropped without an error: a workflow id and an action on drop.\<close>

definition droppable :: "trigger \<Rightarrow> bool" where
  "droppable t \<longleftrightarrow> tr_on_drop t \<noteq> None \<and> (case tr_id_suffix t of None \<Rightarrow> False
     | Some (Trigger_ExactIdSuffix s) \<Rightarrow> True
     | Some (Trigger_IdSuffixBuilder b) \<Rightarrow> b \<in> {ID_BUILDER_ONLY_PREFIX, ID_BUILDER_RANDOM, ID_BUILDER_UNIQUE})"

definition worker_takes :: "'a worker_env \<Rightarrow> resource \<Rightarrow> bool" where
  "worker_takes E x \<longleftrightarrow> (case we_unmarshal E (r_spec x) of Inl e \<Rightarrow> False
     | Inr (Spec_Process proc) \<Rightarrow> (case GetTrigger (Some proc) of None \<Rightarrow> False | Some t \<Rightarrow> droppable t)
     | Inr _ \<Rightarrow> True)"

text \<open>
  Random ids can be drawn, Temporal takes the calls a drop makes, and the loop over the triggers
  visits each once.
\<close>

definition worker_env_ok :: "'a worker_env \<Rightarrow> ('a worker \<Rightarrow> string list) \<Rightarrow> bool" where
  "worker_env_ok E ord \<longleftrightarrow> (\<forall>n. \<exists>u. we_random E n = Inr u) \<and>
     (\<forall>calls i. we_result E calls (CancelWorkflow i) = None) \<and>
     (\<forall>calls i why. we_result E calls (TerminateWorkflow i why) = None) \<and>
     (\<forall>w. finite (dom (wk_triggers w)) \<longrightarrow> enumerates (ord w) (wk_triggers w))"

text \<open>The workflows started by a list of calls, and those a trigger starts.\<close>

definition executions :: "'a temporal_call list \<Rightarrow> (string \<times> string \<times> 'a list) list" where
  "executions calls = List.map_filter (\<lambda>c. case c of ExecuteWorkflow opts name args \<Rightarrow>
     Some (so_task_queue opts, name, args) | _ \<Rightarrow> None) calls"

definition starts :: "'a worker_env \<Rightarrow> trigger \<Rightarrow> (string \<times> string \<times> 'a list) list" where
  "starts E t = (case we_json E (tr_json_arguments t) of Inl e \<Rightarrow> []
     | Inr args \<Rightarrow> [(tr_task_queue t, tr_name t, args)])"

lemma executions_simps [simp]:
  "executions [] = []" "executions (xs @ ys) = executions xs @ executions ys"
  "executions (DescribeWorkflow i # xs) = executions xs"
  "executions (ExecuteWorkflow opts name args # xs) = (so_task_queue opts, name, args) # executions xs"
  by (simp_all add: executions_def List.map_filter_def)

section \<open>One trigger\<close>

lemma id_of_droppable:
  assumes "droppable t" and "worker_env_ok E ord"
  shows "\<exists>i n'. workflowIdFromTrigger E t n = (Inr i, n')"
proof -
  from assms(2) have "\<exists>u. we_random E n = Inr u" by (simp add: worker_env_ok_def)
  then obtain u where "we_random E n = Inr u" ..
  with assms(1) show ?thesis
    by (auto simp: droppable_def workflowIdFromTrigger_def trigger_enum_defs
        split: option.splits trigger_id_suffix.splits)
qed

lemma trigger_one_starts:
  assumes "droppable t" and "worker_env_ok E ord" and "wk_triggers w k = Some (Some t)"
  shows "\<exists>w' l. trigger_one E w k = Done w' \<and> wk_triggers w' = wk_triggers w \<and>
    wk_calls w' = wk_calls w @ l \<and> executions l = starts E t"
proof -
  from id_of_droppable [OF assms(1,2)] obtain i n where
    i: "workflowIdFromTrigger E t (wk_randoms w) = (Inr i, n)" by blast
  obtain opts where o: "triggerToWorkflowStartOptions E t (wk_randoms w) = (Inr opts, n)"
    "so_task_queue opts = tr_task_queue t" using i by (simp add: triggerToWorkflowStartOptions_def)
  obtain e opts' w1 where c: "checkIfIsRunning E t opts (w\<lparr>wk_randoms := n\<rparr>) = (e, opts', w1)"
    by (metis prod_cases3)
  then have w1: "so_task_queue opts' = so_task_queue opts" "wk_triggers w1 = wk_triggers w"
    "wk_calls w1 = wk_calls w @ [DescribeWorkflow (so_id opts)]"
    by (auto simp: checkIfIsRunning_def Let_def split: describe_result.splits option.splits if_splits)
  show ?thesis
  proof (cases "we_json E (tr_json_arguments t)")
    case (Inl err)
    with c o(1) w1 show ?thesis by (simp add: trigger_one_def assms(3) Trigger_def starts_def)
  next
    case (Inr args)
    have t: "Trigger E (Some t) w = temporal E (ExecuteWorkflow opts' (tr_name t) args) w1"
      using c o(1) Inr by (simp add: Trigger_def)
    show ?thesis using w1 o(2) Inr
      by (cases "we_result E (wk_calls w1) (ExecuteWorkflow opts' (tr_name t) args)")
        (simp_all add: trigger_one_def assms(3) t temporal_def Let_def starts_def)
  qed
qed

section \<open>A response\<close>

text \<open>The state holds the triggers of a table, each of which can be dropped.\<close>

definition trigger_table :: "'a worker \<Rightarrow> string \<rightharpoonup> trigger" where
  "trigger_table w = (\<lambda>k. case wk_triggers w k of None \<Rightarrow> None | Some tp \<Rightarrow> tp)"

definition worker_inv :: "'a worker \<Rightarrow> bool" where
  "worker_inv w \<longleftrightarrow> worker_ok w \<and> finite (dom (wk_triggers w)) \<and> (\<forall>t \<in> ran (trigger_table w). droppable t)"

lemma worker_inv_at:
  assumes "worker_inv w" and "wk_triggers w k = Some tp"
  shows "\<exists>t. tp = Some t \<and> trigger_table w k = Some t \<and> droppable t"
proof -
  have "worker_ok w" using assms(1) by (simp add: worker_inv_def)
  from worker_okD [OF this assms(2)] obtain t where t: "tp = Some t" ..
  with assms have "trigger_table w k = Some t" by (simp add: trigger_table_def)
  with assms(1) t show ?thesis by (auto simp: worker_inv_def ran_def)
qed

lemma trigger_table_dom: "worker_inv w \<Longrightarrow> dom (trigger_table w) = dom (wk_triggers w)"
  by (auto simp: trigger_table_def dom_def split: option.splits dest: worker_inv_at)

lemma worker_inv_cong:
  "wk_triggers w' = wk_triggers w \<Longrightarrow> worker_inv w \<Longrightarrow> worker_inv w' \<and> trigger_table w' = trigger_table w"
  by (simp add: worker_inv_def worker_ok_def trigger_table_def)

lemma worker_inv_upd:
  assumes "worker_inv w" and "droppable t" and "wk_triggers w' = (wk_triggers w)(k \<mapsto> Some t)"
  shows "worker_inv w' \<and> trigger_table w' = (trigger_table w)(k \<mapsto> t)"
proof -
  have t: "trigger_table w' = (trigger_table w)(k \<mapsto> t)" by (simp add: trigger_table_def assms(3) fun_eq_iff)
  with assms show ?thesis by (auto simp: worker_inv_def worker_ok_def ran_def)
qed

lemma worker_inv_del:
  assumes "worker_inv w" and "wk_triggers w' = (wk_triggers w)(k := None)"
  shows "worker_inv w' \<and> trigger_table w' = (trigger_table w)(k := None)"
proof -
  have t: "trigger_table w' = (trigger_table w)(k := None)" by (simp add: trigger_table_def assms(2) fun_eq_iff)
  with assms show ?thesis by (auto simp: worker_inv_def worker_ok_def ran_def)
qed

lemma OnUpdated_triggers:
  assumes "worker_inv w" and "worker_takes E x"
  shows "\<exists>w'. worker_OnUpdated E w x = Done w' \<and> worker_inv w' \<and>
    trigger_table w' = note_spec (read_trigger E) x (trigger_table w)"
proof -
  from assms(2) obtain m where m: "we_unmarshal E (r_spec x) = Inr m"
    by (auto simp: worker_takes_def split: sum.splits)
  show ?thesis
  proof (cases m)
    case (Spec_Process proc)
    with m assms(2) obtain t where t: "GetTrigger (Some proc) = Some t" "droppable t"
      by (auto simp: worker_takes_def split: option.splits)
    let ?w = "w\<lparr>wk_triggers := (wk_triggers w)(r_id x \<mapsto> Some t)\<rparr>"
    have "worker_inv ?w \<and> trigger_table ?w = (trigger_table w)(r_id x \<mapsto> t)"
      by (rule worker_inv_upd [OF assms(1) t(2)]) simp
    with t(1) m Spec_Process show ?thesis
      by (simp add: worker_OnUpdated_def note_spec_def read_trigger_def)
  qed (use m assms(1) in \<open>auto simp: worker_OnUpdated_def note_spec_def read_trigger_def\<close>)
qed

lemma OnDropped_triggers:
  assumes "worker_inv w" and "worker_env_ok E ord"
  shows "\<exists>w'. worker_OnDropped E w x = Done w' \<and> worker_inv w' \<and>
    trigger_table w' = (trigger_table w)(r_id x := None)"
proof (cases "wk_triggers w (r_id x)")
  case None
  then have "trigger_table w (r_id x) = None" by (simp add: trigger_table_def)
  with None assms(1) show ?thesis by (simp add: worker_OnDropped_def fun_upd_idem)
next
  case (Some tp)
  from worker_inv_at [OF assms(1) this] obtain t where t: "tp = Some t" "droppable t" by blast
  from t(2) obtain a where a: "tr_on_drop t = Some a" by (auto simp: droppable_def)
  from id_of_droppable [OF t(2) assms(2)] obtain i n where i: "workflowIdFromTrigger E t (wk_randoms w) = (Inr i, n)"
    by blast
  have "\<exists>w'. worker_OnDropped E w x = Done w' \<and> wk_triggers w' = (wk_triggers w)(r_id x := None)"
    using assms(2) by (simp add: worker_OnDropped_def Some t(1) a i Let_def temporal_def worker_env_ok_def)
  with worker_inv_del [OF assms(1)] show ?thesis by blast
qed

lemma triggers_loop:
  assumes "worker_env_ok E ord" and "worker_inv w" and "set ks \<subseteq> dom (trigger_table w)"
  shows "\<exists>w' l. for_each (trigger_one E) ks w = Done w' \<and> wk_triggers w' = wk_triggers w \<and>
    wk_calls w' = wk_calls w @ l \<and> executions l = concat (map (\<lambda>k. starts E (the (trigger_table w k))) ks)"
  using assms(2,3)
proof (induction ks arbitrary: w)
  case Nil
  then show ?case by simp
next
  case (Cons k ks)
  from Cons.prems obtain tp where "wk_triggers w k = Some tp"
    by (auto simp: trigger_table_def split: option.splits)
  with worker_inv_at [OF Cons.prems(1) this] obtain t where
    t: "wk_triggers w k = Some (Some t)" "trigger_table w k = Some t" "droppable t" by blast
  from trigger_one_starts [OF t(3) assms(1) t(1)] obtain w1 l1 where
    1: "trigger_one E w k = Done w1" "wk_triggers w1 = wk_triggers w" "wk_calls w1 = wk_calls w @ l1"
      "executions l1 = starts E t" by blast
  from worker_inv_cong [OF 1(2) Cons.prems(1)] have i: "worker_inv w1" "trigger_table w1 = trigger_table w" by auto
  from Cons.IH [OF i(1)] Cons.prems(2) i(2) obtain w2 l2 where
    "for_each (trigger_one E) ks w1 = Done w2" "wk_triggers w2 = wk_triggers w1" "wk_calls w2 = wk_calls w1 @ l2"
    "executions l2 = concat (map (\<lambda>k. starts E (the (trigger_table w k))) ks)" by auto
  with 1 t(2) show ?case by (intro exI [of _ w2] exI [of _ "l1 @ l2"]) simp
qed

lemma worker_response:
  assumes ok: "worker_env_ok E ord" and inv: "worker_inv (Handler rss)" and m: "response_ok (worker_takes E) m"
  shows "\<exists>r. handle_response (worker_handler E ord) rss m = Done r \<and> worker_inv (Handler r) \<and>
    trigger_table (Handler r) = updates_then_drops (read_trigger E) m (trigger_table (Handler rss))"
proof (cases "wr_end_of_list m")
  case True
  let ?w = "Handler rss"
  have "finite (dom (wk_triggers ?w))" using inv by (simp add: worker_inv_def)
  with ok have "set (ord ?w) = dom (trigger_table ?w)"
    by (simp add: worker_env_ok_def enumerates_def trigger_table_dom [OF inv])
  with triggers_loop [OF ok inv, of "ord ?w"] obtain w' where
    w': "for_each (trigger_one E) (ord ?w) ?w = Done w'" "wk_triggers w' = wk_triggers ?w" by auto
  with True worker_inv_cong [OF w'(2) inv] show ?thesis
    by (simp add: handle_response_def worker_handler_def worker_OnEndOfPage_def lift_eff_def updates_then_drops_def)
next
  case False
  let ?E = "\<lambda>(s :: 'a worker) (s' :: 'a worker). True"
  have R: "reflp ?E" "transp ?E" by (simp_all add: reflp_def transp_def)
  have ups: "\<forall>x \<in> set (wr_updated m). r_version x \<noteq> None \<and> worker_takes E x"
    and drs: "\<forall>x \<in> set (wr_dropped m). r_version x \<noteq> None \<and> True"
    using m by (auto simp: response_ok_def list_all_iff)
  have up: "\<exists>w'. worker_OnUpdated E w x = Done w' \<and> worker_inv w' \<and> ?E w w' \<and>
      trigger_table w' = note_spec (read_trigger E) x (trigger_table w)" if "worker_inv w" "worker_takes E x" for w x
    using OnUpdated_triggers [OF that] by simp
  have dr: "\<exists>w'. worker_OnDropped E w x = Done w' \<and> worker_inv w' \<and> ?E w w' \<and>
      trigger_table w' = (trigger_table w)(r_id x := None)" if "worker_inv w" True for w x
    using OnDropped_triggers [OF that(1) ok] by simp
  from note_loop [where A = "worker_takes E" and R = ?E and I = worker_inv and t = trigger_table
      and g = "note_spec (read_trigger E)", OF ups inv R up]
  obtain c1 w1 where 1: "for_each (note_resource (worker_OnUpdated E)) (wr_updated m) rss =
        Done (rss\<lparr>IndexCursor := c1, Handler := w1\<rparr>)" "worker_inv w1"
      "trigger_table w1 = fold (note_spec (read_trigger E)) (wr_updated m) (trigger_table (Handler rss))" by auto
  let ?r1 = "rss\<lparr>IndexCursor := c1, Handler := w1\<rparr>"
  from note_loop [where A = "\<lambda>_. True" and R = ?E and I = worker_inv and t = trigger_table and rss = ?r1
      and g = "\<lambda>x m. m(r_id x := None)", OF drs _ R dr] 1(2)
  obtain c2 w2 where 2: "for_each (note_resource (worker_OnDropped E)) (wr_dropped m) ?r1 =
        Done (?r1\<lparr>IndexCursor := c2, Handler := w2\<rparr>)" "worker_inv w2"
      "trigger_table w2 = fold (\<lambda>x m. m(r_id x := None)) (wr_dropped m) (trigger_table w1)" by auto
  have "handle_response (worker_handler E ord) rss m = Done (?r1\<lparr>IndexCursor := c2, Handler := w2\<rparr>)"
    using False 1(1) 2(1)
    by (cases rss) (simp add: handle_response_def worker_handler_def lift_eff_def worker_BeforeBatch_def worker_AfterBatch_def)
  with 2 1(3) updates_then_drops_fold [OF False, of "read_trigger E"] show ?thesis by auto
qed

section \<open>A session\<close>

lemma worker_responses:
  assumes "worker_env_ok E ord"
  shows "worker_inv (Handler rss) \<Longrightarrow> list_all (response_ok (worker_takes E)) ms \<Longrightarrow>
    \<exists>r. handle_all (worker_handler E ord) ms rss = Done r \<and> worker_inv (Handler r) \<and>
      trigger_table (Handler r) = fold (updates_then_drops (read_trigger E)) ms (trigger_table (Handler rss))"
proof (induction ms arbitrary: rss)
  case Nil
  then show ?case by (simp add: handle_all_def)
next
  case (Cons m ms)
  from worker_response [OF assms Cons.prems(1), of m] Cons.prems(2) obtain r1 where
    1: "handle_response (worker_handler E ord) rss m = Done r1" "worker_inv (Handler r1)"
      "trigger_table (Handler r1) = updates_then_drops (read_trigger E) m (trigger_table (Handler rss))" by auto
  from Cons.IH [OF 1(2)] Cons.prems(2) 1 show ?case by (auto simp: handle_all_def)
qed

abbreviation start_worker :: "'a worker synchronizer" where
  "start_worker \<equiv> \<lparr>IndexCursor = 0, Handler = new_worker\<rparr>"

lemma new_worker_inv: "worker_inv new_worker" "trigger_table new_worker = Map.empty"
  by (simp_all add: worker_inv_def worker_ok_def trigger_table_def new_worker_def)

text \<open>
  A session that ends with a mark: the triggers are those of the stream, and what the mark made
  the worker start is what these triggers start, each once.
\<close>

lemma worker_session:
  fixes E :: "'a worker_env"
  assumes ok: "worker_env_ok E ord" and ms: "list_all (response_ok (worker_takes E)) (ms @ [m])" and m: "wr_end_of_list m"
    and T: "T = fold (updates_then_drops (read_trigger E)) (ms @ [m]) Map.empty"
  shows "\<exists>r before new ks. handle_all (worker_handler E ord) ms start_worker = Done before \<and>
    handle_all (worker_handler E ord) (ms @ [m]) start_worker = Done r \<and>
    wk_triggers (Handler r) = map_option Some \<circ> T \<and>
    wk_calls (Handler r) = wk_calls (Handler before) @ new \<and> enumerates ks T \<and>
    executions new = concat (map (\<lambda>k. starts E (the (T k))) ks)"
proof -
  have start: "worker_inv (Handler (start_worker :: 'a worker synchronizer))"
    "trigger_table (Handler (start_worker :: 'a worker synchronizer)) = Map.empty" by (simp_all add: new_worker_inv)
  have "list_all (response_ok (worker_takes E)) ms" using ms by simp
  from worker_responses [OF ok start(1) this] obtain r1 where
    1: "handle_all (worker_handler E ord) ms start_worker = Done r1" "worker_inv (Handler r1)"
      "trigger_table (Handler r1) = fold (updates_then_drops (read_trigger E)) ms Map.empty" unfolding start(2) by blast
  let ?w = "Handler r1"
  have t: "trigger_table ?w = T" using 1(3) m by (simp add: T updates_then_drops_def)
  have "finite (dom (wk_triggers ?w))" using 1(2) by (simp add: worker_inv_def)
  with ok have "enumerates (ord ?w) (wk_triggers ?w)" by (simp add: worker_env_ok_def)
  then have ks: "enumerates (ord ?w) T" using trigger_table_dom [OF 1(2)] by (simp add: enumerates_def t)
  then have "set (ord ?w) \<subseteq> dom (trigger_table ?w)" by (simp add: enumerates_def t)
  from triggers_loop [OF ok 1(2) this] obtain w' l where
    l: "for_each (trigger_one E) (ord ?w) ?w = Done w'" "wk_triggers w' = wk_triggers ?w" "wk_calls w' = wk_calls ?w @ l"
      "executions l = concat (map (\<lambda>k. starts E (the (T k))) (ord ?w))" by (auto simp: t)
  have "wk_triggers ?w = map_option Some \<circ> trigger_table ?w"
    using worker_inv_at [OF 1(2)] by (fastforce simp: fun_eq_iff trigger_table_def split: option.splits)
  moreover have "handle_all (worker_handler E ord) (ms @ [m]) start_worker = Done (r1\<lparr>Handler := w'\<rparr>)"
    using 1(1) l(1) m
    by (simp add: handle_all_snoc handle_response_def worker_handler_def worker_OnEndOfPage_def lift_eff_def)
  ultimately show ?thesis using 1(1) l ks t by fastforce
qed

end
