(* ===== verification/Followers.thy ===== *)
theory Followers
  imports Convergence GatewayProps XdsSession WorkerSession
begin

text \<open>
  The three clients that keep a table of what the store publishes, as instances of
  \<open>store_follower\<close>: the gateway with its policies, the xDS server with its routing policies and
  the worker with its triggers. A response lists updates and drops apart; the gateway takes the
  drops first, the two others last. So each keeps the order of a page only if what the other order
  would break does not occur in it.
\<close>

section \<open>The gateway\<close>

text \<open>The gateway handles drops first. \<open>calm\<close>: no id is put and later dropped.\<close>

definition calm :: "ResourceEvent list \<Rightarrow> bool" where
  "calm evs \<longleftrightarrow> sorted_wrt (\<lambda>a b. \<not> (rc_id a = rc_id b \<and> re_status a = activeResource \<and>
     re_status b = droppedResource)) evs"

lemma calm_append: "calm (xs @ ys) \<Longrightarrow> calm xs \<and> calm ys"
  by (simp add: calm_def sorted_wrt_append)

lemma gateway_page_step:
  fixes E :: "('t, 'h) gateway_env"
  assumes "inj (se_show S)" and "calm evs" and "statuses_ok evs"
  shows "active_step E (events_response S ns evs) A = fold (event_step (ge_unmarshal E) S ns) evs A"
  using assms(2,3)
proof (induction evs rule: rev_induct)
  case Nil
  then show ?case by (simp add: active_step_def events_response_def policies_of_Nil restrict_map_def)
next
  case (snoc e evs)
  let ?um = "ge_unmarshal E"
  let ?on = "map (event_resource S ns) (filter (\<lambda>r. re_status r = activeResource) evs)"
  let ?off = "map (event_resource S ns) (filter (\<lambda>r. re_status r = droppedResource) evs)"
  have "calm evs" using calm_append [OF snoc.prems(1)] by simp
  moreover have "statuses_ok evs" using snoc.prems(2) by (simp add: statuses_ok_def)
  ultimately have IH: "(A |` (- dom (policies_of ?um ?off))) ++ policies_of ?um ?on = fold (event_step ?um S ns) evs A"
    using snoc.IH by (simp add: active_step_def events_response_def)
  show ?case
  proof (cases "re_status e = activeResource")
    case True
    then have "active_step E (events_response S ns (evs @ [e])) A =
        ((A |` (- dom (policies_of ?um ?off))) ++ policies_of ?um ?on) ++ policies_of ?um [event_resource S ns e]"
      by (simp add: active_step_def events_response_def policies_of_append)
    with True show ?thesis
      by (cases "event_policy ?um S ns e")
        (simp_all add: IH policies_of_single event_step_def [of ?um S ns e] event_policy_def event_resource_id
          del: fun_upd_apply)
  next
    case False
    with snoc.prems(2) have off: "re_status e = droppedResource" by (auto simp: statuses_ok_def)
    have "se_show S (rc_id e) \<notin> r_id ` set ?on"
      using snoc.prems(1) off assms(1) by (auto simp: calm_def sorted_wrt_append event_resource_id inj_eq)
    then have none: "policies_of ?um ?on (se_show S (rc_id e)) = None" by (rule policies_of_other)
    have "active_step E (events_response S ns (evs @ [e])) A =
        (A |` (- dom (policies_of ?um ?off ++ policies_of ?um [event_resource S ns e]))) ++ policies_of ?um ?on"
      using off by (simp add: active_step_def events_response_def policies_of_append)
    also have "\<dots> = event_step ?um S ns e ((A |` (- dom (policies_of ?um ?off))) ++ policies_of ?um ?on)"
      using none off
      by (auto simp: policies_of_single event_step_def event_policy_def event_resource_id map_add_def
          restrict_map_def fun_eq_iff split: option.split)
    finally show ?thesis by (simp add: IH)
  qed
qed

interpretation gw: store_follower "ge_unmarshal E" "active_step E" "gateway_admits E" calm for E
proof
  show "active_step E m A = A" if "wr_end_of_list m" for m A
    using that by (simp add: active_step_def)
  show "active_step E m A = A ++ policies_of (ge_unmarshal E) (wr_updated m)"
    if "\<not> wr_end_of_list m" "wr_dropped m = []" for m A
    using that by (simp add: active_step_def policies_of_Nil restrict_map_UNIV)
  show "calm xs \<and> calm ys" if "calm (xs @ ys)" for xs ys using that by (rule calm_append)
  show "agrees (ge_unmarshal E) S ns (active_step E (events_response S ns evs) A) (replayed (old @ evs))"
    if "inj (se_show S)" "calm evs" "statuses_ok evs" "kinds (ge_unmarshal E) S ns (old @ evs)"
      "agrees (ge_unmarshal E) S ns A (replayed old)" for S evs ns old A
    unfolding gateway_page_step [OF that(1-3)]
    by (rule agrees_log [OF agrees_snoc [OF that(1)] that(5,4)])
qed

section \<open>The xDS server and the worker\<close>

text \<open>They handle drops last. \<open>settled\<close>: no id is dropped and later put.\<close>

definition settled :: "ResourceEvent list \<Rightarrow> bool" where
  "settled evs \<longleftrightarrow> sorted_wrt (\<lambda>a b. \<not> (rc_id a = rc_id b \<and> re_status a = droppedResource \<and>
     re_status b = activeResource)) evs"

lemma settled_append: "settled (xs @ ys) \<Longrightarrow> settled xs \<and> settled ys"
  by (simp add: settled_def sorted_wrt_append)

lemma settled_page_step:
  assumes "inj (se_show S)" and "settled evs" and "statuses_ok evs"
  shows "updates_then_drops um (events_response S ns evs) A = fold (removing_step um S ns) evs A"
  using assms(2,3)
proof (induction evs rule: rev_induct)
  case Nil
  then show ?case by (simp add: updates_then_drops_def events_response_def policies_of_Nil restrict_map_UNIV)
next
  case (snoc e evs)
  let ?on = "map (event_resource S ns) (filter (\<lambda>r. re_status r = activeResource) evs)"
  let ?off = "map (event_resource S ns) (filter (\<lambda>r. re_status r = droppedResource) evs)"
  have "settled evs" using settled_append [OF snoc.prems(1)] by simp
  moreover have "statuses_ok evs" using snoc.prems(2) by (simp add: statuses_ok_def)
  ultimately have IH: "(A ++ policies_of um ?on) |` (- r_id ` set ?off) = fold (removing_step um S ns) evs A"
    using snoc.IH by (simp add: updates_then_drops_def events_response_def)
  show ?case
  proof (cases "re_status e = activeResource")
    case True
    then have n: "se_show S (rc_id e) \<notin> r_id ` set ?off"
      using snoc.prems(1) assms(1) by (auto simp: settled_def sorted_wrt_append event_resource_id inj_eq)
    have "updates_then_drops um (events_response S ns (evs @ [e])) A =
        (A ++ policies_of um ?on ++ policies_of um [event_resource S ns e]) |` (- r_id ` set ?off)"
      using True by (simp add: updates_then_drops_def events_response_def policies_of_append)
    also have "\<dots> = removing_step um S ns e ((A ++ policies_of um ?on) |` (- r_id ` set ?off))"
    proof (cases "um (r_spec (event_resource S ns e))")
      case None
      with True show ?thesis by (simp add: policies_of_single removing_step_def note_spec_def del: set_map)
    next
      case (Some p)
      have "(m(k \<mapsto> p)) |` (- K) = (m |` (- K))(k \<mapsto> p)" if "k \<notin> K" for m and k :: string and K
        using that by (auto simp: restrict_map_def fun_eq_iff)
      from this [OF n] Some True show ?thesis
        by (simp only: policies_of_single removing_step_def note_spec_def event_resource_id option.case simp_thms if_True
            map_add_upd map_add_empty)
    qed
    finally show ?thesis unfolding IH by simp
  next
    case False
    with snoc.prems(2) have off: "re_status e = droppedResource" by (auto simp: statuses_ok_def)
    then have "updates_then_drops um (events_response S ns (evs @ [e])) A =
        (A ++ policies_of um ?on) |` (- insert (se_show S (rc_id e)) (r_id ` set ?off))"
      by (simp add: updates_then_drops_def events_response_def event_resource_id)
    also have "\<dots> = removing_step um S ns e ((A ++ policies_of um ?on) |` (- r_id ` set ?off))"
      using False by (auto simp: removing_step_def restrict_map_def fun_eq_iff)
    finally show ?thesis unfolding IH by simp
  qed
qed

lemma settled_follower: "store_follower um (updates_then_drops um) settled"
proof
  show "updates_then_drops um m A = A" if "wr_end_of_list m" for m A
    using that by (simp add: updates_then_drops_def)
  show "updates_then_drops um m A = A ++ policies_of um (wr_updated m)"
    if "\<not> wr_end_of_list m" "wr_dropped m = []" for m A
    using that by (simp add: updates_then_drops_def restrict_map_UNIV)
  show "settled xs \<and> settled ys" if "settled (xs @ ys)" for xs ys using that by (rule settled_append)
  show "agrees um S ns (updates_then_drops um (events_response S ns evs) A) (replayed (old @ evs))"
    if "inj (se_show S)" "settled evs" "statuses_ok evs" "kinds um S ns (old @ evs)"
      "agrees um S ns A (replayed old)" for S evs ns old A
    unfolding settled_page_step [OF that(1-3)]
    by (rule agrees_log [OF agrees_removing [OF that(1)] that(5,4)])
qed

interpretation xds: store_follower "read_routing E" "routing_step E" "xds_reads E" settled for E
  by (rule settled_follower)

interpretation wk: store_follower "read_trigger E" "updates_then_drops (read_trigger E)" "worker_takes E" settled for E
  by (rule settled_follower)

end
