(* ===== verification/HubLock.thy ===== *)
theory HubLock
  imports PubSub "HOL-Library.Multiset"
begin

text \<open>
  The hub of \<^verbatim>\<open>pkg/pubsub/pubsub.go\<close> under its lock: the goroutine that publishes (the Redis
  listener of a gateway), the goroutine that delivers, and the calls that subscribe and
  unsubscribe, as an interleaving step relation over the operations of \<open>PubSub\<close>. Every run ends;
  where it ends depends on whether publishing blocks.
\<close>

section \<open>The goroutines\<close>

text \<open>
  The delivering goroutine: about to receive, waiting in the receive (which makes room for one
  send), with a message and at \<^verbatim>\<open>RLock\<close>, holding the lock.
\<close>

datatype 'p streamer = Ready | Receiving | WantsLock "'p Message" | Delivering "'p Message"

text \<open>
  \<open>hr_todo\<close>: the messages still to be published, one \<^verbatim>\<open>Publish\<close> each; \<open>hr_sending\<close>: the message
  of a \<^verbatim>\<open>Publish\<close> that holds the read lock and is at its send; \<open>hr_calls\<close>: the calls of
  \<^verbatim>\<open>Subscribe\<close> and \<^verbatim>\<open>Unsubscribe\<close> still to come, in any order; \<open>hr_writer\<close>: the one that is at
  \<^verbatim>\<open>Lock\<close>.
\<close>

record 'p hub_run =
  hr_hub :: "'p pubSub"
  hr_todo :: "'p Message list"
  hr_sending :: "'p Message option"
  hr_streamer :: "'p streamer"
  hr_calls :: "'p hub_op list"
  hr_writer :: "'p hub_op option"

text \<open>
  Go's \<^verbatim>\<open>sync.RWMutex\<close>: \<^verbatim>\<open>RLock\<close> waits while a writer holds the lock or waits for it, \<^verbatim>\<open>Lock\<close>
  waits for the readers there are, and a second \<^verbatim>\<open>Lock\<close> for the first. What a writer does under
  the lock cannot block, so taking the lock, the operation and the release are one step.
\<close>

definition can_read :: "'p hub_run \<Rightarrow> bool" where
  "can_read s \<longleftrightarrow> hr_writer s = None"

fun is_delivering :: "'p streamer \<Rightarrow> bool" where
  "is_delivering (Delivering m) = True"
| "is_delivering _ = False"

definition can_write :: "'p hub_run \<Rightarrow> bool" where
  "can_write s \<longleftrightarrow> hr_sending s = None \<and> \<not> is_delivering (hr_streamer s)"

text \<open>\<^verbatim>\<open>Publish\<close> of one message up to its send.\<close>

definition publish_begin :: "'p Message \<Rightarrow> 'p Message list \<Rightarrow> 'p hub_run \<Rightarrow> 'p hub_run" where
  "publish_begin m ms s = s\<lparr>hr_todo := ms,
     hr_sending := (case ps_subscriptions (hr_hub s) (msg_topic m) of None \<Rightarrow> None | Some ids \<Rightarrow> Some m)\<rparr>"

definition set_stream :: "'p channel \<Rightarrow> 'p hub_run \<Rightarrow> 'p hub_run" where
  "set_stream c s = s\<lparr>hr_hub := (hr_hub s)\<lparr>ps_stream := c\<rparr>\<rparr>"

abbreviation stream :: "'p hub_run \<Rightarrow> 'p channel" where
  "stream s \<equiv> ps_stream (hr_hub s)"

text \<open>
  The steps. \<open>blocking\<close> is the first argument of \<^verbatim>\<open>Publish\<close>; deliveries do not block, as in the
  hub a gateway makes.
\<close>

inductive hub_runs :: "bool \<Rightarrow> 'p hub_run \<Rightarrow> 'p hub_run \<Rightarrow> bool" for blocking where
  begin_publish: "hub_runs blocking s (publish_begin m ms s)"
    if "hr_todo s = m # ms" "hr_sending s = None" "can_read s"
| end_publish: "hub_runs blocking s (set_stream c (s\<lparr>hr_sending := None\<rparr>))"
    if "hr_sending s = Some m" "chan_send blocking m (stream s) = Ran c"
| wait: "hub_runs blocking s (set_stream ((stream s)\<lparr>ch_room := Suc (ch_room (stream s))\<rparr>)
      (s\<lparr>hr_streamer := Receiving\<rparr>))"
    if "hr_streamer s = Ready" "ch_items (stream s) = []"
| take: "hub_runs blocking s (set_stream ((stream s)\<lparr>ch_items := ms, ch_room := Suc (ch_room (stream s))\<rparr>)
      (s\<lparr>hr_streamer := WantsLock m\<rparr>))"
    if "hr_streamer s = Ready" "ch_items (stream s) = m # ms"
| receive: "hub_runs blocking s (set_stream ((stream s)\<lparr>ch_items := ms\<rparr>) (s\<lparr>hr_streamer := WantsLock m\<rparr>))"
    if "hr_streamer s = Receiving" "ch_items (stream s) = m # ms"
| read_lock: "hub_runs blocking s (s\<lparr>hr_streamer := Delivering m\<rparr>)"
    if "hr_streamer s = WantsLock m" "can_read s"
| delivered: "hub_runs blocking s (s\<lparr>hr_hub := hub, hr_streamer := Ready\<rparr>)"
    if "hr_streamer s = Delivering m" "deliver False (hr_hub s) m = Ran hub"
| lock: "hub_runs blocking s (s\<lparr>hr_calls := ops @ ops', hr_writer := Some op\<rparr>)"
    if "hr_calls s = ops @ op # ops'" "hr_writer s = None"
| locked: "hub_runs blocking s (s\<lparr>hr_hub := hub_step (hr_hub s) op, hr_writer := None\<rparr>)"
    if "hr_writer s = Some op" "can_write s"

inductive_cases hub_runsE: "hub_runs blocking s s'"

text \<open>A new hub with its goroutine, messages to publish and calls to come.\<close>

definition start_hub :: "nat \<Rightarrow> nat \<Rightarrow> 'p Message list \<Rightarrow> 'p hub_op list \<Rightarrow> 'p hub_run" where
  "start_hub streamBufferSize listenerBufferSize messages calls =
     \<lparr>hr_hub = NewPubSub streamBufferSize listenerBufferSize, hr_todo = messages, hr_sending = None,
      hr_streamer = Ready, hr_calls = calls, hr_writer = None\<rparr>"

section \<open>Every run ends\<close>

fun streamer_steps :: "'p streamer \<Rightarrow> nat" where
  "streamer_steps Receiving = 0"
| "streamer_steps Ready = 1"
| "streamer_steps (Delivering m) = 2"
| "streamer_steps (WantsLock m) = 3"

definition steps_left :: "'p hub_run \<Rightarrow> nat" where
  "steps_left s = 6 * length (hr_todo s) + (case hr_sending s of None \<Rightarrow> 0 | Some m \<Rightarrow> 5) +
     4 * length (ch_items (stream s)) + streamer_steps (hr_streamer s) +
     2 * length (hr_calls s) + (case hr_writer s of None \<Rightarrow> 0 | Some op \<Rightarrow> 1)"

lemma deliver_stream: "deliver b ps m = Ran ps' \<Longrightarrow> ps_stream ps' = ps_stream ps"
proof -
  have one: "ps_stream q = ps_stream p" if "put_to m b p i = Ran q" for p q i
    using that by (auto simp: put_to_def split: option.splits run.splits)
  have "run_each (put_to m b) ids p = Ran q \<Longrightarrow> ps_stream q = ps_stream p" for ids p q
  proof (induction ids arbitrary: p)
    case (Cons i ids)
    then show ?case using one by (cases "put_to m b p i") auto
  qed simp
  then show "deliver b ps m = Ran ps' \<Longrightarrow> ps_stream ps' = ps_stream ps"
    by (auto simp: deliver_def split: option.splits)
qed

lemma hub_step_stream [simp]: "ps_stream (hub_step ps op) = ps_stream ps"
  by (cases op) (simp_all add: Subscribe_stream Unsubscribe_stream)

lemma set_stream_simps [simp]:
  "hr_todo (set_stream c s) = hr_todo s" "hr_sending (set_stream c s) = hr_sending s"
  "hr_streamer (set_stream c s) = hr_streamer s" "hr_calls (set_stream c s) = hr_calls s"
  "hr_writer (set_stream c s) = hr_writer s" "hr_hub (set_stream c s) = (hr_hub s)\<lparr>ps_stream := c\<rparr>"
  by (simp_all add: set_stream_def)

lemma chan_send_ran:
  "chan_send blocking m c = Ran c' \<longleftrightarrow> \<not> ch_closed c \<and>
    (if ch_room c > 0 then c' = c\<lparr>ch_items := ch_items c @ [m], ch_room := ch_room c - 1\<rparr>
     else \<not> blocking \<and> c' = c)"
  by (auto simp: chan_send_def)

lemma hub_runs_steps: "hub_runs blocking s s' \<Longrightarrow> steps_left s' < steps_left s"
proof (induction rule: hub_runs.induct)
  case (begin_publish s m ms)
  then show ?case by (simp add: steps_left_def publish_begin_def split: option.splits)
next
  case (end_publish s m c)
  then have "length (ch_items c) \<le> Suc (length (ch_items (stream s)))" by (auto simp: chan_send_ran split: if_splits)
  with end_publish show ?case by (simp add: steps_left_def)
next
  case (delivered s m hub)
  then show ?case by (simp add: steps_left_def deliver_stream)
qed (simp_all add: steps_left_def)

section \<open>What every step keeps\<close>

text \<open>
  The indexes of the hub agree and hold what the calls made so far asked for; every channel is
  open; the room of the stream is that of its buffer and, while the delivering goroutine waits, of
  one receiver.
\<close>

definition lists_calls :: "'p pubSub \<Rightarrow> 'p hub_op list \<Rightarrow> bool" where
  "lists_calls ps ops \<longleftrightarrow> (\<forall>i t. lists_topic ps i t \<longleftrightarrow> (\<exists>topics. SubscribeOp i topics \<in> set ops \<and> t \<in> set topics))"

definition hub_good :: "nat \<Rightarrow> 'p hub_op list \<Rightarrow> 'p hub_run \<Rightarrow> bool" where
  "hub_good buffer calls s \<longleftrightarrow> ps_ok (hr_hub s) \<and> all_open (hr_hub s) \<and> \<not> ch_closed (stream s) \<and>
     ch_room (stream s) + length (ch_items (stream s)) = buffer + (if hr_streamer s = Receiving then 1 else 0) \<and>
     (\<exists>made. lists_calls (hr_hub s) made \<and>
        mset calls = mset made + mset (hr_calls s) + mset (case hr_writer s of None \<Rightarrow> [] | Some op \<Rightarrow> [op]))"

lemma hub_views_stream [simp]:
  "listed_under (ps\<lparr>ps_stream := c\<rparr>) = listed_under ps" "lists_topic (ps\<lparr>ps_stream := c\<rparr>) = lists_topic ps"
  "ps_ok (ps\<lparr>ps_stream := c\<rparr>) = ps_ok ps" "all_open (ps\<lparr>ps_stream := c\<rparr>) = all_open ps"
  "lists_calls (ps\<lparr>ps_stream := c\<rparr>) = lists_calls ps"
  by (simp_all add: fun_eq_iff listed_under_def lists_topic_def ps_ok_def all_open_def lists_calls_def)

lemma offered_to_simps [simp]:
  "sub_subscriptions (offered_to m s) = sub_subscriptions s" "ch_closed (sub_ch (offered_to m s)) = ch_closed (sub_ch s)"
  by (simp_all add: offered_to_def)

lemma delivered_same:
  assumes "ps_ok ps" and "all_open ps" and "deliver False ps m = Ran ps'"
  shows "lists_topic ps' = lists_topic ps" "ps_ok ps'" "all_open ps'"
proof -
  from deliver_all [OF assms(1,2), of m] assms(3) obtain subs where
    p: "ps' = ps\<lparr>ps_subscribers := subs\<rparr>"
    and s: "\<forall>i. subs i = (if lists_topic ps i (msg_topic m) then map_option (offered_to m) (ps_subscribers ps i)
      else ps_subscribers ps i)" by auto
  show l: "lists_topic ps' = lists_topic ps"
    using s by (auto simp: fun_eq_iff p lists_topic_def IsSubscribedTo_def)
  then show "ps_ok ps'" using assms(1) by (simp add: ps_ok_def p listed_under_def)
  show "all_open ps'" using s assms(2) by (auto simp: all_open_def p split: if_splits)
qed

lemma all_open_Unsubscribe: "ps_ok ps \<Longrightarrow> all_open ps \<Longrightarrow> all_open (Unsubscribe ps i topics)"
  by (auto simp: Unsubscribe_spec all_open_def split: option.splits)

lemma hub_step_good:
  assumes "ps_ok ps" and "all_open ps" and "lists_calls ps ops"
  shows "ps_ok (hub_step ps op) \<and> all_open (hub_step ps op) \<and> lists_calls (hub_step ps op) (op # ops)"
proof (cases op)
  case (SubscribeOp i topics)
  with Subscribe_spec [OF assms(1), of i topics] all_open_Subscribe [OF assms(2)] assms(3)
  show ?thesis by (auto simp: lists_calls_def)
next
  case (UnsubscribeOp i topics)
  with Unsubscribe_ok [OF assms(1), of i topics] all_open_Unsubscribe [OF assms(1,2)] assms(3)
  show ?thesis by (auto simp: lists_calls_def)
qed

lemma hub_runs_good: "hub_runs blocking s s' \<Longrightarrow> hub_good buffer calls s \<Longrightarrow> hub_good buffer calls s'"
proof (induction rule: hub_runs.induct)
  case (end_publish s m c)
  then show ?case by (auto simp: hub_good_def chan_send_ran split: if_splits)
next
  case (delivered s m hub)
  from delivered(3) have g: "ps_ok (hr_hub s)" "all_open (hr_hub s)" by (simp_all add: hub_good_def)
  from delivered_same [OF g delivered(2)] deliver_stream [OF delivered(2)] delivered(1,3) show ?case
    by (simp add: hub_good_def lists_calls_def)
next
  case (lock s ops op ops')
  then show ?case by (auto simp: hub_good_def)
next
  case (locked s op)
  then obtain made where m: "lists_calls (hr_hub s) made" "mset calls = mset made + mset (hr_calls s) + {#op#}"
    by (auto simp: hub_good_def)
  from hub_step_good [OF _ _ m(1), of op] locked m(2) show ?case
    by (auto simp: hub_good_def intro!: exI [of _ "op # made"])
qed (auto simp: hub_good_def publish_begin_def)

lemma start_hub_good: "hub_good a calls (start_hub a b messages calls)"
  by (auto simp: hub_good_def start_hub_def ps_ok_new) (simp_all add: NewPubSub_def all_open_def new_channel_def
      lists_calls_def lists_topic_def)

section \<open>Where a run ends\<close>

definition at_rest :: "'p hub_run \<Rightarrow> bool" where
  "at_rest s \<longleftrightarrow> hr_todo s = [] \<and> hr_sending s = None \<and> ch_items (stream s) = [] \<and>
     hr_streamer s = Receiving \<and> hr_calls s = [] \<and> hr_writer s = None"

text \<open>
  The three goroutines wait for each other: the publisher, with the read lock, for room in the
  stream; the delivering goroutine for the read lock; a call for the publisher's release.
\<close>

definition deadlocked :: "'p hub_run \<Rightarrow> bool" where
  "deadlocked s \<longleftrightarrow> hr_sending s \<noteq> None \<and> ch_room (stream s) = 0 \<and> (\<exists>m. hr_streamer s = WantsLock m) \<and>
     hr_writer s \<noteq> None"

lemma ends_where:
  assumes good: "hub_good buffer calls s" and no_step: "\<And>s'. \<not> hub_runs blocking s s'"
  shows "at_rest s \<or> blocking \<and> deadlocked s"
proof -
  have closed: "\<not> ch_closed (stream s)" using good by (simp add: hub_good_def)
  have not_ready: "hr_streamer s \<noteq> Ready"
    using no_step hub_runs.wait [of s blocking] hub_runs.take [of s _ _ blocking]
    by (cases "ch_items (stream s)") auto
  have not_delivering: "hr_streamer s \<noteq> Delivering m" for m
  proof
    assume d: "hr_streamer s = Delivering m"
    obtain hub where "deliver False (hr_hub s) m = Ran hub"
      using deliver_all [of "hr_hub s" m] good by (auto simp: hub_good_def)
    with hub_runs.delivered [OF d, of _ blocking] no_step show False by auto
  qed
  have receiving: "ch_items (stream s) = []" if "hr_streamer s = Receiving"
    using no_step hub_runs.receive [of s _ _ blocking] that by (cases "ch_items (stream s)") auto
  show ?thesis
  proof (cases "hr_sending s")
    case None
    then have "can_write s" using not_delivering by (cases "hr_streamer s") (auto simp: can_write_def)
    then have w: "hr_writer s = None" using no_step hub_runs.locked [of s _ blocking] by (cases "hr_writer s") auto
    then have c: "hr_calls s = []" using no_step hub_runs.lock [of s "[]" _ _ blocking] by (cases "hr_calls s") auto
    from w have r: "can_read s" by (simp add: can_read_def)
    then have t: "hr_todo s = []" using no_step hub_runs.begin_publish [of s _ _ blocking] None by (cases "hr_todo s") auto
    from r have "hr_streamer s \<noteq> WantsLock m" for m using no_step hub_runs.read_lock [of s m blocking] by auto
    with not_ready not_delivering have "hr_streamer s = Receiving" by (cases "hr_streamer s") auto
    with None w c t receiving show ?thesis by (simp add: at_rest_def)
  next
    case (Some m)
    have "\<exists>c. chan_send blocking m (stream s) = Ran c" if "\<not> (blocking \<and> ch_room (stream s) = 0)"
      using that closed by (auto simp: chan_send_def)
    with Some no_step hub_runs.end_publish have b: "blocking" "ch_room (stream s) = 0" by blast+
    have "hr_streamer s \<noteq> Receiving" using receiving b(2) good by (auto simp: hub_good_def)
    with not_ready not_delivering obtain m' where st: "hr_streamer s = WantsLock m'"
      by (cases "hr_streamer s") auto
    with no_step hub_runs.read_lock [of s m' blocking] have "hr_writer s \<noteq> None" by (auto simp: can_read_def)
    with b st Some show ?thesis by (auto simp: deadlocked_def)
  qed
qed

lemma deadlocked_stays: "deadlocked s \<Longrightarrow> \<not> hub_runs True s s'"
  by (auto simp: deadlocked_def can_read_def can_write_def chan_send_ran elim!: hub_runsE split: if_splits)

lemma hub_runs_all:
  assumes "(hub_runs blocking)\<^sup>*\<^sup>* s s'" and "hub_good buffer calls s"
  shows "hub_good buffer calls s'"
  using assms by (induction rule: rtranclp_induct) (auto intro: hub_runs_good)

section \<open>The way into the deadlock\<close>

text \<open>While the delivering goroutine waits for the lock, the publisher fills the stream.\<close>

lemma fill_stream:
  assumes "hr_todo s = ms @ m # rest" and "length ms = ch_room (stream s)" and "\<not> ch_closed (stream s)"
    and "hr_sending s = None" and "hr_writer s = None"
    and "\<forall>x \<in> set (m # ms). ps_subscriptions (hr_hub s) (msg_topic x) \<noteq> None"
  shows "\<exists>s'. (hub_runs True)\<^sup>*\<^sup>* s s' \<and> hr_sending s' = Some m \<and> ch_room (stream s') = 0 \<and>
    hr_streamer s' = hr_streamer s \<and> hr_calls s' = hr_calls s \<and> hr_writer s' = None"
  using assms
proof (induction ms arbitrary: s)
  case Nil
  let ?s = "publish_begin m rest s"
  have "hub_runs True s ?s" using Nil by (intro hub_runs.begin_publish) (simp_all add: can_read_def)
  moreover have "hr_sending ?s = Some m \<and> ch_room (stream ?s) = 0 \<and> hr_streamer ?s = hr_streamer s \<and>
      hr_calls ?s = hr_calls s \<and> hr_writer ?s = None"
    using Nil by (auto simp: publish_begin_def)
  ultimately show ?case by blast
next
  case (Cons x ms)
  let ?s1 = "publish_begin x (ms @ m # rest) s"
  let ?c = "(stream s)\<lparr>ch_items := ch_items (stream s) @ [x], ch_room := ch_room (stream s) - 1\<rparr>"
  let ?s2 = "set_stream ?c (?s1\<lparr>hr_sending := None\<rparr>)"
  have s1: "hr_sending ?s1 = Some x" "stream ?s1 = stream s" using Cons.prems by (auto simp: publish_begin_def)
  have step1: "hub_runs True s ?s1" using Cons.prems by (intro hub_runs.begin_publish) (simp_all add: can_read_def)
  have step2: "hub_runs True ?s1 ?s2"
    using s1 Cons.prems by (intro hub_runs.end_publish) (simp_all add: chan_send_ran)
  have s2: "hr_todo ?s2 = ms @ m # rest" "length ms = ch_room (stream ?s2)" "\<not> ch_closed (stream ?s2)"
      "hr_sending ?s2 = None" "hr_writer ?s2 = None" "hr_streamer ?s2 = hr_streamer s" "hr_calls ?s2 = hr_calls s"
      "\<forall>y \<in> set (m # ms). ps_subscriptions (hr_hub ?s2) (msg_topic y) \<noteq> None"
    using Cons.prems by (simp_all add: publish_begin_def)
  from Cons.IH [OF s2(1-5,8)] obtain s' where s': "(hub_runs True)\<^sup>*\<^sup>* ?s2 s'" "hr_sending s' = Some m"
      "ch_room (stream s') = 0" "hr_streamer s' = hr_streamer ?s2" "hr_calls s' = hr_calls ?s2" "hr_writer s' = None"
    by blast
  from converse_rtranclp_into_rtranclp [OF step1 converse_rtranclp_into_rtranclp [OF step2 s'(1)]] s'(2-6)
  show ?case unfolding s2(6,7) by blast
qed

lemma subscribed_topic:
  assumes "ps_ok ps" and "t \<in> set topics"
  shows "ps_subscriptions (Subscribe ps i topics) t \<noteq> None"
proof -
  from Subscribe_spec [OF assms(1), of i topics] assms(2) have "listed_under (Subscribe ps i topics) i t"
    by (auto simp: ps_ok_def)
  then show ?thesis by (auto simp: listed_under_def)
qed

text \<open>A call has subscribed; the delivering goroutine has the first message and is at the lock.\<close>

lemma first_message_taken:
  assumes "msg_topic x \<in> set topics"
  shows "\<exists>s. (hub_runs True)\<^sup>*\<^sup>* (start_hub a b (x # messages) (SubscribeOp i topics # calls)) s \<and>
    hr_todo s = messages \<and> hr_sending s = None \<and> hr_streamer s = WantsLock x \<and> hr_calls s = calls \<and>
    hr_writer s = None \<and> \<not> ch_closed (stream s) \<and> ch_room (stream s) = a \<and>
    (\<forall>t \<in> set topics. ps_subscriptions (hr_hub s) t \<noteq> None)"
proof -
  let ?s = "start_hub a b (x # messages) (SubscribeOp i topics # calls)"
  let ?s1 = "?s\<lparr>hr_calls := calls, hr_writer := Some (SubscribeOp i topics)\<rparr>"
  let ?s2 = "?s1\<lparr>hr_hub := hub_step (hr_hub ?s1) (SubscribeOp i topics), hr_writer := None\<rparr>"
  let ?s3 = "set_stream ((stream ?s2)\<lparr>ch_room := Suc (ch_room (stream ?s2))\<rparr>) (?s2\<lparr>hr_streamer := Receiving\<rparr>)"
  let ?s4 = "publish_begin x messages ?s3"
  let ?c = "(stream ?s4)\<lparr>ch_items := ch_items (stream ?s4) @ [x], ch_room := ch_room (stream ?s4) - 1\<rparr>"
  let ?s5 = "set_stream ?c (?s4\<lparr>hr_sending := None\<rparr>)"
  let ?s6 = "set_stream ((stream ?s5)\<lparr>ch_items := []\<rparr>) (?s5\<lparr>hr_streamer := WantsLock x\<rparr>)"
  have st: "stream ?s = new_channel a" by (simp add: start_hub_def NewPubSub_def)
  then have c: "stream ?s2 = new_channel a" by (simp add: Subscribe_stream)
  have sub: "ps_subscriptions (hr_hub ?s3) (msg_topic x) \<noteq> None"
    using subscribed_topic [OF ps_ok_new assms, of a b i] by (simp add: start_hub_def)
  then have s4: "hr_sending ?s4 = Some x" "stream ?s4 = (new_channel a)\<lparr>ch_room := Suc a\<rparr>"
    using c by (auto simp: publish_begin_def new_channel_def)
  have "hub_runs True ?s ?s1" using hub_runs.lock [of ?s "[]" "SubscribeOp i topics" calls True]
    by (simp add: start_hub_def)
  moreover have "hub_runs True ?s1 ?s2" by (intro hub_runs.locked) (simp_all add: start_hub_def can_write_def)
  moreover have "hub_runs True ?s2 ?s3"
    by (intro hub_runs.wait) (use c in \<open>simp_all add: start_hub_def new_channel_def\<close>)
  moreover have "hub_runs True ?s3 ?s4"
    by (intro hub_runs.begin_publish) (simp_all add: start_hub_def can_read_def)
  moreover have "hub_runs True ?s4 ?s5"
    by (intro hub_runs.end_publish) (use s4 in \<open>simp_all add: chan_send_ran new_channel_def\<close>)
  moreover have "hub_runs True ?s5 ?s6"
    by (intro hub_runs.receive) (use s4(2) in \<open>simp_all add: publish_begin_def start_hub_def new_channel_def\<close>)
  ultimately have "(hub_runs True)\<^sup>*\<^sup>* ?s ?s6"
    by (meson converse_rtranclp_into_rtranclp rtranclp.rtrancl_refl)
  moreover have "hr_todo ?s6 = messages \<and> hr_sending ?s6 = None \<and> hr_streamer ?s6 = WantsLock x \<and>
      hr_calls ?s6 = calls \<and> hr_writer ?s6 = None \<and> \<not> ch_closed (stream ?s6) \<and> ch_room (stream ?s6) = a \<and>
      (\<forall>t \<in> set topics. ps_subscriptions (hr_hub ?s6) t \<noteq> None)"
    using s4(2) by (simp add: publish_begin_def start_hub_def new_channel_def subscribed_topic [OF ps_ok_new]
        del: not_None_eq)
  ultimately show ?thesis by blast
qed

section \<open>Properties\<close>

text \<open>
  C28. The hub in use, with a publisher, its delivering goroutine and any number of concurrent calls:
  every run ends within a bound of the messages and calls. It ends with every message published,
  every call made, the two indexes in agreement and listing exactly what was ever subscribed,
  unless publishing blocks and the run ends in the deadlock of the three.
\<close>

theorem hub_runs_end:
  assumes "(hub_runs blocking ^^ n) (start_hub a b messages calls) s"
  shows "n \<le> 6 * length messages + 2 * length calls + 1 \<and>
    ((\<exists>s'. hub_runs blocking s s') \<or> blocking \<and> deadlocked s \<or>
     at_rest s \<and> ps_ok (hr_hub s) \<and>
     (\<forall>i t. lists_topic (hr_hub s) i t \<longleftrightarrow> (\<exists>topics. SubscribeOp i topics \<in> set calls \<and> t \<in> set topics)))"
proof -
  have "n + steps_left s \<le> steps_left s0" if "(hub_runs blocking ^^ n) s0 s" for s0
    using that
  proof (induction n arbitrary: s)
    case (Suc n)
    then obtain s1 where "(hub_runs blocking ^^ n) s0 s1" "hub_runs blocking s1 s" by auto
    with Suc.IH [of s1] hub_runs_steps [of blocking s1 s] show ?case by simp
  qed simp
  from this [OF assms] have "n \<le> 6 * length messages + 2 * length calls + 1"
    by (simp add: steps_left_def start_hub_def NewPubSub_def new_channel_def)
  moreover have good: "hub_good a calls s"
    using hub_runs_all [OF relpowp_imp_rtranclp [OF assms] start_hub_good] .
  moreover have "ps_ok (hr_hub s) \<and> lists_calls (hr_hub s) calls" if "at_rest s"
  proof -
    from good that obtain made where "ps_ok (hr_hub s)" "lists_calls (hr_hub s) made" "mset calls = mset made"
      by (auto simp: hub_good_def at_rest_def)
    then show ?thesis using mset_eq_setD [of calls made] by (simp add: lists_calls_def)
  qed
  ultimately show ?thesis using ends_where [OF good, of blocking] by (auto simp: lists_calls_def)
qed

text \<open>
  C29. The deadlock is real: with a stream of any buffer size, a subscriber, two messages more than
  the buffer holds and one more call to subscribe or unsubscribe, there is a run after which none
  of the three can ever go on: the publisher holds the read lock and waits for room in the
  stream, the delivering goroutine waits at \<^verbatim>\<open>RLock\<close> behind the call, and the call waits for the
  publisher. A gateway publishes blocking into a stream without a buffer.
\<close>

theorem blocking_publish_deadlocks:
  assumes "length ms = a" and "msg_topic ` set (x # ms @ [m]) \<subseteq> set topics"
  shows "\<exists>s. (hub_runs True)\<^sup>*\<^sup>* (start_hub a b (x # ms @ m # messages) (SubscribeOp i topics # op # calls)) s \<and>
    deadlocked s \<and> (\<forall>s'. \<not> hub_runs True s s')"
proof -
  from first_message_taken [of x topics a b "ms @ m # messages" i "op # calls"] assms(2)
  obtain s where s: "(hub_runs True)\<^sup>*\<^sup>* (start_hub a b (x # ms @ m # messages) (SubscribeOp i topics # op # calls)) s"
    "hr_todo s = ms @ m # messages" "hr_sending s = None" "hr_streamer s = WantsLock x" "hr_calls s = op # calls"
    "hr_writer s = None" "\<not> ch_closed (stream s)" "ch_room (stream s) = a"
    and sub: "\<forall>t \<in> set topics. ps_subscriptions (hr_hub s) t \<noteq> None" by auto
  have "\<forall>y \<in> set (m # ms). ps_subscriptions (hr_hub s) (msg_topic y) \<noteq> None"
    using sub assms(2) by (auto simp del: not_None_eq)
  from fill_stream [OF s(2) _ s(7,3,6) this] s(8) assms(1) obtain s1 where
    s1: "(hub_runs True)\<^sup>*\<^sup>* s s1" "hr_sending s1 = Some m" "ch_room (stream s1) = 0"
      "hr_streamer s1 = WantsLock x" "hr_calls s1 = op # calls" "hr_writer s1 = None"
    using s(4,5) by auto
  let ?s2 = "s1\<lparr>hr_calls := calls, hr_writer := Some op\<rparr>"
  have "hub_runs True s1 ?s2" using hub_runs.lock [of s1 "[]" op calls True] s1(5,6) by simp
  with s(1) s1(1) have "(hub_runs True)\<^sup>*\<^sup>* (start_hub a b (x # ms @ m # messages)
      (SubscribeOp i topics # op # calls)) ?s2"
    by (meson rtranclp.rtrancl_into_rtrancl rtranclp_trans)
  moreover have "deadlocked ?s2" using s1 by (simp add: deadlocked_def)
  ultimately show ?thesis using deadlocked_stays by blast
qed

section \<open>Witnesses\<close>

definition sample_message :: "nat Message" where
  "sample_message = \<lparr>msg_topic = ''t'', msg_payload = 1\<rparr>"

theorem hub_runs_end_witness:
  "(1 :: nat) \<le> 6 * 1 + 2 * 0 + 1 \<and> (\<exists>s'. hub_runs True (publish_begin sample_message []
     (start_hub 0 0 [sample_message] [])) s')"
proof -
  let ?s = "publish_begin sample_message [] (start_hub 0 0 [sample_message] [])"
  have "hub_runs True (start_hub 0 0 [sample_message] []) ?s"
    by (intro hub_runs.begin_publish) (simp_all add: start_hub_def can_read_def)
  then have "(hub_runs True ^^ 1) (start_hub 0 0 [sample_message] []) ?s" unfolding relpowp_1 .
  from hub_runs_end [OF this] show ?thesis
    by (auto simp: deadlocked_def at_rest_def publish_begin_def start_hub_def)
qed

theorem blocking_publish_deadlocks_witness:
  "\<exists>s. (hub_runs True)\<^sup>*\<^sup>* (start_hub 0 0 [sample_message, sample_message]
      [SubscribeOp 1 [''t''], SubscribeOp 2 [''t'']]) s \<and> deadlocked s \<and> (\<forall>s'. \<not> hub_runs True s s')"
  using blocking_publish_deadlocks [of "[]" 0 sample_message sample_message "[''t'']" 0 "[]" 1 "SubscribeOp 2 [''t'']" "[]"]
  by (simp add: sample_message_def)

end
