(* ===== verification/ConfigProps.thy ===== *)
theory ConfigProps
  imports Config
begin

text \<open>
  The interface of a configuration source as a locale, its interpretation on the three sources
  and on their composite, and the properties of reading configuration.
\<close>

section \<open>The contract of a source\<close>

text \<open>
  A source gives only values a caller can read: one that is set is a non-empty string. \<open>ok\<close> is
  the source's invariant, kept by loading.
\<close>

definition readable :: "'f config \<Rightarrow> bool" where
  "readable c \<longleftrightarrow> (IsSet c \<longrightarrow> (\<exists>s. StringVal c = Ret s \<and> s \<noteq> []))"

locale config_source =
  fixes ok :: "'s \<Rightarrow> bool" and load :: "'s \<Rightarrow> 's eff" and get :: "'s \<Rightarrow> string \<Rightarrow> 'f config"
  assumes load_ok: "ok s \<Longrightarrow> eff_inv ok (load s)"
    and get_readable: "ok s \<Longrightarrow> readable (get s k)"
begin

lemma loaded_readable: "ok s \<Longrightarrow> load s = Done s' \<Longrightarrow> readable (get s' k)"
  using load_ok [of s] get_readable by simp

end

definition configs_ok :: "(string \<rightharpoonup> 'f config) \<Rightarrow> bool" where
  "configs_ok m \<longleftrightarrow> (\<forall>c \<in> ran m. readable c)"

lemma NewConfig_string: "NewConfig C (AString s) = Ret (ValReader (if s = [] then ANil else AString s))"
  by (simp add: NewConfig_def)

lemma readable_simps [simp]:
  "readable EmptyConfig" "readable (ValReader (if s = [] then ANil else AString s))"
  by (simp_all add: readable_def EmptyConfig_def IsSet_def StringVal_def)

lemma readable_ValReader [simp]: "readable (ValReader ANil)" "s \<noteq> [] \<Longrightarrow> readable (ValReader (AString s))"
  by (simp_all add: readable_def IsSet_def StringVal_def)

lemma configs_ok_Get: "configs_ok m \<Longrightarrow> readable (configs_Get m k)"
  by (auto simp: configs_ok_def configs_Get_def intro: ranI split: option.splits)

lemma configs_ok_empty [simp]: "configs_ok Map.empty"
  by (simp add: configs_ok_def)

lemma store_config_ok: "configs_ok m \<Longrightarrow> \<exists>m'. store_config C k v m = Ret m' \<and> configs_ok m'"
  by (auto simp: store_config_def map_val_def NewConfig_string configs_ok_def ran_def)

definition env_ok :: "'f envSource \<Rightarrow> bool" where "env_ok e = configs_ok (en_configs e)"
definition flag_ok :: "'f flagSource \<Rightarrow> bool" where "flag_ok f = configs_ok (fl_configs f)"

interpretation env_src: config_source env_ok "envSource_Load C envs" envSource_Get for C envs
proof
  fix s :: "'a envSource" and k assume ok: "env_ok s"
  show "readable (envSource_Get s k)" using ok by (simp add: envSource_Get_def env_ok_def configs_ok_Get)
  have step: "eff_inv env_ok (load_env C e x)" if e: "env_ok e" for e x
  proof -
    have "\<exists>m'. store_config C k v (en_configs e) = Ret m' \<and> configs_ok m'" for k v
      using e by (simp add: store_config_ok env_ok_def)
    then show ?thesis unfolding load_env_def
      by (cases "index_byte CHR ''='' x") (auto simp: env_ok_def split: nat.splits val.splits,
          metis val.inject(1))
  qed
  show "eff_inv env_ok (envSource_Load C envs s)"
    unfolding envSource_Load_def by (rule eff_inv_for_each [OF ok step])
qed

interpretation flag_src: config_source flag_ok "flagSource_Load C" flagSource_Get for C
proof
  fix s :: "'a flagSource" and k assume ok: "flag_ok s"
  show "readable (flagSource_Get s k)" using ok by (simp add: flagSource_Get_def flag_ok_def configs_ok_Get)
  have step: "eff_inv flag_ok (load_flag C f x)" if f: "flag_ok f" for f x
  proof -
    obtain m' where "store_config C (fl_key_case f (fst x)) (snd x) (fl_configs f) = Ret m'" "configs_ok m'"
      using store_config_ok f by (metis flag_ok_def)
    with f show ?thesis by (simp add: load_flag_def flag_ok_def)
  qed
  have "flag_ok (s\<lparr>fl_only_set := m\<rparr>)" for m using ok by (simp add: flag_ok_def)
  then show "eff_inv flag_ok (flagSource_Load C s)"
    unfolding flagSource_Load_def by (rule eff_inv_for_each [OF _ step])
qed

interpretation file_src: config_source "\<lambda>_. True" "fileSource_Load F" "fileSource_Get C F" for F C
  by unfold_locales
    (auto simp: fileSource_Get_def NewConfig_string eff_inv_def split: option.splits eff.splits)

text \<open>The composite: its sources are well formed and its cache holds what a lookup finds.\<close>

fun source_ok :: "('f, 'j) source \<Rightarrow> bool" where
  "source_ok (SEnv e) = env_ok e"
| "source_ok (SFlag f) = flag_ok f"
| "source_ok (SFile f) = True"

definition cache_ok :: "'f codec \<Rightarrow> 'j file_codec \<Rightarrow> ('f, 'j) compositeSource \<Rightarrow> bool" where
  "cache_ok C F c \<longleftrightarrow>
     (\<forall>k cr. co_cache c k = Some cr \<longrightarrow> lookup_sources C F (co_sources c) k None = (cr, True))"

lemma source_readable: "source_ok s \<Longrightarrow> readable (source_Get C F s k)"
  by (cases s) (simp_all add: env_src.get_readable flag_src.get_readable file_src.get_readable)

lemma lookup_readable:
  "list_all source_ok ss \<Longrightarrow> (\<forall>d. defVal = Some d \<longrightarrow> readable d) \<Longrightarrow>
    readable (fst (lookup_sources C F ss k defVal))"
  by (induction ss arbitrary: defVal) (auto simp: Let_def source_readable split: option.splits)

lemma map_eff_inv: "eff_inv I r \<Longrightarrow> (\<And>s. I s \<Longrightarrow> J (f s)) \<Longrightarrow> eff_inv J (map_eff f r)"
  by (cases r) auto

lemma source_load_ok: "source_ok s \<Longrightarrow> eff_inv source_ok (source_Load C F envs s)"
  by (cases s) (auto intro: map_eff_inv env_src.load_ok flag_src.load_ok file_src.load_ok)

lemma load_sources_ok:
  "list_all source_ok ss \<Longrightarrow> eff_inv (list_all source_ok) (load_sources C F envs ss)"
proof (induction ss)
  case Nil
  then show ?case by simp
next
  case (Cons s ss)
  then have "eff_inv source_ok (source_Load C F envs s)" by (simp add: source_load_ok)
  with Cons show ?case
    by (cases "source_Load C F envs s") (auto intro: map_eff_inv)
qed

section \<open>Precedence\<close>

text \<open>What the loop of the composite computes.\<close>

definition explicit_in :: "'f codec \<Rightarrow> 'j file_codec \<Rightarrow> string \<Rightarrow> ('f, 'j) source \<Rightarrow> bool" where
  "explicit_in C F k s \<longleftrightarrow> IsSet (source_Get C F s k) \<and> source_Has F s k"

definition precedence :: "'f codec \<Rightarrow> 'j file_codec \<Rightarrow> ('f, 'j) source list \<Rightarrow> string \<Rightarrow> 'f config" where
  "precedence C F ss k = (case find (explicit_in C F k) ss of
     Some s \<Rightarrow> source_Get C F s k
   | None \<Rightarrow> (case find (\<lambda>s. IsSet (source_Get C F s k)) (rev ss) of
       Some s \<Rightarrow> source_Get C F s k | None \<Rightarrow> EmptyConfig))"

lemma find_append: "find P (xs @ ys) = (case find P xs of None \<Rightarrow> find P ys | Some x \<Rightarrow> Some x)"
  by (induction xs) auto

lemma lookup_precedence:
  "lookup_sources C F ss k d = (case find (explicit_in C F k) ss of
     Some s \<Rightarrow> (source_Get C F s k, True)
   | None \<Rightarrow> (case find (\<lambda>s. IsSet (source_Get C F s k)) (rev ss) of
       Some s \<Rightarrow> (source_Get C F s k, False)
     | None \<Rightarrow> ((case d of Some c \<Rightarrow> c | None \<Rightarrow> EmptyConfig), False)))"
  by (induction ss arbitrary: d) (auto simp: Let_def explicit_in_def find_append split: option.splits)

lemma Get_cache_ok:
  assumes "cache_ok C F c" and "compositeSource_Get C F c k = (cr, c')"
  shows "cache_ok C F c' \<and> co_sources c' = co_sources c \<and> cr = precedence C F (co_sources c) k"
proof (cases "co_cache c k")
  case None
  obtain r b where l: "lookup_sources C F (co_sources c) k None = (r, b)" by force
  have "r = precedence C F (co_sources c) k"
    using l by (auto simp: lookup_precedence precedence_def split: option.splits)
  with None assms l show ?thesis by (cases b) (auto simp: compositeSource_Get_def cache_ok_def split: if_splits)
next
  case (Some r)
  with assms have "lookup_sources C F (co_sources c) k None = (r, True)" by (simp add: cache_ok_def)
  then have "r = precedence C F (co_sources c) k"
    by (auto simp: lookup_precedence precedence_def split: option.splits)
  moreover have "cr = r" "c' = c" using Some assms(2) by (simp_all add: compositeSource_Get_def)
  ultimately show ?thesis using assms(1) by simp
qed

section \<open>Properties\<close>

fun gets :: "'f codec \<Rightarrow> 'j file_codec \<Rightarrow> string list \<Rightarrow> ('f, 'j) compositeSource \<Rightarrow> ('f, 'j) compositeSource" where
  "gets C F [] c = c"
| "gets C F (k # ks) c = gets C F ks (snd (compositeSource_Get C F c k))"

lemma gets_ok: "cache_ok C F c \<Longrightarrow> cache_ok C F (gets C F ks c) \<and> co_sources (gets C F ks c) = co_sources c"
proof (induction ks arbitrary: c)
  case Nil
  then show ?case by simp
next
  case (Cons k ks)
  with Get_cache_ok [OF Cons.prems, of k] show ?case by (cases "compositeSource_Get C F c k") auto
qed

text \<open>
  C32. Reading a key of a composite, whatever was read before, gives the value of the first source
  that has it explicitly, else of the last source that only has a default, else the empty
  configuration: the cache is never seen.
\<close>

theorem composite_get_by_precedence:
  "fst (compositeSource_Get C F (gets C F ks (NewCompositeSource ss)) k) = precedence C F ss k"
proof -
  have "cache_ok C F (NewCompositeSource ss)" by (simp add: cache_ok_def NewCompositeSource_def)
  from gets_ok [OF this, of ks] Get_cache_ok [of C F "gets C F ks (NewCompositeSource ss)" k]
  show ?thesis
    by (cases "compositeSource_Get C F (gets C F ks (NewCompositeSource ss)) k")
      (auto simp: NewCompositeSource_def)
qed

text \<open>
  After loading any environment, flags and files, a key of the composite that is set can be
  read as a non-empty string: no reader of it panics.
\<close>

theorem loaded_config_readable:
  assumes "list_all source_ok ss"
  shows "case compositeSource_Load C F envs (NewCompositeSource ss) of
      Done c \<Rightarrow> readable (fst (compositeSource_Get C F c k)) | _ \<Rightarrow> True"
proof -
  have "eff_inv (list_all source_ok) (load_sources C F envs ss)" by (rule load_sources_ok [OF assms])
  then show ?thesis
    by (cases "load_sources C F envs ss")
      (auto simp: compositeSource_Load_def NewCompositeSource_def compositeSource_Get_def
        split: prod.splits bool.splits dest!: lookup_readable [where defVal = None and C = C and F = F and k = k])
qed

text \<open>
  A string put into a configuration reads back as itself, except the empty string, which is
  not set and whose readers panic.
\<close>

lemma string_config_reads_back:
  "\<exists>c. NewConfig C (AString s) = Ret c \<and> (IsSet c \<longleftrightarrow> s \<noteq> []) \<and>
    StringVal c = (if s = [] then Panics ''interface conversion'' else Ret s) \<and>
    CacheConfig C c = (if s = [] then Panics ''interface conversion'' else
      Ret (CachedReader \<lparr>cr_is_set = True, cr_string = s, cr_float64 = cd_parse_float C s,
        cr_int64 = ParseInt s, cr_strings = cd_parse_strings C s,
        cr_bool = (to_lower s \<in> {''t'', ''true'', ''y'', ''yes''}),
        cr_duration = cd_parse_duration C s, cr_time = cd_parse_time C s, cr_interface = AString s\<rparr>))"
  by (simp add: NewConfig_def IsSet_def StringVal_def CacheConfig_def Float64Val_def Int64Val_def
      StringSliceVal_def BoolVal_def DurationVal_def TimeVal_def InterfaceVal_def map_val_def)

lemma digit_of_nat: "n < 10 \<Longrightarrow> digit (char_of (48 + n))" for n :: nat
  by (simp add: digit_def)

lemma dec_digits: "list_all digit (dec n) \<and> dec n \<noteq> [] \<and> digits_val (dec n) = n"
proof (induction n rule: dec.induct)
  case (1 n)
  show ?case
  proof (cases "n < 10")
    case True
    then show ?thesis by (simp add: dec.simps [of n] digits_val_def digit_of_nat)
  next
    case False
    with 1 have ih: "list_all digit (dec (n div 10))" "digits_val (dec (n div 10)) = n div 10" by auto
    have m: "n mod 10 < 10" by simp
    have "digits_val (dec (n div 10) @ [char_of (48 + n mod 10)]) = 10 * (n div 10) + n mod 10"
      using ih(2) m by (simp add: digits_val_def)
    with False ih m show ?thesis by (simp add: dec.simps [of n] digit_of_nat)
  qed
qed

text \<open>
  A decimal number below 2^63 in a configuration is read as that number.
\<close>

theorem decimal_config_reads_number:
  assumes "n < 2 ^ 63"
  shows "Int64Val (ValReader (AString (dec n))) = Ret (of_nat n)"
proof -
  from dec_digits [of n] obtain d ds where ds: "dec n = d # ds" "digit d" by (cases "dec n") auto
  have "d \<noteq> CHR ''-''" "d \<noteq> CHR ''+''" using ds(2) by (auto simp: digit_def)
  with ds dec_digits [of n] have "ParseInt (dec n) = word_of_int (int (min n (2 ^ 63 - 1)))"
    by (simp add: ParseInt_def)
  also have "min n (2 ^ 63 - 1) = n" using assms by simp
  finally show ?thesis by (simp add: Int64Val_def StringVal_def map_val_def)
qed

text \<open>
  Loading the environment cuts the last character of every name: a variable is found under
  its name without that character, and under nothing else.
\<close>

theorem env_name_loses_last_char:
  assumes "name \<noteq> []" and "CHR ''='' \<notin> set name" and "v \<noteq> []"
  shows "\<exists>e. envSource_Load C [name @ ''='' @ v] \<lparr>en_key_case = kc, en_configs = Map.empty\<rparr> = Done e \<and>
    (\<forall>k. envSource_Has e k \<longleftrightarrow> k = kc (butlast name)) \<and>
    StringVal (envSource_Get e (kc (butlast name))) = Ret v"
proof -
  obtain n where n: "length name = Suc n" using assms(1) by (cases name) auto
  have i: "index_byte (CHR ''='') (name @ CHR ''='' # v) = Some (Suc n)"
    using index_byte_append [OF assms(2), of v] n by simp
  have t: "take n (name @ CHR ''='' # v) = butlast name" using n by (simp add: butlast_conv_take)
  have d: "drop (Suc (Suc n)) (name @ CHR ''='' # v) = v" using n by simp
  let ?e = "\<lparr>en_key_case = kc, en_configs = [kc (butlast name) \<mapsto> ValReader (AString v)]\<rparr>"
  have "load_env C \<lparr>en_key_case = kc, en_configs = Map.empty\<rparr> (name @ CHR ''='' # v) = Done ?e"
    unfolding load_env_def i option.case nat.case t d
    using assms(3) by (simp add: store_config_def NewConfig_def map_val_def)
  then have "envSource_Load C [name @ ''='' @ v] \<lparr>en_key_case = kc, en_configs = Map.empty\<rparr> = Done ?e"
    by (simp add: envSource_Load_def)
  then show ?thesis
    by (intro exI [of _ ?e]) (simp add: envSource_Has_def envSource_Get_def configs_Get_def StringVal_def)
qed

section \<open>Witnesses\<close>

definition sample_codec :: "nat codec" where
  "sample_codec = \<lparr>cd_format_time = (\<lambda>_. ''t''), cd_duration_string = (\<lambda>_. ''0s''),
     cd_format_float = (\<lambda>_. ''0''), cd_json_strings = (\<lambda>_. ''[]''), cd_parse_float = (\<lambda>_. 0),
     cd_parse_strings = (\<lambda>_. []), cd_parse_duration = (\<lambda>_. 0),
     cd_parse_time = (\<lambda>_. \<lparr>t_unix = 0, t_nsec = 0\<rparr>), cd_zero_time = \<lparr>t_unix = 0, t_nsec = 0\<rparr>,
     cd_zero_float = 0\<rparr>"

definition sample_file_codec :: "string file_codec" where
  "sample_file_codec = \<lparr>fi_read = (\<lambda>_. Inl ErrEOF), fi_yaml = Inr, fi_toml = Inr, fi_parse = (\<lambda>b. b),
     fi_query = (\<lambda>j k. Some j)\<rparr>"

theorem loaded_config_readable_witness:
  "case compositeSource_Load sample_codec sample_file_codec [''KEYS=v'']
      (NewCompositeSource [SEnv \<lparr>en_key_case = (\<lambda>s. s), en_configs = Map.empty\<rparr>]) of
    Done c \<Rightarrow> readable (fst (compositeSource_Get sample_codec sample_file_codec c ''KEY'')) | _ \<Rightarrow> True"
  by (rule loaded_config_readable) (simp add: env_ok_def)

theorem decimal_config_reads_number_witness:
  "Int64Val (ValReader (AString (dec 7))) = Ret 7"
proof -
  have "(7 :: nat) < 2 ^ 63" by simp
  from decimal_config_reads_number [OF this] show ?thesis unfolding of_nat_numeral .
qed

theorem env_name_loses_last_char_witness:
  "\<exists>e. envSource_Load sample_codec [''KEY=v''] \<lparr>en_key_case = (\<lambda>s. s), en_configs = Map.empty\<rparr> = Done e \<and>
    envSource_Has e ''KE'' \<and> \<not> envSource_Has e ''KEY''"
proof -
  have n: "''KEY'' \<noteq> []" "CHR ''='' \<notin> set ''KEY''" "''v'' \<noteq> []" by simp_all
  obtain e where e: "envSource_Load sample_codec [''KEY'' @ ''='' @ ''v'']
      \<lparr>en_key_case = (\<lambda>s. s), en_configs = Map.empty\<rparr> = Done e"
    "\<And>k. envSource_Has e k \<longleftrightarrow> k = butlast ''KEY''"
    using env_name_loses_last_char [OF n, of sample_codec "\<lambda>s. s"] by blast
  have "envSource_Has e ''KE''" "\<not> envSource_Has e ''KEY''" unfolding e(2) by simp_all
  with e(1) show ?thesis by (intro exI [of _ e]) simp
qed

end
