(* ===== verification/PingPong.thy ===== *)
theory PingPong
  imports LambdaProps
begin

text \<open>
  The example function \<^verbatim>\<open>examples/lambda/main.go\<close> and what becomes of it behind the gateway: over
  gRPC it is given the base64 text of a message it takes for the message, and over HTTP its reply
  has no status. Protobuf, SHA-256 and the Lambda runtime are parameters.
\<close>

section \<open>The function\<close>

record Ping =
  Nonce :: string

record Pong =
  Sha256Sum :: string

record ping_env =
  pe_unmarshal :: "bytes \<Rightarrow> goerr + Ping"
  pe_marshal :: "Pong \<Rightarrow> goerr + bytes"
  pe_sha256 :: "bytes \<Rightarrow> bytes"

text \<open>\<^verbatim>\<open>base64.RawURLEncoding\<close>: the standard alphabet with two characters replaced.\<close>

definition b64_url :: "bytes \<Rightarrow> string" where
  "b64_url s = map (\<lambda>c. if c = CHR ''+'' then CHR ''-'' else if c = CHR ''/'' then CHR ''_'' else c)
     (b64_encode s)"

definition DoPong :: "ping_env \<Rightarrow> api_request \<Rightarrow> goerr + api_response" where
  "DoPong P req = (case pe_unmarshal P (aq_body req) of
      Inl e \<Rightarrow> Inl e
    | Inr msgIn \<Rightarrow> (case pe_marshal P \<lparr>Sha256Sum = b64_url (pe_sha256 P (Nonce msgIn))\<rparr> of
        Inl e \<Rightarrow> Inl e
      | Inr body \<Rightarrow> Inr \<lparr>ap_status = 0, ap_headers = Map.empty, ap_multi_headers = Map.empty,
          ap_body = body, ap_base64 = False\<rparr>))"

section \<open>The function behind the gateway\<close>

text \<open>
  What \<^verbatim>\<open>lambda.Start(DoPong)\<close> makes of an invocation with a request: a function error, or the
  reply as the payload.
\<close>

definition deployed ::
    "lambda_env \<Rightarrow> lambda_function \<Rightarrow> (api_request \<Rightarrow> goerr + api_response) \<Rightarrow> nat \<Rightarrow> api_request \<Rightarrow> bool" where
  "deployed E param f n rq \<longleftrightarrow> (\<exists>inp out. le_marshal E rq = Inr inp \<and>
     le_invoke E n (lf_function_name param) (lf_qualifier param) inp = Inr out \<and>
     (case f rq of Inl e \<Rightarrow> io_function_error out \<noteq> None
      | Inr res \<Rightarrow> io_function_error out = None \<and> le_unmarshal E (io_payload out) = Inr res))"

lemma DoPong_Inr:
  "DoPong P rq = Inr res \<Longrightarrow> \<exists>msg. pe_unmarshal P (aq_body rq) = Inr msg \<and> ap_status res = 0 \<and>
    \<not> ap_base64 res \<and> ap_headers res = Map.empty \<and> ap_multi_headers res = Map.empty \<and>
    pe_marshal P \<lparr>Sha256Sum = b64_url (pe_sha256 P (Nonce msg))\<rparr> = Inr (ap_body res)"
  by (auto simp: DoPong_def split: sum.splits)

text \<open>
  A gRPC call of the example function: the function reads the base64 text of the client's message
  as a ping. When that text is no ping the call fails; when it is one, a status of zero counts as
  success and the client gets the pong of that ping.
\<close>

theorem ping_over_grpc:
  assumes "deployed E (lh_param l) (DoPong P) (lh_calls l) (grpc_api_request l payload)"
    and "\<And>p. \<exists>b. pe_marshal P p = Inr b"
  shows "case pe_unmarshal P (b64_encode payload) of
      Inl e \<Rightarrow> \<exists>m. call_body E payload l = (l\<lparr>lh_calls := Suc (lh_calls l)\<rparr>, Some (function_error m))
    | Inr msg \<Rightarrow> snd (call_body E payload l) = Some ErrEOF \<and> lh_is_last (fst (call_body E payload l)) \<and>
        pe_marshal P \<lparr>Sha256Sum = b64_url (pe_sha256 P (Nonce msg))\<rparr> = Inr (lh_result (fst (call_body E payload l)))"
proof -
  let ?rq = "grpc_api_request l payload"
  have body: "aq_body ?rq = b64_encode payload" by (simp add: grpc_api_request_def)
  from assms(1) obtain inp out where io: "le_marshal E ?rq = Inr inp"
      "le_invoke E (lh_calls l) (lf_function_name (lh_param l)) (lf_qualifier (lh_param l)) inp = Inr out"
    and f: "case DoPong P ?rq of Inl e \<Rightarrow> io_function_error out \<noteq> None
      | Inr res \<Rightarrow> io_function_error out = None \<and> le_unmarshal E (io_payload out) = Inr res"
    by (auto simp: deployed_def)
  show ?thesis
  proof (cases "pe_unmarshal P (b64_encode payload)")
    case (Inl e)
    then have "DoPong P ?rq = Inl e" by (simp add: DoPong_def body)
    with f obtain m where "io_function_error out = Some m" by auto
    with Inl io show ?thesis by (auto simp: call_body_def Let_def)
  next
    case (Inr msg)
    from assms(2) obtain b where "pe_marshal P \<lparr>Sha256Sum = b64_url (pe_sha256 P (Nonce msg))\<rparr> = Inr b" by blast
    with Inr have "DoPong P ?rq = Inr \<lparr>ap_status = 0, ap_headers = Map.empty, ap_multi_headers = Map.empty,
        ap_body = b, ap_base64 = False\<rparr>" (is "_ = Inr ?res") by (simp add: DoPong_def body)
    with f have r: "io_function_error out = None" "le_unmarshal E (io_payload out) = Inr ?res" by simp_all
    with Inr io \<open>pe_marshal P _ = Inr b\<close> show ?thesis
      by (simp add: call_body_def after_reply_def reply_code_def Let_def)
  qed
qed

text \<open>
  Over HTTP the example function is never answered: the gateway panics on its reply, and an error
  of the function is the handler's error.
\<close>

theorem ping_over_http:
  assumes "mc_handlers c = [(h, param)]" and "rq_body rq = Inr body" and "fresh w"
    and "deployed E param (DoPong P) n (http_api_request rq body)"
  shows "case DoPong P (http_api_request rq body) of
      Inr res \<Rightarrow> ServeHTTP None (Ret (Inr c)) (run_lambda E n rq) rq w = Panics ''invalid WriteHeader code''
    | Inl e \<Rightarrow> \<exists>m. run_lambda E n rq (h, param) w = Ret (Some (function_error m), w)"
proof -
  from assms(4) obtain inp out where io: "le_marshal E (http_api_request rq body) = Inr inp"
      "le_invoke E n (lf_function_name param) (lf_qualifier param) inp = Inr out"
    and f: "case DoPong P (http_api_request rq body) of Inl e \<Rightarrow> io_function_error out \<noteq> None
      | Inr res \<Rightarrow> io_function_error out = None \<and> le_unmarshal E (io_payload out) = Inr res"
    by (auto simp: deployed_def)
  show ?thesis
  proof (cases "DoPong P (http_api_request rq body)")
    case (Inl e)
    with f obtain m where "io_function_error out = Some m" by auto
    with Inl io assms(2) show ?thesis by (auto simp: lambdaHttpHandler_Call_def)
  next
    case (Inr res)
    with f io assms(2) have "function_replies E n param rq res" by (auto simp: function_replies_def)
    moreover from DoPong_Inr [OF Inr] have "ap_status res = 0" by blast
    ultimately show ?thesis using Inr assms(1,3)
      by (simp add: ServeHTTP_def lambdaHttpHandler_Call_replies http_reply_def WriteHeader_def fresh_def)
  qed
qed

section \<open>Witnesses\<close>

text \<open>A decoder that reads its input as the nonce, except texts that begin with C.\<close>

definition sample_ping_env :: ping_env where
  "sample_ping_env = \<lparr>pe_unmarshal = (\<lambda>b. if take 1 b = ''C'' then Inl (ErrOther ''proto'') else Inr \<lparr>Nonce = b\<rparr>),
     pe_marshal = (\<lambda>p. Inr (Sha256Sum p)), pe_sha256 = (\<lambda>b. b)\<rparr>"

definition pong_lambda :: lambda_env where
  "pong_lambda = (sample_lambda (sample_reply 0 [] False))\<lparr>le_invoke := \<lambda>n f q p.
     Inr (case DoPong sample_ping_env \<lparr>aq_method = [], aq_path = [], aq_headers = Map.empty, aq_query = Map.empty,
         aq_body = p, aq_base64 = False\<rparr> of
       Inl e \<Rightarrow> \<lparr>io_function_error = Some ''proto'', io_payload = []\<rparr>
     | Inr res \<Rightarrow> \<lparr>io_function_error = None, io_payload = ap_body res\<rparr>),
     le_unmarshal := \<lambda>b. Inr \<lparr>ap_status = 0, ap_headers = Map.empty, ap_multi_headers = Map.empty,
       ap_body = b, ap_base64 = False\<rparr>\<rparr>"

lemma pong_lambda_deployed: "deployed pong_lambda param (DoPong sample_ping_env) n rq"
  by (simp add: deployed_def pong_lambda_def sample_lambda_def sample_ping_env_def DoPong_def)

theorem ping_over_grpc_witness:
  "\<exists>m. call_body pong_lambda (CHR 0x0A # CHR 0x02 # ''hi'') sample_handler =
    (sample_handler\<lparr>lh_calls := 1\<rparr>, Some (function_error m))"
proof -
  have "b64_encode (CHR 0x0A # CHR 0x02 # ''hi'') = ''CgJoaQ''" by code_simp
  moreover have "\<exists>b. pe_marshal sample_ping_env p = Inr b" for p by (simp add: sample_ping_env_def)
  ultimately show ?thesis
    using ping_over_grpc [OF pong_lambda_deployed, of "CHR 0x0A # CHR 0x02 # ''hi''" sample_handler]
    by (simp add: sample_ping_env_def) (simp add: sample_handler_def)
qed

theorem ping_over_http_witness:
  "ServeHTTP None (Ret (Inr (sample_call ''f''))) (run_lambda pong_lambda 0 sample_request) sample_request sample_writer =
    Panics ''invalid WriteHeader code''"
  using ping_over_http [OF _ _ _ pong_lambda_deployed, of "sample_call ''f''" "()"
      "\<lparr>lf_function_name = ''f'', lf_qualifier = []\<rparr>" sample_request "[]" sample_writer 0]
  by (simp add: sample_call_def sample_request_def fresh_def sample_writer_def DoPong_def sample_ping_env_def
      http_api_request_def)

end
