(* ===== verification/Collections.thy ===== *)
theory Collections
  imports Prelude
begin

text \<open>
  The generic sets of \<^verbatim>\<open>src/collections.go\<close>: Go maps with a few methods. A nil map can be read
  and deleted from, and panics when it is stored into. The laws a set obeys are the locale
  \<open>keyed_set\<close>.
\<close>

section \<open>The methods\<close>

text \<open>\<open>None\<close> is the nil map.\<close>

type_synonym ('k, 'v) Set = "('k \<rightharpoonup> 'v) option"

definition Set_Set :: "'k \<Rightarrow> 'v \<Rightarrow> ('k, 'v) Set \<Rightarrow> ('k, 'v) Set val" where
  "Set_Set key v s = (case s of None \<Rightarrow> Panics ''assignment to entry in nil map'' | Some m \<Rightarrow> Ret (Some (m(key \<mapsto> v))))"

definition Set_Has :: "('k, 'v) Set \<Rightarrow> 'k \<Rightarrow> bool" where
  "Set_Has s key = (case s of None \<Rightarrow> False | Some m \<Rightarrow> m key \<noteq> None)"

definition Set_Del :: "'k \<Rightarrow> ('k, 'v) Set \<Rightarrow> ('k, 'v) Set" where
  "Set_Del key s = map_option (\<lambda>m. m(key := None)) s"

text \<open>\<open>order\<close>: the order in which the loop visits the keys.\<close>

definition ToValueSlice :: "'k list \<Rightarrow> ('k, 'v) Set \<Rightarrow> 'v list" where
  "ToValueSlice order s = (case s of None \<Rightarrow> [] | Some m \<Rightarrow> fold (\<lambda>k slc. slc @ [the (m k)]) order [])"

type_synonym 'k TypeSet = "('k, 'k) Set"

fun FromSlice :: "'k list \<Rightarrow> 'k TypeSet \<Rightarrow> 'k TypeSet val" where
  "FromSlice [] t = Ret t"
| "FromSlice (key # keys) t = val_then (Set_Set key key t) (FromSlice keys)"

section \<open>The laws of a set\<close>

locale keyed_set =
  fixes put :: "'k \<Rightarrow> 'v \<Rightarrow> 's \<Rightarrow> 's" and has :: "'s \<Rightarrow> 'k \<Rightarrow> bool" and del :: "'k \<Rightarrow> 's \<Rightarrow> 's"
  assumes has_put: "has (put k v s) k' \<longleftrightarrow> k' = k \<or> has s k'"
    and has_del: "has (del k s) k' \<longleftrightarrow> k' \<noteq> k \<and> has s k'"
begin

text \<open>Storing and deleting lists of keys.\<close>

lemma has_puts: "has (fold (\<lambda>(k, v). put k v) kvs s) k' \<longleftrightarrow> k' \<in> fst ` set kvs \<or> has s k'"
  by (induction kvs arbitrary: s) (auto simp: has_put)

lemma has_dels: "has (fold del ks s) k' \<longleftrightarrow> k' \<notin> set ks \<and> has s k'"
  by (induction ks arbitrary: s) (auto simp: has_del)

end

text \<open>The methods on maps that are not nil.\<close>

definition stored :: "'k \<Rightarrow> 'v \<Rightarrow> ('k \<rightharpoonup> 'v) \<Rightarrow> 'k \<rightharpoonup> 'v" where
  "stored k v m = m(k \<mapsto> v)"

lemma Set_Set_stored: "Set_Set k v (Some m) = Ret (Some (stored k v m))"
  by (simp add: Set_Set_def stored_def)

definition deleted :: "'k \<Rightarrow> ('k \<rightharpoonup> 'v) \<Rightarrow> 'k \<rightharpoonup> 'v" where
  "deleted k m = m(k := None)"

lemma Set_Del_deleted: "Set_Del k (Some m) = Some (deleted k m)"
  by (simp add: Set_Del_def deleted_def)

interpretation go_set: keyed_set stored "\<lambda>m. Set_Has (Some m)" deleted
  by unfold_locales (auto simp: stored_def deleted_def Set_Has_def)

section \<open>Slices\<close>

lemma fold_snoc: "fold (\<lambda>k slc. slc @ [f k]) ks xs = xs @ map f ks"
  by (induction ks arbitrary: xs) simp_all

lemma FromSlice_stored: "FromSlice ks (Some m) = Ret (Some (fold (\<lambda>(k, v). stored k v) (map (\<lambda>k. (k, k)) ks) m))"
  by (induction ks arbitrary: m) (simp_all add: Set_Set_stored)

text \<open>A slice makes a set of its elements, whose values, read in any order, are each element once.\<close>

theorem type_set_round_trip:
  "\<exists>m. FromSlice xs (Some Map.empty) = Ret (Some m) \<and>
    (\<forall>x. Set_Has (Some m) x \<longleftrightarrow> x \<in> set xs) \<and>
    (enumerates order m \<longrightarrow> ToValueSlice order (Some m) = order \<and> distinct order \<and> set order = set xs)"
proof -
  let ?m = "fold (\<lambda>(k, v). stored k v) (map (\<lambda>k. (k, k)) xs) Map.empty"
  have h: "Set_Has (Some ?m) x \<longleftrightarrow> x \<in> set xs" for x
    by (simp add: go_set.has_puts image_image Set_Has_def [of "Some Map.empty"])
  have v: "?m k = (if k \<in> set xs then Some k else None)" for k
    using fold_upd_apply [of "\<lambda>k. k" xs Map.empty k] by (simp add: fold_map o_def stored_def [abs_def])
  have "ToValueSlice order (Some ?m) = order \<and> distinct order \<and> set order = set xs" if e: "enumerates order ?m"
  proof -
    from e have o: "set order = set xs" "distinct order"
      by (auto simp: enumerates_def v dom_def)
    have "map (\<lambda>k. the (?m k)) order = order" using o(1) by (intro map_idI) (simp add: v)
    with o show ?thesis by (simp add: ToValueSlice_def fold_snoc)
  qed
  with h show ?thesis by (auto simp: FromSlice_stored intro!: exI [of _ ?m])
qed

theorem type_set_round_trip_witness:
  "\<exists>m. FromSlice [1, 2, 1 :: nat] (Some Map.empty) = Ret (Some m) \<and> ToValueSlice [2, 1] (Some m) = [2, 1]"
proof -
  have f: "FromSlice [1, 2, 1 :: nat] (Some Map.empty) = Ret (Some [1 \<mapsto> 1, 2 \<mapsto> 2])"
    by (simp add: Set_Set_def fun_upd_twist)
  from type_set_round_trip [of "[1, 2, 1 :: nat]" "[2, 1]"] f show ?thesis
    by (auto simp: enumerates_def)
qed

end
