(* ===== verification/Logging.thy ===== *)
theory Logging
  imports Messages
begin

text \<open>
  The key-value lists of \<^verbatim>\<open>pkg/logging/helpers.go\<close>, given to the logger as alternating keys and
  values; only strings occur among them.
\<close>

definition LogResource :: "resource \<Rightarrow> string list \<Rightarrow> string list" where
  "LogResource res kvs = [''resourceNamespace'', r_namespace res, ''resourceId'', r_id res,
     ''resourceName'', r_name res] @ kvs"

definition LogTrigger :: "trigger \<Rightarrow> string list \<Rightarrow> string list" where
  "LogTrigger workTrigger kvs = [''workflowName'', tr_name workTrigger, ''taskQueue'', tr_task_queue workTrigger,
     ''workflowIdPrefix'', tr_id_prefix workTrigger] @ kvs"

text \<open>How a logger pairs them up.\<close>

fun pairs :: "'a list \<Rightarrow> ('a \<times> 'a) list" where
  "pairs (k # v # kvs) = (k, v) # pairs kvs"
| "pairs _ = []"

text \<open>The pairs a caller adds stay pairs.\<close>

lemma log_pairs:
  "pairs (LogResource res kvs) = [(''resourceNamespace'', r_namespace res), (''resourceId'', r_id res),
     (''resourceName'', r_name res)] @ pairs kvs"
  "pairs (LogTrigger t kvs) = [(''workflowName'', tr_name t), (''taskQueue'', tr_task_queue t),
     (''workflowIdPrefix'', tr_id_prefix t)] @ pairs kvs"
  by (simp_all add: LogResource_def LogTrigger_def)

end
