(* ===== verification/Spec2Isabelle.thy ===== *)
theory Spec2Isabelle
  imports GrpcCalls GatewayRequests ProcessProps SyncLive Followers HubLock ConfigProps PingPong Collections Logging
begin

text \<open>
  A verification development of \<^bold>\<open>protomesh\<close>, a service mesh in Go whose processes follow one
  resource store: the store keeps typed resources in PostgreSQL and streams them; the gateway,
  the Envoy xDS server and the workflow worker each follow that stream and turn it into routes,
  Envoy resources and Temporal workflows.

  \<^bold>\<open>How the parts interact.\<close> A client puts and drops resources (\<^verbatim>\<open>ResourceStore.Put\<close>,
  \<^verbatim>\<open>Drop\<close>). \<^verbatim>\<open>ResourceStore.Watch\<close> lists a namespace and then polls its event log,
  sending pages of updated and dropped resources and an end-of-list mark after each scan.
  \<^verbatim>\<open>ResourceStoreSynchronizer.Sync\<close> receives them and calls its \<^verbatim>\<open>EventHandler\<close>:
  \<^verbatim>\<open>BeforeBatch\<close>, \<^verbatim>\<open>OnUpdated\<close> for each update, \<^verbatim>\<open>OnDropped\<close> for each drop,
  \<^verbatim>\<open>AfterBatch\<close>; \<^verbatim>\<open>OnEndOfPage\<close> at the mark. The gateway, the xDS server and the worker
  are the three handlers.

  The gateway answers calls: the HTTP server (\<^verbatim>\<open>HttpServer.ServeHTTP\<close>) and the gRPC proxy
  (\<^verbatim>\<open>GrpcHandlerFromGateway\<close>) ask it for the policy of a request and run the handlers of that
  policy, which invoke AWS Lambda functions. A handler of a streaming gRPC call may wait for a
  notification, which comes from Redis through the in-process hub. \<^verbatim>\<open>main\<close> starts and stops
  all of these as its flags say.

  \<^bold>\<open>The theories.\<close>
  \<^item> \<open>Prelude\<close>: machine integers, Go errors, the effect type \<open>eff\<close> of a Go function (return,
    error, panic) with its loops and invariant rules (collection \<open>eff_intros\<close>), Go maps with the
    order a \<^verbatim>\<open>range\<close> visits them, Go's string functions.
  \<^item> \<open>Messages\<close>: the protobuf messages of \<^verbatim>\<open>proto/api\<close> as records and datatypes. \<open>Specs\<close>: what a
    list of resources carries for a client that reads their specs, shared by the clients below.
  \<^item> \<open>Matcher\<close>, \<open>Routes\<close>, \<open>RouteProps\<close>: \<^verbatim>\<open>pkg/gateway/matcher.go\<close>. The policy matchers
    nest radix trees through pointers, so they are kept in an explicit heap; the radix tree (a
    third-party package) is the locale \<open>radix_tree\<close>, interpreted on association lists. \<open>Routes\<close>
    states what a matcher means, a table from method names or paths and methods to policies,
    and proves that insertion, removal and lookup implement it.
  \<^item> \<open>Synchronizer\<close>: \<^verbatim>\<open>pkg/resource/resource.go\<close>, the handling of one response as a function
    and the two goroutines with their channels as the step relation \<open>sync_step\<close>; the handler's
    contract is the locale \<open>batch_handler\<close>. \<open>SyncRoutine\<close>: the goroutine \<^verbatim>\<open>Sync\<close> starts around a
    session and the channel it returns. \<open>SyncLive\<close>: what an uncancelled session comes to.
    \<open>Sessions\<close>: the loops of a response seen from the table a client keeps, shared by the three
    handlers.
  \<^item> \<open>Gateway\<close>, \<open>GatewayProps\<close>: \<^verbatim>\<open>gateway.go\<close>, \<^verbatim>\<open>handler.go\<close>, \<^verbatim>\<open>helpers.go\<close>; the
    contract holds in the locale \<open>gateway_batches\<close>, a sublocale of \<open>batch_handler\<close>.
    \<open>GatewayRequests\<close>: the gateways that calls see while a batch is handled, between two steps of
    the loops of \<^verbatim>\<open>AfterBatch\<close> (\<open>seen_during\<close>).
  \<^item> \<open>Store\<close>, \<open>StoreProps\<close>, \<open>WatchProps\<close>: \<^verbatim>\<open>provider/postgres\<close>, the queries with the meaning
    of their SQL on the two tables, the service's four calls, transactions with statements that the
    server fails, which abort them, and statements that are refused because a context has ended,
    which do not; a watch whose statements each find the database as other calls have left it.
    \<open>Replay\<close>: the cache as a replay of the log, and the states a watch meets over a history of calls.
  \<^item> \<open>Agreement\<close>, \<open>Convergence\<close>, \<open>Followers\<close>: a client that keeps a table of what the store
    publishes, as the locale \<open>store_follower\<close>, with its three instances, the gateway, the xDS
    server and the worker.
  \<^item> \<open>PubSub\<close>: \<^verbatim>\<open>pkg/pubsub/pubsub.go\<close>, the two indexes, the stream and the subscribers'
    channels. \<open>HubLock\<close>: the publisher, its deliveries and the calls of the subscribers under the
    hub's read-write lock, as the step relation \<open>hub_runs\<close>.
  \<^item> \<open>Readers\<close>, \<open>Config\<close>, \<open>ConfigProps\<close>: \<^verbatim>\<open>pkg/config\<close>, the readers and the environment, flag, file and
    composite sources; the contract of a source is the locale \<open>config_source\<close>.
  \<^item> \<open>Worker\<close>, \<open>WorkerSession\<close>: \<^verbatim>\<open>pkg/worker\<close>, triggers, start options and the calls to Temporal, kept in a log.
  \<^item> \<open>Envoy\<close>, \<open>Xds\<close>, \<open>XdsProps\<close>, \<open>XdsSession\<close>: \<^verbatim>\<open>provider/envoy\<close>, the conversion of networking nodes, the
    difference of virtual hosts, and the handler with its transaction and the log of its cache
    updates.
  \<^item> \<open>Tls\<close>, \<open>Clients\<close>: \<^verbatim>\<open>provider/tls\<close> and \<^verbatim>\<open>pkg/client\<close>, keys, certificates, TLS
    configurations and the gRPC and SQL clients. Functions with an unbounded loop return an option
    (\<open>run_val\<close>, \<open>None\<close> for a loop that never ends; collection \<open>return_iff\<close>).
  \<^item> \<open>Proxy\<close>: \<^verbatim>\<open>grpc_codec.go\<close>, \<^verbatim>\<open>grpc_proxy.go\<close>, the codec, the two goroutines of a handler
    and the loop that waits for them as the step relation \<open>loop_step\<close>.
  \<^item> \<open>HttpServer\<close>: \<^verbatim>\<open>http_server.go\<close>, \<^verbatim>\<open>grpc_server.go\<close>, with what they use of \<^verbatim>\<open>net/http\<close>.
  \<^item> \<open>Base64\<close>, \<open>RandString\<close>, \<open>Lambda\<close>, \<open>LambdaProps\<close>, \<open>LambdaRelay\<close>: \<^verbatim>\<open>provider/aws\<close>, the HTTP
    and gRPC handlers of a Lambda function as functions, and a proxied gRPC call with all its
    goroutines as the step relation \<open>relay_step\<close>. \<open>GrpcCalls\<close>: a gRPC call from its route to its
    reply, through the handlers of its policy one after the other.
  \<^item> \<open>PingPong\<close>: the example function of \<^verbatim>\<open>examples/lambda\<close> behind the gateway.
  \<^item> \<open>Temporal\<close>: \<^verbatim>\<open>provider/temporal\<close>, the payload converter over typed Go values.
  \<^item> \<open>Redis\<close>: \<^verbatim>\<open>provider/redis\<close>, the client and the listener.
  \<^item> \<open>Commands\<close>, \<open>CommandsProps\<close>: \<^verbatim>\<open>cmd\<close>, the four instances and \<^verbatim>\<open>main\<close> with Go's rules for
    deferred calls and panics. \<open>Process\<close>, \<open>ProcessProps\<close>: the process as one state, the parts made
    by their constructors, run by the same \<^verbatim>\<open>main\<close>.
  \<^item> \<open>Collections\<close>, \<open>Logging\<close>: \<^verbatim>\<open>src/collections.go\<close> and the key-value lists of
    \<^verbatim>\<open>pkg/logging/helpers.go\<close>.
  \<^item> this theory: properties that span the store, its three followers and the HTTP server.

  \<^bold>\<open>What the lemmas show.\<close> Matchers refine routing tables, and every answer of a matcher is
  sound for a policy that was added. A session handles a prefix of its stream in order under every
  interleaving, comes to rest in a bounded number of steps at a state that is a function of the stream,
  and panics only by cancellation when its handler meets the contract; all three
  handlers do. The gateway's active policies and answers are functions of the stream, and
  at any moment of a batch it answers the calls whose routes the batch does not touch as before; an
  exact route that a batch drops is unserved even where another policy still has it. The store's cache is in its log, unless a context ends within a put; put, get and drop
  behave as a map with versions; a watch delivers every event past its cursor once and in order, of a log
  that grows at its end. After every scan, the gateway's policies,
  the xDS server's policies and virtual hosts and the worker's triggers are those of the rows the
  store had at a statement of that scan, and the worker starts the workflows of these triggers, each once
  (convergence, over histories with failures of the database and with calls between the statements of a
  scan, under the conditions the three theorems list; the main ones have theorems on what happens
  without them). A request is served by the functions of a matching policy of the stream
  and its client gets the function's reply; a gRPC call is relayed in a bounded number of steps
  under every interleaving, and what its client gets, from its route to the last handler's reply,
  is a function of the handlers. The hub comes to rest, or to a deadlock when the stream's
  channel is full under the lock. Decoding reads back what was encoded; the loops over
  PEM blocks and random words end under the laws their libraries document; what the process has
  started it stops in the opposite order, but for the gRPC server, which it starts again. The limits the code has are theorems too: routes that stay after
  an update, updates withheld from handlers, events that a watch misses, errors of a stream that
  are lost, calls that wait forever, panics of a failed invocation, and others.

  \<^bold>\<open>Nondeterminism and fuel.\<close> The order in which a loop visits a Go map is an argument, a list
  that enumerates the map. What is outside the repository (radix tree, protobuf encoding,
  hashing, clients, clocks, faults of the database) is a parameter, a record of functions. The inner
  loop of a later scan takes fuel; more fuel than events always suffices, since each full page
  moves the cursor. The first list needs none: its 32-bit offset wraps around, and a
  negative offset is an error of the server.

  Of the loops without a bound of their own, those over PEM blocks and random words are
  partial functions, proved to return. The goroutines of a synchronization, of a proxied call,
  of the proxy's loop and of the hub are interleaved step relations; a timer of a call may fire at any step.

  \<^bold>\<open>Not modelled.\<close> Generated protobuf methods and stubs beyond the messages' fields, accessors and
  reset; the commented-out code, which is the cipher codec of \<^verbatim>\<open>temporal.go\<close> and
  \<^verbatim>\<open>triggerToChildOptions\<close> of \<^verbatim>\<open>trigger.go\<close>; the app framework, which is a
  third-party package, and the adapter that gives it a logger; what is logged. The data races the
  source allows (the shared random source, the fields of a Lambda handler that two goroutines use)
  are left out: steps are atomic at the granularity each theory states. The transactions of two calls
  to the store are one after the other, so conflicts between concurrent transactions are left out,
  and so is what the goroutines of a proxied call do after it has returned.
\<close>

section \<open>Properties across components\<close>




text \<open>
  The store and the gateway agree after the first list: a gateway that handles what the
  first round of a watch sends has, for each UUID, exactly the policy of the row cached under it
  (none if there is no row or its spec is no policy), and nothing else.
\<close>

theorem first_list_gives_gateway_the_cache:
  assumes "radix_tree (ge_radix E)" and "orders_ok ord" and "never_fails E"
    and "quiet S w" and "wt_params w = None" and "wt_sent w = []"
    and d: "db_ok (st_db (wt_store w))" and uuids: "inj (se_show S)"
    and ties: "mset (listed S ns (st_db (wt_store w))) =
      mset (filter (\<lambda>r. rc_namespace r = ns) (db_cache (st_db (wt_store w))))"
    and bound: "length (db_cache (st_db (wt_store w))) + 50 < 2 ^ 31"
    and admitted: "list_all (\<lambda>row. gateway_admits E (row_resource S ns row)) (db_cache (st_db (wt_store w)))"
  shows "\<exists>w' r. watch_round fuel S ns w = Some (Done w') \<and>
    handle_all (gateway_handler E ord) (wt_sent w') (start_gateway E hs) = Done r \<and>
    (\<forall>i. gw_active (Handler r) (se_show S i) = (case cache_row (st_db (wt_store w)) ns i of None \<Rightarrow> None
       | Some row \<Rightarrow> ge_unmarshal E (r_spec (row_resource S ns row)))) \<and>
    dom (gw_active (Handler r)) \<subseteq> range (se_show S)"
proof -
  let ?rows = "listed S ns (st_db (wt_store w))"
  note ids = listed_ids [OF d ties uuids]
  have "length ?rows = length (filter (\<lambda>r. rc_namespace r = ns) (db_cache (st_db (wt_store w))))"
    using ties by (metis size_mset)
  then have len: "length ?rows + 50 < 2 ^ 31"
    using bound length_filter_le [of "\<lambda>r. rc_namespace r = ns" "db_cache (st_db (wt_store w))"] by linarith
  obtain w' where w': "watch_round fuel S ns w = Some (Done w')"
      "wt_sent w' = map (list_response S ns) (pages ?rows) @ [end_of_list]"
    using first_round [OF assms(4,5) len] assms(6) by auto
  have "set p \<subseteq> set ?rows" if "p \<in> set (pages ?rows)" for p
    using that concat_pages [of ?rows] by (metis UN_upper set_concat)
  with ids(2) admitted have "response_ok (gateway_admits E) (list_response S ns p)"
      if "p \<in> set (pages ?rows)" for p
    using that by (fastforce simp: list_all_iff response_ok_def list_response_simps row_resource_simps)
  then have ok: "list_all (response_ok (gateway_admits E)) (wt_sent w')"
    by (simp add: w'(2) list_all_iff) (simp add: response_ok_def end_of_list_def)
  have g: "gateway_batches (ge_radix E) E ord"
    using assms by (simp add: gateway_batches_def gateway_batches_axioms_def)
  have "gateway_inv (ge_radix E) [] (Handler (start_gateway E hs))"
    using Initialize_inv [OF assms(1)] by (simp add: start_gateway_def)
  from gateway_batches.handled_session [OF g assms(3) this ok] obtain r where
    r: "handle_all (gateway_handler E ord) (wt_sent w') (start_gateway E hs) = Done r"
    and a: "gw_active (Handler r) = policies_of (ge_unmarshal E) (map (row_resource S ns) ?rows)"
    by (auto simp: w'(2) gw.active_of_pages start_gateway_def Initialize_def active_step_def end_of_list_def)
  with list_agrees [OF d uuids ties, of "ge_unmarshal E", unfolded agrees_def row_policy_def] w'(1) r show ?thesis
    by (intro exI [of _ w'] exI [of _ r]) (simp only: simp_thms)
qed

text \<open>
  C35. A page that puts a policy and drops it leaves it active: the response carries updates and
  drops apart, and the gateway handles the drops first, so only the last active event of an id
  counts, whatever dropped events follow it in the log.
\<close>

theorem put_and_drop_in_one_page_stays_active:
  assumes "radix_tree (ge_radix E)" and "orders_ok ord" and "never_fails E"
    and "gateway_inv (ge_radix E) ops (Handler rss)" and uuids: "inj (se_show S)"
    and admitted: "list_all (\<lambda>e. gateway_admits E (event_resource S ns e)) (before @ put # later)"
    and put: "re_status put = activeResource" "ge_unmarshal E (r_spec (event_resource S ns put)) = Some p"
    and later: "list_all (\<lambda>e. rc_id e = rc_id put \<longrightarrow> re_status e = droppedResource) later"
  shows "\<exists>r. handle_response (gateway_handler E ord) rss (events_response S ns (before @ put # later)) = Done r \<and>
    gw_active (Handler r) (se_show S (rc_id put)) = Some p"
proof -
  let ?m = "events_response S ns (before @ put # later)"
  let ?on = "filter (\<lambda>e. re_status e = activeResource)"
  have g: "gateway_batches (ge_radix E) E ord"
    using assms by (simp add: gateway_batches_def gateway_batches_axioms_def)
  have rid: "r_id (event_resource S ns e) = se_show S (rc_id e)" "\<exists>v. r_version (event_resource S ns e) = Some v" for e
    by (simp_all add: event_resource_def cached_resource_def)
  have ok: "response_ok (gateway_admits E) ?m"
    using admitted by (auto simp: response_ok_def list_all_iff events_response_def rid)
  have up: "wr_updated ?m = map (event_resource S ns) (?on before) @
      event_resource S ns put # map (event_resource S ns) (?on later)" and e: "\<not> wr_end_of_list ?m"
    using put(1) by (simp_all add: events_response_def)
  have "activeResource \<noteq> droppedResource" by (simp add: activeResource_def droppedResource_def)
  with later have "rc_id put \<notin> rc_id ` set (?on later)" unfolding list_all_iff by force
  then have "r_id (event_resource S ns put) \<notin> r_id ` set (map (event_resource S ns) (?on later))"
    using uuids by (auto simp: rid(1) inj_eq)
  from policies_of_last [where um = "ge_unmarshal E", OF this put(2)] have
    "policies_of (ge_unmarshal E) (wr_updated ?m) (se_show S (rc_id put)) = Some p" by (simp only: up rid(1))
  then have act: "active_step E ?m A (se_show S (rc_id put)) = Some p" for A
    using e by (simp add: active_step_def map_add_def)
  from gateway_batches.handled_response [OF g assms(3,4) ok] obtain r where
    "handle_response (gateway_handler E ord) rss ?m = Done r"
    "gw_active (Handler r) = active_step E ?m (gw_active (Handler rss))" by blast
  with act show ?thesis by auto
qed

text \<open>
  C13. What the HTTP server answers comes from the stream: after any session a request that is not
  gRPC gets 404, or is served by the Lambda functions of a policy the stream published, one whose
  path and method match the request; a policy for CONNECT or TRACE never serves one.
\<close>

theorem http_requests_served_from_stream:
  assumes "radix_tree (ge_radix E)" and "orders_ok ord" and "never_fails E"
    and "list_all (response_ok (gateway_admits E)) ms"
    and "\<not> contains_sub (header_get ''Content-Type'' (rq_header rq)) ''application/grpc''"
  shows "\<exists>r served. handle_all (gateway_handler E ord) ms (start_gateway E hs) = Done r \<and>
    ServeHTTP grpc (MatchHttp E (Handler r) (rq_path rq) (rq_method rq)) call rq w = served \<and>
    (served = WriteHeader 404 w \<or>
      (\<exists>p s. served = serve_handlers call (mc_handlers (answer (gw_handlers (Handler r)) p)) w \<and>
        p \<in> published E ms \<and> gp_source p = Some (GatewayPolicy_Http s) \<and>
        (if hs_exact_path_match s then hs_path s = rq_path rq else prefix (hs_path s) (rq_path rq)) \<and>
        hs_method s \<in> {HTTP_METHOD_UNDEFINED, fromHttpMethodToProtomeshHttpMethod (rq_method rq)} \<and>
        hs_method s \<notin> {HTTP_METHOD_CONNECT, HTTP_METHOD_TRACE}))"
proof -
  from gateway_answers_http_from_stream [OF assms(1-4), of hs] obtain r where
    r: "handle_all (gateway_handler E ord) ms (start_gateway E hs) = Done r"
    and m: "MatchHttp E (Handler r) (rq_path rq) (rq_method rq) = Ret (Inl ErrNotSupported) \<or>
      (\<exists>p s. MatchHttp E (Handler r) (rq_path rq) (rq_method rq) = Ret (Inr (answer (gw_handlers (Handler r)) p)) \<and>
        p \<in> published E ms \<and> gp_source p = Some (GatewayPolicy_Http s) \<and>
        (if hs_exact_path_match s then hs_path s = rq_path rq else prefix (hs_path s) (rq_path rq)) \<and>
        hs_method s \<in> {HTTP_METHOD_UNDEFINED, fromHttpMethodToProtomeshHttpMethod (rq_method rq)} \<and>
        hs_method s \<notin> {HTTP_METHOD_CONNECT, HTTP_METHOD_TRACE})" by blast
  have s: "ServeHTTP grpc (Ret (Inl ErrNotSupported)) call rq w = WriteHeader 404 w"
    "ServeHTTP grpc (Ret (Inr c)) call rq w = serve_handlers call (mc_handlers c) w" for c
    using assms(5) by (simp_all add: ServeHTTP_def Let_def)
  from m show ?thesis
  proof (elim disjE exE conjE)
    assume "MatchHttp E (Handler r) (rq_path rq) (rq_method rq) = Ret (Inl ErrNotSupported)"
    with r s(1) show ?thesis by fastforce
  next
    fix p x
    assume "MatchHttp E (Handler r) (rq_path rq) (rq_method rq) = Ret (Inr (answer (gw_handlers (Handler r)) p))"
      and c: "p \<in> published E ms" "gp_source p = Some (GatewayPolicy_Http x)"
        "if hs_exact_path_match x then hs_path x = rq_path rq else prefix (hs_path x) (rq_path rq)"
        "hs_method x \<in> {HTTP_METHOD_UNDEFINED, fromHttpMethodToProtomeshHttpMethod (rq_method rq)}"
        "hs_method x \<notin> {HTTP_METHOD_CONNECT, HTTP_METHOD_TRACE}"
    then have "ServeHTTP grpc (MatchHttp E (Handler r) (rq_path rq) (rq_method rq)) call rq w =
      serve_handlers call (mc_handlers (answer (gw_handlers (Handler r)) p)) w" using s(2) by simp
    with r c show ?thesis by blast
  qed
qed

section \<open>Witnesses\<close>

text \<open>A store that prints a UUID as that many letters, and a stored gRPC policy.\<close>

definition letters_env :: store_env where
  "letters_env = sample_store_env\<lparr>se_show := \<lambda>i. replicate (unat i) CHR ''x''\<rparr>"

lemma letters_env_ok: "inj (se_show letters_env)"
  by (rule injI) (simp add: letters_env_def, rule unsigned_word_eqI)

lemma letters_quiet: "quiet letters_env (sample_watching rs)"
  using sample_quiet [of rs] by (simp add: quiet_def works_def letters_env_def)

lemma admitted_sample:
  "gateway_admits (sample_env sample_grpc_unmarshal) x"
  by (simp add: gateway_admits_def sample_defs policy_ok_def handler_ok_def split: option.splits)

abbreviation sample_gateway_policy :: "string \<Rightarrow> gateway_policy" where
  "sample_gateway_policy url \<equiv> (sample_grpc url True)\<lparr>gp_handlers := sample_handlers\<rparr>"


















theorem first_list_gives_gateway_the_cache_witness:
  "\<exists>w' r. watch_round 1 letters_env ''default'' (sample_watching [sample_row 1 ''a'']) = Some (Done w') \<and>
    handle_all (gateway_handler (sample_env sample_grpc_unmarshal) key_orders) (wt_sent w')
      (start_gateway (sample_env sample_grpc_unmarshal) [''aws_lambda'']) = Done r \<and>
    gw_active (Handler r) ''x'' = Some (sample_gateway_policy ''type'') \<and> gw_active (Handler r) ''xx'' = None"
proof -
  let ?w = "sample_watching [sample_row 1 ''a'']"
  have d: "st_db (wt_store ?w) = sample_db [sample_row 1 ''a'']" "wt_params ?w = None" "wt_sent ?w = []"
    by (simp_all add: sample_watching_def sample_store_def)
  have c: "db_cache (sample_db [sample_row 1 ''a'']) = [sample_row 1 ''a'']" by (simp add: sample_db_def)
  have l: "listed letters_env ''default'' (sample_db [sample_row 1 ''a'']) =
      filter (\<lambda>r. rc_namespace r = ''default'') [sample_row 1 ''a'']"
    by (simp add: listed_def letters_env_def sample_store_env_def c)
  have u: "replicate 2 CHR ''x'' = ''xx''" by (simp add: eval_nat_numeral)
  have s: "se_show letters_env 1 = ''x''" "se_show letters_env 2 = ''xx''"
    by (simp_all add: letters_env_def u)
  have r: "cache_row (sample_db [sample_row 1 ''a'']) ''default'' 1 = Some (sample_row 1 ''a'')"
    "cache_row (sample_db [sample_row 1 ''a'']) ''default'' 2 = None"
    by (simp_all add: cache_row_def sample_db_def at_key_def sample_row_def)
  have um: "ge_unmarshal (sample_env sample_grpc_unmarshal) = sample_grpc_unmarshal" by (simp add: sample_env_def)
  obtain w' r where
    "watch_round 1 letters_env ''default'' ?w = Some (Done w')"
    "handle_all (gateway_handler (sample_env sample_grpc_unmarshal) key_orders) (wt_sent w')
      (start_gateway (sample_env sample_grpc_unmarshal) [''aws_lambda'']) = Done r"
    and a: "\<forall>i. gw_active (Handler r) (se_show letters_env i) =
      (case cache_row (sample_db [sample_row 1 ''a'']) ''default'' i of None \<Rightarrow> None
       | Some row \<Rightarrow> ge_unmarshal (sample_env sample_grpc_unmarshal)
           (r_spec (row_resource letters_env ''default'' row)))"
    using first_list_gives_gateway_the_cache [OF sample_env_ok(1) key_orders_ok sample_env_ok(2)
        letters_quiet d(2,3) _ letters_env_ok, of "''default''" sample_grpc_unmarshal 1 "[''aws_lambda'']"]
    by (auto simp: d l c sample_db_ok admitted_sample simp del: One_nat_def)
  moreover from a [THEN spec, of 1] have "gw_active (Handler r) ''x'' = Some (sample_gateway_policy ''type'')"
    by (simp add: s r um) (simp add: row_resource_def cached_resource_def sample_row_def sample_grpc_unmarshal_def)
  moreover from a [THEN spec, of 2] have "gw_active (Handler r) ''xx'' = None" by (simp add: s r)
  ultimately show ?thesis by blast
qed

theorem put_and_drop_in_one_page_stays_active_witness:
  "\<exists>r. handle_response (gateway_handler (sample_env sample_grpc_unmarshal) key_orders)
      (start_gateway (sample_env sample_grpc_unmarshal) [''aws_lambda''])
      (events_response letters_env ''default'' [event_of activeResource (sample_row 1 ''a''),
        event_of droppedResource ((sample_row 1 ''a'')\<lparr>rc_version_index := 6\<rparr>)]) = Done r \<and>
    gw_active (Handler r) ''x'' = Some (sample_gateway_policy ''type'')"
proof -
  let ?put = "event_of activeResource (sample_row 1 ''a'')"
  let ?drop = "event_of droppedResource ((sample_row 1 ''a'')\<lparr>rc_version_index := 6\<rparr>)"
  have inv: "gateway_inv (ge_radix (sample_env sample_grpc_unmarshal)) []
      (Handler (start_gateway (sample_env sample_grpc_unmarshal) [''aws_lambda'']))"
    using Initialize_inv [OF sample_env_ok(1)] by (simp add: start_gateway_def)
  have "ge_unmarshal (sample_env sample_grpc_unmarshal) (r_spec (event_resource letters_env ''default'' ?put)) =
      Some (sample_gateway_policy ''type'')"
    by (simp add: event_resource_def cached_resource_def sample_env_def sample_grpc_unmarshal_def
        event_of_def sample_row_def ResourceCache.defs)
  from put_and_drop_in_one_page_stays_active [OF sample_env_ok(1) key_orders_ok sample_env_ok(2) inv
      letters_env_ok _ _ this, of "[]" "[?drop]"]
  show ?thesis
    by (simp add: admitted_sample letters_env_def event_of_def sample_row_def ResourceCache.defs)
qed

theorem http_requests_served_from_stream_witness:
  "\<exists>r. handle_all (gateway_handler (sample_env sample_http_unmarshal) key_orders)
      [sample_response ''/a''] (start_gateway (sample_env sample_http_unmarshal) [''aws_lambda'']) = Done r \<and>
    ServeHTTP None (MatchHttp (sample_env sample_http_unmarshal) (Handler r) ''/a'' ''POST'')
      (\<lambda>h w. Ret (None, w)) (sample_request\<lparr>rq_method := ''POST''\<rparr>) sample_writer = WriteHeader 404 sample_writer"
proof -
  let ?rq = "sample_request\<lparr>rq_method := ''POST''\<rparr>"
  have q: "rq_path ?rq = ''/a''" "rq_method ?rq = ''POST''"
    "\<not> contains_sub (header_get ''Content-Type'' (rq_header ?rq)) ''application/grpc''"
    by (simp_all add: sample_request_def header_get_def header_values_def contains_sub_def)
  have no: "\<not> (p \<in> published (sample_env sample_http_unmarshal) [sample_response ''/a''] \<and>
      gp_source p = Some (GatewayPolicy_Http s) \<and>
      (if hs_exact_path_match s then hs_path s = ''/a'' else prefix (hs_path s) ''/a'') \<and>
      hs_method s \<in> {HTTP_METHOD_UNDEFINED, fromHttpMethodToProtomeshHttpMethod ''POST''} \<and>
      hs_method s \<notin> {HTTP_METHOD_CONNECT, HTTP_METHOD_TRACE})"
    for p s by (auto simp: published_def sample_defs fromHttpMethodToProtomeshHttpMethod_def http_method_defs)
  from http_requests_served_from_stream [OF sample_env_ok(1) key_orders_ok sample_env_ok(2)
      sample_response_ok(2) q(3), of "''/a''" "[''aws_lambda'']" None "\<lambda>h w. Ret (None, w)" sample_writer, unfolded q(1,2)] no
  show ?thesis by blast
qed

end
